(* ===== verification/Veggie_Prelude.thy ===== *)
theory Veggie_Prelude
  imports Main "HOL-Library.Word"
begin

text \<open>
  Shared vocabulary of the development: the machine types of the C++ sources, the outcome
  type in which every error path of the modelled code is a value, the little-endian and
  big-endian accessors of \<^verbatim>\<open>src/src/crypto/common.h\<close>, and the lemmas on byte lists and
  words that the component theories share.
\<close>

unbundle bit_operations_syntax

named_theorems outcome_simps \<open>characteristic equations of the outcome combinators\<close>
named_theorems le_simps \<open>equations of the little-endian reader and writer\<close>

type_synonym byte = "8 word"
type_synonym u16 = "16 word"
type_synonym u32 = "32 word"
type_synonym u64 = "64 word"

text \<open>\<open>std::vector<unsigned char>\<close>, \<open>valtype\<close> in the interpreter.\<close>

type_synonym valtype = "byte list"

text \<open>\<open>uint256\<close> and \<open>uint160\<close> are their byte arrays, in memory order.\<close>

type_synonym uint256 = "byte list"
type_synonym uint160 = "byte list"

subsection \<open>Outcomes\<close>

text \<open>
  What a C++ call can do: return a value, return \<open>false\<close> with an error code, throw, or
  leave defined behaviour (a failing \<open>assert\<close>, an out-of-bounds access through
  \<open>operator[]\<close>, a signed overflow), which is \<open>Abort\<close>.
\<close>

datatype ('e, 'x, 'a) outcome = Ok 'a | Fail 'e | Throw 'x | Abort

fun bindO :: "('e, 'x, 'a) outcome \<Rightarrow> ('a \<Rightarrow> ('e, 'x, 'b) outcome) \<Rightarrow> ('e, 'x, 'b) outcome" where
  "bindO (Ok a) f = f a"
| "bindO (Fail e) f = Fail e"
| "bindO (Throw x) f = Throw x"
| "bindO Abort f = Abort"

definition assertO :: "bool \<Rightarrow> ('e, 'x, unit) outcome" where
  "assertO b = (if b then Ok () else Abort)"

lemma bindO_eq_Ok [outcome_simps]: "bindO m f = Ok b \<longleftrightarrow> (\<exists>a. m = Ok a \<and> f a = Ok b)"
  by (cases m) auto

lemma bindO_eq_Fail [outcome_simps]:
  "bindO m f = Fail e \<longleftrightarrow> m = Fail e \<or> (\<exists>a. m = Ok a \<and> f a = Fail e)"
  by (cases m) auto

lemma bindO_eq_Throw [outcome_simps]:
  "bindO m f = Throw x \<longleftrightarrow> m = Throw x \<or> (\<exists>a. m = Ok a \<and> f a = Throw x)"
  by (cases m) auto

lemma bindO_eq_Abort [outcome_simps]:
  "bindO m f = Abort \<longleftrightarrow> m = Abort \<or> (\<exists>a. m = Ok a \<and> f a = Abort)"
  by (cases m) auto

lemma bindO_cong [fundef_cong]:
  "m = m' \<Longrightarrow> (\<And>a. m' = Ok a \<Longrightarrow> f a = f' a) \<Longrightarrow> bindO m f = bindO m' f'"
  by (cases m') auto

lemma assertO_eq [outcome_simps]:
  "assertO b = Ok u \<longleftrightarrow> b" "assertO b = Abort \<longleftrightarrow> \<not> b"
  "assertO b \<noteq> Fail e" "assertO b \<noteq> Throw x"
  by (auto simp: assertO_def)

subsection \<open>Little-endian and big-endian integers\<close>

text \<open>The value of a byte sequence, least significant byte first, and the first \<open>n\<close> bytes of a value.\<close>

fun le_val :: "byte list \<Rightarrow> nat" where
  "le_val [] = 0"
| "le_val (b # bs) = unat b + 256 * le_val bs"

fun le_bytes :: "nat \<Rightarrow> nat \<Rightarrow> byte list" where
  "le_bytes 0 v = []"
| "le_bytes (Suc n) v = of_nat v # le_bytes n (v div 256)"

lemma length_le_bytes [simp, le_simps]: "length (le_bytes n v) = n"
  by (induction n arbitrary: v) auto

lemma unat_bound: "unat (w :: 'a::len word) < 2 ^ LENGTH('a)"
  by (rule unsigned_less)

lemma unat_of_nat_byte: "unat (of_nat v :: byte) = v mod 256"
  by (simp add: unat_of_nat)

lemma le_val_le_bytes [le_simps]: "le_val (le_bytes n v) = v mod 256 ^ n"
proof (induction n arbitrary: v)
  case 0
  then show ?case by simp
next
  case (Suc n)
  have "le_val (le_bytes (Suc n) v) = v mod 256 + 256 * (v div 256 mod 256 ^ n)"
    by (simp add: Suc unat_of_nat_byte)
  also have "\<dots> = v mod (256 * 256 ^ n)"
    by (simp add: mod_mult2_eq)
  finally show ?case by simp
qed

lemma le_val_bound: "le_val bs < 256 ^ length bs"
proof (induction bs)
  case (Cons b bs)
  have "unat b < 256" using unat_bound [of b] by simp
  then show ?case using Cons by simp
qed simp

lemma le_bytes_le_val [le_simps]: "le_bytes (length bs) (le_val bs) = bs"
proof (induction bs)
  case (Cons b bs)
  have b: "unat b < 256" using unat_bound [of b] by simp
  have "(of_nat (unat b + 256 * le_val bs) :: byte) = of_nat (unat b)"
    by (simp only: word_unat_eq_iff unat_of_nat_byte) simp
  with Cons b show ?case by simp
qed simp

lemma le_val_append [le_simps]: "le_val (xs @ ys) = le_val xs + 256 ^ length xs * le_val ys"
  by (induction xs) (auto simp: algebra_simps)

lemma le_bytes_mod: "le_bytes n (v mod 256 ^ n) = le_bytes n v"
  using le_bytes_le_val [of "le_bytes n v"] by (simp add: le_val_le_bytes)

text \<open>
  \<open>ReadLE16\<close> and its siblings copy the bytes at a pointer and convert them from
  little-endian (\<open>be32toh\<close> and \<open>be64toh\<close> from big-endian). The pointer is the list of
  the bytes from it on.
\<close>

definition ReadLE16 :: "byte list \<Rightarrow> u16" where
  "ReadLE16 ptr = of_nat (le_val (take 2 ptr))"

definition ReadLE32 :: "byte list \<Rightarrow> u32" where
  "ReadLE32 ptr = of_nat (le_val (take 4 ptr))"

definition ReadLE64 :: "byte list \<Rightarrow> u64" where
  "ReadLE64 ptr = of_nat (le_val (take 8 ptr))"

definition WriteLE16 :: "u16 \<Rightarrow> byte list" where
  "WriteLE16 x = le_bytes 2 (unat x)"

definition WriteLE32 :: "u32 \<Rightarrow> byte list" where
  "WriteLE32 x = le_bytes 4 (unat x)"

definition WriteLE64 :: "u64 \<Rightarrow> byte list" where
  "WriteLE64 x = le_bytes 8 (unat x)"

definition ReadBE32 :: "byte list \<Rightarrow> u32" where
  "ReadBE32 ptr = of_nat (le_val (rev (take 4 ptr)))"

definition ReadBE64 :: "byte list \<Rightarrow> u64" where
  "ReadBE64 ptr = of_nat (le_val (rev (take 8 ptr)))"

definition WriteBE32 :: "u32 \<Rightarrow> byte list" where
  "WriteBE32 x = rev (le_bytes 4 (unat x))"

definition WriteBE64 :: "u64 \<Rightarrow> byte list" where
  "WriteBE64 x = rev (le_bytes 8 (unat x))"

lemmas common_defs =
  ReadLE16_def ReadLE32_def ReadLE64_def WriteLE16_def WriteLE32_def WriteLE64_def
  ReadBE32_def ReadBE64_def WriteBE32_def WriteBE64_def

lemma length_Write [simp]:
  "length (WriteLE16 a) = 2" "length (WriteLE32 b) = 4" "length (WriteLE64 c) = 8"
  "length (WriteBE32 b) = 4" "length (WriteBE64 c) = 8"
  by (simp_all add: common_defs)

lemma ReadLE16_WriteLE16 [le_simps]: "ReadLE16 (WriteLE16 x @ bs) = x"
  using unat_bound [of x] by (simp add: common_defs le_simps)

lemma ReadLE32_WriteLE32 [le_simps]: "ReadLE32 (WriteLE32 x @ bs) = x"
  using unat_bound [of x] by (simp add: common_defs le_simps)

lemma ReadLE64_WriteLE64 [le_simps]: "ReadLE64 (WriteLE64 x @ bs) = x"
  using unat_bound [of x] by (simp add: common_defs le_simps)

lemma ReadBE32_WriteBE32 [le_simps]: "ReadBE32 (WriteBE32 x @ bs) = x"
  using unat_bound [of x] by (simp add: common_defs le_simps)

lemma ReadBE64_WriteBE64 [le_simps]: "ReadBE64 (WriteBE64 x @ bs) = x"
  using unat_bound [of x] by (simp add: common_defs le_simps)

lemma unat_ReadLE16: "2 \<le> length bs \<Longrightarrow> unat (ReadLE16 bs) = le_val (take 2 bs)"
  using le_val_bound [of "take 2 bs"] by (simp add: ReadLE16_def unat_of_nat)

lemma unat_ReadLE32: "4 \<le> length bs \<Longrightarrow> unat (ReadLE32 bs) = le_val (take 4 bs)"
  using le_val_bound [of "take 4 bs"] by (simp add: ReadLE32_def unat_of_nat)

subsection \<open>Generic list and word lemmas\<close>

lemma unat_byte_less [simp]: "unat (b :: byte) < 256"
  using unat_bound [of b] by simp

lemma unat_byte_le [simp]: "unat (b :: byte) \<le> 255"
  using unat_byte_less [of b] by linarith

lemma butlast_eq_take: "xs \<noteq> [] \<Longrightarrow> butlast xs = take (length xs - 1) xs"
  by (simp add: butlast_conv_take)

text \<open>Bit 7 of a byte is its sign bit in the script number format.\<close>

lemma unat_2p:
  assumes "n < LENGTH('a)"
  shows "unat (2 ^ n :: 'a::len word) = 2 ^ n"
proof -
  have "unat (2 ^ n :: 'a word) = unat (of_nat (2 ^ n) :: 'a word)" by simp
  also have "\<dots> = 2 ^ n mod 2 ^ LENGTH('a)" by (simp only: unat_of_nat)
  finally show ?thesis using assms by simp
qed

lemma bit_unat: "bit (w :: 'a::len word) n \<longleftrightarrow> odd (unat w div 2 ^ n)"
  by (metis bit_iff_odd bit_unsigned_iff possible_bit_nat)

lemma and_128_iff: "(b :: byte) AND 0x80 \<noteq> 0 \<longleftrightarrow> 128 \<le> unat b"
proof -
  have "b AND 0x80 \<noteq> 0 \<longleftrightarrow> odd (unat b div 128)"
    using and_exp_eq_0_iff_not_bit [of b 7] bit_unat [of b 7] by simp
  also have "\<dots> \<longleftrightarrow> 128 \<le> unat b"
  proof -
    have "unat b div 128 < 2"
      using unat_byte_less [of b] by (simp add: div_less_iff_less_mult)
    then consider "unat b div 128 = 0" | "unat b div 128 = 1" by linarith
    then show ?thesis by cases (auto simp: div_eq_0_iff)
  qed
  finally show ?thesis .
qed

lemma and_127: "unat ((b :: byte) AND 0x7f) = unat b mod 128"
proof -
  have "b AND 0x7f = take_bit 7 b"
    by (simp add: take_bit_eq_mask mask_eq_exp_minus_1)
  then show ?thesis by (simp add: unsigned_take_bit_eq take_bit_eq_mod [where 'a = nat])
qed

lemma or_128: "unat (b :: byte) < 128 \<Longrightarrow> unat (b OR 0x80) = unat b + 128"
proof -
  assume b: "unat b < 128"
  have "b + 0x80 = b OR 0x80"
  proof (rule disjunctive_add)
    fix n
    have "bit (2 ^ 7 :: byte) n \<longleftrightarrow> n = 7"
      by (auto simp only: bit_exp_iff possible_bit_word) simp_all
    then show "\<not> bit b n \<or> \<not> bit (0x80 :: byte) n"
      using b by (auto simp: bit_unat)
  qed
  moreover have "unat (b + 0x80) = unat b + 128"
    using b by (simp add: unat_word_ariths)
  ultimately show ?thesis by simp
qed

text \<open>A digit below the base keeps a positional value below the next power.\<close>

lemma digit_bound:
  assumes "(x::nat) < p" "d \<le> c"
  shows "x + p * d < p * Suc c"
proof -
  have "p * d \<le> p * c" using assms by simp
  with assms(1) have "x + p * d < p + p * c" by (rule add_less_le_mono)
  then show ?thesis by simp
qed

end
