(* ===== verification/ScriptNum.thy ===== *)
theory ScriptNum
  imports Veggie_Prelude
begin

text \<open>
  \<open>CScriptNum\<close> of \<^verbatim>\<open>src/src/script/script.h\<close>: the signed-magnitude little-endian numbers
  of the script language. \<open>m_value\<close> is an \<open>int64_t\<close>, an \<open>int\<close> here, with the
  assertions of the source and the 64-bit range written out; leaving the range is \<open>Abort\<close>.
\<close>

text \<open>Exceptions that can pass through the interpreter's \<open>catch (...)\<close>.\<close>

datatype script_exn =
    Scriptnum_error string
  | Out_of_range
  | Runtime_error string

definition int64_min :: int where "int64_min = - (2 ^ 63)"
definition int64_max :: int where "int64_max = 2 ^ 63 - 1"
definition int32_min :: int where "int32_min = - (2 ^ 31)"
definition int32_max :: int where "int32_max = 2 ^ 31 - 1"

lemmas int_limits = int64_min_def int64_max_def int32_min_def int32_max_def

text \<open>Signed 64-bit addition, subtraction and negation: overflow is undefined behaviour.\<close>

definition int64 :: "int \<Rightarrow> ('e, 'x, int) outcome" where
  "int64 x = (if int64_min \<le> x \<and> x \<le> int64_max then Ok x else Abort)"

subsection \<open>Reading\<close>

fun set_vch_loop :: "nat \<Rightarrow> u64 \<Rightarrow> valtype \<Rightarrow> u64" where
  "set_vch_loop i result [] = result"
| "set_vch_loop i result (b # bs) =
     set_vch_loop (Suc i) (result OR push_bit (8 * i) (ucast b)) bs"

definition set_vch :: "valtype \<Rightarrow> int" where
  "set_vch vch =
     (if vch = [] then 0
      else
        let result = set_vch_loop 0 0 vch in
        if last vch AND 0x80 \<noteq> 0
        then sint (- (result AND NOT (push_bit (8 * (length vch - 1)) 0x80)))
        else sint result)"

definition nDefaultMaxNumSize :: nat where "nDefaultMaxNumSize = 4"

text \<open>The constructor \<open>CScriptNum(vch, fRequireMinimal, nMaxNumSize)\<close>.\<close>

definition CScriptNum :: "valtype \<Rightarrow> bool \<Rightarrow> nat \<Rightarrow> ('e, script_exn, int) outcome" where
  "CScriptNum vch fRequireMinimal nMaxNumSize =
     (if length vch > nMaxNumSize then Throw (Scriptnum_error ''script number overflow'')
      else if fRequireMinimal \<and> length vch > 0 \<and> last vch AND 0x7f = 0
              \<and> (length vch \<le> 1 \<or> (vch ! (length vch - 2)) AND 0x80 = 0)
      then Throw (Scriptnum_error ''non-minimally encoded script number'')
      else Ok (set_vch vch))"

subsection \<open>Arithmetic\<close>

definition CScriptNum_add :: "int \<Rightarrow> int \<Rightarrow> ('e, script_exn, int) outcome" where
  "CScriptNum_add a b = int64 (a + b)"

definition CScriptNum_sub :: "int \<Rightarrow> int \<Rightarrow> ('e, script_exn, int) outcome" where
  "CScriptNum_sub a b = int64 (a - b)"

text \<open>\<open>operator-()\<close> asserts that the value is not the minimum.\<close>

definition CScriptNum_neg :: "int \<Rightarrow> ('e, script_exn, int) outcome" where
  "CScriptNum_neg a = bindO (assertO (a \<noteq> int64_min)) (\<lambda>_. int64 (- a))"

text \<open>\<open>operator+=\<close> and \<open>operator-=\<close> assert that the result does not overflow.\<close>

definition CScriptNum_add_assign :: "int \<Rightarrow> int \<Rightarrow> ('e, script_exn, int) outcome" where
  "CScriptNum_add_assign a rhs =
     bindO (assertO (rhs = 0 \<or> (rhs > 0 \<and> a \<le> int64_max - rhs) \<or> (rhs < 0 \<and> a \<ge> int64_min - rhs)))
       (\<lambda>_. int64 (a + rhs))"

definition CScriptNum_sub_assign :: "int \<Rightarrow> int \<Rightarrow> ('e, script_exn, int) outcome" where
  "CScriptNum_sub_assign a rhs =
     bindO (assertO (rhs = 0 \<or> (rhs > 0 \<and> a \<ge> int64_min + rhs) \<or> (rhs < 0 \<and> a \<le> int64_max + rhs)))
       (\<lambda>_. int64 (a - rhs))"

text \<open>\<open>getint\<close> saturates at the bounds of \<open>int\<close>.\<close>

definition getint :: "int \<Rightarrow> int" where
  "getint m_value =
     (if m_value > int32_max then int32_max
      else if m_value < int32_min then int32_min else m_value)"

subsection \<open>Writing\<close>

fun serialize_loop :: "nat \<Rightarrow> valtype" where
  "serialize_loop absvalue =
     (if absvalue = 0 then []
      else of_nat (absvalue mod 256) # serialize_loop (absvalue div 256))"

declare serialize_loop.simps [simp del]

definition CScriptNum_serialize :: "int \<Rightarrow> valtype" where
  "CScriptNum_serialize value =
     (if value = 0 then []
      else
        let neg = value < 0;
            result = serialize_loop (nat \<bar>value\<bar>)
        in if last result AND 0x80 \<noteq> 0 then result @ [if neg then 0x80 else 0]
           else if neg then butlast result @ [last result OR 0x80]
           else result)"

definition getvch :: "int \<Rightarrow> valtype" where
  "getvch m_value = CScriptNum_serialize m_value"

subsection \<open>What the format denotes\<close>

text \<open>
  The reference meaning of an encoding: the magnitude is the little-endian value of the
  bytes with the top bit of the last one removed, that bit is the sign.
\<close>

definition vch_value :: "valtype \<Rightarrow> int" where
  "vch_value vch =
     (if vch = [] then 0
      else if 128 \<le> unat (last vch)
      then - int (le_val vch - 128 * 256 ^ (length vch - 1))
      else int (le_val vch))"

lemma set_vch_loop_le_val:
  assumes "i + length bs \<le> 8" "unat result < 256 ^ i"
  shows "unat (set_vch_loop i result bs) = unat result + 256 ^ i * le_val bs"
  using assms
proof (induction bs arbitrary: i result)
  case Nil
  then show ?case by simp
next
  case (Cons b bs)
  let ?s = "push_bit (8 * i) (ucast b :: u64)"
  have i: "i \<le> 7" using Cons.prems by simp
  have pow: "(256::nat) ^ i = 2 ^ (8 * i)" by (simp add: power_mult)
  have s: "unat ?s = 256 ^ i * unat b"
  proof -
    have "256 ^ i * unat b < 256 ^ i * 256"
      by simp
    also have "\<dots> \<le> (256::nat) ^ 8"
      using i power_increasing [of "Suc i" 8 "256::nat"] by simp
    finally have "256 ^ i * unat b < 2 ^ 64" by simp
    moreover have "unat b < 2 ^ 64" using unat_byte_less [of b] by (rule less_trans) simp
    moreover have "unat ?s = take_bit 64 (push_bit (8 * i) (take_bit 64 (unat b)))"
      by (simp add: unsigned_push_bit_eq unsigned_ucast_eq)
    ultimately show ?thesis
      by (simp add: take_bit_nat_eq_self push_bit_eq_mult pow mult.commute)
  qed
  have disj: "result + ?s = result OR ?s"
  proof (rule disjunctive_add)
    fix n
    show "\<not> bit result n \<or> \<not> bit ?s n"
    proof (cases "n < 8 * i")
      case True
      then show ?thesis by (simp add: bit_push_bit_iff)
    next
      case False
      then have "256 ^ i \<le> (2::nat) ^ n" unfolding pow by (simp add: power_increasing)
      then have "unat result div 2 ^ n = 0" using Cons.prems by simp
      then show ?thesis by (simp add: bit_unat)
    qed
  qed
  have b256: "unat result + 256 ^ i * unat b < 256 ^ Suc i"
    using digit_bound [of "unat result" "256 ^ i" "unat b" 255] unat_byte_less [of b] Cons.prems
    by (simp add: mult.commute)
  also have "(256::nat) ^ Suc i \<le> 256 ^ 8"
    using i by (intro power_increasing) auto
  finally have sum: "unat (result OR ?s) = unat result + 256 ^ i * unat b"
    unfolding disj [symmetric] by (simp add: unat_word_ariths s)
  have "unat (set_vch_loop (Suc i) (result OR ?s) bs)
      = unat (result OR ?s) + 256 ^ Suc i * le_val bs"
    using Cons.prems b256 by (intro Cons.IH) (simp_all add: sum)
  then show ?case by (simp only: set_vch_loop.simps sum le_val.simps power_Suc) (simp add: algebra_simps)
qed

lemma le_val_snoc:
  assumes "vch \<noteq> []"
  shows "le_val vch = le_val (butlast vch) + 256 ^ (length vch - 1) * unat (last vch)"
  using le_val_append [of "butlast vch" "[last vch]"] assms by simp

lemma le_val_last_bounds:
  assumes "vch \<noteq> []"
  shows "128 \<le> unat (last vch) \<Longrightarrow> 128 * 256 ^ (length vch - 1) \<le> le_val vch"
    and "le_val vch < 256 * 256 ^ (length vch - 1)"
    and "unat (last vch) < 128 \<Longrightarrow> le_val vch < 128 * 256 ^ (length vch - 1)"
proof -
  let ?p = "(256::nat) ^ (length vch - 1)"
  have lo: "le_val (butlast vch) < ?p"
    using le_val_bound [of "butlast vch"] by simp
  note eq = le_val_snoc [OF assms]
  show "128 * ?p \<le> le_val vch" if "128 \<le> unat (last vch)"
    using mult_le_mono2 [OF that, of ?p] unfolding eq by (simp only: mult.commute)
  show "le_val vch < 256 * ?p"
    using digit_bound [OF lo, of "unat (last vch)" 255] unat_byte_less [of "last vch"]
    unfolding eq by (simp add: mult.commute)
  show "le_val vch < 128 * ?p" if "unat (last vch) < 128"
    using digit_bound [OF lo, of "unat (last vch)" 127] that
    unfolding eq by (simp add: mult.commute)
qed

lemma int_unat_less:
  assumes "unat (w :: u64) < 2 ^ 63"
  shows "int (unat w) < 2 ^ 63"
  using assms by (metis of_nat_less_iff of_nat_numeral of_nat_power)

lemma sint_of_small:
  assumes "unat (w :: u64) < 2 ^ 63"
  shows "sint w = int (unat w)"
proof -
  have "sint w = signed_take_bit 63 (int (unat w))" by (simp add: sint_uint)
  also have "\<dots> = int (unat w)"
    by (rule signed_take_bit_int_eq_self [OF _ int_unat_less [OF assms]])
       (rule order_trans [of _ 0], simp_all)
  finally show ?thesis .
qed

lemma sint_neg_of_small:
  assumes "unat (w :: u64) < 2 ^ 63"
  shows "sint (- w) = - int (unat w)"
proof -
  have "- w = word_of_int (- int (unat w))" by simp
  then have "sint (- w) = signed_take_bit 63 (- int (unat w))"
    by (simp only: sint_sbintrunc') simp
  moreover note int_unat_less [OF assms]
  moreover have "- int (unat w) < 2 ^ 63" by (rule le_less_trans [of _ 0]) simp_all
  ultimately show ?thesis
    using signed_take_bit_int_eq_self [of 63 "- int (unat w)"] by simp
qed

text \<open>Up to eight bytes, \<open>set_vch\<close> computes the denoted number.\<close>

lemma set_vch_value:
  assumes "length vch \<le> 8"
  shows "set_vch vch = vch_value vch"
proof (cases "vch = []")
  case True
  then show ?thesis by (simp add: set_vch_def vch_value_def)
next
  case False
  let ?r = "set_vch_loop 0 0 vch" and ?n = "length vch - 1"
  have r: "unat ?r = le_val vch"
    using set_vch_loop_le_val [of 0 vch 0] assms by simp
  have n: "?n \<le> 7" using assms by simp
  have p: "(256::nat) ^ ?n \<le> 72057594037927936"
    using n power_increasing [of ?n 7 "256::nat"] by simp
  have pow: "128 * (256::nat) ^ ?n = 2 ^ (8 * ?n + 7)" by (simp add: power_add power_mult)
  note last = le_val_last_bounds [OF False]
  show ?thesis
  proof (cases "128 \<le> unat (last vch)")
    case True
    have mask: "push_bit (8 * ?n) (0x80 :: u64) = push_bit (8 * ?n + 7) 1"
    proof -
      have "(0x80 :: u64) = push_bit 7 1" by simp
      then show ?thesis by (simp only: push_bit_push_bit)
    qed
    have "le_val vch div 2 ^ (8 * ?n + 7) = 1"
      using last(1) [OF True] last(2) unfolding pow [symmetric]
      by (intro div_nat_eqI) simp_all
    then have bit: "bit ?r (8 * ?n + 7)"
      by (simp add: bit_unat r)
    have eq: "?r AND NOT (push_bit (8 * ?n) 0x80) = ?r - 2 ^ (8 * ?n + 7)"
      unfolding mask unset_bit_eq_and_not [symmetric] unset_bit_eq using bit by simp
    have two: "unat (2 ^ (8 * ?n + 7) :: u64) = 2 ^ (8 * ?n + 7)"
      using n by (intro unat_2p) simp
    have "2 ^ (8 * ?n + 7) \<le> ?r"
      using last(1) [OF True] unfolding word_le_nat_alt two r pow .
    then have u: "unat (?r AND NOT (push_bit (8 * ?n) 0x80)) = le_val vch - 128 * 256 ^ ?n"
      by (simp only: eq unat_sub r two pow)
    have "le_val vch - 128 * 256 ^ ?n < 2 ^ 63"
      using last(2) p by simp
    note neg = sint_neg_of_small [of "?r AND NOT (push_bit (8 * ?n) 0x80)", unfolded u, OF this]
    show ?thesis
      using True False neg by (simp only: set_vch_def vch_value_def and_128_iff Let_def simp_thms if_True if_False)
  next
    case small: False
    have "le_val vch < 2 ^ 63"
      using last(3) small p by simp
    note pos = sint_of_small [of ?r, unfolded r, OF this]
    show ?thesis
      using small False pos by (simp only: set_vch_def vch_value_def and_128_iff Let_def simp_thms if_True if_False)
  qed
qed

subsection \<open>Digits of the magnitude\<close>

lemma serialize_loop_0 [simp]: "serialize_loop 0 = []"
  by (simp add: serialize_loop.simps)

lemma serialize_loop_pos:
  "0 < n \<Longrightarrow> serialize_loop n = of_nat (n mod 256) # serialize_loop (n div 256)"
  by (simp add: serialize_loop.simps [of n])

lemma serialize_loop_eq_Nil [simp]: "serialize_loop n = [] \<longleftrightarrow> n = 0"
  by (cases "n = 0") (simp_all add: serialize_loop_pos)

lemma le_val_serialize_loop [simp]: "le_val (serialize_loop n) = n"
proof (induction n rule: serialize_loop.induct)
  case (1 n)
  then show ?case
    by (cases "n = 0") (simp_all add: serialize_loop_pos unat_of_nat_byte)
qed

lemma serialize_loop_last: "0 < n \<Longrightarrow> unat (last (serialize_loop n)) \<noteq> 0"
proof (induction n rule: serialize_loop.induct)
  case (1 n)
  show ?case
  proof (cases "n div 256 = 0")
    case True
    with 1 show ?thesis by (simp add: serialize_loop_pos unat_of_nat_byte)
  next
    case False
    with 1 show ?thesis by (simp add: serialize_loop_pos)
  qed
qed

text \<open>The digits of a number are the only digit list without a leading zero that denotes it.\<close>

lemma serialize_loop_le_val: "bs = [] \<or> unat (last bs) \<noteq> 0 \<Longrightarrow> serialize_loop (le_val bs) = bs"
proof (induction bs)
  case (Cons b bs)
  have pos: "0 < unat b + 256 * le_val bs"
  proof (cases "bs = []")
    case True
    with Cons.prems show ?thesis by simp
  next
    case False
    with Cons.prems have "serialize_loop (le_val bs) = bs" by (intro Cons.IH) simp
    with False have "le_val bs \<noteq> 0" by (metis serialize_loop_0)
    then show ?thesis by simp
  qed
  have "serialize_loop (le_val bs) = bs"
    using Cons.prems by (intro Cons.IH) (auto split: if_splits)
  with pos show ?case
    by (simp add: serialize_loop_pos)
qed simp

lemma length_serialize_loop: "n < 256 ^ k \<Longrightarrow> length (serialize_loop n) \<le> k"
proof (induction k arbitrary: n)
  case (Suc k)
  then have "n div 256 < 256 ^ k" by (simp add: div_less_iff_less_mult mult.commute)
  then show ?case using Suc.IH by (cases "n = 0") (simp_all add: serialize_loop_pos)
qed simp

subsection \<open>Round trip\<close>

lemma serialize_cases:
  assumes "v \<noteq> 0"
  obtains r where "r = serialize_loop (nat \<bar>v\<bar>)" "r \<noteq> []" "le_val r = nat \<bar>v\<bar>"
    "unat (last r) \<noteq> 0"
    "CScriptNum_serialize v =
      (if 128 \<le> unat (last r) then r @ [if v < 0 then 0x80 else 0]
       else if v < 0 then butlast r @ [last r OR 0x80] else r)"
  using assms serialize_loop_last [of "nat \<bar>v\<bar>"]
  by (simp add: CScriptNum_serialize_def Let_def and_128_iff)

lemma vch_value_serialize: "vch_value (CScriptNum_serialize v) = v"
proof (cases "v = 0")
  case True
  then show ?thesis by (simp add: CScriptNum_serialize_def vch_value_def)
next
  case False
  then obtain r where r: "r \<noteq> []" "le_val r = nat \<bar>v\<bar>"
    and eq: "CScriptNum_serialize v =
      (if 128 \<le> unat (last r) then r @ [if v < 0 then 0x80 else 0]
       else if v < 0 then butlast r @ [last r OR 0x80] else r)"
    by (rule serialize_cases)
  consider "128 \<le> unat (last r)" | "unat (last r) < 128" "v < 0" | "unat (last r) < 128" "0 \<le> v"
    by linarith
  then show ?thesis
  proof cases
    case 1
    then show ?thesis using r by (simp add: eq vch_value_def le_val_append)
  next
    case 2
    have "le_val (butlast r @ [last r OR 0x80]) = le_val r + 128 * 256 ^ (length r - 1)"
      using 2 r(1) by (simp add: le_val_append le_val_snoc [OF r(1)] or_128 algebra_simps)
    then show ?thesis using 2 r by (simp add: eq vch_value_def or_128)
  next
    case 3
    then show ?thesis using r by (simp add: eq vch_value_def)
  qed
qed

lemma length_serialize:
  assumes "\<bar>v\<bar> < 2 ^ (8 * Suc k - 1)"
  shows "length (CScriptNum_serialize v) \<le> Suc k"
proof (cases "v = 0")
  case False
  then obtain r where r: "r = serialize_loop (nat \<bar>v\<bar>)" "r \<noteq> []" "le_val r = nat \<bar>v\<bar>"
    and eq: "CScriptNum_serialize v =
      (if 128 \<le> unat (last r) then r @ [if v < 0 then 0x80 else 0]
       else if v < 0 then butlast r @ [last r OR 0x80] else r)"
    by (rule serialize_cases)
  have "nat \<bar>v\<bar> < 2 ^ (8 * Suc k - 1)"
    using assms by (simp add: nat_less_iff)
  then have b: "le_val r < 128 * 256 ^ k"
    by (simp add: r(3) power_add power_mult)
  have len: "length r \<le> Suc k"
    unfolding r(1) using b r(3) by (intro length_serialize_loop) simp
  moreover have "length r \<noteq> Suc k" if "128 \<le> unat (last r)"
    using le_val_last_bounds(1) [OF r(2) that] b by auto
  ultimately show ?thesis using r(2) by (auto simp: eq)
qed (simp add: CScriptNum_serialize_def)

subsection \<open>Minimal encodings\<close>

text \<open>The check of the constructor, as a predicate.\<close>

definition minimal_vch :: "valtype \<Rightarrow> bool" where
  "minimal_vch vch \<longleftrightarrow>
     vch = [] \<or> unat (last vch) mod 128 \<noteq> 0
     \<or> (1 < length vch \<and> 128 \<le> unat (vch ! (length vch - 2)))"

lemma and_127_eq_0: "(b :: byte) AND 0x7f = 0 \<longleftrightarrow> unat b mod 128 = 0"
  using and_127 [of b] by (metis unat_0 unat_eq_zero)

lemma CScriptNum_minimal:
  "CScriptNum vch True n =
     (if n < length vch then Throw (Scriptnum_error ''script number overflow'')
      else if \<not> minimal_vch vch then Throw (Scriptnum_error ''non-minimally encoded script number'')
      else Ok (set_vch vch))"
  using and_128_iff [of "vch ! (length vch - 2)"]
  by (auto simp: CScriptNum_def minimal_vch_def and_127_eq_0)

lemma CScriptNum_Ok:
  "CScriptNum vch m n = Ok v \<Longrightarrow> n \<le> 8 \<Longrightarrow>
   length vch \<le> n \<and> v = vch_value vch \<and> (m \<longrightarrow> minimal_vch vch)"
  using and_128_iff [of "vch ! (length vch - 2)"]
  by (auto simp: CScriptNum_def minimal_vch_def and_127_eq_0 set_vch_value split: if_splits)

lemma minimal_serialize: "minimal_vch (CScriptNum_serialize v)"
proof (cases "v = 0")
  case True
  then show ?thesis by (simp add: CScriptNum_serialize_def minimal_vch_def)
next
  case False
  then obtain r where r: "r \<noteq> []" "unat (last r) \<noteq> 0"
    and eq: "CScriptNum_serialize v =
      (if 128 \<le> unat (last r) then r @ [if v < 0 then 0x80 else 0]
       else if v < 0 then butlast r @ [last r OR 0x80] else r)"
    by (rule serialize_cases)
  have "(r @ [x]) ! (length r - 1) = last r" for x
    using r(1) by (simp add: nth_append last_conv_nth)
  then show ?thesis
    using r by (auto simp: eq minimal_vch_def or_128)
qed

text \<open>A minimal encoding is the one \<open>serialize\<close> writes.\<close>

lemma byte_eq_iff: "(a :: byte) = b \<longleftrightarrow> unat a = unat b"
  by (simp add: word_unat_eq_iff)

lemma unat_sign_split: "unat (b :: byte) = (if 128 \<le> unat b then 128 else 0) + unat b mod 128"
proof (cases "128 \<le> unat b")
  case True
  have "unat b - 128 < 128" using True unat_byte_less [of b] by linarith
  then have "unat b mod 128 = unat b - 128"
    using True by (simp add: le_mod_geq)
  with True show ?thesis by simp
qed simp

lemma restore_sign: "128 \<le> unat (b :: byte) \<Longrightarrow> (b AND 0x7f) OR 0x80 = b"
  using unat_sign_split [of b] by (simp add: byte_eq_iff or_128 and_127)

lemma strip_sign: "unat (b :: byte) < 128 \<Longrightarrow> b AND 0x7f = b"
  by (simp add: byte_eq_iff and_127)

lemma serialize_digits:
  assumes "unat (last r) \<noteq> 0" "r \<noteq> []"
  shows "CScriptNum_serialize (if neg then - int (le_val r) else int (le_val r)) =
    (if 128 \<le> unat (last r) then r @ [if neg then 0x80 else 0]
     else if neg then butlast r @ [last r OR 0x80] else r)"
proof -
  have loop: "serialize_loop (le_val r) = r" using assms by (intro serialize_loop_le_val) simp
  then have "0 < le_val r" using assms(2) by (metis serialize_loop_0 gr0I)
  with loop show ?thesis by (simp add: CScriptNum_serialize_def Let_def and_128_iff)
qed

lemma serialize_vch_value:
  assumes "minimal_vch vch"
  shows "CScriptNum_serialize (vch_value vch) = vch"
proof (cases vch rule: rev_cases)
  case Nil
  then show ?thesis by (simp add: vch_value_def CScriptNum_serialize_def)
next
  case (snoc bs b)
  define neg where "neg \<longleftrightarrow> 128 \<le> unat b"
  have ub: "unat b = (if neg then 128 else 0) + unat b mod 128"
    unfolding neg_def by (rule unat_sign_split)
  have "le_val vch = le_val bs + 256 ^ length bs * unat b"
    by (simp add: snoc le_val_append)
  also have "256 ^ length bs * unat b = 256 ^ length bs * ((if neg then 128 else 0) + unat b mod 128)"
    using ub by (rule arg_cong)
  finally have val: "le_val vch = le_val bs + 256 ^ length bs * ((if neg then 128 else 0) + unat b mod 128)" .
  show ?thesis
  proof (cases "unat b mod 128 = 0")
    case True \<comment> \<open>the last byte holds the sign alone\<close>
    then have bs: "bs \<noteq> []" "128 \<le> unat (last bs)"
      using assms by (auto simp: snoc minimal_vch_def nth_append last_conv_nth)
    have "unat b = (if neg then 128 else 0)" using ub True by linarith
    then have b: "b = (if neg then 0x80 else 0)" by (simp add: byte_eq_iff)
    have "vch_value vch = (if neg then - int (le_val bs) else int (le_val bs))"
      using True val by (auto simp: vch_value_def snoc neg_def simp del: of_nat_diff)
    then show ?thesis
      using serialize_digits [of bs neg] bs b by (simp add: snoc)
  next
    case False
    let ?r = "bs @ [b AND 0x7f]"
    have r: "?r \<noteq> []" "unat (last ?r) \<noteq> 0" "\<not> 128 \<le> unat (last ?r)"
      using False by (simp_all add: and_127 not_le)
    have "le_val vch = le_val ?r + (if neg then 128 * 256 ^ length bs else 0)"
      unfolding val by (simp add: le_val_append and_127 add_mult_distrib2)
    then have "vch_value vch = (if neg then - int (le_val ?r) else int (le_val ?r))"
      using snoc neg_def by (simp add: vch_value_def)
    then show ?thesis
      using serialize_digits [OF r(2,1), of neg] r(3)
      by (simp add: snoc neg_def restore_sign strip_sign)
  qed
qed

lemma vch_value_bound:
  assumes "length vch \<le> Suc k"
  shows "\<bar>vch_value vch\<bar> < 2 ^ (8 * Suc k - 1)"
proof (cases "vch = []")
  case False
  let ?n = "length vch - 1"
  have pow: "(2::int) ^ (8 * Suc k - 1) = int (128 * 256 ^ k)"
    by (simp add: power_add power_mult)
  have "(256::nat) ^ ?n \<le> 256 ^ k" using assms by (intro power_increasing) auto
  then have "128 * 256 ^ ?n \<le> (128::nat) * 256 ^ k" by simp
  moreover have "nat \<bar>vch_value vch\<bar> =
      (if 128 \<le> unat (last vch) then le_val vch - 128 * 256 ^ ?n else le_val vch)"
    using False by (simp add: vch_value_def del: of_nat_diff)
  then have "nat \<bar>vch_value vch\<bar> < 128 * 256 ^ ?n"
    using le_val_last_bounds [OF False] by auto
  ultimately show ?thesis unfolding pow by linarith
qed (simp add: vch_value_def)

lemma CScriptNum_bound:
  assumes "CScriptNum vch m n = Ok v" "0 < n" "n \<le> 8"
  shows "\<bar>v\<bar> < 2 ^ (8 * n - 1)"
  using CScriptNum_Ok [OF assms(1,3)] vch_value_bound [of vch "n - 1"] assms(2) by simp

lemma CScriptNum_no_abort [simp]: "CScriptNum vch m n \<noteq> Abort" "CScriptNum vch m n \<noteq> Fail e"
  by (simp_all add: CScriptNum_def)

lemma CScriptNum_throws: "CScriptNum vch m n = Throw x \<Longrightarrow> \<exists>s. x = Scriptnum_error s"
  by (auto simp: CScriptNum_def split: if_splits)

subsection \<open>Properties\<close>

text \<open>
  C1. Script numbers round-trip: every \<open>int64_t\<close> whose magnitude fits the size limit (at
  most eight bytes) is read back from its serialization by the constructor, whether or not
  minimal encodings are required. In particular every \<open>int64_t\<close> but the minimum does, and
  the serialization is never longer than the size limit.
\<close>

theorem scriptnum_roundtrip:
  assumes "0 < n" "n \<le> 8" "\<bar>v\<bar> < 2 ^ (8 * n - 1)"
  shows "length (getvch v) \<le> n \<and> CScriptNum (getvch v) fRequireMinimal n = Ok v"
proof -
  have len: "length (getvch v) \<le> n"
    using length_serialize [of v "n - 1"] assms by (simp add: getvch_def)
  have "set_vch (getvch v) = v"
    using len assms(2) by (simp add: set_vch_value getvch_def vch_value_serialize)
  then have "CScriptNum (getvch v) True n = Ok v"
    using len by (simp add: CScriptNum_minimal minimal_serialize getvch_def)
  with len show ?thesis
    by (cases fRequireMinimal) (auto simp: CScriptNum_def split: if_splits)
qed

theorem scriptnum_roundtrip_witness:
  "length (getvch (-255)) \<le> 4 \<and> CScriptNum (getvch (-255)) True 4 = Ok (-255)"
  by (rule scriptnum_roundtrip) simp_all

text \<open>
  With \<open>fRequireMinimal\<close>, the encoding of a number is unique: the constructor accepts
  a byte vector only if it is exactly the serialization of the number it returns (so a
  third party cannot re-encode a numeric stack item), and the number lies strictly between
  \<open>-2^(8n-1)\<close> and \<open>2^(8n-1)\<close>.
\<close>

theorem scriptnum_canonical:
  assumes "CScriptNum vch True n = Ok v" "0 < n" "n \<le> 8"
  shows "getvch v = vch \<and> \<bar>v\<bar> < 2 ^ (8 * n - 1)"
  using CScriptNum_Ok [OF assms(1,3)] CScriptNum_bound [OF assms]
  by (simp add: getvch_def serialize_vch_value)

theorem scriptnum_canonical_witness:
  "CScriptNum [0xff, 0x80] True 4 = Ok (-255) \<and> getvch (-255) = [0xff, 0x80]"
proof -
  have "CScriptNum [0xff, 0x80] True 4 = Ok (-255)"
    by (simp add: CScriptNum_minimal minimal_vch_def set_vch_value vch_value_def)
  with scriptnum_canonical [OF this] show ?thesis by simp
qed

end
