(* ===== verification/Opcodes.thy ===== *)
theory Opcodes
  imports Main
begin

text \<open>
  The enumeration \<open>opcodetype\<close> of \<^verbatim>\<open>src/src/script/script.h\<close>. The code casts any byte to
  \<open>opcodetype\<close>, compares opcodes with \<open><\<close> and computes with them, so an opcode is its number;
  each enumerator is an abbreviation for its value. \<open>GetOpName\<close> of
  \<^verbatim>\<open>src/src/script/script.cpp\<close> names them.
\<close>

type_synonym opcodetype = nat

abbreviation (input) OP_0 :: opcodetype where "OP_0 \<equiv> 0x00"
abbreviation (input) OP_FALSE :: opcodetype where "OP_FALSE \<equiv> OP_0"
abbreviation (input) OP_PUSHDATA1 :: opcodetype where "OP_PUSHDATA1 \<equiv> 0x4c"
abbreviation (input) OP_PUSHDATA2 :: opcodetype where "OP_PUSHDATA2 \<equiv> 0x4d"
abbreviation (input) OP_PUSHDATA4 :: opcodetype where "OP_PUSHDATA4 \<equiv> 0x4e"
abbreviation (input) OP_1NEGATE :: opcodetype where "OP_1NEGATE \<equiv> 0x4f"
abbreviation (input) OP_RESERVED :: opcodetype where "OP_RESERVED \<equiv> 0x50"
abbreviation (input) OP_1 :: opcodetype where "OP_1 \<equiv> 0x51"
abbreviation (input) OP_TRUE :: opcodetype where "OP_TRUE \<equiv> OP_1"
abbreviation (input) OP_2 :: opcodetype where "OP_2 \<equiv> 0x52"
abbreviation (input) OP_3 :: opcodetype where "OP_3 \<equiv> 0x53"
abbreviation (input) OP_4 :: opcodetype where "OP_4 \<equiv> 0x54"
abbreviation (input) OP_5 :: opcodetype where "OP_5 \<equiv> 0x55"
abbreviation (input) OP_6 :: opcodetype where "OP_6 \<equiv> 0x56"
abbreviation (input) OP_7 :: opcodetype where "OP_7 \<equiv> 0x57"
abbreviation (input) OP_8 :: opcodetype where "OP_8 \<equiv> 0x58"
abbreviation (input) OP_9 :: opcodetype where "OP_9 \<equiv> 0x59"
abbreviation (input) OP_10 :: opcodetype where "OP_10 \<equiv> 0x5a"
abbreviation (input) OP_11 :: opcodetype where "OP_11 \<equiv> 0x5b"
abbreviation (input) OP_12 :: opcodetype where "OP_12 \<equiv> 0x5c"
abbreviation (input) OP_13 :: opcodetype where "OP_13 \<equiv> 0x5d"
abbreviation (input) OP_14 :: opcodetype where "OP_14 \<equiv> 0x5e"
abbreviation (input) OP_15 :: opcodetype where "OP_15 \<equiv> 0x5f"
abbreviation (input) OP_16 :: opcodetype where "OP_16 \<equiv> 0x60"
abbreviation (input) OP_NOP :: opcodetype where "OP_NOP \<equiv> 0x61"
abbreviation (input) OP_VER :: opcodetype where "OP_VER \<equiv> 0x62"
abbreviation (input) OP_IF :: opcodetype where "OP_IF \<equiv> 0x63"
abbreviation (input) OP_NOTIF :: opcodetype where "OP_NOTIF \<equiv> 0x64"
abbreviation (input) OP_VERIF :: opcodetype where "OP_VERIF \<equiv> 0x65"
abbreviation (input) OP_VERNOTIF :: opcodetype where "OP_VERNOTIF \<equiv> 0x66"
abbreviation (input) OP_ELSE :: opcodetype where "OP_ELSE \<equiv> 0x67"
abbreviation (input) OP_ENDIF :: opcodetype where "OP_ENDIF \<equiv> 0x68"
abbreviation (input) OP_VERIFY :: opcodetype where "OP_VERIFY \<equiv> 0x69"
abbreviation (input) OP_RETURN :: opcodetype where "OP_RETURN \<equiv> 0x6a"
abbreviation (input) OP_TOALTSTACK :: opcodetype where "OP_TOALTSTACK \<equiv> 0x6b"
abbreviation (input) OP_FROMALTSTACK :: opcodetype where "OP_FROMALTSTACK \<equiv> 0x6c"
abbreviation (input) OP_2DROP :: opcodetype where "OP_2DROP \<equiv> 0x6d"
abbreviation (input) OP_2DUP :: opcodetype where "OP_2DUP \<equiv> 0x6e"
abbreviation (input) OP_3DUP :: opcodetype where "OP_3DUP \<equiv> 0x6f"
abbreviation (input) OP_2OVER :: opcodetype where "OP_2OVER \<equiv> 0x70"
abbreviation (input) OP_2ROT :: opcodetype where "OP_2ROT \<equiv> 0x71"
abbreviation (input) OP_2SWAP :: opcodetype where "OP_2SWAP \<equiv> 0x72"
abbreviation (input) OP_IFDUP :: opcodetype where "OP_IFDUP \<equiv> 0x73"
abbreviation (input) OP_DEPTH :: opcodetype where "OP_DEPTH \<equiv> 0x74"
abbreviation (input) OP_DROP :: opcodetype where "OP_DROP \<equiv> 0x75"
abbreviation (input) OP_DUP :: opcodetype where "OP_DUP \<equiv> 0x76"
abbreviation (input) OP_NIP :: opcodetype where "OP_NIP \<equiv> 0x77"
abbreviation (input) OP_OVER :: opcodetype where "OP_OVER \<equiv> 0x78"
abbreviation (input) OP_PICK :: opcodetype where "OP_PICK \<equiv> 0x79"
abbreviation (input) OP_ROLL :: opcodetype where "OP_ROLL \<equiv> 0x7a"
abbreviation (input) OP_ROT :: opcodetype where "OP_ROT \<equiv> 0x7b"
abbreviation (input) OP_SWAP :: opcodetype where "OP_SWAP \<equiv> 0x7c"
abbreviation (input) OP_TUCK :: opcodetype where "OP_TUCK \<equiv> 0x7d"
abbreviation (input) OP_CAT :: opcodetype where "OP_CAT \<equiv> 0x7e"
abbreviation (input) OP_SUBSTR :: opcodetype where "OP_SUBSTR \<equiv> 0x7f"
abbreviation (input) OP_LEFT :: opcodetype where "OP_LEFT \<equiv> 0x80"
abbreviation (input) OP_RIGHT :: opcodetype where "OP_RIGHT \<equiv> 0x81"
abbreviation (input) OP_SIZE :: opcodetype where "OP_SIZE \<equiv> 0x82"
abbreviation (input) OP_INVERT :: opcodetype where "OP_INVERT \<equiv> 0x83"
abbreviation (input) OP_AND :: opcodetype where "OP_AND \<equiv> 0x84"
abbreviation (input) OP_OR :: opcodetype where "OP_OR \<equiv> 0x85"
abbreviation (input) OP_XOR :: opcodetype where "OP_XOR \<equiv> 0x86"
abbreviation (input) OP_EQUAL :: opcodetype where "OP_EQUAL \<equiv> 0x87"
abbreviation (input) OP_EQUALVERIFY :: opcodetype where "OP_EQUALVERIFY \<equiv> 0x88"
abbreviation (input) OP_RESERVED1 :: opcodetype where "OP_RESERVED1 \<equiv> 0x89"
abbreviation (input) OP_RESERVED2 :: opcodetype where "OP_RESERVED2 \<equiv> 0x8a"
abbreviation (input) OP_1ADD :: opcodetype where "OP_1ADD \<equiv> 0x8b"
abbreviation (input) OP_1SUB :: opcodetype where "OP_1SUB \<equiv> 0x8c"
abbreviation (input) OP_2MUL :: opcodetype where "OP_2MUL \<equiv> 0x8d"
abbreviation (input) OP_2DIV :: opcodetype where "OP_2DIV \<equiv> 0x8e"
abbreviation (input) OP_NEGATE :: opcodetype where "OP_NEGATE \<equiv> 0x8f"
abbreviation (input) OP_ABS :: opcodetype where "OP_ABS \<equiv> 0x90"
abbreviation (input) OP_NOT :: opcodetype where "OP_NOT \<equiv> 0x91"
abbreviation (input) OP_0NOTEQUAL :: opcodetype where "OP_0NOTEQUAL \<equiv> 0x92"
abbreviation (input) OP_ADD :: opcodetype where "OP_ADD \<equiv> 0x93"
abbreviation (input) OP_SUB :: opcodetype where "OP_SUB \<equiv> 0x94"
abbreviation (input) OP_MUL :: opcodetype where "OP_MUL \<equiv> 0x95"
abbreviation (input) OP_DIV :: opcodetype where "OP_DIV \<equiv> 0x96"
abbreviation (input) OP_MOD :: opcodetype where "OP_MOD \<equiv> 0x97"
abbreviation (input) OP_LSHIFT :: opcodetype where "OP_LSHIFT \<equiv> 0x98"
abbreviation (input) OP_RSHIFT :: opcodetype where "OP_RSHIFT \<equiv> 0x99"
abbreviation (input) OP_BOOLAND :: opcodetype where "OP_BOOLAND \<equiv> 0x9a"
abbreviation (input) OP_BOOLOR :: opcodetype where "OP_BOOLOR \<equiv> 0x9b"
abbreviation (input) OP_NUMEQUAL :: opcodetype where "OP_NUMEQUAL \<equiv> 0x9c"
abbreviation (input) OP_NUMEQUALVERIFY :: opcodetype where "OP_NUMEQUALVERIFY \<equiv> 0x9d"
abbreviation (input) OP_NUMNOTEQUAL :: opcodetype where "OP_NUMNOTEQUAL \<equiv> 0x9e"
abbreviation (input) OP_LESSTHAN :: opcodetype where "OP_LESSTHAN \<equiv> 0x9f"
abbreviation (input) OP_GREATERTHAN :: opcodetype where "OP_GREATERTHAN \<equiv> 0xa0"
abbreviation (input) OP_LESSTHANOREQUAL :: opcodetype where "OP_LESSTHANOREQUAL \<equiv> 0xa1"
abbreviation (input) OP_GREATERTHANOREQUAL :: opcodetype where "OP_GREATERTHANOREQUAL \<equiv> 0xa2"
abbreviation (input) OP_MIN :: opcodetype where "OP_MIN \<equiv> 0xa3"
abbreviation (input) OP_MAX :: opcodetype where "OP_MAX \<equiv> 0xa4"
abbreviation (input) OP_WITHIN :: opcodetype where "OP_WITHIN \<equiv> 0xa5"
abbreviation (input) OP_RIPEMD160 :: opcodetype where "OP_RIPEMD160 \<equiv> 0xa6"
abbreviation (input) OP_SHA1 :: opcodetype where "OP_SHA1 \<equiv> 0xa7"
abbreviation (input) OP_SHA256 :: opcodetype where "OP_SHA256 \<equiv> 0xa8"
abbreviation (input) OP_HASH160 :: opcodetype where "OP_HASH160 \<equiv> 0xa9"
abbreviation (input) OP_HASH256 :: opcodetype where "OP_HASH256 \<equiv> 0xaa"
abbreviation (input) OP_CODESEPARATOR :: opcodetype where "OP_CODESEPARATOR \<equiv> 0xab"
abbreviation (input) OP_CHECKSIG :: opcodetype where "OP_CHECKSIG \<equiv> 0xac"
abbreviation (input) OP_CHECKSIGVERIFY :: opcodetype where "OP_CHECKSIGVERIFY \<equiv> 0xad"
abbreviation (input) OP_CHECKMULTISIG :: opcodetype where "OP_CHECKMULTISIG \<equiv> 0xae"
abbreviation (input) OP_CHECKMULTISIGVERIFY :: opcodetype where "OP_CHECKMULTISIGVERIFY \<equiv> 0xaf"
abbreviation (input) OP_NOP1 :: opcodetype where "OP_NOP1 \<equiv> 0xb0"
abbreviation (input) OP_CHECKLOCKTIMEVERIFY :: opcodetype where "OP_CHECKLOCKTIMEVERIFY \<equiv> 0xb1"
abbreviation (input) OP_NOP2 :: opcodetype where "OP_NOP2 \<equiv> OP_CHECKLOCKTIMEVERIFY"
abbreviation (input) OP_CHECKSEQUENCEVERIFY :: opcodetype where "OP_CHECKSEQUENCEVERIFY \<equiv> 0xb2"
abbreviation (input) OP_NOP3 :: opcodetype where "OP_NOP3 \<equiv> OP_CHECKSEQUENCEVERIFY"
abbreviation (input) OP_NOP4 :: opcodetype where "OP_NOP4 \<equiv> 0xb3"
abbreviation (input) OP_NOP5 :: opcodetype where "OP_NOP5 \<equiv> 0xb4"
abbreviation (input) OP_NOP6 :: opcodetype where "OP_NOP6 \<equiv> 0xb5"
abbreviation (input) OP_NOP7 :: opcodetype where "OP_NOP7 \<equiv> 0xb6"
abbreviation (input) OP_NOP8 :: opcodetype where "OP_NOP8 \<equiv> 0xb7"
abbreviation (input) OP_NOP9 :: opcodetype where "OP_NOP9 \<equiv> 0xb8"
abbreviation (input) OP_NOP10 :: opcodetype where "OP_NOP10 \<equiv> 0xb9"
abbreviation (input) OP_SMALLINTEGER :: opcodetype where "OP_SMALLINTEGER \<equiv> 0xfa"
abbreviation (input) OP_PUBKEYS :: opcodetype where "OP_PUBKEYS \<equiv> 0xfb"
abbreviation (input) OP_PUBKEYHASH :: opcodetype where "OP_PUBKEYHASH \<equiv> 0xfd"
abbreviation (input) OP_PUBKEY :: opcodetype where "OP_PUBKEY \<equiv> 0xfe"
abbreviation (input) OP_INVALIDOPCODE :: opcodetype where "OP_INVALIDOPCODE \<equiv> 0xff"

definition GetOpName :: "opcodetype \<Rightarrow> string" where
  "GetOpName opcode =
    (if opcode = OP_0 then ''0''
     else if opcode = OP_PUSHDATA1 then ''OP_PUSHDATA1''
     else if opcode = OP_PUSHDATA2 then ''OP_PUSHDATA2''
     else if opcode = OP_PUSHDATA4 then ''OP_PUSHDATA4''
     else if opcode = OP_1NEGATE then ''-1''
     else if opcode = OP_RESERVED then ''OP_RESERVED''
     else if opcode = OP_1 then ''1''
     else if opcode = OP_2 then ''2''
     else if opcode = OP_3 then ''3''
     else if opcode = OP_4 then ''4''
     else if opcode = OP_5 then ''5''
     else if opcode = OP_6 then ''6''
     else if opcode = OP_7 then ''7''
     else if opcode = OP_8 then ''8''
     else if opcode = OP_9 then ''9''
     else if opcode = OP_10 then ''10''
     else if opcode = OP_11 then ''11''
     else if opcode = OP_12 then ''12''
     else if opcode = OP_13 then ''13''
     else if opcode = OP_14 then ''14''
     else if opcode = OP_15 then ''15''
     else if opcode = OP_16 then ''16''
     else if opcode = OP_NOP then ''OP_NOP''
     else if opcode = OP_VER then ''OP_VER''
     else if opcode = OP_IF then ''OP_IF''
     else if opcode = OP_NOTIF then ''OP_NOTIF''
     else if opcode = OP_VERIF then ''OP_VERIF''
     else if opcode = OP_VERNOTIF then ''OP_VERNOTIF''
     else if opcode = OP_ELSE then ''OP_ELSE''
     else if opcode = OP_ENDIF then ''OP_ENDIF''
     else if opcode = OP_VERIFY then ''OP_VERIFY''
     else if opcode = OP_RETURN then ''OP_RETURN''
     else if opcode = OP_TOALTSTACK then ''OP_TOALTSTACK''
     else if opcode = OP_FROMALTSTACK then ''OP_FROMALTSTACK''
     else if opcode = OP_2DROP then ''OP_2DROP''
     else if opcode = OP_2DUP then ''OP_2DUP''
     else if opcode = OP_3DUP then ''OP_3DUP''
     else if opcode = OP_2OVER then ''OP_2OVER''
     else if opcode = OP_2ROT then ''OP_2ROT''
     else if opcode = OP_2SWAP then ''OP_2SWAP''
     else if opcode = OP_IFDUP then ''OP_IFDUP''
     else if opcode = OP_DEPTH then ''OP_DEPTH''
     else if opcode = OP_DROP then ''OP_DROP''
     else if opcode = OP_DUP then ''OP_DUP''
     else if opcode = OP_NIP then ''OP_NIP''
     else if opcode = OP_OVER then ''OP_OVER''
     else if opcode = OP_PICK then ''OP_PICK''
     else if opcode = OP_ROLL then ''OP_ROLL''
     else if opcode = OP_ROT then ''OP_ROT''
     else if opcode = OP_SWAP then ''OP_SWAP''
     else if opcode = OP_TUCK then ''OP_TUCK''
     else if opcode = OP_CAT then ''OP_CAT''
     else if opcode = OP_SUBSTR then ''OP_SUBSTR''
     else if opcode = OP_LEFT then ''OP_LEFT''
     else if opcode = OP_RIGHT then ''OP_RIGHT''
     else if opcode = OP_SIZE then ''OP_SIZE''
     else if opcode = OP_INVERT then ''OP_INVERT''
     else if opcode = OP_AND then ''OP_AND''
     else if opcode = OP_OR then ''OP_OR''
     else if opcode = OP_XOR then ''OP_XOR''
     else if opcode = OP_EQUAL then ''OP_EQUAL''
     else if opcode = OP_EQUALVERIFY then ''OP_EQUALVERIFY''
     else if opcode = OP_RESERVED1 then ''OP_RESERVED1''
     else if opcode = OP_RESERVED2 then ''OP_RESERVED2''
     else if opcode = OP_1ADD then ''OP_1ADD''
     else if opcode = OP_1SUB then ''OP_1SUB''
     else if opcode = OP_2MUL then ''OP_2MUL''
     else if opcode = OP_2DIV then ''OP_2DIV''
     else if opcode = OP_NEGATE then ''OP_NEGATE''
     else if opcode = OP_ABS then ''OP_ABS''
     else if opcode = OP_NOT then ''OP_NOT''
     else if opcode = OP_0NOTEQUAL then ''OP_0NOTEQUAL''
     else if opcode = OP_ADD then ''OP_ADD''
     else if opcode = OP_SUB then ''OP_SUB''
     else if opcode = OP_MUL then ''OP_MUL''
     else if opcode = OP_DIV then ''OP_DIV''
     else if opcode = OP_MOD then ''OP_MOD''
     else if opcode = OP_LSHIFT then ''OP_LSHIFT''
     else if opcode = OP_RSHIFT then ''OP_RSHIFT''
     else if opcode = OP_BOOLAND then ''OP_BOOLAND''
     else if opcode = OP_BOOLOR then ''OP_BOOLOR''
     else if opcode = OP_NUMEQUAL then ''OP_NUMEQUAL''
     else if opcode = OP_NUMEQUALVERIFY then ''OP_NUMEQUALVERIFY''
     else if opcode = OP_NUMNOTEQUAL then ''OP_NUMNOTEQUAL''
     else if opcode = OP_LESSTHAN then ''OP_LESSTHAN''
     else if opcode = OP_GREATERTHAN then ''OP_GREATERTHAN''
     else if opcode = OP_LESSTHANOREQUAL then ''OP_LESSTHANOREQUAL''
     else if opcode = OP_GREATERTHANOREQUAL then ''OP_GREATERTHANOREQUAL''
     else if opcode = OP_MIN then ''OP_MIN''
     else if opcode = OP_MAX then ''OP_MAX''
     else if opcode = OP_WITHIN then ''OP_WITHIN''
     else if opcode = OP_RIPEMD160 then ''OP_RIPEMD160''
     else if opcode = OP_SHA1 then ''OP_SHA1''
     else if opcode = OP_SHA256 then ''OP_SHA256''
     else if opcode = OP_HASH160 then ''OP_HASH160''
     else if opcode = OP_HASH256 then ''OP_HASH256''
     else if opcode = OP_CODESEPARATOR then ''OP_CODESEPARATOR''
     else if opcode = OP_CHECKSIG then ''OP_CHECKSIG''
     else if opcode = OP_CHECKSIGVERIFY then ''OP_CHECKSIGVERIFY''
     else if opcode = OP_CHECKMULTISIG then ''OP_CHECKMULTISIG''
     else if opcode = OP_CHECKMULTISIGVERIFY then ''OP_CHECKMULTISIGVERIFY''
     else if opcode = OP_NOP1 then ''OP_NOP1''
     else if opcode = OP_CHECKLOCKTIMEVERIFY then ''OP_CHECKLOCKTIMEVERIFY''
     else if opcode = OP_CHECKSEQUENCEVERIFY then ''OP_CHECKSEQUENCEVERIFY''
     else if opcode = OP_NOP4 then ''OP_NOP4''
     else if opcode = OP_NOP5 then ''OP_NOP5''
     else if opcode = OP_NOP6 then ''OP_NOP6''
     else if opcode = OP_NOP7 then ''OP_NOP7''
     else if opcode = OP_NOP8 then ''OP_NOP8''
     else if opcode = OP_NOP9 then ''OP_NOP9''
     else if opcode = OP_NOP10 then ''OP_NOP10''
     else if opcode = OP_INVALIDOPCODE then ''OP_INVALIDOPCODE''
     else ''OP_UNKNOWN'')"

end
