(* ===== verification/Script.thy ===== *)
theory Script
  imports ScriptNum Opcodes "HOL-Library.Sublist"
begin

text \<open>
  \<open>CScript\<close> of \<^verbatim>\<open>src/src/script/script.h\<close> and \<^verbatim>\<open>src/src/script/script.cpp\<close>: a byte
  vector with the operations that append pushes and opcodes to it, read it instruction by
  instruction, search it and classify it. An iterator into a script is the list of the
  bytes from it to the end, so \<open>pc >= end()\<close> is \<open>pc = []\<close>.
\<close>

type_synonym CScript = "byte list"

definition MAX_SCRIPT_ELEMENT_SIZE :: nat where "MAX_SCRIPT_ELEMENT_SIZE = 520"
definition MAX_OPS_PER_SCRIPT :: nat where "MAX_OPS_PER_SCRIPT = 201"
definition MAX_PUBKEYS_PER_MULTISIG :: nat where "MAX_PUBKEYS_PER_MULTISIG = 20"
definition MAX_SCRIPT_SIZE :: nat where "MAX_SCRIPT_SIZE = 10000"
definition LOCKTIME_THRESHOLD :: nat where "LOCKTIME_THRESHOLD = 500000000"

lemmas script_limits =
  MAX_SCRIPT_ELEMENT_SIZE_def MAX_OPS_PER_SCRIPT_def MAX_PUBKEYS_PER_MULTISIG_def
  MAX_SCRIPT_SIZE_def

subsection \<open>Appending\<close>

text \<open>\<open>operator<<(opcodetype)\<close>\<close>

definition push_opcode :: "CScript \<Rightarrow> opcodetype \<Rightarrow> ('e, script_exn, CScript) outcome" where
  "push_opcode s opcode =
     (if opcode > 0xff then Throw (Runtime_error ''CScript::operator<<(): invalid opcode'')
      else Ok (s @ [of_nat opcode]))"

text \<open>\<open>operator<<(std::vector<unsigned char>)\<close>\<close>

definition push_data :: "CScript \<Rightarrow> valtype \<Rightarrow> CScript" where
  "push_data s b =
     (if length b < OP_PUSHDATA1 then s @ [of_nat (length b)]
      else if length b \<le> 0xff then s @ [of_nat OP_PUSHDATA1, of_nat (length b)]
      else if length b \<le> 0xffff then s @ [of_nat OP_PUSHDATA2] @ WriteLE16 (of_nat (length b))
      else s @ [of_nat OP_PUSHDATA4] @ WriteLE32 (of_nat (length b))) @ b"

text \<open>\<open>push_int64\<close>\<close>

definition push_int64 :: "CScript \<Rightarrow> int \<Rightarrow> CScript" where
  "push_int64 s n =
     (if n = -1 \<or> (n \<ge> 1 \<and> n \<le> 16) then s @ [of_int (n + int (OP_1 - 1))]
      else if n = 0 then s @ [of_nat OP_0]
      else push_data s (CScriptNum_serialize n))"

subsection \<open>Reading instructions\<close>

text \<open>The size operand of a push opcode and the iterator behind it; \<open>None\<close> when it is cut off.\<close>

definition GetOp_size :: "opcodetype \<Rightarrow> byte list \<Rightarrow> (nat \<times> byte list) option" where
  "GetOp_size opcode pc =
     (if opcode < OP_PUSHDATA1 then Some (opcode, pc)
      else if opcode = OP_PUSHDATA1 then
        (if length pc < 1 then None else Some (unat (hd pc), tl pc))
      else if opcode = OP_PUSHDATA2 then
        (if length pc < 2 then None else Some (unat (ReadLE16 pc), drop 2 pc))
      else
        (if length pc < 4 then None else Some (unat (ReadLE32 pc), drop 4 pc)))"

text \<open>
  \<open>GetOp2\<close> returns its boolean result, \<open>opcodeRet\<close>, \<open>*pvchRet\<close> and the iterator as it
  leaves it, also when it fails.
\<close>

definition GetOp2 :: "byte list \<Rightarrow> bool \<times> opcodetype \<times> valtype \<times> byte list" where
  "GetOp2 pc =
     (case pc of
        [] \<Rightarrow> (False, OP_INVALIDOPCODE, [], [])
      | b # pc1 \<Rightarrow>
          let opcode = unat b in
          if opcode \<le> OP_PUSHDATA4 then
            (case GetOp_size opcode pc1 of
               None \<Rightarrow> (False, OP_INVALIDOPCODE, [], pc1)
             | Some (nSize, pc2) \<Rightarrow>
                 if length pc2 < nSize then (False, OP_INVALIDOPCODE, [], pc2)
                 else (True, opcode, take nSize pc2, drop nSize pc2))
          else (True, opcode, [], pc1))"

lemma GetOp_size_suffix: "GetOp_size opcode pc = Some (n, pc') \<Longrightarrow> suffix pc' pc"
  by (auto simp: GetOp_size_def suffix_drop suffix_tl split: if_splits)

lemma GetOp2_True_cases:
  assumes "GetOp2 pc = (True, opcode, v, pc')"
  obtains (op) "pc = of_nat opcode # pc'" "OP_PUSHDATA4 < opcode" "opcode \<le> 0xff" "v = []"
  | (push) n pc1 pc2 where "pc = of_nat opcode # pc1" "opcode \<le> OP_PUSHDATA4"
      "GetOp_size opcode pc1 = Some (n, pc2)" "n \<le> length pc2" "v = take n pc2" "pc' = drop n pc2"
proof (cases pc)
  case Nil
  with assms show ?thesis by (simp add: GetOp2_def)
next
  case (Cons b pc1)
  have b: "of_nat (unat b) = b" "unat b \<le> 0xff"
    by simp_all
  show ?thesis
  proof (cases "unat b \<le> OP_PUSHDATA4")
    case True
    with assms Cons b push [of pc1] show ?thesis
      by (auto simp: GetOp2_def Let_def split: option.splits if_splits)
  next
    case False
    with assms Cons b op show ?thesis by (auto simp: GetOp2_def Let_def)
  qed
qed

lemma GetOp2_suffix:
  assumes "GetOp2 pc = (True, opcode, v, pc')"
  shows "suffix pc' pc"
  using assms
proof (cases rule: GetOp2_True_cases)
  case (push n pc1 pc2)
  then have "suffix pc' pc2" "suffix pc2 pc1"
    by (simp_all add: suffix_drop GetOp_size_suffix)
  then show ?thesis using push(1) by (auto intro: suffix_ConsI suffix_order.order_trans)
qed (simp add: suffix_ConsI)

text \<open>Every successful read makes progress.\<close>

lemma GetOp2_progress:
  assumes "GetOp2 pc = (True, opcode, v, pc')"
  shows "length pc' < length pc"
  using assms
proof (cases rule: GetOp2_True_cases)
  case (push n pc1 pc2)
  then show ?thesis using suffix_length_le [OF GetOp_size_suffix [OF push(3)]] by simp
qed simp

lemma GetOp2_opcode_bound: "GetOp2 pc = (True, opcode, v, pc') \<Longrightarrow> opcode \<le> 0xff"
  by (cases rule: GetOp2_True_cases, assumption) auto

lemma GetOp2_nonpush_empty: "GetOp2 pc = (True, opcode, v, pc') \<Longrightarrow> OP_PUSHDATA4 < opcode \<Longrightarrow> v = []"
  by (cases rule: GetOp2_True_cases, assumption) auto

lemma GetOp2_Nil [simp]: "GetOp2 [] = (False, OP_INVALIDOPCODE, [], [])"
  by (simp add: GetOp2_def)

subsection \<open>Small integers\<close>

definition DecodeOP_N :: "opcodetype \<Rightarrow> ('e, script_exn, nat) outcome" where
  "DecodeOP_N opcode =
     (if opcode = OP_0 then Ok 0
      else bindO (assertO (opcode \<ge> OP_1 \<and> opcode \<le> OP_16)) (\<lambda>_. Ok (opcode - (OP_1 - 1))))"

definition EncodeOP_N :: "int \<Rightarrow> ('e, script_exn, opcodetype) outcome" where
  "EncodeOP_N n =
     bindO (assertO (n \<ge> 0 \<and> n \<le> 16))
       (\<lambda>_. if n = 0 then Ok OP_0 else Ok (OP_1 + nat n - 1))"

subsection \<open>Searching\<close>

text \<open>The inner loop of \<open>FindAndDelete\<close>: skip the occurrences of \<open>b\<close> at \<open>pc\<close>.\<close>

function FindAndDelete_skip :: "CScript \<Rightarrow> byte list \<Rightarrow> nat \<Rightarrow> byte list \<times> nat" where
  "FindAndDelete_skip b pc nFound =
     (if b \<noteq> [] \<and> length pc \<ge> length b \<and> take (length b) pc = b
      then FindAndDelete_skip b (drop (length b) pc) (Suc nFound)
      else (pc, nFound))"
  by pat_completeness auto
termination
proof (relation "measure (\<lambda>(b, pc, n). length pc)", simp, goal_cases)
  case (1 b pc n)
  then have "0 < length b" "length b \<le> length pc" by auto
  then have "length pc - length b < length pc" by linarith
  then show ?case by simp
qed

declare FindAndDelete_skip.simps [simp del]

lemma FindAndDelete_skip_length:
  "FindAndDelete_skip b pc n = (pc', n') \<Longrightarrow>
   n \<le> n' \<and> length pc + n * length b = n' * length b + length pc' \<and> suffix pc' pc"
proof (induction b pc n rule: FindAndDelete_skip.induct)
  case (1 b pc n)
  show ?case
  proof (cases "b \<noteq> [] \<and> length pc \<ge> length b \<and> take (length b) pc = b")
    case True
    with "1.prems" have "FindAndDelete_skip b (drop (length b) pc) (Suc n) = (pc', n')"
      by (simp add: FindAndDelete_skip.simps [of b pc n])
    from "1.IH" [OF True this] True show ?thesis
      using suffix_order.order_trans [OF _ suffix_drop, of pc' "length b" pc] by auto
  next
    case False
    with "1.prems" show ?thesis
      by (auto simp: FindAndDelete_skip.simps [of b pc n])
  qed
qed

function FindAndDelete_loop ::
  "CScript \<Rightarrow> CScript \<Rightarrow> byte list \<Rightarrow> byte list \<Rightarrow> nat \<Rightarrow> CScript \<times> byte list \<times> nat" where
  "FindAndDelete_loop b result pc2 pc nFound =
     (let result' = result @ take (length pc2 - length pc) pc2;
          (pc', nFound') = FindAndDelete_skip b pc nFound
      in case GetOp2 pc' of
           (True, _, _, pc'') \<Rightarrow> FindAndDelete_loop b result' pc' pc'' nFound'
         | (False, _, _, _) \<Rightarrow> (result', pc', nFound'))"
  by pat_completeness auto
termination
  by (relation "measure (\<lambda>(b, result, pc2, pc, n). length pc)")
     (auto dest!: FindAndDelete_skip_length [OF sym] GetOp2_progress [OF sym] suffix_length_le)

declare FindAndDelete_loop.simps [simp del]

text \<open>The number of deletions, and the script after them.\<close>

definition FindAndDelete :: "CScript \<Rightarrow> CScript \<Rightarrow> nat \<times> CScript" where
  "FindAndDelete script b =
     (if b = [] then (0, script)
      else
        let (result, pc2, nFound) = FindAndDelete_loop b [] script script 0
        in (nFound, if nFound > 0 then result @ pc2 else script))"

function Find_loop :: "opcodetype \<Rightarrow> nat \<Rightarrow> byte list \<Rightarrow> nat" where
  "Find_loop opc nFound pc =
     (case GetOp2 pc of
        (True, opcode, _, pc') \<Rightarrow> Find_loop opc (if opcode = opc then Suc nFound else nFound) pc'
      | (False, _, _, _) \<Rightarrow> nFound)"
  by pat_completeness auto
termination
  by (relation "measure (\<lambda>(opc, n, pc). length pc)") (auto dest: GetOp2_progress [OF sym])

declare Find_loop.simps [simp del]

definition Find :: "CScript \<Rightarrow> opcodetype \<Rightarrow> nat" where
  "Find script opc = Find_loop opc 0 script"

subsection \<open>Counting signature operations\<close>

function GetSigOpCount_loop :: "bool \<Rightarrow> opcodetype \<Rightarrow> nat \<Rightarrow> byte list \<Rightarrow> nat" where
  "GetSigOpCount_loop fAccurate lastOpcode n pc =
     (case GetOp2 pc of
        (False, _, _, _) \<Rightarrow> n
      | (True, opcode, _, pc') \<Rightarrow>
          GetSigOpCount_loop fAccurate opcode
            (if opcode = OP_CHECKSIG \<or> opcode = OP_CHECKSIGVERIFY then n + 1
             else if opcode = OP_CHECKMULTISIG \<or> opcode = OP_CHECKMULTISIGVERIFY then
               (if fAccurate \<and> lastOpcode \<ge> OP_1 \<and> lastOpcode \<le> OP_16
                then n + (lastOpcode - (OP_1 - 1))
                else n + MAX_PUBKEYS_PER_MULTISIG)
             else n) pc')"
  by pat_completeness auto
termination
  by (relation "measure (\<lambda>(acc, last, n, pc). length pc)") (auto dest!: GetOp2_progress [OF sym])

declare GetSigOpCount_loop.simps [simp del]

definition GetSigOpCount :: "CScript \<Rightarrow> bool \<Rightarrow> nat" where
  "GetSigOpCount script fAccurate = GetSigOpCount_loop fAccurate OP_INVALIDOPCODE 0 script"

subsection \<open>Classification\<close>

definition IsPayToScriptHash :: "CScript \<Rightarrow> bool" where
  "IsPayToScriptHash s \<longleftrightarrow>
     length s = 23 \<and> s ! 0 = of_nat OP_HASH160 \<and> s ! 1 = 0x14 \<and> s ! 22 = of_nat OP_EQUAL"

definition IsPayToWitnessScriptHash :: "CScript \<Rightarrow> bool" where
  "IsPayToWitnessScriptHash s \<longleftrightarrow> length s = 34 \<and> s ! 0 = of_nat OP_0 \<and> s ! 1 = 0x20"

text \<open>\<open>IsWitnessProgram\<close> with its reference results as an optional pair.\<close>

definition IsWitnessProgram :: "CScript \<Rightarrow> (nat \<times> valtype) option" where
  "IsWitnessProgram s =
     (if length s < 4 \<or> length s > 42 then None
      else if unat (s ! 0) \<noteq> OP_0 \<and> (unat (s ! 0) < OP_1 \<or> unat (s ! 0) > OP_16) then None
      else if unat (s ! 1) + 2 = length s
      then Some (if unat (s ! 0) = OP_0 then 0 else unat (s ! 0) - (OP_1 - 1), drop 2 s)
      else None)"

function IsPushOnly :: "byte list \<Rightarrow> bool" where
  "IsPushOnly pc =
     (if pc = [] then True
      else case GetOp2 pc of
             (False, _, _, _) \<Rightarrow> False
           | (True, opcode, _, pc') \<Rightarrow> if opcode > OP_16 then False else IsPushOnly pc')"
  by pat_completeness auto
termination
  by (relation "measure length") (auto dest!: GetOp2_progress [OF sym])

declare IsPushOnly.simps [simp del]

definition IsUnspendable :: "CScript \<Rightarrow> bool" where
  "IsUnspendable s \<longleftrightarrow> (length s > 0 \<and> s ! 0 = of_nat OP_RETURN) \<or> length s > MAX_SCRIPT_SIZE"

text \<open>
  \<open>GetSigOpCount(scriptSig)\<close>: the last item a push-only \<open>scriptSig\<close> pushes is the
  redeem script whose operations are counted. \<open>None\<close> is the early \<open>return 0\<close>.
\<close>

function last_push :: "valtype \<Rightarrow> byte list \<Rightarrow> valtype option" where
  "last_push data pc =
     (if pc = [] then Some data
      else case GetOp2 pc of
             (False, _, _, _) \<Rightarrow> None
           | (True, opcode, data', pc') \<Rightarrow>
               if opcode > OP_16 then None else last_push data' pc')"
  by pat_completeness auto
termination
  by (relation "measure (\<lambda>(d, pc). length pc)") (auto dest!: GetOp2_progress [OF sym])

declare last_push.simps [simp del]

definition GetSigOpCount_P2SH :: "CScript \<Rightarrow> CScript \<Rightarrow> nat" where
  "GetSigOpCount_P2SH script scriptSig =
     (if \<not> IsPayToScriptHash script then GetSigOpCount script True
      else case last_push [] scriptSig of
             None \<Rightarrow> 0
           | Some data \<Rightarrow> GetSigOpCount data True)"

subsection \<open>Reading back what was appended\<close>

lemma push_data_append: "push_data s v = s @ push_data [] v"
  by (simp add: push_data_def)

lemma GetOp2_push_data:
  assumes "length v < 2 ^ 32"
  shows "\<exists>opcode \<le> OP_PUSHDATA4. GetOp2 (push_data [] v @ rest) = (True, opcode, v, rest)"
proof -
  consider "length v < OP_PUSHDATA1" | "OP_PUSHDATA1 \<le> length v" "length v \<le> 0xff"
    | "0xff < length v" "length v \<le> 0xffff" | "0xffff < length v"
    by linarith
  then show ?thesis
  proof cases
    case 1
    then have "unat (of_nat (length v) :: byte) = length v" by (simp add: unat_of_nat_byte)
    with 1 show ?thesis
      by (intro exI [of _ "length v"]) (simp add: push_data_def GetOp2_def GetOp_size_def Let_def)
  next
    case 2
    then have "unat (of_nat (length v) :: byte) = length v" by (simp add: unat_of_nat_byte)
    with 2 show ?thesis
      by (intro exI [of _ OP_PUSHDATA1]) (simp add: push_data_def GetOp2_def GetOp_size_def Let_def)
  next
    case 3
    then have "unat (of_nat (length v) :: u16) = length v" by (simp add: unat_of_nat)
    with 3 show ?thesis
      by (intro exI [of _ OP_PUSHDATA2])
        (simp add: push_data_def GetOp2_def GetOp_size_def Let_def ReadLE16_WriteLE16 append_assoc)
  next
    case 4
    then have "unat (of_nat (length v) :: u32) = length v" using assms by (simp add: unat_of_nat)
    with 4 show ?thesis
      by (intro exI [of _ OP_PUSHDATA4])
        (simp add: push_data_def GetOp2_def GetOp_size_def Let_def ReadLE32_WriteLE32 append_assoc)
  qed
qed

text \<open>The operand bytes of a push are self-delimiting.\<close>

lemma GetOp_size_split:
  assumes "GetOp_size opcode pc = Some (n, pc')"
  obtains sz where "pc = sz @ pc'" "\<And>r. GetOp_size opcode (sz @ r) = Some (n, r)"
proof -
  consider "opcode < OP_PUSHDATA1" | "opcode = OP_PUSHDATA1" | "opcode = OP_PUSHDATA2"
    | "opcode > OP_PUSHDATA2" by fastforce
  then show thesis
  proof cases
    case 1
    then show ?thesis using assms that [of "[]"] by (simp add: GetOp_size_def)
  next
    case 2
    then show ?thesis using assms that [of "[hd pc]"] by (cases pc) (simp_all add: GetOp_size_def)
  next
    case 3
    then have "2 \<le> length pc" "n = unat (ReadLE16 pc)" "pc' = drop 2 pc"
      using assms by (auto simp: GetOp_size_def not_less split: if_splits)
    then show ?thesis using 3 that [of "take 2 pc"] by (simp add: GetOp_size_def ReadLE16_def min_def)
  next
    case 4
    then have "4 \<le> length pc" "n = unat (ReadLE32 pc)" "pc' = drop 4 pc"
      using assms by (auto simp: GetOp_size_def not_less split: if_splits)
    then show ?thesis using 4 that [of "take 4 pc"] by (simp add: GetOp_size_def ReadLE32_def min_def)
  qed
qed

text \<open>A readable instruction is a prefix that reads the same whatever follows it.\<close>

lemma GetOp2_split:
  assumes "GetOp2 pc = (True, opcode, v, pc')"
  obtains e where "pc = e @ pc'" "\<And>r. GetOp2 (e @ r) = (True, opcode, v, r)"
  using assms
proof (cases rule: GetOp2_True_cases)
  case op
  then show ?thesis using that [of "[of_nat opcode]"] by (simp add: GetOp2_def Let_def unat_of_nat_byte)
next
  case (push n pc1 pc2)
  from push(3) obtain sz where sz: "pc1 = sz @ pc2" "\<And>r. GetOp_size opcode (sz @ r) = Some (n, r)"
    by (rule GetOp_size_split) blast
  show ?thesis
    using push sz that [of "of_nat opcode # sz @ take n pc2"]
    by (simp add: GetOp2_def Let_def unat_of_nat_byte)
qed

text \<open>
  A single instruction, complete with its operand. Instructions are self-delimiting: no
  instruction is a proper prefix of another.
\<close>

definition is_instr :: "byte list \<Rightarrow> bool" where
  "is_instr e \<longleftrightarrow> (\<exists>opcode v. GetOp2 e = (True, opcode, v, []))"

lemma is_instr_read:
  assumes "is_instr e"
  shows "\<exists>opcode v. GetOp2 (e @ r) = (True, opcode, v, r)"
proof -
  from assms obtain opcode v where "GetOp2 e = (True, opcode, v, [])" by (auto simp: is_instr_def)
  then obtain e' where "e = e' @ []" "\<And>r. GetOp2 (e' @ r) = (True, opcode, v, r)"
    by (rule GetOp2_split) blast
  then show ?thesis by auto
qed

lemma is_instr_prefix_free:
  assumes "is_instr e" "is_instr b" "e @ x = b @ y"
  shows "e = b \<and> x = y"
  using is_instr_read [OF assms(1), of x] is_instr_read [OF assms(2), of y] assms(3) by auto

lemma is_instr_nonempty: "is_instr e \<Longrightarrow> e \<noteq> []"
  by (auto simp: is_instr_def)

lemma is_instr_push_data: "length v < 2 ^ 32 \<Longrightarrow> is_instr (push_data [] v)"
  using GetOp2_push_data [of v "[]"] by (auto simp: is_instr_def)

lemma GetOp2_first_instr:
  assumes "GetOp2 pc = (True, opcode, v, pc')"
  obtains e where "pc = e @ pc'" "is_instr e"
  using assms
proof (rule GetOp2_split)
  fix e assume "pc = e @ pc'" "\<And>r. GetOp2 (e @ r) = (True, opcode, v, r)"
  moreover from this(2) [of "[]"] have "is_instr e" by (auto simp: is_instr_def)
  ultimately show thesis by (intro that)
qed

text \<open>The instructions of a script, and the unreadable tail where reading stops.\<close>

function instrs :: "byte list \<Rightarrow> byte list list \<times> byte list" where
  "instrs pc =
     (case GetOp2 pc of
        (True, _, _, pc') \<Rightarrow>
          let (es, t) = instrs pc' in (take (length pc - length pc') pc # es, t)
      | (False, _, _, _) \<Rightarrow> ([], pc))"
  by pat_completeness auto
termination
  by (relation "measure length") (auto dest!: GetOp2_progress [OF sym])

declare instrs.simps [simp del]

lemma instrs_spec:
  assumes "instrs pc = (es, t)"
  shows "pc = concat es @ t \<and> (\<forall>e \<in> set es. is_instr e) \<and> \<not> fst (GetOp2 t)"
  using assms
proof (induction pc arbitrary: es t rule: instrs.induct)
  case (1 pc)
  obtain ok opcode v pc' where get: "GetOp2 pc = (ok, opcode, v, pc')" by (cases "GetOp2 pc") auto
  show ?case
  proof (cases ok)
    case True
    with get have get: "GetOp2 pc = (True, opcode, v, pc')" by simp
    then obtain e where e: "pc = e @ pc'" "is_instr e" by (rule GetOp2_first_instr)
    obtain es' t' where rec: "instrs pc' = (es', t')" by (cases "instrs pc'") auto
    have "take (length pc - length pc') pc = e" by (simp add: e(1))
    then have "instrs pc = (e # es', t')"
      using get rec by (subst instrs.simps) simp
    with "1.prems" have es: "es = e # es'" "t = t'" by simp_all
    have "pc' = concat es' @ t' \<and> (\<forall>e \<in> set es'. is_instr e) \<and> \<not> fst (GetOp2 t')"
      using "1.IH" get rec by simp
    with es e show ?thesis by simp
  next
    case False
    then have "instrs pc = ([], pc)" using get by (subst instrs.simps) simp
    with "1.prems" False get show ?thesis by simp
  qed
qed

lemma FindAndDelete_skip_instrs:
  assumes "is_instr b" "\<forall>e \<in> set es. is_instr e" "\<not> fst (GetOp2 t)"
  shows "FindAndDelete_skip b (concat es @ t) n =
    (concat (dropWhile ((=) b) es) @ t, n + length (takeWhile ((=) b) es))"
  using assms(2)
proof (induction es arbitrary: n)
  case Nil
  have "\<not> (length b \<le> length t \<and> take (length b) t = b)"
    using is_instr_read [OF assms(1), of "drop (length b) t"] assms(3)
    by (metis append_take_drop_id fst_conv)
  then show ?case by (subst FindAndDelete_skip.simps) auto
next
  case (Cons e es)
  show ?case
  proof (cases "e = b")
    case True
    then show ?thesis
      using Cons is_instr_nonempty [OF assms(1)] by (subst FindAndDelete_skip.simps) simp
  next
    case False
    have "take (length b) (e @ concat es @ t) \<noteq> b"
      using is_instr_prefix_free [OF _ assms(1), of e "concat es @ t"] Cons.prems False
      by (metis append_take_drop_id list.set_intros(1))
    with False show ?thesis by (subst FindAndDelete_skip.simps) auto
  qed
qed

lemma dropWhile_takeWhile_filter:
  "length (filter ((=) b) es) = length (takeWhile ((=) b) es) + length (filter ((=) b) (dropWhile ((=) b) es))"
  "filter (\<lambda>e. e \<noteq> b) es = filter (\<lambda>e. e \<noteq> b) (dropWhile ((=) b) es)"
  by (induction es) auto

lemma FindAndDelete_loop_instrs:
  assumes "is_instr b" "\<forall>e \<in> set es. is_instr e" "\<not> fst (GetOp2 t)"
  shows "FindAndDelete_loop b result (e0 @ concat es @ t) (concat es @ t) n =
    (result @ e0 @ concat (filter (\<lambda>e. e \<noteq> b) es), t, n + length (filter ((=) b) es))"
  using assms(2)
proof (induction "length es" arbitrary: es e0 result n rule: less_induct)
  case less
  let ?rest = "dropWhile ((=) b) es" and ?n = "n + length (takeWhile ((=) b) es)"
  have skip: "FindAndDelete_skip b (concat es @ t) n = (concat ?rest @ t, ?n)"
    using FindAndDelete_skip_instrs [OF assms(1) less.prems assms(3)] .
  show ?case
  proof (cases ?rest)
    case Nil
    obtain opcode v pc' where get: "GetOp2 t = (False, opcode, v, pc')"
      using assms(3) by (cases "GetOp2 t") auto
    have "FindAndDelete_loop b result (e0 @ concat es @ t) (concat es @ t) n = (result @ e0, t, ?n)"
      using skip get Nil by (subst FindAndDelete_loop.simps) simp
    then show ?thesis unfolding dropWhile_takeWhile_filter [of b es] Nil by simp
  next
    case (Cons e es')
    have mem: "set (e # es') \<subseteq> set es" unfolding Cons [symmetric] by (rule set_dropWhileD [THEN subsetI])
    then have e: "is_instr e" "\<forall>e \<in> set es'. is_instr e" using less.prems by auto
    have len: "length es' < length es"
      using length_dropWhile_le [of "(=) b" es] unfolding Cons by simp
    obtain opcode v where get: "GetOp2 (e @ concat es' @ t) = (True, opcode, v, concat es' @ t)"
      using is_instr_read [OF e(1)] by blast
    have "e \<noteq> b" using hd_dropWhile [of "(=) b" es] Cons by auto
    have "FindAndDelete_loop b result (e0 @ concat es @ t) (concat es @ t) n =
        FindAndDelete_loop b (result @ e0) (e @ concat es' @ t) (concat es' @ t) ?n"
      using skip get Cons by (subst FindAndDelete_loop.simps) simp
    also have "\<dots> = (result @ e0 @ e @ concat (filter (\<lambda>e. e \<noteq> b) es'), t,
        ?n + length (filter ((=) b) es'))"
      using less.hyps [OF len e(2)] by simp
    finally show ?thesis
      using Cons \<open>e \<noteq> b\<close> by (simp add: dropWhile_takeWhile_filter [of b es])
  qed
qed

lemma sig_ops_accurate_le:
  "n \<le> m \<Longrightarrow> GetSigOpCount_loop True l n pc \<le> GetSigOpCount_loop False l m pc"
proof (induction True l n pc arbitrary: m rule: GetSigOpCount_loop.induct)
  case (1 l n pc)
  obtain ok opcode v pc' where get: "GetOp2 pc = (ok, opcode, v, pc')" by (cases "GetOp2 pc") auto
  show ?case
  proof (cases ok)
    case True
    with get have get: "GetOp2 pc = (True, opcode, v, pc')" by simp
    show ?thesis
      unfolding GetSigOpCount_loop.simps [of _ l _ pc] get prod.case bool.case
      using "1.prems" by (intro "1.hyps" [OF get [symmetric] refl refl refl])
        (auto simp: MAX_PUBKEYS_PER_MULTISIG_def)
  next
    case False
    then show ?thesis using get "1.prems" by (simp add: GetSigOpCount_loop.simps [of _ l _ pc])
  qed
qed

lemma GetSigOpCount_loop_bound:
  "GetSigOpCount_loop a l n pc \<le> n + MAX_PUBKEYS_PER_MULTISIG * length pc"
proof (induction a l n pc rule: GetSigOpCount_loop.induct)
  case (1 a l n pc)
  obtain ok opcode v pc' where get: "GetOp2 pc = (ok, opcode, v, pc')" by (cases "GetOp2 pc") auto
  show ?case
  proof (cases ok)
    case True
    with get have get: "GetOp2 pc = (True, opcode, v, pc')" by simp
    let ?n = "if opcode = OP_CHECKSIG \<or> opcode = OP_CHECKSIGVERIFY then n + 1
             else if opcode = OP_CHECKMULTISIG \<or> opcode = OP_CHECKMULTISIGVERIFY then
               (if a \<and> l \<ge> OP_1 \<and> l \<le> OP_16
                then n + (l - (OP_1 - 1))
                else n + MAX_PUBKEYS_PER_MULTISIG)
             else n"
    have "GetSigOpCount_loop a l n pc \<le> ?n + MAX_PUBKEYS_PER_MULTISIG * length pc'"
      unfolding GetSigOpCount_loop.simps [of a l n pc] get prod.case bool.case
      by (rule "1.IH" [OF get [symmetric] refl refl refl])
    also have "\<dots> \<le> n + MAX_PUBKEYS_PER_MULTISIG * Suc (length pc')"
      by (auto simp: MAX_PUBKEYS_PER_MULTISIG_def)
    also have "\<dots> \<le> n + MAX_PUBKEYS_PER_MULTISIG * length pc"
      using GetOp2_progress [OF get] by (intro add_left_mono mult_le_mono2) simp
    finally show ?thesis .
  next
    case False
    then show ?thesis using get by (simp add: GetSigOpCount_loop.simps [of a l n pc])
  qed
qed

subsection \<open>Properties\<close>

text \<open>
  Appending a byte vector to a script and reading the script back at that point gives
  the vector, through a push opcode, and leaves the iterator right behind it; every vector
  the size encodings can express (below 4 GiB) is covered, so all four push forms are.
\<close>

theorem push_data_GetOp:
  assumes "length v < 2 ^ 32"
  shows "\<exists>opcode \<le> OP_PUSHDATA4.
    GetOp2 (drop (length s) (push_data s v) @ rest) = (True, opcode, v, rest)"
  using GetOp2_push_data [OF assms, of rest] by (subst push_data_append) simp

theorem push_data_GetOp_witness:
  "\<exists>opcode \<le> OP_PUSHDATA4.
    GetOp2 (drop (length [0x51 :: byte]) (push_data [0x51] (replicate 300 7)) @ [0x87])
      = (True, opcode, replicate 300 7, [0x87])"
  by (rule push_data_GetOp) simp

text \<open>
  \<open>FindAndDelete\<close> deletes exactly the instructions equal to \<open>b\<close>, at instruction
  boundaries only, keeps every other instruction and the unreadable tail in order, and
  returns the number of deletions. It terminates on every script. (\<open>b\<close> is one
  instruction: in the interpreter it is the push of a signature.)
\<close>

theorem FindAndDelete_spec:
  assumes "is_instr b" "instrs script = (es, t)"
  shows "FindAndDelete script b =
    (length (filter ((=) b) es), concat (filter (\<lambda>e. e \<noteq> b) es) @ t)"
proof -
  note spec = instrs_spec [OF assms(2)]
  have "filter (\<lambda>e. e \<noteq> b) es = es" if "filter ((=) b) es = []"
    using that by (auto simp: filter_empty_conv filter_id_conv)
  with spec FindAndDelete_loop_instrs [OF assms(1), of es t "[]" "[]" 0] show ?thesis
    by (auto simp: FindAndDelete_def is_instr_nonempty [OF assms(1)])
qed

theorem FindAndDelete_spec_witness:
  "FindAndDelete [0x51, 0x01, 0x07, 0xac, 0x01, 0x07] [0x01, 0x07] = (2, [0x51, 0xac])"
proof -
  have "instrs [0x51, 0x01, 0x07, 0xac, 0x01, 0x07] = ([[0x51], [0x01, 0x07], [0xac], [0x01, 0x07]], [])"
    by (simp add: instrs.simps GetOp2_def GetOp_size_def)
  moreover have "is_instr [0x01, 0x07]"
    by (simp add: is_instr_def GetOp2_def GetOp_size_def)
  ultimately show ?thesis using FindAndDelete_spec by simp
qed

text \<open>
  The accurate count of signature operations never exceeds the legacy count, and both
  are bounded by 20 operations per script byte (so neither counter can overflow
  \<open>unsigned int\<close> on a script below 200 MB).
\<close>

theorem GetSigOpCount_bounds:
  "GetSigOpCount s True \<le> GetSigOpCount s False \<and>
   GetSigOpCount s False \<le> MAX_PUBKEYS_PER_MULTISIG * length s"
  unfolding GetSigOpCount_def
  using sig_ops_accurate_le [of 0 0] GetSigOpCount_loop_bound [of False OP_INVALIDOPCODE 0 s] by simp

text \<open>
  \<open>IsWitnessProgram\<close> recognises exactly the scripts made of a version opcode
  \<open>OP_0\<close> or \<open>OP_1\<close> to \<open>OP_16\<close> and one direct push of 2 to 40 bytes, and returns that
  version and those bytes: the scripts \<open>CScript() << version << program\<close>.
\<close>

theorem IsWitnessProgram_iff:
  "IsWitnessProgram s = Some (version, program) \<longleftrightarrow>
     version \<le> 16 \<and> 2 \<le> length program \<and> length program \<le> 40 \<and>
     s = push_data (push_int64 [] (int version)) program"
proof
  assume "IsWitnessProgram s = Some (version, program)"
  then have len: "4 \<le> length s" "length s \<le> 42" "unat (s ! 1) + 2 = length s"
    and v: "version = (if unat (s ! 0) = 0 then 0 else unat (s ! 0) - 80)"
    and op: "unat (s ! 0) = 0 \<or> 81 \<le> unat (s ! 0) \<and> unat (s ! 0) \<le> 96"
    and p: "program = drop 2 s"
    by (auto simp: IsWitnessProgram_def not_less split: if_splits)
  have s: "s = [s ! 0, s ! 1] @ program"
    using len p by (cases s; cases "tl s") auto
  have i: "push_int64 [] (int version) = [s ! 0]"
    using op v by (auto simp: push_int64_def byte_eq_iff of_nat_diff)
  have l: "length program = unat (s ! 1)" "length program \<le> 40" "2 \<le> length program"
    using len p by simp_all
  then have "push_data [s ! 0] program = [s ! 0, s ! 1] @ program"
    by (simp add: push_data_def)
  then show "version \<le> 16 \<and> 2 \<le> length program \<and> length program \<le> 40 \<and>
     s = push_data (push_int64 [] (int version)) program"
    using l op v s i by auto
next
  assume r: "version \<le> 16 \<and> 2 \<le> length program \<and> length program \<le> 40 \<and>
     s = push_data (push_int64 [] (int version)) program"
  define b :: byte where "b = (if version = 0 then 0 else of_nat (version + 80))"
  have "push_int64 [] (int version) = [b]" using r by (auto simp: push_int64_def b_def)
  then have s: "s = b # of_nat (length program) # program" using r by (simp add: push_data_def)
  have b: "unat b = (if version = 0 then 0 else version + 80)"
    using r by (simp add: b_def unat_of_nat_byte del: of_nat_add)
  show "IsWitnessProgram s = Some (version, program)"
    unfolding s using conjunct1 [OF r] conjunct1 [OF conjunct2 [OF r]]
      conjunct1 [OF conjunct2 [OF conjunct2 [OF r]]] b
    by (auto simp: IsWitnessProgram_def unat_of_nat_byte)
qed

end
