(* ===== verification/Hash_Stream.thy ===== *)
theory Hash_Stream
  imports Veggie_Prelude
begin

text \<open>
  The buffering shared by \<open>CSHA256\<close>, \<open>CSHA1\<close> and \<open>CRIPEMD160\<close>
  (\<^verbatim>\<open>src/src/crypto/sha256.cpp\<close>, \<^verbatim>\<open>sha1.cpp\<close>, \<^verbatim>\<open>ripemd160.cpp\<close>): the three \<open>Write\<close>
  methods are the same code over their own \<open>Transform\<close>, which is a parameter here. The
  locale \<open>md_stream\<close> states what a client may rely on: the result depends only on the
  concatenation of what was written.
\<close>

record hasher =
  hs :: "u32 list"
  hbuf :: "byte list"
  hbytes :: u64

text \<open>\<open>memcpy(dst + off, src, n)\<close> with \<open>n\<close> the length of \<open>src\<close>.\<close>

definition memcpy :: "'a list \<Rightarrow> nat \<Rightarrow> 'a list \<Rightarrow> 'a list" where
  "memcpy dst off src = take off dst @ src @ drop (off + length src) dst"

text \<open>The loop \<open>while (end >= data + 64)\<close>.\<close>

fun Write_chunks ::
  "(u32 list \<Rightarrow> byte list \<Rightarrow> u32 list) \<Rightarrow> u32 list \<Rightarrow> u64 \<Rightarrow> byte list \<Rightarrow> u32 list \<times> u64 \<times> byte list" where
  "Write_chunks Transform s bytes data =
     (if length data \<ge> 64
      then Write_chunks Transform (Transform s (take 64 data)) (bytes + 64) (drop 64 data)
      else (s, bytes, data))"

declare Write_chunks.simps [simp del]

definition Write_with :: "(u32 list \<Rightarrow> byte list \<Rightarrow> u32 list) \<Rightarrow> hasher \<Rightarrow> byte list \<Rightarrow> hasher" where
  "Write_with Transform h data =
     (let len = length data;
          bufsize = unat (hbytes h mod 64);
          (h, data, bufsize) =
            (if bufsize \<noteq> 0 \<and> bufsize + len \<ge> 64
             then let buf = memcpy (hbuf h) bufsize (take (64 - bufsize) data)
                  in (h\<lparr>hs := Transform (hs h) buf, hbuf := buf,
                        hbytes := hbytes h + of_nat (64 - bufsize)\<rparr>,
                      drop (64 - bufsize) data, 0)
             else (h, data, bufsize));
          (s, bytes, data) = Write_chunks Transform (hs h) (hbytes h) data
      in if data \<noteq> []
         then h\<lparr>hs := s, hbuf := memcpy (hbuf h) bufsize data, hbytes := bytes + of_nat (length data)\<rparr>
         else h\<lparr>hs := s, hbytes := bytes\<rparr>)"

text \<open>The padding of \<open>Finalize\<close>: \<open>0x80\<close>, zeros up to 56 modulo 64, then the size.\<close>

definition pad :: "byte list" where
  "pad = 0x80 # replicate 63 0"

definition Pad_with ::
  "(u32 list \<Rightarrow> byte list \<Rightarrow> u32 list) \<Rightarrow> (u64 \<Rightarrow> byte list) \<Rightarrow> hasher \<Rightarrow> hasher" where
  "Pad_with Transform WriteSize h =
     (let sizedesc = WriteSize (push_bit 3 (hbytes h));
          h = Write_with Transform h (take (1 + (119 - unat (hbytes h mod 64)) mod 64) pad)
      in Write_with Transform h sizedesc)"

subsection \<open>The message in blocks\<close>

fun blocks64 :: "byte list \<Rightarrow> byte list list" where
  "blocks64 xs = (if length xs < 64 then [] else take 64 xs # blocks64 (drop 64 xs))"

declare blocks64.simps [simp del]

definition tail64 :: "byte list \<Rightarrow> byte list" where
  "tail64 xs = drop (64 * (length xs div 64)) xs"

lemma blocks64_short [simp]: "length xs < 64 \<Longrightarrow> blocks64 xs = []"
  by (simp add: blocks64.simps)

lemma blocks64_step: "64 \<le> length xs \<Longrightarrow> blocks64 xs = take 64 xs # blocks64 (drop 64 xs)"
  by (simp add: blocks64.simps [of xs])

lemma blocks64_one: "length xs = 64 \<Longrightarrow> blocks64 xs = [xs]"
  by (simp add: blocks64_step)

lemma blocks64_append:
  assumes "length xs mod 64 = 0"
  shows "blocks64 (xs @ ys) = blocks64 xs @ blocks64 ys"
  using assms
proof (induction xs rule: blocks64.induct)
  case (1 xs)
  show ?case
  proof (cases "length xs < 64")
    case True
    with "1.prems" show ?thesis by simp
  next
    case False
    then have len: "64 \<le> length xs" by simp
    then have "length (drop 64 xs) mod 64 = 0" using "1.prems" by (simp add: le_mod_geq)
    then have "blocks64 (drop 64 xs @ ys) = blocks64 (drop 64 xs) @ blocks64 ys"
      using "1.IH" False by simp
    with len show ?thesis by (simp add: blocks64_step)
  qed
qed

lemma tail64_short [simp]: "length xs < 64 \<Longrightarrow> tail64 xs = xs"
  by (simp add: tail64_def)

lemma length_tail64: "length (tail64 xs) = length xs mod 64"
  by (simp add: tail64_def minus_mult_div_eq_mod)

lemma tail64_append:
  assumes "length xs mod 64 = 0"
  shows "tail64 (xs @ ys) = tail64 ys"
proof -
  have "64 * ((length xs + length ys) div 64) = length xs + 64 * (length ys div 64)"
    using assms by (auto elim!: dvdE simp: mod_eq_0_iff_dvd)
  then show ?thesis by (simp add: tail64_def)
qed

lemma take_tail64: "xs = take (64 * (length xs div 64)) xs @ tail64 xs"
  by (simp add: tail64_def)

lemma head64_mod: "length (take (64 * (length xs div 64)) xs) mod 64 = 0"
  by (simp add: min_absorb2)

lemma blocks64_tail: "blocks64 (xs @ ys) = blocks64 xs @ blocks64 (tail64 xs @ ys)"
proof -
  have t: "length (tail64 xs) < 64" by (simp add: length_tail64)
  let ?h = "take (64 * (length xs div 64)) xs"
  have "blocks64 (xs @ ys) = blocks64 (?h @ tail64 xs @ ys)"
    by (subst take_tail64 [of xs]) simp
  also have "\<dots> = blocks64 ?h @ blocks64 (tail64 xs @ ys)" by (rule blocks64_append [OF head64_mod])
  also have "blocks64 ?h = blocks64 xs"
    using blocks64_append [OF head64_mod, of xs "tail64 xs"] t by (simp flip: take_tail64)
  finally show ?thesis .
qed

lemma tail64_tail: "tail64 (xs @ ys) = tail64 (tail64 xs @ ys)"
  by (subst take_tail64 [of xs], subst append_assoc, rule tail64_append [OF head64_mod])

lemma concat_blocks64: "length xs mod 64 = 0 \<Longrightarrow> concat (blocks64 xs) = xs"
proof (induction xs rule: blocks64.induct)
  case (1 xs)
  then show ?case
    by (cases "length xs < 64") (simp_all add: blocks64_step le_mod_geq)
qed

lemma Write_chunks_eq:
  "Write_chunks T s b data =
     (foldl T s (blocks64 data), b + of_nat (64 * (length data div 64)), tail64 data)"
proof (induction T s b data rule: Write_chunks.induct)
  case (1 T s b data)
  show ?case
  proof (cases "64 \<le> length data")
    case True
    then have "length data div 64 = Suc (length (drop 64 data) div 64)"
      by (simp add: le_div_geq)
    moreover have "tail64 data = tail64 (drop 64 data)"
      using tail64_append [of "take 64 data" "drop 64 data"] True by simp
    ultimately show ?thesis
      using 1 True by (subst Write_chunks.simps) (simp add: blocks64_step add.assoc)
  next
    case False
    then show ?thesis by (subst Write_chunks.simps) simp
  qed
qed

subsection \<open>The contract of a streaming hasher\<close>

text \<open>
  The state of a hasher that was given \<open>msg\<close> since \<open>Reset\<close>: the chaining value is the fold
  of \<open>Transform\<close> over the full blocks and the buffer starts with the rest. The bytes of the
  buffer after it are left over from earlier blocks and unconstrained.
\<close>

definition stream_inv ::
  "(u32 list \<Rightarrow> byte list \<Rightarrow> u32 list) \<Rightarrow> u32 list \<Rightarrow> byte list \<Rightarrow> hasher \<Rightarrow> bool" where
  "stream_inv Transform iv msg h \<longleftrightarrow>
     hs h = foldl Transform iv (blocks64 msg) \<and>
     hbytes h = of_nat (length msg) \<and>
     length (hbuf h) = 64 \<and>
     take (length msg mod 64) (hbuf h) = tail64 msg"

text \<open>The padded message, with the size in bits written by \<open>WriteSize\<close>.\<close>

definition md_padding :: "(u64 \<Rightarrow> byte list) \<Rightarrow> nat \<Rightarrow> byte list" where
  "md_padding WriteSize n =
     0x80 # replicate ((119 - n mod 64) mod 64) 0 @ WriteSize (of_nat (8 * n))"

lemma unat_bytes_mod64: "unat (of_nat n mod 64 :: u64) = n mod 64"
  by (simp add: unat_mod unat_of_nat mod_mod_cancel)

lemma memcpy_Nil: "memcpy dst off [] = dst"
  by (simp add: memcpy_def)

lemma length_memcpy: "off + length src \<le> length dst \<Longrightarrow> length (memcpy dst off src) = length dst"
  by (simp add: memcpy_def)

lemma take_memcpy: "off \<le> length dst \<Longrightarrow> take (off + length src) (memcpy dst off src) = take off dst @ src"
  by (simp add: memcpy_def)

lemma take_pad: "n < 64 \<Longrightarrow> take (1 + n) pad = 0x80 # replicate n 0"
  by (simp add: pad_def)

lemma stream_inv_Reset:
  "length buf = 64 \<Longrightarrow> stream_inv T iv [] \<lparr>hs = iv, hbuf = buf, hbytes = 0\<rparr>"
  by (simp add: stream_inv_def)

text \<open>
  One \<open>Write\<close> extends the message by the data written, whatever the split: first a call that
  does not complete a partly filled buffer, then the call that does, which is the completion
  followed by a \<open>Write\<close> of the rest.
\<close>

lemma stream_inv_Write_plain:
  assumes inv: "stream_inv T iv msg h"
    and plain: "length msg mod 64 = 0 \<or> length msg mod 64 + length data < 64"
  shows "stream_inv T iv (msg @ data) (Write_with T h data)"
proof -
  let ?m = "length msg mod 64"
  have h: "hs h = foldl T iv (blocks64 msg)" "hbytes h = of_nat (length msg)"
    "length (hbuf h) = 64" "take ?m (hbuf h) = tail64 msg"
    using inv by (simp_all add: stream_inv_def)
  have bl: "blocks64 (msg @ data) = blocks64 msg @ blocks64 data"
    using plain blocks64_tail [of msg data] blocks64_append [of msg data]
    by (auto simp: length_tail64)
  have tl: "tail64 (msg @ data) = tail64 msg @ tail64 data"
  proof (cases "?m = 0")
    case True
    then have "tail64 msg = []" using length_tail64 [of msg] by simp
    with True show ?thesis by (simp add: tail64_append)
  next
    case False
    with plain have "?m + length data < 64" by simp
    then show ?thesis using tail64_tail [of msg data] by (simp add: length_tail64)
  qed
  have lm: "length (msg @ data) mod 64 = ?m + length (tail64 data)"
    using arg_cong [OF tl, of length] by (simp add: length_tail64)
  have lt: "?m + length (tail64 data) < 64" unfolding lm [symmetric] by simp
  have len: "of_nat (length msg) + of_nat (64 * (length data div 64)) + of_nat (length (tail64 data)) =
      (of_nat (length (msg @ data)) :: u64)"
    unfolding of_nat_add [symmetric] by (simp add: length_tail64 add.assoc)
  have nofill: "\<not> (unat (hbytes h mod 64) \<noteq> 0 \<and> unat (hbytes h mod 64) + length data \<ge> 64)"
    using plain by (auto simp: h(2) unat_bytes_mod64)
  have W: "Write_with T h data =
      h\<lparr>hs := foldl T iv (blocks64 (msg @ data)),
        hbuf := memcpy (hbuf h) ?m (tail64 data), hbytes := of_nat (length (msg @ data))\<rparr>"
    unfolding Write_with_def Let_def if_not_P [OF nofill] using h bl len
    by (cases "tail64 data = []") (simp_all add: unat_bytes_mod64 Write_chunks_eq memcpy_Nil)
  show ?thesis
    unfolding stream_inv_def W lm tl
    using lt h take_memcpy [of ?m "hbuf h" "tail64 data"] length_memcpy [of ?m "tail64 data" "hbuf h"]
    by simp
qed

lemma stream_inv_Write:
  assumes inv: "stream_inv T iv msg h"
  shows "stream_inv T iv (msg @ data) (Write_with T h data)"
proof (cases "length msg mod 64 = 0 \<or> length msg mod 64 + length data < 64")
  case True
  with inv show ?thesis by (rule stream_inv_Write_plain)
next
  case False
  let ?m = "length msg mod 64"
  let ?d = "take (64 - ?m) data" and ?r = "drop (64 - ?m) data"
  let ?h = "h\<lparr>hs := T (hs h) (tail64 msg @ ?d), hbuf := tail64 msg @ ?d,
              hbytes := hbytes h + of_nat (64 - ?m)\<rparr>"
  have h: "hs h = foldl T iv (blocks64 msg)" "hbytes h = of_nat (length msg)"
    "length (hbuf h) = 64" "take ?m (hbuf h) = tail64 msg"
    using inv by (simp_all add: stream_inv_def)
  have nz: "?m \<noteq> 0" and full: "64 \<le> ?m + length data" using False by auto
  have ld: "length ?d = 64 - ?m" using full by simp
  have buf: "memcpy (hbuf h) ?m ?d = tail64 msg @ ?d"
    using h ld by (simp add: memcpy_def del: length_take)
  have lb: "length (tail64 msg @ ?d) = 64" using ld by (simp add: length_tail64 del: length_take)
  have mod: "length (msg @ ?d) mod 64 = 0"
    using ld mod_add_left_eq [of "length msg" 64 "64 - ?m"] by (simp del: length_take)
  have "blocks64 (msg @ ?d) = blocks64 msg @ [tail64 msg @ ?d]"
    unfolding blocks64_tail [of msg ?d] using lb by (simp only: blocks64_one)
  moreover have "tail64 (msg @ ?d) = []"
    using mod length_tail64 [of "msg @ ?d"] by (metis length_0_conv)
  moreover have hb: "hbytes ?h = of_nat (length (msg @ ?d))" 
    unfolding length_append ld of_nat_add by (simp add: h(2) del: of_nat_diff)
  ultimately have "stream_inv T iv (msg @ ?d) ?h"
    unfolding stream_inv_def mod hb using h lb by simp
  then have "stream_inv T iv ((msg @ ?d) @ ?r) (Write_with T ?h ?r)"
    using mod by (intro stream_inv_Write_plain) blast+
  moreover have "Write_with T h data = Write_with T ?h ?r"
  proof -
    have "unat (hbytes ?h mod 64) = 0" unfolding hb unat_bytes_mod64 by (rule mod)
    then show ?thesis
      using nz full h buf ld
      by (simp add: Write_with_def unat_bytes_mod64 Let_def del: length_take of_nat_diff)
  qed
  ultimately show ?thesis by simp
qed

lemma stream_inv_Writes:
  "stream_inv T iv msg h \<Longrightarrow> stream_inv T iv (msg @ concat datas) (foldl (Write_with T) h datas)"
proof (induction datas arbitrary: msg h)
  case (Cons d ds)
  from Cons.IH [OF stream_inv_Write [OF Cons.prems, of d]] show ?case by simp
qed simp

lemma md_padding_total:
  assumes "\<And>x. length (WriteSize x) = 8"
  shows "length (msg @ md_padding WriteSize (length msg)) mod 64 = 0"
proof -
  have "(m + (9 + (119 - m) mod 64)) mod 64 = 0" if "m < 64" for m :: nat
  proof (cases "m < 56")
    case True
    then have "119 - m = (55 - m) + 64" by simp
    then have "(119 - m) mod 64 = 55 - m" by (simp only: mod_add_self2) simp
    then show ?thesis using True by simp
  next
    case False
    then show ?thesis using that by simp
  qed
  from this [of "length msg mod 64"]
  have "(length msg + (9 + (119 - length msg mod 64) mod 64)) mod 64 = 0"
    by (simp add: mod_add_left_eq)
  then show ?thesis by (simp add: md_padding_def assms add.commute)
qed

text \<open>After the padding the chaining value is the fold over the padded message.\<close>

lemma stream_inv_Pad:
  assumes inv: "stream_inv T iv msg h"
  shows "stream_inv T iv (msg @ md_padding WriteSize (length msg)) (Pad_with T WriteSize h)"
proof -
  let ?n = "(119 - length msg mod 64) mod 64"
  have b: "hbytes h = of_nat (length msg)" using inv by (simp add: stream_inv_def)
  have size: "push_bit 3 (hbytes h) = of_nat (8 * length msg)" by (simp add: b push_bit_eq_mult)
  have "stream_inv T iv (msg @ concat [take (1 + ?n) pad, WriteSize (of_nat (8 * length msg))])
     (foldl (Write_with T) h [take (1 + ?n) pad, WriteSize (of_nat (8 * length msg))])"
    by (rule stream_inv_Writes [OF inv])
  moreover have "take (1 + ?n) pad = 0x80 # replicate ?n 0" by (rule take_pad) simp
  ultimately show ?thesis
    using size by (simp add: Pad_with_def Let_def md_padding_def b unat_bytes_mod64)
qed

text \<open>
  The interface: a hasher is reset to its initial chaining value and finalised through
  \<open>out\<close>, which writes the chaining value; \<open>WriteSize\<close> writes the size in eight bytes.
\<close>

locale md_stream =
  fixes Transform :: "u32 list \<Rightarrow> byte list \<Rightarrow> u32 list"
    and iv :: "u32 list"
    and WriteSize :: "u64 \<Rightarrow> byte list"
    and out :: "u32 list \<Rightarrow> byte list"
    and Reset :: "hasher \<Rightarrow> hasher"
    and Write :: "hasher \<Rightarrow> byte list \<Rightarrow> hasher"
    and Finalize :: "hasher \<Rightarrow> byte list"
  assumes Reset_eq: "Reset h = h\<lparr>hs := iv, hbytes := 0\<rparr>"
    and Write_eq: "Write h data = Write_with Transform h data"
    and Finalize_eq: "Finalize h = out (hs (Pad_with Transform WriteSize h))"
    and length_Size: "length (WriteSize x) = 8"
begin

lemma Finalize_Writes:
  assumes "length (hbuf h) = 64"
  shows "Finalize (foldl Write (Reset h) datas) =
    out (foldl Transform iv
      (blocks64 (concat datas @ md_padding WriteSize (length (concat datas)))))"
proof -
  have W: "Write = Write_with Transform" by (intro ext) (rule Write_eq)
  have "stream_inv Transform iv [] (Reset h)" using assms by (simp add: Reset_eq stream_inv_def)
  then have "stream_inv Transform iv (concat datas) (foldl Write (Reset h) datas)"
    unfolding W using stream_inv_Writes [of _ _ "[]"] by simp
  from stream_inv_Pad [OF this, of WriteSize] show ?thesis
    by (simp only: Finalize_eq stream_inv_def)
qed

lemma padded_blocks:
  "concat (blocks64 (msg @ md_padding WriteSize (length msg))) = msg @ md_padding WriteSize (length msg)"
  by (rule concat_blocks64, rule md_padding_total, rule length_Size)

lemma Finalize_split:
  assumes "length (hbuf h) = 64" "concat xs = concat ys"
  shows "Finalize (foldl Write (Reset h) xs) = Finalize (foldl Write (Reset h) ys)"
  using assms by (simp add: Finalize_Writes)

end

end
