(* ===== verification/Sha256.thy ===== *)
theory Sha256
  imports Hash_Stream
begin

text \<open>
  SHA-256 as \<^verbatim>\<open>src/src/crypto/sha256.cpp\<close> has it: the 64 unrolled rounds, which rename the
  eight registers from round to round instead of moving them and keep the message schedule in
  sixteen words that are overwritten in place. \<open>Transform\<close> is cut into its four groups of
  sixteen rounds. It is shown equal to the compression function of FIPS 180-4, and the
  streaming class \<open>CSHA256\<close> to the hash of the whole message.
\<close>

definition sha256_Ch :: "u32 \<Rightarrow> u32 \<Rightarrow> u32 \<Rightarrow> u32" where
  "sha256_Ch x y z = z XOR (x AND (y XOR z))"

definition sha256_Maj :: "u32 \<Rightarrow> u32 \<Rightarrow> u32 \<Rightarrow> u32" where
  "sha256_Maj x y z = (x AND y) OR (z AND (x OR y))"

definition sha256_Sigma0 :: "u32 \<Rightarrow> u32" where
  "sha256_Sigma0 x = (drop_bit 2 x OR push_bit 30 x) XOR (drop_bit 13 x OR push_bit 19 x) XOR
     (drop_bit 22 x OR push_bit 10 x)"

definition sha256_Sigma1 :: "u32 \<Rightarrow> u32" where
  "sha256_Sigma1 x = (drop_bit 6 x OR push_bit 26 x) XOR (drop_bit 11 x OR push_bit 21 x) XOR
     (drop_bit 25 x OR push_bit 7 x)"

definition sha256_sigma0 :: "u32 \<Rightarrow> u32" where
  "sha256_sigma0 x = (drop_bit 7 x OR push_bit 25 x) XOR (drop_bit 18 x OR push_bit 14 x) XOR
     drop_bit 3 x"

definition sha256_sigma1 :: "u32 \<Rightarrow> u32" where
  "sha256_sigma1 x = (drop_bit 17 x OR push_bit 15 x) XOR (drop_bit 19 x OR push_bit 13 x) XOR
     drop_bit 10 x"

text \<open>\<open>Round\<close> updates its reference arguments \<open>d\<close> and \<open>h\<close>; both are returned.\<close>

definition sha256_Round ::
  "u32 \<Rightarrow> u32 \<Rightarrow> u32 \<Rightarrow> u32 \<Rightarrow> u32 \<Rightarrow> u32 \<Rightarrow> u32 \<Rightarrow> u32 \<Rightarrow> u32 \<Rightarrow> u32 \<Rightarrow> u32 \<times> u32" where
  "sha256_Round a b c d e f g h k w =
     (let t1 = h + sha256_Sigma1 e + sha256_Ch e f g + k + w;
          t2 = sha256_Sigma0 a + sha256_Maj a b c
      in (d + t1, t1 + t2))"

definition sha256_Initialize :: "u32 list" where
  "sha256_Initialize =
     [0x6a09e667, 0xbb67ae85, 0x3c6ef372, 0xa54ff53a, 0x510e527f, 0x9b05688c, 0x1f83d9ab, 0x5be0cd19]"

type_synonym words16 =
  "u32 \<times> u32 \<times> u32 \<times> u32 \<times> u32 \<times> u32 \<times> u32 \<times> u32 \<times> u32 \<times> u32 \<times> u32 \<times> u32 \<times> u32 \<times> u32 \<times> u32 \<times> u32"

type_synonym regs8 = "u32 \<times> u32 \<times> u32 \<times> u32 \<times> u32 \<times> u32 \<times> u32 \<times> u32"

definition sha256_rounds_0 :: "regs8 \<Rightarrow> byte list \<Rightarrow> regs8 \<times> words16" where
  "sha256_rounds_0 = (\<lambda>(a, b, c, d, e, f, g, h) chunk.
     let w0 = ReadBE32 (drop 0 chunk);
         (d, h) = sha256_Round a b c d e f g h 0x428a2f98 w0;
         w1 = ReadBE32 (drop 4 chunk);
         (c, g) = sha256_Round h a b c d e f g 0x71374491 w1;
         w2 = ReadBE32 (drop 8 chunk);
         (b, f) = sha256_Round g h a b c d e f 0xb5c0fbcf w2;
         w3 = ReadBE32 (drop 12 chunk);
         (a, e) = sha256_Round f g h a b c d e 0xe9b5dba5 w3;
         w4 = ReadBE32 (drop 16 chunk);
         (h, d) = sha256_Round e f g h a b c d 0x3956c25b w4;
         w5 = ReadBE32 (drop 20 chunk);
         (g, c) = sha256_Round d e f g h a b c 0x59f111f1 w5;
         w6 = ReadBE32 (drop 24 chunk);
         (f, b) = sha256_Round c d e f g h a b 0x923f82a4 w6;
         w7 = ReadBE32 (drop 28 chunk);
         (e, a) = sha256_Round b c d e f g h a 0xab1c5ed5 w7;
         w8 = ReadBE32 (drop 32 chunk);
         (d, h) = sha256_Round a b c d e f g h 0xd807aa98 w8;
         w9 = ReadBE32 (drop 36 chunk);
         (c, g) = sha256_Round h a b c d e f g 0x12835b01 w9;
         w10 = ReadBE32 (drop 40 chunk);
         (b, f) = sha256_Round g h a b c d e f 0x243185be w10;
         w11 = ReadBE32 (drop 44 chunk);
         (a, e) = sha256_Round f g h a b c d e 0x550c7dc3 w11;
         w12 = ReadBE32 (drop 48 chunk);
         (h, d) = sha256_Round e f g h a b c d 0x72be5d74 w12;
         w13 = ReadBE32 (drop 52 chunk);
         (g, c) = sha256_Round d e f g h a b c 0x80deb1fe w13;
         w14 = ReadBE32 (drop 56 chunk);
         (f, b) = sha256_Round c d e f g h a b 0x9bdc06a7 w14;
         w15 = ReadBE32 (drop 60 chunk);
         (e, a) = sha256_Round b c d e f g h a 0xc19bf174 w15
     in ((a, b, c, d, e, f, g, h), (w0, w1, w2, w3, w4, w5, w6, w7, w8, w9, w10, w11, w12, w13, w14, w15)))"

definition sha256_rounds_1 :: "regs8 \<Rightarrow> words16 \<Rightarrow> regs8 \<times> words16" where
  "sha256_rounds_1 = (\<lambda>(a, b, c, d, e, f, g, h) (w0, w1, w2, w3, w4, w5, w6, w7, w8, w9, w10, w11, w12, w13, w14, w15).
     let w0 = w0 + (sha256_sigma1 w14 + w9 + sha256_sigma0 w1);
         (d, h) = sha256_Round a b c d e f g h 0xe49b69c1 w0;
         w1 = w1 + (sha256_sigma1 w15 + w10 + sha256_sigma0 w2);
         (c, g) = sha256_Round h a b c d e f g 0xefbe4786 w1;
         w2 = w2 + (sha256_sigma1 w0 + w11 + sha256_sigma0 w3);
         (b, f) = sha256_Round g h a b c d e f 0x0fc19dc6 w2;
         w3 = w3 + (sha256_sigma1 w1 + w12 + sha256_sigma0 w4);
         (a, e) = sha256_Round f g h a b c d e 0x240ca1cc w3;
         w4 = w4 + (sha256_sigma1 w2 + w13 + sha256_sigma0 w5);
         (h, d) = sha256_Round e f g h a b c d 0x2de92c6f w4;
         w5 = w5 + (sha256_sigma1 w3 + w14 + sha256_sigma0 w6);
         (g, c) = sha256_Round d e f g h a b c 0x4a7484aa w5;
         w6 = w6 + (sha256_sigma1 w4 + w15 + sha256_sigma0 w7);
         (f, b) = sha256_Round c d e f g h a b 0x5cb0a9dc w6;
         w7 = w7 + (sha256_sigma1 w5 + w0 + sha256_sigma0 w8);
         (e, a) = sha256_Round b c d e f g h a 0x76f988da w7;
         w8 = w8 + (sha256_sigma1 w6 + w1 + sha256_sigma0 w9);
         (d, h) = sha256_Round a b c d e f g h 0x983e5152 w8;
         w9 = w9 + (sha256_sigma1 w7 + w2 + sha256_sigma0 w10);
         (c, g) = sha256_Round h a b c d e f g 0xa831c66d w9;
         w10 = w10 + (sha256_sigma1 w8 + w3 + sha256_sigma0 w11);
         (b, f) = sha256_Round g h a b c d e f 0xb00327c8 w10;
         w11 = w11 + (sha256_sigma1 w9 + w4 + sha256_sigma0 w12);
         (a, e) = sha256_Round f g h a b c d e 0xbf597fc7 w11;
         w12 = w12 + (sha256_sigma1 w10 + w5 + sha256_sigma0 w13);
         (h, d) = sha256_Round e f g h a b c d 0xc6e00bf3 w12;
         w13 = w13 + (sha256_sigma1 w11 + w6 + sha256_sigma0 w14);
         (g, c) = sha256_Round d e f g h a b c 0xd5a79147 w13;
         w14 = w14 + (sha256_sigma1 w12 + w7 + sha256_sigma0 w15);
         (f, b) = sha256_Round c d e f g h a b 0x06ca6351 w14;
         w15 = w15 + (sha256_sigma1 w13 + w8 + sha256_sigma0 w0);
         (e, a) = sha256_Round b c d e f g h a 0x14292967 w15
     in ((a, b, c, d, e, f, g, h), (w0, w1, w2, w3, w4, w5, w6, w7, w8, w9, w10, w11, w12, w13, w14, w15)))"

definition sha256_rounds_2 :: "regs8 \<Rightarrow> words16 \<Rightarrow> regs8 \<times> words16" where
  "sha256_rounds_2 = (\<lambda>(a, b, c, d, e, f, g, h) (w0, w1, w2, w3, w4, w5, w6, w7, w8, w9, w10, w11, w12, w13, w14, w15).
     let w0 = w0 + (sha256_sigma1 w14 + w9 + sha256_sigma0 w1);
         (d, h) = sha256_Round a b c d e f g h 0x27b70a85 w0;
         w1 = w1 + (sha256_sigma1 w15 + w10 + sha256_sigma0 w2);
         (c, g) = sha256_Round h a b c d e f g 0x2e1b2138 w1;
         w2 = w2 + (sha256_sigma1 w0 + w11 + sha256_sigma0 w3);
         (b, f) = sha256_Round g h a b c d e f 0x4d2c6dfc w2;
         w3 = w3 + (sha256_sigma1 w1 + w12 + sha256_sigma0 w4);
         (a, e) = sha256_Round f g h a b c d e 0x53380d13 w3;
         w4 = w4 + (sha256_sigma1 w2 + w13 + sha256_sigma0 w5);
         (h, d) = sha256_Round e f g h a b c d 0x650a7354 w4;
         w5 = w5 + (sha256_sigma1 w3 + w14 + sha256_sigma0 w6);
         (g, c) = sha256_Round d e f g h a b c 0x766a0abb w5;
         w6 = w6 + (sha256_sigma1 w4 + w15 + sha256_sigma0 w7);
         (f, b) = sha256_Round c d e f g h a b 0x81c2c92e w6;
         w7 = w7 + (sha256_sigma1 w5 + w0 + sha256_sigma0 w8);
         (e, a) = sha256_Round b c d e f g h a 0x92722c85 w7;
         w8 = w8 + (sha256_sigma1 w6 + w1 + sha256_sigma0 w9);
         (d, h) = sha256_Round a b c d e f g h 0xa2bfe8a1 w8;
         w9 = w9 + (sha256_sigma1 w7 + w2 + sha256_sigma0 w10);
         (c, g) = sha256_Round h a b c d e f g 0xa81a664b w9;
         w10 = w10 + (sha256_sigma1 w8 + w3 + sha256_sigma0 w11);
         (b, f) = sha256_Round g h a b c d e f 0xc24b8b70 w10;
         w11 = w11 + (sha256_sigma1 w9 + w4 + sha256_sigma0 w12);
         (a, e) = sha256_Round f g h a b c d e 0xc76c51a3 w11;
         w12 = w12 + (sha256_sigma1 w10 + w5 + sha256_sigma0 w13);
         (h, d) = sha256_Round e f g h a b c d 0xd192e819 w12;
         w13 = w13 + (sha256_sigma1 w11 + w6 + sha256_sigma0 w14);
         (g, c) = sha256_Round d e f g h a b c 0xd6990624 w13;
         w14 = w14 + (sha256_sigma1 w12 + w7 + sha256_sigma0 w15);
         (f, b) = sha256_Round c d e f g h a b 0xf40e3585 w14;
         w15 = w15 + (sha256_sigma1 w13 + w8 + sha256_sigma0 w0);
         (e, a) = sha256_Round b c d e f g h a 0x106aa070 w15
     in ((a, b, c, d, e, f, g, h), (w0, w1, w2, w3, w4, w5, w6, w7, w8, w9, w10, w11, w12, w13, w14, w15)))"

definition sha256_rounds_3 :: "regs8 \<Rightarrow> words16 \<Rightarrow> regs8" where
  "sha256_rounds_3 = (\<lambda>(a, b, c, d, e, f, g, h) (w0, w1, w2, w3, w4, w5, w6, w7, w8, w9, w10, w11, w12, w13, w14, w15).
     let w0 = w0 + (sha256_sigma1 w14 + w9 + sha256_sigma0 w1);
         (d, h) = sha256_Round a b c d e f g h 0x19a4c116 w0;
         w1 = w1 + (sha256_sigma1 w15 + w10 + sha256_sigma0 w2);
         (c, g) = sha256_Round h a b c d e f g 0x1e376c08 w1;
         w2 = w2 + (sha256_sigma1 w0 + w11 + sha256_sigma0 w3);
         (b, f) = sha256_Round g h a b c d e f 0x2748774c w2;
         w3 = w3 + (sha256_sigma1 w1 + w12 + sha256_sigma0 w4);
         (a, e) = sha256_Round f g h a b c d e 0x34b0bcb5 w3;
         w4 = w4 + (sha256_sigma1 w2 + w13 + sha256_sigma0 w5);
         (h, d) = sha256_Round e f g h a b c d 0x391c0cb3 w4;
         w5 = w5 + (sha256_sigma1 w3 + w14 + sha256_sigma0 w6);
         (g, c) = sha256_Round d e f g h a b c 0x4ed8aa4a w5;
         w6 = w6 + (sha256_sigma1 w4 + w15 + sha256_sigma0 w7);
         (f, b) = sha256_Round c d e f g h a b 0x5b9cca4f w6;
         w7 = w7 + (sha256_sigma1 w5 + w0 + sha256_sigma0 w8);
         (e, a) = sha256_Round b c d e f g h a 0x682e6ff3 w7;
         w8 = w8 + (sha256_sigma1 w6 + w1 + sha256_sigma0 w9);
         (d, h) = sha256_Round a b c d e f g h 0x748f82ee w8;
         w9 = w9 + (sha256_sigma1 w7 + w2 + sha256_sigma0 w10);
         (c, g) = sha256_Round h a b c d e f g 0x78a5636f w9;
         w10 = w10 + (sha256_sigma1 w8 + w3 + sha256_sigma0 w11);
         (b, f) = sha256_Round g h a b c d e f 0x84c87814 w10;
         w11 = w11 + (sha256_sigma1 w9 + w4 + sha256_sigma0 w12);
         (a, e) = sha256_Round f g h a b c d e 0x8cc70208 w11;
         w12 = w12 + (sha256_sigma1 w10 + w5 + sha256_sigma0 w13);
         (h, d) = sha256_Round e f g h a b c d 0x90befffa w12;
         w13 = w13 + (sha256_sigma1 w11 + w6 + sha256_sigma0 w14);
         (g, c) = sha256_Round d e f g h a b c 0xa4506ceb w13;
         (f, b) = sha256_Round c d e f g h a b 0xbef9a3f7 (w14 + sha256_sigma1 w12 + w7 + sha256_sigma0 w15);
         (e, a) = sha256_Round b c d e f g h a 0xc67178f2 (w15 + sha256_sigma1 w13 + w8 + sha256_sigma0 w0)
     in (a, b, c, d, e, f, g, h))"

definition sha256_Transform :: "u32 list \<Rightarrow> byte list \<Rightarrow> u32 list" where
  "sha256_Transform s chunk =
     (let r = (s ! 0, s ! 1, s ! 2, s ! 3, s ! 4, s ! 5, s ! 6, s ! 7);
          (r, w) = sha256_rounds_0 r chunk;
          (r, w) = sha256_rounds_1 r w;
          (r, w) = sha256_rounds_2 r w;
          (a, b, c, d, e, f, g, h) = sha256_rounds_3 r w
      in [s ! 0 + a, s ! 1 + b, s ! 2 + c, s ! 3 + d, s ! 4 + e, s ! 5 + f, s ! 6 + g, s ! 7 + h])"

text \<open>The class \<open>CSHA256\<close>. Its constructor leaves \<open>buf\<close> uninitialised: its content is a parameter.\<close>

definition CSHA256 :: "byte list \<Rightarrow> hasher" where
  "CSHA256 buf = \<lparr>hs = sha256_Initialize, hbuf = buf, hbytes = 0\<rparr>"

definition CSHA256_Write :: "hasher \<Rightarrow> byte list \<Rightarrow> hasher" where
  "CSHA256_Write h data = Write_with sha256_Transform h data"

definition CSHA256_Finalize :: "hasher \<Rightarrow> byte list" where
  "CSHA256_Finalize h =
     (let s = hs (Pad_with sha256_Transform WriteBE64 h)
      in WriteBE32 (s ! 0) @ WriteBE32 (s ! 1) @ WriteBE32 (s ! 2) @ WriteBE32 (s ! 3) @
         WriteBE32 (s ! 4) @ WriteBE32 (s ! 5) @ WriteBE32 (s ! 6) @ WriteBE32 (s ! 7))"

definition CSHA256_Reset :: "hasher \<Rightarrow> hasher" where
  "CSHA256_Reset h = h\<lparr>hbytes := 0, hs := sha256_Initialize\<rparr>"

subsection \<open>The hash of FIPS 180-4\<close>

definition fips_Ch :: "u32 \<Rightarrow> u32 \<Rightarrow> u32 \<Rightarrow> u32" where
  "fips_Ch x y z = (x AND y) XOR (NOT x AND z)"

definition fips_Maj :: "u32 \<Rightarrow> u32 \<Rightarrow> u32 \<Rightarrow> u32" where
  "fips_Maj x y z = (x AND y) XOR (x AND z) XOR (y AND z)"

text \<open>
  The constants of the standard are the first 32 bits of the fractional parts of the cube roots
  of the first 64 primes, and of the square roots of the first eight. \<open>iroot k n b c\<close> finds the
  integer root of \<open>n\<close> between \<open>c\<close> and \<open>c + 2 ^ b\<close>.
\<close>

fun iroot :: "nat \<Rightarrow> nat \<Rightarrow> nat \<Rightarrow> nat \<Rightarrow> nat" where
  "iroot k n 0 c = c"
| "iroot k n (Suc b) c = iroot k n b (if (c + 2 ^ b) ^ k \<le> n then c + 2 ^ b else c)"

definition fips_primes :: "nat list" where
  "fips_primes = filter (\<lambda>n. \<forall>p \<in> set [2, 3, 5, 7, 11, 13, 17]. p dvd n \<longrightarrow> n = p) [2..<312]"

definition fips_K :: "nat \<Rightarrow> u32" where
  "fips_K t = of_nat (iroot 3 (fips_primes ! t * 2 ^ 96) 35 0)"

definition fips_H0 :: "u32 list" where
  "fips_H0 = map (\<lambda>p. of_nat (iroot 2 (p * 2 ^ 64) 35 0)) (take 8 fips_primes)"

fun fips_W :: "byte list \<Rightarrow> nat \<Rightarrow> u32" where
  "fips_W M t =
     (if t < 16 then ReadBE32 (drop (4 * t) M)
      else (word_rotr 17 (fips_W M (t - 2)) XOR word_rotr 19 (fips_W M (t - 2)) XOR
              drop_bit 10 (fips_W M (t - 2))) + fips_W M (t - 7) +
           (word_rotr 7 (fips_W M (t - 15)) XOR word_rotr 18 (fips_W M (t - 15)) XOR
              drop_bit 3 (fips_W M (t - 15))) + fips_W M (t - 16))"

declare fips_W.simps [simp del]

fun fips_step :: "u32 \<Rightarrow> u32 \<Rightarrow> regs8 \<Rightarrow> regs8" where
  "fips_step K W (a, b, c, d, e, f, g, h) =
     (let T1 = h + (word_rotr 6 e XOR word_rotr 11 e XOR word_rotr 25 e) + fips_Ch e f g + K + W;
          T2 = (word_rotr 2 a XOR word_rotr 13 a XOR word_rotr 22 a) + fips_Maj a b c
      in (T1 + T2, a, b, c, d + T1, e, f, g))"

primrec fips_rounds :: "byte list \<Rightarrow> regs8 \<Rightarrow> nat \<Rightarrow> regs8" where
  "fips_rounds M H 0 = H"
| "fips_rounds M H (Suc t) = fips_step (fips_K t) (fips_W M t) (fips_rounds M H t)"

definition fips_compress :: "u32 list \<Rightarrow> byte list \<Rightarrow> u32 list" where
  "fips_compress H M =
     (case fips_rounds M (H ! 0, H ! 1, H ! 2, H ! 3, H ! 4, H ! 5, H ! 6, H ! 7) 64 of
        (a, b, c, d, e, f, g, h) \<Rightarrow>
          [a + H ! 0, b + H ! 1, c + H ! 2, d + H ! 3, e + H ! 4, f + H ! 5, g + H ! 6, h + H ! 7])"

definition fips_sha256 :: "byte list \<Rightarrow> byte list" where
  "fips_sha256 msg =
     concat (map WriteBE32
       (foldl fips_compress fips_H0 (blocks64 (msg @ md_padding WriteBE64 (length msg)))))"

subsection \<open>The constants\<close>

lemma iroot_bounds:
  "c ^ k \<le> n \<Longrightarrow> n < (c + 2 ^ b) ^ k \<Longrightarrow> iroot k n b c ^ k \<le> n \<and> n < (iroot k n b c + 1) ^ k"
proof (induction b arbitrary: c)
  case (Suc b)
  have "c + 2 ^ b + 2 ^ b = c + 2 ^ Suc b" by simp
  with Suc.IH [of "c + 2 ^ b"] Suc.IH [of c] Suc.prems show ?case
    by (cases "(c + 2 ^ b) ^ k \<le> n") (simp_all del: power_Suc)
qed simp

lemma root_unique:
  assumes "(r :: nat) ^ k \<le> n" "n < (r + 1) ^ k" "s ^ k \<le> n" "n < (s + 1) ^ k"
  shows "r = s"
proof -
  have lt: "x < y + 1" if "x ^ k \<le> n" "n < (y + 1) ^ k" for x y :: nat
    using power_less_imp_less_base [of x k "y + 1"] le_less_trans [OF that] by simp
  from lt [OF assms(1,4)] lt [OF assms(3,2)] show ?thesis by simp
qed

lemma iroot_eq:
  assumes "0 < k" "r ^ k \<le> n" "n < (r + 1) ^ k" "n < (2 ^ b) ^ k"
  shows "iroot k n b 0 = r"
proof (rule root_unique [OF _ _ assms(2,3)])
  have "iroot k n b 0 ^ k \<le> n \<and> n < (iroot k n b 0 + 1) ^ k"
    using assms(1,4) by (intro iroot_bounds) (simp_all add: zero_power)
  then show "iroot k n b 0 ^ k \<le> n" "n < (iroot k n b 0 + 1) ^ k" by blast+
qed

lemma fips_primes_eq:
  "fips_primes =
    [2, 3, 5, 7, 11, 13, 17, 19, 23, 29, 31, 37, 41, 43, 47, 53,
     59, 61, 67, 71, 73, 79, 83, 89, 97, 101, 103, 107, 109, 113, 127, 131,
     137, 139, 149, 151, 157, 163, 167, 173, 179, 181, 191, 193, 197, 199, 211, 223,
     227, 229, 233, 239, 241, 251, 257, 263, 269, 271, 277, 281, 283, 293, 307, 311]"
  by (simp add: fips_primes_def)

lemma fips_K_0:
  "fips_K 0 = 0x428a2f98"
  "fips_K 1 = 0x71374491"
  "fips_K 2 = 0xb5c0fbcf"
  "fips_K 3 = 0xe9b5dba5"
  "fips_K 4 = 0x3956c25b"
  "fips_K 5 = 0x59f111f1"
  "fips_K 6 = 0x923f82a4"
  "fips_K 7 = 0xab1c5ed5"
  "fips_K 8 = 0xd807aa98"
  "fips_K 9 = 0x12835b01"
  "fips_K 10 = 0x243185be"
  "fips_K 11 = 0x550c7dc3"
  "fips_K 12 = 0x72be5d74"
  "fips_K 13 = 0x80deb1fe"
  "fips_K 14 = 0x9bdc06a7"
  "fips_K 15 = 0xc19bf174"
  by (simp_all add: fips_K_def fips_primes_eq
      iroot_eq [of 3 5411319704]
      iroot_eq [of 3 6194414737]
      iroot_eq [of 3 7344290767]
      iroot_eq [of 3 8215976869]
      iroot_eq [of 3 9551921755]
      iroot_eq [of 3 10098905585]
      iroot_eq [of 3 11043570340]
      iroot_eq [of 3 11460697813]
      iroot_eq [of 3 12214315672]
      iroot_eq [of 3 13195500289]
      iroot_eq [of 3 13492127166]
      iroot_eq [of 3 14311783875]
      iroot_eq [of 3 14809980276]
      iroot_eq [of 3 15046980094]
      iroot_eq [of 3 15499789991]
      iroot_eq [of 3 16133124468])

lemma fips_K_1:
  "fips_K 16 = 0xe49b69c1"
  "fips_K 17 = 0xefbe4786"
  "fips_K 18 = 0x0fc19dc6"
  "fips_K 19 = 0x240ca1cc"
  "fips_K 20 = 0x2de92c6f"
  "fips_K 21 = 0x4a7484aa"
  "fips_K 22 = 0x5cb0a9dc"
  "fips_K 23 = 0x76f988da"
  "fips_K 24 = 0x983e5152"
  "fips_K 25 = 0xa831c66d"
  "fips_K 26 = 0xb00327c8"
  "fips_K 27 = 0xbf597fc7"
  "fips_K 28 = 0xc6e00bf3"
  "fips_K 29 = 0xd5a79147"
  "fips_K 30 = 0x06ca6351"
  "fips_K 31 = 0x14292967"
  by (simp_all add: fips_K_def fips_primes_eq
      iroot_eq [of 3 16720292289]
      iroot_eq [of 3 16907126662]
      iroot_eq [of 3 17444216262]
      iroot_eq [of 3 17784676812]
      iroot_eq [of 3 17950125167]
      iroot_eq [of 3 18429019306]
      iroot_eq [of 3 18734950876]
      iroot_eq [of 3 19175934170]
      iroot_eq [of 3 19734090066]
      iroot_eq [of 3 20001703533]
      iroot_eq [of 3 20132865992]
      iroot_eq [of 3 20390182855]
      iroot_eq [of 3 20516441075]
      iroot_eq [of 3 20764397895]
      iroot_eq [of 3 21588763473]
      iroot_eq [of 3 21813078375])

lemma fips_K_2:
  "fips_K 32 = 0x27b70a85"
  "fips_K 33 = 0x2e1b2138"
  "fips_K 34 = 0x4d2c6dfc"
  "fips_K 35 = 0x53380d13"
  "fips_K 36 = 0x650a7354"
  "fips_K 37 = 0x766a0abb"
  "fips_K 38 = 0x81c2c92e"
  "fips_K 39 = 0x92722c85"
  "fips_K 40 = 0xa2bfe8a1"
  "fips_K 41 = 0xa81a664b"
  "fips_K 42 = 0xc24b8b70"
  "fips_K 43 = 0xc76c51a3"
  "fips_K 44 = 0xd192e819"
  "fips_K 45 = 0xd6990624"
  "fips_K 46 = 0xf40e3585"
  "fips_K 47 = 0x106aa070"
  by (simp_all add: fips_K_def fips_primes_eq
      iroot_eq [of 3 22141143685]
      iroot_eq [of 3 22248366392]
      iroot_eq [of 3 22769593852]
      iroot_eq [of 3 22871018771]
      iroot_eq [of 3 23170020180]
      iroot_eq [of 3 23461497531]
      iroot_eq [of 3 23651862830]
      iroot_eq [of 3 23931792517]
      iroot_eq [of 3 24205322401]
      iroot_eq [of 3 24295138891]
      iroot_eq [of 3 24734567280]
      iroot_eq [of 3 24820601251]
      iroot_eq [of 3 24990902297]
      iroot_eq [of 3 25075189284]
      iroot_eq [of 3 25569408389]
      iroot_eq [of 3 26045227120])

lemma fips_K_3:
  "fips_K 48 = 0x19a4c116"
  "fips_K 49 = 0x1e376c08"
  "fips_K 50 = 0x2748774c"
  "fips_K 51 = 0x34b0bcb5"
  "fips_K 52 = 0x391c0cb3"
  "fips_K 53 = 0x4ed8aa4a"
  "fips_K 54 = 0x5b9cca4f"
  "fips_K 55 = 0x682e6ff3"
  "fips_K 56 = 0x748f82ee"
  "fips_K 57 = 0x78a5636f"
  "fips_K 58 = 0x84c87814"
  "fips_K 59 = 0x8cc70208"
  "fips_K 60 = 0x90befffa"
  "fips_K 61 = 0xa4506ceb"
  "fips_K 62 = 0xbef9a3f7"
  "fips_K 63 = 0xc67178f2"
  by (simp_all add: fips_K_def fips_primes_eq
      iroot_eq [of 3 26200031510]
      iroot_eq [of 3 26276752392]
      iroot_eq [of 3 26428864332]
      iroot_eq [of 3 26653801653]
      iroot_eq [of 3 26727943347]
      iroot_eq [of 3 27092625994]
      iroot_eq [of 3 27306805839]
      iroot_eq [of 3 27517677555]
      iroot_eq [of 3 27725365998]
      iroot_eq [of 3 27793908591]
      iroot_eq [of 3 27997534228]
      iroot_eq [of 3 28131656200]
      iroot_eq [of 3 28198240250]
      iroot_eq [of 3 28526537963]
      iroot_eq [of 3 28973835255]
      iroot_eq [of 3 29099129074])

lemma fips_H0_eq: "fips_H0 = sha256_Initialize"
  by (simp add: fips_H0_def fips_primes_eq sha256_Initialize_def
      iroot_eq [of 2 6074000999]
      iroot_eq [of 2 7439101573]
      iroot_eq [of 2 9603838834]
      iroot_eq [of 2 11363415354]
      iroot_eq [of 2 14244795007]
      iroot_eq [of 2 15485724812]
      iroot_eq [of 2 17708603819]
      iroot_eq [of 2 18721328409])

subsection \<open>The unrolled rounds against the reference\<close>

lemma rotr_shift: "n < 32 \<Longrightarrow> drop_bit n x OR push_bit (32 - n) x = word_rotr n (x :: u32)"
proof (rule bit_word_eqI)
  fix m assume n: "n < 32" and "m < LENGTH(32)"
  then have m: "m < 32" by simp
  show "bit (drop_bit n x OR push_bit (32 - n) x) m = bit (word_rotr n x) m"
  proof (cases "m + n < 32")
    case True
    with n m show ?thesis by (auto simp: bit_simps bit_word_rotr_iff add.commute)
  next
    case False
    then have "(m + n) mod 32 = m + n - 32" "\<not> bit x (m + n)"
      using n m by (simp_all add: mod_if bit_word.rep_eq)
    with False n m show ?thesis by (auto simp: bit_simps bit_word_rotr_iff add.commute)
  qed
qed

lemmas rotr_shifts =
  rotr_shift [of 2, simplified] rotr_shift [of 6, simplified] rotr_shift [of 7, simplified]
  rotr_shift [of 11, simplified] rotr_shift [of 13, simplified] rotr_shift [of 17, simplified]
  rotr_shift [of 18, simplified] rotr_shift [of 19, simplified] rotr_shift [of 22, simplified]
  rotr_shift [of 25, simplified]

lemma sha256_Ch_eq: "sha256_Ch = fips_Ch"
  unfolding sha256_Ch_def fips_Ch_def by (intro ext, rule bit_word_eqI) (auto simp: bit_simps)

lemma sha256_Maj_eq: "sha256_Maj = fips_Maj"
  unfolding sha256_Maj_def fips_Maj_def by (intro ext, rule bit_word_eqI) (auto simp: bit_simps)

text \<open>One \<open>Round\<close> is one step of the reference without the move of the registers.\<close>

lemma sha256_Round_step:
  "sha256_Round a b c d e f g h K W = (d', h') \<Longrightarrow>
   fips_step K W (a, b, c, d, e, f, g, h) = (h', a, b, c, d', e, f, g)"
  by (auto simp: sha256_Round_def Let_def sha256_Ch_eq sha256_Maj_eq
      sha256_Sigma0_def sha256_Sigma1_def rotr_shifts)

lemma sha256_sigmas_eq:
  "sha256_sigma0 x = word_rotr 7 x XOR word_rotr 18 x XOR drop_bit 3 x"
  "sha256_sigma1 x = word_rotr 17 x XOR word_rotr 19 x XOR drop_bit 10 x"
  by (simp_all add: sha256_sigma0_def sha256_sigma1_def rotr_shifts)

lemma fips_W_step:
  "fips_W M t + (sha256_sigma1 (fips_W M (t + 14)) + fips_W M (t + 9) + sha256_sigma0 (fips_W M (t + 1)))
   = fips_W M (t + 16)"
  by (subst fips_W.simps [of M "t + 16"])
    (simp add: sha256_sigmas_eq ac_simps)

text \<open>
  The registers as two sequences: after \<open>t\<close> rounds \<open>a\<close> to \<open>d\<close> are four consecutive values of
  \<open>regA\<close> and \<open>e\<close> to \<open>h\<close> of \<open>regE\<close>.
\<close>

definition regA :: "byte list \<Rightarrow> regs8 \<Rightarrow> nat \<Rightarrow> u32" where
  "regA M H n =
     (case H of (a, b, c, d, _) \<Rightarrow>
        if n = 0 then d else if n = 1 then c else if n = 2 then b else fst (fips_rounds M H (n - 3)))"

definition regE :: "byte list \<Rightarrow> regs8 \<Rightarrow> nat \<Rightarrow> u32" where
  "regE M H n =
     (case H of (a, b, c, d, e, f, g, h) \<Rightarrow>
        if n = 0 then h else if n = 1 then g else if n = 2 then f
        else fst (snd (snd (snd (snd (fips_rounds M H (n - 3)))))))"

lemma regs_fst:
  "regA M H (t + 3) = fst (fips_rounds M H t)"
  "regE M H (t + 3) = fst (snd (snd (snd (snd (fips_rounds M H t)))))"
  by (simp_all add: regA_def regE_def split: prod.split)

lemma fips_rounds_regs:
  "fips_rounds M H t =
     (regA M H (t + 3), regA M H (t + 2), regA M H (t + 1), regA M H t,
      regE M H (t + 3), regE M H (t + 2), regE M H (t + 1), regE M H t)"
proof (induction t)
  case 0
  then show ?case by (simp add: regA_def regE_def split: prod.split)
next
  case (Suc t)
  have eq: "fips_rounds M H (Suc t) = fips_step (fips_K t) (fips_W M t) (fips_rounds M H t)" by simp
  from regs_fst [of M H "Suc t"] show ?case
    unfolding eq Suc.IH by (simp add: Let_def) (simp add: eval_nat_numeral)
qed

lemma sha256_Round_regs:
  "sha256_Round (regA M H (t + 3)) (regA M H (t + 2)) (regA M H (t + 1)) (regA M H t)
     (regE M H (t + 3)) (regE M H (t + 2)) (regE M H (t + 1)) (regE M H t)
     (fips_K t) (fips_W M t) = (regE M H (t + 4), regA M H (t + 4))"
proof (cases "sha256_Round (regA M H (t + 3)) (regA M H (t + 2)) (regA M H (t + 1)) (regA M H t)
     (regE M H (t + 3)) (regE M H (t + 2)) (regE M H (t + 1)) (regE M H t)
     (fips_K t) (fips_W M t)")
  case (Pair d' h')
  from sha256_Round_step [OF Pair]
  have "fips_rounds M H (Suc t) = (h', regA M H (t + 3), regA M H (t + 2), regA M H (t + 1),
      d', regE M H (t + 3), regE M H (t + 2), regE M H (t + 1))"
    by (simp add: fips_rounds_regs [of M H t])
  with Pair fips_rounds_regs [of M H "Suc t"] show ?thesis
    by (simp del: fips_rounds.simps add: eval_nat_numeral)
qed

lemma Let_Pair: "Let (x, y) (\<lambda>(a, b). f a b) = f x y"
  by simp

lemma Let_fips_W: "Let (fips_W M t) f = f (fips_W M t)"
  by (simp add: Let_def)

lemmas fips_W_step' = fips_W_step [unfolded add.assoc [symmetric]]

text \<open>The words of the schedule after \<open>t\<close> rounds are the sixteen values from \<open>t\<close> on.\<close>

definition sched :: "byte list \<Rightarrow> nat \<Rightarrow> words16" where
  "sched M t =
     (fips_W M t, fips_W M (t + 1), fips_W M (t + 2), fips_W M (t + 3), fips_W M (t + 4),
      fips_W M (t + 5), fips_W M (t + 6), fips_W M (t + 7), fips_W M (t + 8), fips_W M (t + 9),
      fips_W M (t + 10), fips_W M (t + 11), fips_W M (t + 12), fips_W M (t + 13),
      fips_W M (t + 14), fips_W M (t + 15))"

lemma fips_W_chunk: "t < 16 \<Longrightarrow> ReadBE32 (drop (4 * t) M) = fips_W M t"
  by (simp add: fips_W.simps)

lemmas sha256_round_facts_0 =
  sha256_Round_regs [of _ _ 0, unfolded fips_K_0, simplified, folded numeral_3_eq_3 numeral_2_eq_2]
  sha256_Round_regs [of _ _ 1, unfolded fips_K_0, simplified, folded numeral_3_eq_3 numeral_2_eq_2]
  sha256_Round_regs [of _ _ 2, unfolded fips_K_0, simplified]
  sha256_Round_regs [of _ _ 3, unfolded fips_K_0, simplified]
  sha256_Round_regs [of _ _ 4, unfolded fips_K_0, simplified]
  sha256_Round_regs [of _ _ 5, unfolded fips_K_0, simplified]
  sha256_Round_regs [of _ _ 6, unfolded fips_K_0, simplified]
  sha256_Round_regs [of _ _ 7, unfolded fips_K_0, simplified]
  sha256_Round_regs [of _ _ 8, unfolded fips_K_0, simplified]
  sha256_Round_regs [of _ _ 9, unfolded fips_K_0, simplified]
  sha256_Round_regs [of _ _ 10, unfolded fips_K_0, simplified]
  sha256_Round_regs [of _ _ 11, unfolded fips_K_0, simplified]
  sha256_Round_regs [of _ _ 12, unfolded fips_K_0, simplified]
  sha256_Round_regs [of _ _ 13, unfolded fips_K_0, simplified]
  sha256_Round_regs [of _ _ 14, unfolded fips_K_0, simplified]
  sha256_Round_regs [of _ _ 15, unfolded fips_K_0, simplified]

lemmas sha256_round_facts_1 =
  sha256_Round_regs [of _ _ 16, unfolded fips_K_1, simplified]
  fips_W_step [of _ 0, simplified]
  sha256_Round_regs [of _ _ 17, unfolded fips_K_1, simplified]
  fips_W_step [of _ 1, simplified, folded numeral_2_eq_2]
  sha256_Round_regs [of _ _ 18, unfolded fips_K_1, simplified]
  fips_W_step [of _ 2, simplified]
  sha256_Round_regs [of _ _ 19, unfolded fips_K_1, simplified]
  fips_W_step [of _ 3, simplified]
  sha256_Round_regs [of _ _ 20, unfolded fips_K_1, simplified]
  fips_W_step [of _ 4, simplified]
  sha256_Round_regs [of _ _ 21, unfolded fips_K_1, simplified]
  fips_W_step [of _ 5, simplified]
  sha256_Round_regs [of _ _ 22, unfolded fips_K_1, simplified]
  fips_W_step [of _ 6, simplified]
  sha256_Round_regs [of _ _ 23, unfolded fips_K_1, simplified]
  fips_W_step [of _ 7, simplified]
  sha256_Round_regs [of _ _ 24, unfolded fips_K_1, simplified]
  fips_W_step [of _ 8, simplified]
  sha256_Round_regs [of _ _ 25, unfolded fips_K_1, simplified]
  fips_W_step [of _ 9, simplified]
  sha256_Round_regs [of _ _ 26, unfolded fips_K_1, simplified]
  fips_W_step [of _ 10, simplified]
  sha256_Round_regs [of _ _ 27, unfolded fips_K_1, simplified]
  fips_W_step [of _ 11, simplified]
  sha256_Round_regs [of _ _ 28, unfolded fips_K_1, simplified]
  fips_W_step [of _ 12, simplified]
  sha256_Round_regs [of _ _ 29, unfolded fips_K_1, simplified]
  fips_W_step [of _ 13, simplified]
  sha256_Round_regs [of _ _ 30, unfolded fips_K_1, simplified]
  fips_W_step [of _ 14, simplified]
  sha256_Round_regs [of _ _ 31, unfolded fips_K_1, simplified]
  fips_W_step [of _ 15, simplified]

lemmas sha256_round_facts_2 =
  sha256_Round_regs [of _ _ 32, unfolded fips_K_2, simplified]
  fips_W_step [of _ 16, simplified]
  sha256_Round_regs [of _ _ 33, unfolded fips_K_2, simplified]
  fips_W_step [of _ 17, simplified]
  sha256_Round_regs [of _ _ 34, unfolded fips_K_2, simplified]
  fips_W_step [of _ 18, simplified]
  sha256_Round_regs [of _ _ 35, unfolded fips_K_2, simplified]
  fips_W_step [of _ 19, simplified]
  sha256_Round_regs [of _ _ 36, unfolded fips_K_2, simplified]
  fips_W_step [of _ 20, simplified]
  sha256_Round_regs [of _ _ 37, unfolded fips_K_2, simplified]
  fips_W_step [of _ 21, simplified]
  sha256_Round_regs [of _ _ 38, unfolded fips_K_2, simplified]
  fips_W_step [of _ 22, simplified]
  sha256_Round_regs [of _ _ 39, unfolded fips_K_2, simplified]
  fips_W_step [of _ 23, simplified]
  sha256_Round_regs [of _ _ 40, unfolded fips_K_2, simplified]
  fips_W_step [of _ 24, simplified]
  sha256_Round_regs [of _ _ 41, unfolded fips_K_2, simplified]
  fips_W_step [of _ 25, simplified]
  sha256_Round_regs [of _ _ 42, unfolded fips_K_2, simplified]
  fips_W_step [of _ 26, simplified]
  sha256_Round_regs [of _ _ 43, unfolded fips_K_2, simplified]
  fips_W_step [of _ 27, simplified]
  sha256_Round_regs [of _ _ 44, unfolded fips_K_2, simplified]
  fips_W_step [of _ 28, simplified]
  sha256_Round_regs [of _ _ 45, unfolded fips_K_2, simplified]
  fips_W_step [of _ 29, simplified]
  sha256_Round_regs [of _ _ 46, unfolded fips_K_2, simplified]
  fips_W_step [of _ 30, simplified]
  sha256_Round_regs [of _ _ 47, unfolded fips_K_2, simplified]
  fips_W_step [of _ 31, simplified]

lemmas sha256_round_facts_3 =
  sha256_Round_regs [of _ _ 48, unfolded fips_K_3, simplified]
  fips_W_step [of _ 32, simplified]
  sha256_Round_regs [of _ _ 49, unfolded fips_K_3, simplified]
  fips_W_step [of _ 33, simplified]
  sha256_Round_regs [of _ _ 50, unfolded fips_K_3, simplified]
  fips_W_step [of _ 34, simplified]
  sha256_Round_regs [of _ _ 51, unfolded fips_K_3, simplified]
  fips_W_step [of _ 35, simplified]
  sha256_Round_regs [of _ _ 52, unfolded fips_K_3, simplified]
  fips_W_step [of _ 36, simplified]
  sha256_Round_regs [of _ _ 53, unfolded fips_K_3, simplified]
  fips_W_step [of _ 37, simplified]
  sha256_Round_regs [of _ _ 54, unfolded fips_K_3, simplified]
  fips_W_step [of _ 38, simplified]
  sha256_Round_regs [of _ _ 55, unfolded fips_K_3, simplified]
  fips_W_step [of _ 39, simplified]
  sha256_Round_regs [of _ _ 56, unfolded fips_K_3, simplified]
  fips_W_step [of _ 40, simplified]
  sha256_Round_regs [of _ _ 57, unfolded fips_K_3, simplified]
  fips_W_step [of _ 41, simplified]
  sha256_Round_regs [of _ _ 58, unfolded fips_K_3, simplified]
  fips_W_step [of _ 42, simplified]
  sha256_Round_regs [of _ _ 59, unfolded fips_K_3, simplified]
  fips_W_step [of _ 43, simplified]
  sha256_Round_regs [of _ _ 60, unfolded fips_K_3, simplified]
  fips_W_step [of _ 44, simplified]
  sha256_Round_regs [of _ _ 61, unfolded fips_K_3, simplified]
  fips_W_step [of _ 45, simplified]
  sha256_Round_regs [of _ _ 62, unfolded fips_K_3, simplified]
  sha256_Round_regs [of _ _ 63, unfolded fips_K_3, simplified]
  fips_W_step' [of _ 46, simplified]
  fips_W_step' [of _ 47, simplified]

lemma sha256_rounds_0_eq:
  "sha256_rounds_0 (fips_rounds M H 0) M = (fips_rounds M H 16, sched M 0)"
  by (simp only: sha256_rounds_0_def prod.case Let_Pair Let_fips_W One_nat_def drop_0
      fips_rounds_regs [of _ _ 0, unfolded add_0] fips_rounds_regs [of _ _ 16, simplified]
      sched_def [of _ 0, simplified, folded numeral_2_eq_2] sha256_round_facts_0
      fips_W_chunk [of 0 M, simplified] fips_W_chunk [of 1 M, simplified]
      fips_W_chunk [of 2 M, simplified] fips_W_chunk [of 3 M, simplified]
      fips_W_chunk [of 4 M, simplified] fips_W_chunk [of 5 M, simplified]
      fips_W_chunk [of 6 M, simplified] fips_W_chunk [of 7 M, simplified]
      fips_W_chunk [of 8 M, simplified] fips_W_chunk [of 9 M, simplified]
      fips_W_chunk [of 10 M, simplified] fips_W_chunk [of 11 M, simplified]
      fips_W_chunk [of 12 M, simplified] fips_W_chunk [of 13 M, simplified]
      fips_W_chunk [of 14 M, simplified] fips_W_chunk [of 15 M, simplified])

lemma sha256_rounds_1_eq:
  "sha256_rounds_1 (fips_rounds M H 16) (sched M 0) = (fips_rounds M H 32, sched M 16)"
  by (simp only: sha256_rounds_1_def prod.case Let_Pair Let_fips_W One_nat_def drop_0
      fips_rounds_regs [of _ _ 16, simplified] fips_rounds_regs [of _ _ 32, simplified]
      sched_def [of _ 0, simplified, folded numeral_2_eq_2] sched_def [of _ 16, simplified] sha256_round_facts_1)

lemma sha256_rounds_2_eq:
  "sha256_rounds_2 (fips_rounds M H 32) (sched M 16) = (fips_rounds M H 48, sched M 32)"
  by (simp only: sha256_rounds_2_def prod.case Let_Pair Let_fips_W One_nat_def drop_0
      fips_rounds_regs [of _ _ 32, simplified] fips_rounds_regs [of _ _ 48, simplified]
      sched_def [of _ 16, simplified] sched_def [of _ 32, simplified] sha256_round_facts_2)

lemma sha256_rounds_3_eq:
  "sha256_rounds_3 (fips_rounds M H 48) (sched M 32) = fips_rounds M H 64"
  by (simp only: sha256_rounds_3_def prod.case Let_Pair Let_fips_W One_nat_def drop_0
      fips_rounds_regs [of _ _ 48, simplified] fips_rounds_regs [of _ _ 64, simplified]
      sched_def [of _ 32, simplified] sha256_round_facts_3)

lemma sha256_Transform_fips: "sha256_Transform = fips_compress"
proof (intro ext)
  fix s :: "u32 list" and M
  let ?H = "(s ! 0, s ! 1, s ! 2, s ! 3, s ! 4, s ! 5, s ! 6, s ! 7)"
  have "fips_rounds M ?H 0 = ?H" by simp
  with sha256_rounds_0_eq [of M ?H] sha256_rounds_1_eq [of M ?H] sha256_rounds_2_eq [of M ?H]
    sha256_rounds_3_eq [of M ?H]
  show "sha256_Transform s M = fips_compress s M"
    by (simp add: sha256_Transform_def fips_compress_def add.commute split: prod.split)
qed

lemma length_fips_compress: "length (fips_compress H M) = 8"
  by (simp add: fips_compress_def split: prod.split)

lemma length_sha256_Initialize: "length sha256_Initialize = 8"
  by (simp add: sha256_Initialize_def)

lemma length_foldl_fips: "length H = 8 \<Longrightarrow> length (foldl fips_compress H bs) = 8"
  by (induction bs arbitrary: H) (simp_all add: length_fips_compress)

lemma words8: "length xs = 8 \<Longrightarrow>
  concat (map f xs) = f (xs ! 0) @ f (xs ! 1) @ f (xs ! 2) @ f (xs ! 3) @ f (xs ! 4) @ f (xs ! 5) @
    f (xs ! 6) @ f (xs ! 7)"
  by (auto simp: eval_nat_numeral length_Suc_conv)

text \<open>The contract of the streaming classes holds for \<open>CSHA256\<close>.\<close>

interpretation csha256: md_stream sha256_Transform sha256_Initialize WriteBE64
  "\<lambda>s. WriteBE32 (s ! 0) @ WriteBE32 (s ! 1) @ WriteBE32 (s ! 2) @ WriteBE32 (s ! 3) @
        WriteBE32 (s ! 4) @ WriteBE32 (s ! 5) @ WriteBE32 (s ! 6) @ WriteBE32 (s ! 7)"
  CSHA256_Reset CSHA256_Write CSHA256_Finalize
  by unfold_locales
    (simp_all add: CSHA256_Reset_def CSHA256_Write_def CSHA256_Finalize_def Let_def length_Write)

lemma CSHA256_Reset_new: "CSHA256_Reset (CSHA256 buf) = CSHA256 buf"
  by (simp add: CSHA256_Reset_def CSHA256_def)

lemma CSHA256_fips:
  assumes "length buf = 64"
  shows "CSHA256_Finalize (foldl CSHA256_Write (CSHA256 buf) datas) = fips_sha256 (concat datas)"
proof -
  have "length (hbuf (CSHA256 buf)) = 64" using assms by (simp add: CSHA256_def)
  from csha256.Finalize_Writes [OF this, of datas] show ?thesis
    by (simp add: CSHA256_Reset_new fips_sha256_def fips_H0_eq sha256_Transform_fips
        words8 length_foldl_fips length_sha256_Initialize)
qed

lemma length_fips_sha256: "length (fips_sha256 msg) = 32"
  by (simp add: fips_sha256_def fips_H0_eq words8 length_foldl_fips length_sha256_Initialize length_Write)

text \<open>
  C2: \<open>CSHA256\<close> computes SHA-256. Whatever the uninitialised buffer held, and however the
  message is split over the calls of \<open>Write\<close>, \<open>Finalize\<close> writes the 32 bytes of the FIPS 180-4
  hash of the concatenation: the unrolled \<open>Transform\<close> is the compression function and the
  buffering, the padding and the length are right.
\<close>

theorem sha256_computes_fips:
  assumes "length buf = 64"
  shows "CSHA256_Finalize (foldl CSHA256_Write (CSHA256 buf) datas) = fips_sha256 (concat datas) \<and>
         length (CSHA256_Finalize (foldl CSHA256_Write (CSHA256 buf) datas)) = 32"
  using CSHA256_fips [OF assms] length_fips_sha256 by simp

theorem sha256_computes_fips_witness:
  "CSHA256_Finalize (foldl CSHA256_Write (CSHA256 (replicate 64 0xAA)) [[0x61], [0x62, 0x63]]) =
     fips_sha256 [0x61, 0x62, 0x63]"
  using sha256_computes_fips [of "replicate 64 0xAA" "[[0x61], [0x62, 0x63]]"] by simp

end
