(* ===== verification/Sha1.thy ===== *)
theory Sha1
  imports Hash_Stream
begin

text \<open>
  SHA-1 as \<^verbatim>\<open>src/src/crypto/sha1.cpp\<close> has it: 80 unrolled rounds over five registers, cut here
  into five groups of sixteen, and the streaming class \<open>CSHA1\<close>.
\<close>

text \<open>\<open>Round\<close> updates its reference arguments \<open>b\<close> and \<open>e\<close>; both are returned.\<close>

definition sha1_Round ::
  "u32 \<Rightarrow> u32 \<Rightarrow> u32 \<Rightarrow> u32 \<Rightarrow> u32 \<Rightarrow> u32 \<Rightarrow> u32 \<Rightarrow> u32 \<Rightarrow> u32 \<times> u32" where
  "sha1_Round a b c d e f k w =
     (push_bit 30 b OR drop_bit 2 b,
      e + ((push_bit 5 a OR drop_bit 27 a) + f + k + w))"

definition sha1_f1 :: "u32 \<Rightarrow> u32 \<Rightarrow> u32 \<Rightarrow> u32" where
  "sha1_f1 b c d = d XOR (b AND (c XOR d))"

definition sha1_f2 :: "u32 \<Rightarrow> u32 \<Rightarrow> u32 \<Rightarrow> u32" where
  "sha1_f2 b c d = b XOR c XOR d"

definition sha1_f3 :: "u32 \<Rightarrow> u32 \<Rightarrow> u32 \<Rightarrow> u32" where
  "sha1_f3 b c d = (b AND c) OR (d AND (b OR c))"

definition sha1_left :: "u32 \<Rightarrow> u32" where
  "sha1_left x = push_bit 1 x OR drop_bit 31 x"

definition sha1_Initialize :: "u32 list" where
  "sha1_Initialize = [0x67452301, 0xEFCDAB89, 0x98BADCFE, 0x10325476, 0xC3D2E1F0]"

definition sha1_k1 :: u32 where
  "sha1_k1 = 0x5A827999"

definition sha1_k2 :: u32 where
  "sha1_k2 = 0x6ED9EBA1"

definition sha1_k3 :: u32 where
  "sha1_k3 = 0x8F1BBCDC"

definition sha1_k4 :: u32 where
  "sha1_k4 = 0xCA62C1D6"

type_synonym sha1_words =
  "u32 \<times> u32 \<times> u32 \<times> u32 \<times> u32 \<times> u32 \<times> u32 \<times> u32 \<times> u32 \<times> u32 \<times> u32 \<times> u32 \<times> u32 \<times> u32 \<times> u32 \<times> u32"

type_synonym sha1_regs = "u32 \<times> u32 \<times> u32 \<times> u32 \<times> u32"

definition sha1_rounds_0 :: "sha1_regs \<Rightarrow> byte list \<Rightarrow> sha1_regs \<times> sha1_words" where
  "sha1_rounds_0 = (\<lambda>(a, b, c, d, e) chunk.
     let w0 = ReadBE32 (drop 0 chunk);
         (b, e) = sha1_Round a b c d e (sha1_f1 b c d) sha1_k1 w0;
         w1 = ReadBE32 (drop 4 chunk);
         (a, d) = sha1_Round e a b c d (sha1_f1 a b c) sha1_k1 w1;
         w2 = ReadBE32 (drop 8 chunk);
         (e, c) = sha1_Round d e a b c (sha1_f1 e a b) sha1_k1 w2;
         w3 = ReadBE32 (drop 12 chunk);
         (d, b) = sha1_Round c d e a b (sha1_f1 d e a) sha1_k1 w3;
         w4 = ReadBE32 (drop 16 chunk);
         (c, a) = sha1_Round b c d e a (sha1_f1 c d e) sha1_k1 w4;
         w5 = ReadBE32 (drop 20 chunk);
         (b, e) = sha1_Round a b c d e (sha1_f1 b c d) sha1_k1 w5;
         w6 = ReadBE32 (drop 24 chunk);
         (a, d) = sha1_Round e a b c d (sha1_f1 a b c) sha1_k1 w6;
         w7 = ReadBE32 (drop 28 chunk);
         (e, c) = sha1_Round d e a b c (sha1_f1 e a b) sha1_k1 w7;
         w8 = ReadBE32 (drop 32 chunk);
         (d, b) = sha1_Round c d e a b (sha1_f1 d e a) sha1_k1 w8;
         w9 = ReadBE32 (drop 36 chunk);
         (c, a) = sha1_Round b c d e a (sha1_f1 c d e) sha1_k1 w9;
         w10 = ReadBE32 (drop 40 chunk);
         (b, e) = sha1_Round a b c d e (sha1_f1 b c d) sha1_k1 w10;
         w11 = ReadBE32 (drop 44 chunk);
         (a, d) = sha1_Round e a b c d (sha1_f1 a b c) sha1_k1 w11;
         w12 = ReadBE32 (drop 48 chunk);
         (e, c) = sha1_Round d e a b c (sha1_f1 e a b) sha1_k1 w12;
         w13 = ReadBE32 (drop 52 chunk);
         (d, b) = sha1_Round c d e a b (sha1_f1 d e a) sha1_k1 w13;
         w14 = ReadBE32 (drop 56 chunk);
         (c, a) = sha1_Round b c d e a (sha1_f1 c d e) sha1_k1 w14;
         w15 = ReadBE32 (drop 60 chunk);
         (b, e) = sha1_Round a b c d e (sha1_f1 b c d) sha1_k1 w15
     in ((a, b, c, d, e), (w0, w1, w2, w3, w4, w5, w6, w7, w8, w9, w10, w11, w12, w13, w14, w15)))"

definition sha1_rounds_1 :: "sha1_regs \<Rightarrow> sha1_words \<Rightarrow> sha1_regs \<times> sha1_words" where
  "sha1_rounds_1 = (\<lambda>(a, b, c, d, e) (w0, w1, w2, w3, w4, w5, w6, w7, w8, w9, w10, w11, w12, w13, w14, w15).
     let w0 = sha1_left (w0 XOR w13 XOR w8 XOR w2);
         (a, d) = sha1_Round e a b c d (sha1_f1 a b c) sha1_k1 w0;
         w1 = sha1_left (w1 XOR w14 XOR w9 XOR w3);
         (e, c) = sha1_Round d e a b c (sha1_f1 e a b) sha1_k1 w1;
         w2 = sha1_left (w2 XOR w15 XOR w10 XOR w4);
         (d, b) = sha1_Round c d e a b (sha1_f1 d e a) sha1_k1 w2;
         w3 = sha1_left (w3 XOR w0 XOR w11 XOR w5);
         (c, a) = sha1_Round b c d e a (sha1_f1 c d e) sha1_k1 w3;
         w4 = sha1_left (w4 XOR w1 XOR w12 XOR w6);
         (b, e) = sha1_Round a b c d e (sha1_f2 b c d) sha1_k2 w4;
         w5 = sha1_left (w5 XOR w2 XOR w13 XOR w7);
         (a, d) = sha1_Round e a b c d (sha1_f2 a b c) sha1_k2 w5;
         w6 = sha1_left (w6 XOR w3 XOR w14 XOR w8);
         (e, c) = sha1_Round d e a b c (sha1_f2 e a b) sha1_k2 w6;
         w7 = sha1_left (w7 XOR w4 XOR w15 XOR w9);
         (d, b) = sha1_Round c d e a b (sha1_f2 d e a) sha1_k2 w7;
         w8 = sha1_left (w8 XOR w5 XOR w0 XOR w10);
         (c, a) = sha1_Round b c d e a (sha1_f2 c d e) sha1_k2 w8;
         w9 = sha1_left (w9 XOR w6 XOR w1 XOR w11);
         (b, e) = sha1_Round a b c d e (sha1_f2 b c d) sha1_k2 w9;
         w10 = sha1_left (w10 XOR w7 XOR w2 XOR w12);
         (a, d) = sha1_Round e a b c d (sha1_f2 a b c) sha1_k2 w10;
         w11 = sha1_left (w11 XOR w8 XOR w3 XOR w13);
         (e, c) = sha1_Round d e a b c (sha1_f2 e a b) sha1_k2 w11;
         w12 = sha1_left (w12 XOR w9 XOR w4 XOR w14);
         (d, b) = sha1_Round c d e a b (sha1_f2 d e a) sha1_k2 w12;
         w13 = sha1_left (w13 XOR w10 XOR w5 XOR w15);
         (c, a) = sha1_Round b c d e a (sha1_f2 c d e) sha1_k2 w13;
         w14 = sha1_left (w14 XOR w11 XOR w6 XOR w0);
         (b, e) = sha1_Round a b c d e (sha1_f2 b c d) sha1_k2 w14;
         w15 = sha1_left (w15 XOR w12 XOR w7 XOR w1);
         (a, d) = sha1_Round e a b c d (sha1_f2 a b c) sha1_k2 w15
     in ((a, b, c, d, e), (w0, w1, w2, w3, w4, w5, w6, w7, w8, w9, w10, w11, w12, w13, w14, w15)))"

definition sha1_rounds_2 :: "sha1_regs \<Rightarrow> sha1_words \<Rightarrow> sha1_regs \<times> sha1_words" where
  "sha1_rounds_2 = (\<lambda>(a, b, c, d, e) (w0, w1, w2, w3, w4, w5, w6, w7, w8, w9, w10, w11, w12, w13, w14, w15).
     let w0 = sha1_left (w0 XOR w13 XOR w8 XOR w2);
         (e, c) = sha1_Round d e a b c (sha1_f2 e a b) sha1_k2 w0;
         w1 = sha1_left (w1 XOR w14 XOR w9 XOR w3);
         (d, b) = sha1_Round c d e a b (sha1_f2 d e a) sha1_k2 w1;
         w2 = sha1_left (w2 XOR w15 XOR w10 XOR w4);
         (c, a) = sha1_Round b c d e a (sha1_f2 c d e) sha1_k2 w2;
         w3 = sha1_left (w3 XOR w0 XOR w11 XOR w5);
         (b, e) = sha1_Round a b c d e (sha1_f2 b c d) sha1_k2 w3;
         w4 = sha1_left (w4 XOR w1 XOR w12 XOR w6);
         (a, d) = sha1_Round e a b c d (sha1_f2 a b c) sha1_k2 w4;
         w5 = sha1_left (w5 XOR w2 XOR w13 XOR w7);
         (e, c) = sha1_Round d e a b c (sha1_f2 e a b) sha1_k2 w5;
         w6 = sha1_left (w6 XOR w3 XOR w14 XOR w8);
         (d, b) = sha1_Round c d e a b (sha1_f2 d e a) sha1_k2 w6;
         w7 = sha1_left (w7 XOR w4 XOR w15 XOR w9);
         (c, a) = sha1_Round b c d e a (sha1_f2 c d e) sha1_k2 w7;
         w8 = sha1_left (w8 XOR w5 XOR w0 XOR w10);
         (b, e) = sha1_Round a b c d e (sha1_f3 b c d) sha1_k3 w8;
         w9 = sha1_left (w9 XOR w6 XOR w1 XOR w11);
         (a, d) = sha1_Round e a b c d (sha1_f3 a b c) sha1_k3 w9;
         w10 = sha1_left (w10 XOR w7 XOR w2 XOR w12);
         (e, c) = sha1_Round d e a b c (sha1_f3 e a b) sha1_k3 w10;
         w11 = sha1_left (w11 XOR w8 XOR w3 XOR w13);
         (d, b) = sha1_Round c d e a b (sha1_f3 d e a) sha1_k3 w11;
         w12 = sha1_left (w12 XOR w9 XOR w4 XOR w14);
         (c, a) = sha1_Round b c d e a (sha1_f3 c d e) sha1_k3 w12;
         w13 = sha1_left (w13 XOR w10 XOR w5 XOR w15);
         (b, e) = sha1_Round a b c d e (sha1_f3 b c d) sha1_k3 w13;
         w14 = sha1_left (w14 XOR w11 XOR w6 XOR w0);
         (a, d) = sha1_Round e a b c d (sha1_f3 a b c) sha1_k3 w14;
         w15 = sha1_left (w15 XOR w12 XOR w7 XOR w1);
         (e, c) = sha1_Round d e a b c (sha1_f3 e a b) sha1_k3 w15
     in ((a, b, c, d, e), (w0, w1, w2, w3, w4, w5, w6, w7, w8, w9, w10, w11, w12, w13, w14, w15)))"

definition sha1_rounds_3 :: "sha1_regs \<Rightarrow> sha1_words \<Rightarrow> sha1_regs \<times> sha1_words" where
  "sha1_rounds_3 = (\<lambda>(a, b, c, d, e) (w0, w1, w2, w3, w4, w5, w6, w7, w8, w9, w10, w11, w12, w13, w14, w15).
     let w0 = sha1_left (w0 XOR w13 XOR w8 XOR w2);
         (d, b) = sha1_Round c d e a b (sha1_f3 d e a) sha1_k3 w0;
         w1 = sha1_left (w1 XOR w14 XOR w9 XOR w3);
         (c, a) = sha1_Round b c d e a (sha1_f3 c d e) sha1_k3 w1;
         w2 = sha1_left (w2 XOR w15 XOR w10 XOR w4);
         (b, e) = sha1_Round a b c d e (sha1_f3 b c d) sha1_k3 w2;
         w3 = sha1_left (w3 XOR w0 XOR w11 XOR w5);
         (a, d) = sha1_Round e a b c d (sha1_f3 a b c) sha1_k3 w3;
         w4 = sha1_left (w4 XOR w1 XOR w12 XOR w6);
         (e, c) = sha1_Round d e a b c (sha1_f3 e a b) sha1_k3 w4;
         w5 = sha1_left (w5 XOR w2 XOR w13 XOR w7);
         (d, b) = sha1_Round c d e a b (sha1_f3 d e a) sha1_k3 w5;
         w6 = sha1_left (w6 XOR w3 XOR w14 XOR w8);
         (c, a) = sha1_Round b c d e a (sha1_f3 c d e) sha1_k3 w6;
         w7 = sha1_left (w7 XOR w4 XOR w15 XOR w9);
         (b, e) = sha1_Round a b c d e (sha1_f3 b c d) sha1_k3 w7;
         w8 = sha1_left (w8 XOR w5 XOR w0 XOR w10);
         (a, d) = sha1_Round e a b c d (sha1_f3 a b c) sha1_k3 w8;
         w9 = sha1_left (w9 XOR w6 XOR w1 XOR w11);
         (e, c) = sha1_Round d e a b c (sha1_f3 e a b) sha1_k3 w9;
         w10 = sha1_left (w10 XOR w7 XOR w2 XOR w12);
         (d, b) = sha1_Round c d e a b (sha1_f3 d e a) sha1_k3 w10;
         w11 = sha1_left (w11 XOR w8 XOR w3 XOR w13);
         (c, a) = sha1_Round b c d e a (sha1_f3 c d e) sha1_k3 w11;
         w12 = sha1_left (w12 XOR w9 XOR w4 XOR w14);
         (b, e) = sha1_Round a b c d e (sha1_f2 b c d) sha1_k4 w12;
         w13 = sha1_left (w13 XOR w10 XOR w5 XOR w15);
         (a, d) = sha1_Round e a b c d (sha1_f2 a b c) sha1_k4 w13;
         w14 = sha1_left (w14 XOR w11 XOR w6 XOR w0);
         (e, c) = sha1_Round d e a b c (sha1_f2 e a b) sha1_k4 w14;
         w15 = sha1_left (w15 XOR w12 XOR w7 XOR w1);
         (d, b) = sha1_Round c d e a b (sha1_f2 d e a) sha1_k4 w15
     in ((a, b, c, d, e), (w0, w1, w2, w3, w4, w5, w6, w7, w8, w9, w10, w11, w12, w13, w14, w15)))"

definition sha1_rounds_4 :: "sha1_regs \<Rightarrow> sha1_words \<Rightarrow> sha1_regs" where
  "sha1_rounds_4 = (\<lambda>(a, b, c, d, e) (w0, w1, w2, w3, w4, w5, w6, w7, w8, w9, w10, w11, w12, w13, w14, w15).
     let w0 = sha1_left (w0 XOR w13 XOR w8 XOR w2);
         (c, a) = sha1_Round b c d e a (sha1_f2 c d e) sha1_k4 w0;
         w1 = sha1_left (w1 XOR w14 XOR w9 XOR w3);
         (b, e) = sha1_Round a b c d e (sha1_f2 b c d) sha1_k4 w1;
         w2 = sha1_left (w2 XOR w15 XOR w10 XOR w4);
         (a, d) = sha1_Round e a b c d (sha1_f2 a b c) sha1_k4 w2;
         w3 = sha1_left (w3 XOR w0 XOR w11 XOR w5);
         (e, c) = sha1_Round d e a b c (sha1_f2 e a b) sha1_k4 w3;
         w4 = sha1_left (w4 XOR w1 XOR w12 XOR w6);
         (d, b) = sha1_Round c d e a b (sha1_f2 d e a) sha1_k4 w4;
         w5 = sha1_left (w5 XOR w2 XOR w13 XOR w7);
         (c, a) = sha1_Round b c d e a (sha1_f2 c d e) sha1_k4 w5;
         w6 = sha1_left (w6 XOR w3 XOR w14 XOR w8);
         (b, e) = sha1_Round a b c d e (sha1_f2 b c d) sha1_k4 w6;
         w7 = sha1_left (w7 XOR w4 XOR w15 XOR w9);
         (a, d) = sha1_Round e a b c d (sha1_f2 a b c) sha1_k4 w7;
         w8 = sha1_left (w8 XOR w5 XOR w0 XOR w10);
         (e, c) = sha1_Round d e a b c (sha1_f2 e a b) sha1_k4 w8;
         w9 = sha1_left (w9 XOR w6 XOR w1 XOR w11);
         (d, b) = sha1_Round c d e a b (sha1_f2 d e a) sha1_k4 w9;
         w10 = sha1_left (w10 XOR w7 XOR w2 XOR w12);
         (c, a) = sha1_Round b c d e a (sha1_f2 c d e) sha1_k4 w10;
         w11 = sha1_left (w11 XOR w8 XOR w3 XOR w13);
         (b, e) = sha1_Round a b c d e (sha1_f2 b c d) sha1_k4 w11;
         w12 = sha1_left (w12 XOR w9 XOR w4 XOR w14);
         (a, d) = sha1_Round e a b c d (sha1_f2 a b c) sha1_k4 w12;
         (e, c) = sha1_Round d e a b c (sha1_f2 e a b) sha1_k4 (sha1_left (w13 XOR w10 XOR w5 XOR w15));
         (d, b) = sha1_Round c d e a b (sha1_f2 d e a) sha1_k4 (sha1_left (w14 XOR w11 XOR w6 XOR w0));
         (c, a) = sha1_Round b c d e a (sha1_f2 c d e) sha1_k4 (sha1_left (w15 XOR w12 XOR w7 XOR w1))
     in (a, b, c, d, e))"

definition sha1_Transform :: "u32 list \<Rightarrow> byte list \<Rightarrow> u32 list" where
  "sha1_Transform s chunk =
     (let r = (s ! 0, s ! 1, s ! 2, s ! 3, s ! 4);
          (r, w) = sha1_rounds_0 r chunk;
          (r, w) = sha1_rounds_1 r w;
          (r, w) = sha1_rounds_2 r w;
          (r, w) = sha1_rounds_3 r w;
          (a, b, c, d, e) = sha1_rounds_4 r w
      in [s ! 0 + a, s ! 1 + b, s ! 2 + c, s ! 3 + d, s ! 4 + e])"

definition CSHA1 :: "byte list \<Rightarrow> hasher" where
  "CSHA1 buf = \<lparr>hs = sha1_Initialize, hbuf = buf, hbytes = 0\<rparr>"

definition CSHA1_Write :: "hasher \<Rightarrow> byte list \<Rightarrow> hasher" where
  "CSHA1_Write h data = Write_with sha1_Transform h data"

definition CSHA1_Finalize :: "hasher \<Rightarrow> byte list" where
  "CSHA1_Finalize h =
     (let s = hs (Pad_with sha1_Transform WriteBE64 h)
      in WriteBE32 (s ! 0) @ WriteBE32 (s ! 1) @ WriteBE32 (s ! 2) @ WriteBE32 (s ! 3) @
         WriteBE32 (s ! 4))"

definition CSHA1_Reset :: "hasher \<Rightarrow> hasher" where
  "CSHA1_Reset h = h\<lparr>hbytes := 0, hs := sha1_Initialize\<rparr>"

interpretation csha1: md_stream sha1_Transform sha1_Initialize WriteBE64
  "\<lambda>s. WriteBE32 (s ! 0) @ WriteBE32 (s ! 1) @ WriteBE32 (s ! 2) @ WriteBE32 (s ! 3) @
        WriteBE32 (s ! 4)"
  CSHA1_Reset CSHA1_Write CSHA1_Finalize
  by unfold_locales
    (simp_all add: CSHA1_Reset_def CSHA1_Write_def CSHA1_Finalize_def Let_def length_Write)

lemma CSHA1_Reset_new: "CSHA1_Reset (CSHA1 buf) = CSHA1 buf"
  by (simp add: CSHA1_Reset_def CSHA1_def)

lemma CSHA1_buf: "length (hbuf (CSHA1 buf)) = length buf"
  by (simp add: CSHA1_def)

lemma length_CSHA1_Finalize: "length (CSHA1_Finalize h) = 20"
  by (simp add: CSHA1_Finalize_def Let_def length_Write)

end
