(* ===== verification/Ripemd160.thy ===== *)
theory Ripemd160
  imports Hash_Stream
begin

text \<open>
  RIPEMD-160 as \<^verbatim>\<open>src/src/crypto/ripemd160.cpp\<close> has it: two lines of 80 rounds, interleaved in
  the source and here, cut into five groups, and the streaming class \<open>CRIPEMD160\<close>.
\<close>

definition ripemd160_f1 :: "u32 \<Rightarrow> u32 \<Rightarrow> u32 \<Rightarrow> u32" where
  "ripemd160_f1 x y z = x XOR y XOR z"

definition ripemd160_f2 :: "u32 \<Rightarrow> u32 \<Rightarrow> u32 \<Rightarrow> u32" where
  "ripemd160_f2 x y z = (x AND y) OR (NOT x AND z)"

definition ripemd160_f3 :: "u32 \<Rightarrow> u32 \<Rightarrow> u32 \<Rightarrow> u32" where
  "ripemd160_f3 x y z = (x OR NOT y) XOR z"

definition ripemd160_f4 :: "u32 \<Rightarrow> u32 \<Rightarrow> u32 \<Rightarrow> u32" where
  "ripemd160_f4 x y z = (x AND z) OR (y AND NOT z)"

definition ripemd160_f5 :: "u32 \<Rightarrow> u32 \<Rightarrow> u32 \<Rightarrow> u32" where
  "ripemd160_f5 x y z = x XOR (y OR NOT z)"

definition ripemd160_Initialize :: "u32 list" where
  "ripemd160_Initialize = [0x67452301, 0xEFCDAB89, 0x98BADCFE, 0x10325476, 0xC3D2E1F0]"

definition ripemd160_rol :: "u32 \<Rightarrow> nat \<Rightarrow> u32" where
  "ripemd160_rol x i = push_bit i x OR drop_bit (32 - i) x"

text \<open>\<open>Round\<close> updates its reference arguments \<open>a\<close> and \<open>c\<close>; both are returned.\<close>

definition ripemd160_Round ::
  "u32 \<Rightarrow> u32 \<Rightarrow> u32 \<Rightarrow> u32 \<Rightarrow> u32 \<Rightarrow> u32 \<Rightarrow> u32 \<Rightarrow> u32 \<Rightarrow> nat \<Rightarrow> u32 \<times> u32" where
  "ripemd160_Round a b c d e f x k r = (ripemd160_rol (a + f + x + k) r + e, ripemd160_rol c 10)"

definition ripemd160_R11 :: "u32 \<Rightarrow> u32 \<Rightarrow> u32 \<Rightarrow> u32 \<Rightarrow> u32 \<Rightarrow> u32 \<Rightarrow> nat \<Rightarrow> u32 \<times> u32" where
  "ripemd160_R11 a b c d e x r = ripemd160_Round a b c d e (ripemd160_f1 b c d) x 0 r"

definition ripemd160_R21 :: "u32 \<Rightarrow> u32 \<Rightarrow> u32 \<Rightarrow> u32 \<Rightarrow> u32 \<Rightarrow> u32 \<Rightarrow> nat \<Rightarrow> u32 \<times> u32" where
  "ripemd160_R21 a b c d e x r = ripemd160_Round a b c d e (ripemd160_f2 b c d) x 0x5A827999 r"

definition ripemd160_R31 :: "u32 \<Rightarrow> u32 \<Rightarrow> u32 \<Rightarrow> u32 \<Rightarrow> u32 \<Rightarrow> u32 \<Rightarrow> nat \<Rightarrow> u32 \<times> u32" where
  "ripemd160_R31 a b c d e x r = ripemd160_Round a b c d e (ripemd160_f3 b c d) x 0x6ED9EBA1 r"

definition ripemd160_R41 :: "u32 \<Rightarrow> u32 \<Rightarrow> u32 \<Rightarrow> u32 \<Rightarrow> u32 \<Rightarrow> u32 \<Rightarrow> nat \<Rightarrow> u32 \<times> u32" where
  "ripemd160_R41 a b c d e x r = ripemd160_Round a b c d e (ripemd160_f4 b c d) x 0x8F1BBCDC r"

definition ripemd160_R51 :: "u32 \<Rightarrow> u32 \<Rightarrow> u32 \<Rightarrow> u32 \<Rightarrow> u32 \<Rightarrow> u32 \<Rightarrow> nat \<Rightarrow> u32 \<times> u32" where
  "ripemd160_R51 a b c d e x r = ripemd160_Round a b c d e (ripemd160_f5 b c d) x 0xA953FD4E r"

definition ripemd160_R12 :: "u32 \<Rightarrow> u32 \<Rightarrow> u32 \<Rightarrow> u32 \<Rightarrow> u32 \<Rightarrow> u32 \<Rightarrow> nat \<Rightarrow> u32 \<times> u32" where
  "ripemd160_R12 a b c d e x r = ripemd160_Round a b c d e (ripemd160_f5 b c d) x 0x50A28BE6 r"

definition ripemd160_R22 :: "u32 \<Rightarrow> u32 \<Rightarrow> u32 \<Rightarrow> u32 \<Rightarrow> u32 \<Rightarrow> u32 \<Rightarrow> nat \<Rightarrow> u32 \<times> u32" where
  "ripemd160_R22 a b c d e x r = ripemd160_Round a b c d e (ripemd160_f4 b c d) x 0x5C4DD124 r"

definition ripemd160_R32 :: "u32 \<Rightarrow> u32 \<Rightarrow> u32 \<Rightarrow> u32 \<Rightarrow> u32 \<Rightarrow> u32 \<Rightarrow> nat \<Rightarrow> u32 \<times> u32" where
  "ripemd160_R32 a b c d e x r = ripemd160_Round a b c d e (ripemd160_f3 b c d) x 0x6D703EF3 r"

definition ripemd160_R42 :: "u32 \<Rightarrow> u32 \<Rightarrow> u32 \<Rightarrow> u32 \<Rightarrow> u32 \<Rightarrow> u32 \<Rightarrow> nat \<Rightarrow> u32 \<times> u32" where
  "ripemd160_R42 a b c d e x r = ripemd160_Round a b c d e (ripemd160_f2 b c d) x 0x7A6D76E9 r"

definition ripemd160_R52 :: "u32 \<Rightarrow> u32 \<Rightarrow> u32 \<Rightarrow> u32 \<Rightarrow> u32 \<Rightarrow> u32 \<Rightarrow> nat \<Rightarrow> u32 \<times> u32" where
  "ripemd160_R52 a b c d e x r = ripemd160_Round a b c d e (ripemd160_f1 b c d) x 0 r"

type_synonym ripemd160_words =
  "u32 \<times> u32 \<times> u32 \<times> u32 \<times> u32 \<times> u32 \<times> u32 \<times> u32 \<times> u32 \<times> u32 \<times> u32 \<times> u32 \<times> u32 \<times> u32 \<times> u32 \<times> u32"

type_synonym ripemd160_regs = "u32 \<times> u32 \<times> u32 \<times> u32 \<times> u32 \<times> u32 \<times> u32 \<times> u32 \<times> u32 \<times> u32"

definition ripemd160_rounds_0 :: "ripemd160_words \<Rightarrow> ripemd160_regs \<Rightarrow> ripemd160_regs" where
  "ripemd160_rounds_0 = (\<lambda>(w0, w1, w2, w3, w4, w5, w6, w7, w8, w9, w10, w11, w12, w13, w14, w15) (a1, b1, c1, d1, e1, a2, b2, c2, d2, e2).
     let (a1, c1) = ripemd160_R11 a1 b1 c1 d1 e1 w0 11;
         (a2, c2) = ripemd160_R12 a2 b2 c2 d2 e2 w5 8;
         (e1, b1) = ripemd160_R11 e1 a1 b1 c1 d1 w1 14;
         (e2, b2) = ripemd160_R12 e2 a2 b2 c2 d2 w14 9;
         (d1, a1) = ripemd160_R11 d1 e1 a1 b1 c1 w2 15;
         (d2, a2) = ripemd160_R12 d2 e2 a2 b2 c2 w7 9;
         (c1, e1) = ripemd160_R11 c1 d1 e1 a1 b1 w3 12;
         (c2, e2) = ripemd160_R12 c2 d2 e2 a2 b2 w0 11;
         (b1, d1) = ripemd160_R11 b1 c1 d1 e1 a1 w4 5;
         (b2, d2) = ripemd160_R12 b2 c2 d2 e2 a2 w9 13;
         (a1, c1) = ripemd160_R11 a1 b1 c1 d1 e1 w5 8;
         (a2, c2) = ripemd160_R12 a2 b2 c2 d2 e2 w2 15;
         (e1, b1) = ripemd160_R11 e1 a1 b1 c1 d1 w6 7;
         (e2, b2) = ripemd160_R12 e2 a2 b2 c2 d2 w11 15;
         (d1, a1) = ripemd160_R11 d1 e1 a1 b1 c1 w7 9;
         (d2, a2) = ripemd160_R12 d2 e2 a2 b2 c2 w4 5;
         (c1, e1) = ripemd160_R11 c1 d1 e1 a1 b1 w8 11;
         (c2, e2) = ripemd160_R12 c2 d2 e2 a2 b2 w13 7;
         (b1, d1) = ripemd160_R11 b1 c1 d1 e1 a1 w9 13;
         (b2, d2) = ripemd160_R12 b2 c2 d2 e2 a2 w6 7;
         (a1, c1) = ripemd160_R11 a1 b1 c1 d1 e1 w10 14;
         (a2, c2) = ripemd160_R12 a2 b2 c2 d2 e2 w15 8;
         (e1, b1) = ripemd160_R11 e1 a1 b1 c1 d1 w11 15;
         (e2, b2) = ripemd160_R12 e2 a2 b2 c2 d2 w8 11;
         (d1, a1) = ripemd160_R11 d1 e1 a1 b1 c1 w12 6;
         (d2, a2) = ripemd160_R12 d2 e2 a2 b2 c2 w1 14;
         (c1, e1) = ripemd160_R11 c1 d1 e1 a1 b1 w13 7;
         (c2, e2) = ripemd160_R12 c2 d2 e2 a2 b2 w10 14;
         (b1, d1) = ripemd160_R11 b1 c1 d1 e1 a1 w14 9;
         (b2, d2) = ripemd160_R12 b2 c2 d2 e2 a2 w3 12;
         (a1, c1) = ripemd160_R11 a1 b1 c1 d1 e1 w15 8;
         (a2, c2) = ripemd160_R12 a2 b2 c2 d2 e2 w12 6
     in (a1, b1, c1, d1, e1, a2, b2, c2, d2, e2))"

definition ripemd160_rounds_1 :: "ripemd160_words \<Rightarrow> ripemd160_regs \<Rightarrow> ripemd160_regs" where
  "ripemd160_rounds_1 = (\<lambda>(w0, w1, w2, w3, w4, w5, w6, w7, w8, w9, w10, w11, w12, w13, w14, w15) (a1, b1, c1, d1, e1, a2, b2, c2, d2, e2).
     let (e1, b1) = ripemd160_R21 e1 a1 b1 c1 d1 w7 7;
         (e2, b2) = ripemd160_R22 e2 a2 b2 c2 d2 w6 9;
         (d1, a1) = ripemd160_R21 d1 e1 a1 b1 c1 w4 6;
         (d2, a2) = ripemd160_R22 d2 e2 a2 b2 c2 w11 13;
         (c1, e1) = ripemd160_R21 c1 d1 e1 a1 b1 w13 8;
         (c2, e2) = ripemd160_R22 c2 d2 e2 a2 b2 w3 15;
         (b1, d1) = ripemd160_R21 b1 c1 d1 e1 a1 w1 13;
         (b2, d2) = ripemd160_R22 b2 c2 d2 e2 a2 w7 7;
         (a1, c1) = ripemd160_R21 a1 b1 c1 d1 e1 w10 11;
         (a2, c2) = ripemd160_R22 a2 b2 c2 d2 e2 w0 12;
         (e1, b1) = ripemd160_R21 e1 a1 b1 c1 d1 w6 9;
         (e2, b2) = ripemd160_R22 e2 a2 b2 c2 d2 w13 8;
         (d1, a1) = ripemd160_R21 d1 e1 a1 b1 c1 w15 7;
         (d2, a2) = ripemd160_R22 d2 e2 a2 b2 c2 w5 9;
         (c1, e1) = ripemd160_R21 c1 d1 e1 a1 b1 w3 15;
         (c2, e2) = ripemd160_R22 c2 d2 e2 a2 b2 w10 11;
         (b1, d1) = ripemd160_R21 b1 c1 d1 e1 a1 w12 7;
         (b2, d2) = ripemd160_R22 b2 c2 d2 e2 a2 w14 7;
         (a1, c1) = ripemd160_R21 a1 b1 c1 d1 e1 w0 12;
         (a2, c2) = ripemd160_R22 a2 b2 c2 d2 e2 w15 7;
         (e1, b1) = ripemd160_R21 e1 a1 b1 c1 d1 w9 15;
         (e2, b2) = ripemd160_R22 e2 a2 b2 c2 d2 w8 12;
         (d1, a1) = ripemd160_R21 d1 e1 a1 b1 c1 w5 9;
         (d2, a2) = ripemd160_R22 d2 e2 a2 b2 c2 w12 7;
         (c1, e1) = ripemd160_R21 c1 d1 e1 a1 b1 w2 11;
         (c2, e2) = ripemd160_R22 c2 d2 e2 a2 b2 w4 6;
         (b1, d1) = ripemd160_R21 b1 c1 d1 e1 a1 w14 7;
         (b2, d2) = ripemd160_R22 b2 c2 d2 e2 a2 w9 15;
         (a1, c1) = ripemd160_R21 a1 b1 c1 d1 e1 w11 13;
         (a2, c2) = ripemd160_R22 a2 b2 c2 d2 e2 w1 13;
         (e1, b1) = ripemd160_R21 e1 a1 b1 c1 d1 w8 12;
         (e2, b2) = ripemd160_R22 e2 a2 b2 c2 d2 w2 11
     in (a1, b1, c1, d1, e1, a2, b2, c2, d2, e2))"

definition ripemd160_rounds_2 :: "ripemd160_words \<Rightarrow> ripemd160_regs \<Rightarrow> ripemd160_regs" where
  "ripemd160_rounds_2 = (\<lambda>(w0, w1, w2, w3, w4, w5, w6, w7, w8, w9, w10, w11, w12, w13, w14, w15) (a1, b1, c1, d1, e1, a2, b2, c2, d2, e2).
     let (d1, a1) = ripemd160_R31 d1 e1 a1 b1 c1 w3 11;
         (d2, a2) = ripemd160_R32 d2 e2 a2 b2 c2 w15 9;
         (c1, e1) = ripemd160_R31 c1 d1 e1 a1 b1 w10 13;
         (c2, e2) = ripemd160_R32 c2 d2 e2 a2 b2 w5 7;
         (b1, d1) = ripemd160_R31 b1 c1 d1 e1 a1 w14 6;
         (b2, d2) = ripemd160_R32 b2 c2 d2 e2 a2 w1 15;
         (a1, c1) = ripemd160_R31 a1 b1 c1 d1 e1 w4 7;
         (a2, c2) = ripemd160_R32 a2 b2 c2 d2 e2 w3 11;
         (e1, b1) = ripemd160_R31 e1 a1 b1 c1 d1 w9 14;
         (e2, b2) = ripemd160_R32 e2 a2 b2 c2 d2 w7 8;
         (d1, a1) = ripemd160_R31 d1 e1 a1 b1 c1 w15 9;
         (d2, a2) = ripemd160_R32 d2 e2 a2 b2 c2 w14 6;
         (c1, e1) = ripemd160_R31 c1 d1 e1 a1 b1 w8 13;
         (c2, e2) = ripemd160_R32 c2 d2 e2 a2 b2 w6 6;
         (b1, d1) = ripemd160_R31 b1 c1 d1 e1 a1 w1 15;
         (b2, d2) = ripemd160_R32 b2 c2 d2 e2 a2 w9 14;
         (a1, c1) = ripemd160_R31 a1 b1 c1 d1 e1 w2 14;
         (a2, c2) = ripemd160_R32 a2 b2 c2 d2 e2 w11 12;
         (e1, b1) = ripemd160_R31 e1 a1 b1 c1 d1 w7 8;
         (e2, b2) = ripemd160_R32 e2 a2 b2 c2 d2 w8 13;
         (d1, a1) = ripemd160_R31 d1 e1 a1 b1 c1 w0 13;
         (d2, a2) = ripemd160_R32 d2 e2 a2 b2 c2 w12 5;
         (c1, e1) = ripemd160_R31 c1 d1 e1 a1 b1 w6 6;
         (c2, e2) = ripemd160_R32 c2 d2 e2 a2 b2 w2 14;
         (b1, d1) = ripemd160_R31 b1 c1 d1 e1 a1 w13 5;
         (b2, d2) = ripemd160_R32 b2 c2 d2 e2 a2 w10 13;
         (a1, c1) = ripemd160_R31 a1 b1 c1 d1 e1 w11 12;
         (a2, c2) = ripemd160_R32 a2 b2 c2 d2 e2 w0 13;
         (e1, b1) = ripemd160_R31 e1 a1 b1 c1 d1 w5 7;
         (e2, b2) = ripemd160_R32 e2 a2 b2 c2 d2 w4 7;
         (d1, a1) = ripemd160_R31 d1 e1 a1 b1 c1 w12 5;
         (d2, a2) = ripemd160_R32 d2 e2 a2 b2 c2 w13 5
     in (a1, b1, c1, d1, e1, a2, b2, c2, d2, e2))"

definition ripemd160_rounds_3 :: "ripemd160_words \<Rightarrow> ripemd160_regs \<Rightarrow> ripemd160_regs" where
  "ripemd160_rounds_3 = (\<lambda>(w0, w1, w2, w3, w4, w5, w6, w7, w8, w9, w10, w11, w12, w13, w14, w15) (a1, b1, c1, d1, e1, a2, b2, c2, d2, e2).
     let (c1, e1) = ripemd160_R41 c1 d1 e1 a1 b1 w1 11;
         (c2, e2) = ripemd160_R42 c2 d2 e2 a2 b2 w8 15;
         (b1, d1) = ripemd160_R41 b1 c1 d1 e1 a1 w9 12;
         (b2, d2) = ripemd160_R42 b2 c2 d2 e2 a2 w6 5;
         (a1, c1) = ripemd160_R41 a1 b1 c1 d1 e1 w11 14;
         (a2, c2) = ripemd160_R42 a2 b2 c2 d2 e2 w4 8;
         (e1, b1) = ripemd160_R41 e1 a1 b1 c1 d1 w10 15;
         (e2, b2) = ripemd160_R42 e2 a2 b2 c2 d2 w1 11;
         (d1, a1) = ripemd160_R41 d1 e1 a1 b1 c1 w0 14;
         (d2, a2) = ripemd160_R42 d2 e2 a2 b2 c2 w3 14;
         (c1, e1) = ripemd160_R41 c1 d1 e1 a1 b1 w8 15;
         (c2, e2) = ripemd160_R42 c2 d2 e2 a2 b2 w11 14;
         (b1, d1) = ripemd160_R41 b1 c1 d1 e1 a1 w12 9;
         (b2, d2) = ripemd160_R42 b2 c2 d2 e2 a2 w15 6;
         (a1, c1) = ripemd160_R41 a1 b1 c1 d1 e1 w4 8;
         (a2, c2) = ripemd160_R42 a2 b2 c2 d2 e2 w0 14;
         (e1, b1) = ripemd160_R41 e1 a1 b1 c1 d1 w13 9;
         (e2, b2) = ripemd160_R42 e2 a2 b2 c2 d2 w5 6;
         (d1, a1) = ripemd160_R41 d1 e1 a1 b1 c1 w3 14;
         (d2, a2) = ripemd160_R42 d2 e2 a2 b2 c2 w12 9;
         (c1, e1) = ripemd160_R41 c1 d1 e1 a1 b1 w7 5;
         (c2, e2) = ripemd160_R42 c2 d2 e2 a2 b2 w2 12;
         (b1, d1) = ripemd160_R41 b1 c1 d1 e1 a1 w15 6;
         (b2, d2) = ripemd160_R42 b2 c2 d2 e2 a2 w13 9;
         (a1, c1) = ripemd160_R41 a1 b1 c1 d1 e1 w14 8;
         (a2, c2) = ripemd160_R42 a2 b2 c2 d2 e2 w9 12;
         (e1, b1) = ripemd160_R41 e1 a1 b1 c1 d1 w5 6;
         (e2, b2) = ripemd160_R42 e2 a2 b2 c2 d2 w7 5;
         (d1, a1) = ripemd160_R41 d1 e1 a1 b1 c1 w6 5;
         (d2, a2) = ripemd160_R42 d2 e2 a2 b2 c2 w10 15;
         (c1, e1) = ripemd160_R41 c1 d1 e1 a1 b1 w2 12;
         (c2, e2) = ripemd160_R42 c2 d2 e2 a2 b2 w14 8
     in (a1, b1, c1, d1, e1, a2, b2, c2, d2, e2))"

definition ripemd160_rounds_4 :: "ripemd160_words \<Rightarrow> ripemd160_regs \<Rightarrow> ripemd160_regs" where
  "ripemd160_rounds_4 = (\<lambda>(w0, w1, w2, w3, w4, w5, w6, w7, w8, w9, w10, w11, w12, w13, w14, w15) (a1, b1, c1, d1, e1, a2, b2, c2, d2, e2).
     let (b1, d1) = ripemd160_R51 b1 c1 d1 e1 a1 w4 9;
         (b2, d2) = ripemd160_R52 b2 c2 d2 e2 a2 w12 8;
         (a1, c1) = ripemd160_R51 a1 b1 c1 d1 e1 w0 15;
         (a2, c2) = ripemd160_R52 a2 b2 c2 d2 e2 w15 5;
         (e1, b1) = ripemd160_R51 e1 a1 b1 c1 d1 w5 5;
         (e2, b2) = ripemd160_R52 e2 a2 b2 c2 d2 w10 12;
         (d1, a1) = ripemd160_R51 d1 e1 a1 b1 c1 w9 11;
         (d2, a2) = ripemd160_R52 d2 e2 a2 b2 c2 w4 9;
         (c1, e1) = ripemd160_R51 c1 d1 e1 a1 b1 w7 6;
         (c2, e2) = ripemd160_R52 c2 d2 e2 a2 b2 w1 12;
         (b1, d1) = ripemd160_R51 b1 c1 d1 e1 a1 w12 8;
         (b2, d2) = ripemd160_R52 b2 c2 d2 e2 a2 w5 5;
         (a1, c1) = ripemd160_R51 a1 b1 c1 d1 e1 w2 13;
         (a2, c2) = ripemd160_R52 a2 b2 c2 d2 e2 w8 14;
         (e1, b1) = ripemd160_R51 e1 a1 b1 c1 d1 w10 12;
         (e2, b2) = ripemd160_R52 e2 a2 b2 c2 d2 w7 6;
         (d1, a1) = ripemd160_R51 d1 e1 a1 b1 c1 w14 5;
         (d2, a2) = ripemd160_R52 d2 e2 a2 b2 c2 w6 8;
         (c1, e1) = ripemd160_R51 c1 d1 e1 a1 b1 w1 12;
         (c2, e2) = ripemd160_R52 c2 d2 e2 a2 b2 w2 13;
         (b1, d1) = ripemd160_R51 b1 c1 d1 e1 a1 w3 13;
         (b2, d2) = ripemd160_R52 b2 c2 d2 e2 a2 w13 6;
         (a1, c1) = ripemd160_R51 a1 b1 c1 d1 e1 w8 14;
         (a2, c2) = ripemd160_R52 a2 b2 c2 d2 e2 w14 5;
         (e1, b1) = ripemd160_R51 e1 a1 b1 c1 d1 w11 11;
         (e2, b2) = ripemd160_R52 e2 a2 b2 c2 d2 w0 15;
         (d1, a1) = ripemd160_R51 d1 e1 a1 b1 c1 w6 8;
         (d2, a2) = ripemd160_R52 d2 e2 a2 b2 c2 w3 13;
         (c1, e1) = ripemd160_R51 c1 d1 e1 a1 b1 w15 5;
         (c2, e2) = ripemd160_R52 c2 d2 e2 a2 b2 w9 11;
         (b1, d1) = ripemd160_R51 b1 c1 d1 e1 a1 w13 6;
         (b2, d2) = ripemd160_R52 b2 c2 d2 e2 a2 w11 11
     in (a1, b1, c1, d1, e1, a2, b2, c2, d2, e2))"

definition ripemd160_Transform :: "u32 list \<Rightarrow> byte list \<Rightarrow> u32 list" where
  "ripemd160_Transform s chunk =
     (let a1 = s ! 0; b1 = s ! 1; c1 = s ! 2; d1 = s ! 3; e1 = s ! 4;
          a2 = a1; b2 = b1; c2 = c1; d2 = d1; e2 = e1;
          w = (ReadLE32 (drop 0 chunk), ReadLE32 (drop 4 chunk), ReadLE32 (drop 8 chunk),
               ReadLE32 (drop 12 chunk), ReadLE32 (drop 16 chunk), ReadLE32 (drop 20 chunk),
               ReadLE32 (drop 24 chunk), ReadLE32 (drop 28 chunk), ReadLE32 (drop 32 chunk),
               ReadLE32 (drop 36 chunk), ReadLE32 (drop 40 chunk), ReadLE32 (drop 44 chunk),
               ReadLE32 (drop 48 chunk), ReadLE32 (drop 52 chunk), ReadLE32 (drop 56 chunk),
               ReadLE32 (drop 60 chunk));
          r = ripemd160_rounds_0 w (a1, b1, c1, d1, e1, a2, b2, c2, d2, e2);
          r = ripemd160_rounds_1 w r;
          r = ripemd160_rounds_2 w r;
          r = ripemd160_rounds_3 w r;
          (a1, b1, c1, d1, e1, a2, b2, c2, d2, e2) = ripemd160_rounds_4 w r
      in [s ! 1 + c1 + d2, s ! 2 + d1 + e2, s ! 3 + e1 + a2, s ! 4 + a1 + b2, s ! 0 + b1 + c2])"

definition CRIPEMD160 :: "byte list \<Rightarrow> hasher" where
  "CRIPEMD160 buf = \<lparr>hs = ripemd160_Initialize, hbuf = buf, hbytes = 0\<rparr>"

definition CRIPEMD160_Write :: "hasher \<Rightarrow> byte list \<Rightarrow> hasher" where
  "CRIPEMD160_Write h data = Write_with ripemd160_Transform h data"

definition CRIPEMD160_Finalize :: "hasher \<Rightarrow> byte list" where
  "CRIPEMD160_Finalize h =
     (let s = hs (Pad_with ripemd160_Transform WriteLE64 h)
      in WriteLE32 (s ! 0) @ WriteLE32 (s ! 1) @ WriteLE32 (s ! 2) @ WriteLE32 (s ! 3) @
         WriteLE32 (s ! 4))"

definition CRIPEMD160_Reset :: "hasher \<Rightarrow> hasher" where
  "CRIPEMD160_Reset h = h\<lparr>hbytes := 0, hs := ripemd160_Initialize\<rparr>"

interpretation cripemd160: md_stream ripemd160_Transform ripemd160_Initialize WriteLE64
  "\<lambda>s. WriteLE32 (s ! 0) @ WriteLE32 (s ! 1) @ WriteLE32 (s ! 2) @ WriteLE32 (s ! 3) @
        WriteLE32 (s ! 4)"
  CRIPEMD160_Reset CRIPEMD160_Write CRIPEMD160_Finalize
  by unfold_locales
    (simp_all add: CRIPEMD160_Reset_def CRIPEMD160_Write_def CRIPEMD160_Finalize_def Let_def length_Write)

lemma CRIPEMD160_Reset_new: "CRIPEMD160_Reset (CRIPEMD160 buf) = CRIPEMD160 buf"
  by (simp add: CRIPEMD160_Reset_def CRIPEMD160_def)

lemma CRIPEMD160_buf: "length (hbuf (CRIPEMD160 buf)) = length buf"
  by (simp add: CRIPEMD160_def)

lemma length_CRIPEMD160_Finalize: "length (CRIPEMD160_Finalize h) = 20"
  by (simp add: CRIPEMD160_Finalize_def Let_def length_Write)

end
