(* ===== verification/Hash.thy ===== *)
theory Hash
  imports Sha256 Sha1 Ripemd160
begin

text \<open>
  \<^verbatim>\<open>src/src/hash.h\<close> and \<^verbatim>\<open>src/src/hash.cpp\<close>: double SHA-256 and SHA-256/RIPEMD-160 hashers and the
  functions on them, \<open>MurmurHash3\<close>, and SipHash-2-4 with its specialised variant for \<open>uint256\<close>.
  A freshly constructed hasher has an uninitialised buffer; its content is fixed to zeros here,
  which the results of the streaming contract show to be irrelevant. \<open>BIP32Hash\<close> is not modelled.
\<close>

definition CSHA256_new :: hasher where
  "CSHA256_new = CSHA256 (replicate 64 0)"

definition CRIPEMD160_new :: hasher where
  "CRIPEMD160_new = CRIPEMD160 (replicate 64 0)"

definition CSHA1_new :: hasher where
  "CSHA1_new = CSHA1 (replicate 64 0)"

text \<open>
  \<open>CHash256\<close> and \<open>CHash160\<close> are wrappers of a \<open>CSHA256\<close>. The hasher is reset and reused by
  \<open>CHash256::Finalize\<close>, with the buffer as the first hash left it.
\<close>

definition CSHA256_state_after_Finalize :: "hasher \<Rightarrow> hasher" where
  "CSHA256_state_after_Finalize h = Pad_with sha256_Transform WriteBE64 h"

definition CHash256_Write :: "hasher \<Rightarrow> byte list \<Rightarrow> hasher" where
  "CHash256_Write sha data = CSHA256_Write sha data"

definition CHash256_Finalize :: "hasher \<Rightarrow> uint256" where
  "CHash256_Finalize sha =
     (let buf = CSHA256_Finalize sha;
          sha = CSHA256_state_after_Finalize sha
      in CSHA256_Finalize (CSHA256_Write (CSHA256_Reset sha) buf))"

definition CHash256_Reset :: "hasher \<Rightarrow> hasher" where
  "CHash256_Reset sha = CSHA256_Reset sha"

definition CHash160_Write :: "hasher \<Rightarrow> byte list \<Rightarrow> hasher" where
  "CHash160_Write sha data = CSHA256_Write sha data"

definition CHash160_Finalize :: "hasher \<Rightarrow> uint160" where
  "CHash160_Finalize sha =
     (let buf = CSHA256_Finalize sha
      in CRIPEMD160_Finalize (CRIPEMD160_Write CRIPEMD160_new buf))"

definition CHash160_Reset :: "hasher \<Rightarrow> hasher" where
  "CHash160_Reset sha = CSHA256_Reset sha"

definition Hash :: "byte list \<Rightarrow> uint256" where
  "Hash p = CHash256_Finalize (CHash256_Write CSHA256_new p)"

definition Hash_2 :: "byte list \<Rightarrow> byte list \<Rightarrow> uint256" where
  "Hash_2 p1 p2 = CHash256_Finalize (CHash256_Write (CHash256_Write CSHA256_new p1) p2)"

definition Hash_3 :: "byte list \<Rightarrow> byte list \<Rightarrow> byte list \<Rightarrow> uint256" where
  "Hash_3 p1 p2 p3 =
     CHash256_Finalize (CHash256_Write (CHash256_Write (CHash256_Write CSHA256_new p1) p2) p3)"

definition Hash160 :: "byte list \<Rightarrow> uint160" where
  "Hash160 p = CHash160_Finalize (CHash160_Write CSHA256_new p)"

text \<open>
  \<open>CHashWriter\<close>: every serialised field is one \<open>write\<close>; \<open>SerializeHash\<close> of an object whose
  serialisation makes the writes \<open>chunks\<close>.
\<close>

definition CHashWriter_write :: "hasher \<Rightarrow> byte list \<Rightarrow> hasher" where
  "CHashWriter_write ctx pch = CHash256_Write ctx pch"

definition CHashWriter_GetHash :: "hasher \<Rightarrow> uint256" where
  "CHashWriter_GetHash ctx = CHash256_Finalize ctx"

definition SerializeHash :: "byte list list \<Rightarrow> uint256" where
  "SerializeHash chunks = CHashWriter_GetHash (foldl CHashWriter_write CSHA256_new chunks)"

subsection \<open>MurmurHash3\<close>

definition ROTL32 :: "u32 \<Rightarrow> nat \<Rightarrow> u32" where
  "ROTL32 x r = push_bit r x OR drop_bit (32 - r) x"

definition murmur_k1 :: "u32 \<Rightarrow> u32" where
  "murmur_k1 k1 = ROTL32 (k1 * 0xcc9e2d51) 15 * 0x1b873593"

fun murmur_body :: "u32 \<Rightarrow> byte list \<Rightarrow> nat \<Rightarrow> u32" where
  "murmur_body h1 blocks 0 = h1"
| "murmur_body h1 blocks (Suc n) =
     murmur_body (ROTL32 (h1 XOR murmur_k1 (ReadLE32 blocks)) 13 * 5 + 0xe6546b64) (drop 4 blocks) n"

definition murmur_tail :: "u32 \<Rightarrow> byte list \<Rightarrow> u32" where
  "murmur_tail h1 tail =
     (case tail of
        [] \<Rightarrow> h1
      | [t0] \<Rightarrow> h1 XOR murmur_k1 (ucast t0)
      | [t0, t1] \<Rightarrow> h1 XOR murmur_k1 (push_bit 8 (ucast t1) XOR ucast t0)
      | t0 # t1 # t2 # _ \<Rightarrow>
          h1 XOR murmur_k1 (push_bit 16 (ucast t2) XOR push_bit 8 (ucast t1) XOR ucast t0))"

definition MurmurHash3 :: "u32 \<Rightarrow> byte list \<Rightarrow> u32" where
  "MurmurHash3 nHashSeed vDataToHash =
     (let nblocks = length vDataToHash div 4;
          h1 = (if length vDataToHash > 0
                then murmur_tail (murmur_body nHashSeed vDataToHash nblocks)
                       (drop (nblocks * 4) vDataToHash)
                else nHashSeed);
          h1 = h1 XOR of_nat (length vDataToHash);
          h1 = h1 XOR drop_bit 16 h1;
          h1 = h1 * 0x85ebca6b;
          h1 = h1 XOR drop_bit 13 h1;
          h1 = h1 * 0xc2b2ae35
      in h1 XOR drop_bit 16 h1)"

subsection \<open>SipHash\<close>

type_synonym sipstate = "u64 \<times> u64 \<times> u64 \<times> u64"

definition ROTL :: "u64 \<Rightarrow> nat \<Rightarrow> u64" where
  "ROTL x b = push_bit b x OR drop_bit (64 - b) x"

fun SIPROUND :: "sipstate \<Rightarrow> sipstate" where
  "SIPROUND (v0, v1, v2, v3) =
     (let v0 = v0 + v1; v1 = ROTL v1 13; v1 = v1 XOR v0;
          v0 = ROTL v0 32;
          v2 = v2 + v3; v3 = ROTL v3 16; v3 = v3 XOR v2;
          v0 = v0 + v3; v3 = ROTL v3 21; v3 = v3 XOR v0;
          v2 = v2 + v1; v1 = ROTL v1 17; v1 = v1 XOR v2;
          v2 = ROTL v2 32
      in (v0, v1, v2, v3))"

declare SIPROUND.simps [simp del]

fun xor_v0 :: "u64 \<Rightarrow> sipstate \<Rightarrow> sipstate" where
  "xor_v0 d (v0, v1, v2, v3) = (v0 XOR d, v1, v2, v3)"

fun xor_v2 :: "u64 \<Rightarrow> sipstate \<Rightarrow> sipstate" where
  "xor_v2 d (v0, v1, v2, v3) = (v0, v1, v2 XOR d, v3)"

fun xor_v3 :: "u64 \<Rightarrow> sipstate \<Rightarrow> sipstate" where
  "xor_v3 d (v0, v1, v2, v3) = (v0, v1, v2, v3 XOR d)"

fun xor_all :: "sipstate \<Rightarrow> u64" where
  "xor_all (v0, v1, v2, v3) = v0 XOR v1 XOR v2 XOR v3"

text \<open>\<open>count\<close> is an \<open>int\<close> in the source; messages of \<open>2^31\<close> bytes or more overflow it and are
  outside the model.\<close>

record CSipHasher =
  sip_v :: sipstate
  sip_tmp :: u64
  sip_count :: nat

definition CSipHasher_new :: "u64 \<Rightarrow> u64 \<Rightarrow> CSipHasher" where
  "CSipHasher_new k0 k1 =
     \<lparr>sip_v = (0x736f6d6570736575 XOR k0, 0x646f72616e646f6d XOR k1, 0x6c7967656e657261 XOR k0,
               0x7465646279746573 XOR k1),
      sip_tmp = 0, sip_count = 0\<rparr>"

definition sip_absorb :: "u64 \<Rightarrow> sipstate \<Rightarrow> sipstate" where
  "sip_absorb d v = xor_v0 d (SIPROUND (SIPROUND (xor_v3 d v)))"

definition CSipHasher_Write64 :: "CSipHasher \<Rightarrow> u64 \<Rightarrow> (unit, unit, CSipHasher) outcome" where
  "CSipHasher_Write64 h data =
     (if sip_count h mod 8 \<noteq> 0 then Abort
      else Ok (h\<lparr>sip_v := sip_absorb data (sip_v h), sip_count := sip_count h + 8\<rparr>))"

definition CSipHasher_Write_byte :: "CSipHasher \<Rightarrow> byte \<Rightarrow> CSipHasher" where
  "CSipHasher_Write_byte h b =
     (let t = sip_tmp h OR push_bit (8 * (sip_count h mod 8)) (ucast b);
          c = sip_count h + 1
      in if c mod 8 = 0
         then h\<lparr>sip_v := sip_absorb t (sip_v h), sip_tmp := 0, sip_count := c\<rparr>
         else h\<lparr>sip_tmp := t, sip_count := c\<rparr>)"

definition CSipHasher_Write :: "CSipHasher \<Rightarrow> byte list \<Rightarrow> CSipHasher" where
  "CSipHasher_Write h data = foldl CSipHasher_Write_byte h data"

definition sip_finish :: "sipstate \<Rightarrow> u64" where
  "sip_finish v = xor_all (SIPROUND (SIPROUND (SIPROUND (SIPROUND (xor_v2 0xFF v)))))"

definition CSipHasher_Finalize :: "CSipHasher \<Rightarrow> u64" where
  "CSipHasher_Finalize h =
     (let t = sip_tmp h OR push_bit 56 (of_nat (sip_count h))
      in sip_finish (sip_absorb t (sip_v h)))"

definition GetUint64 :: "uint256 \<Rightarrow> nat \<Rightarrow> u64" where
  "GetUint64 val pos =
     (let ptr = drop (pos * 8) val
      in ucast (ptr ! 0) OR push_bit 8 (ucast (ptr ! 1)) OR push_bit 16 (ucast (ptr ! 2)) OR
         push_bit 24 (ucast (ptr ! 3)) OR push_bit 32 (ucast (ptr ! 4)) OR
         push_bit 40 (ucast (ptr ! 5)) OR push_bit 48 (ucast (ptr ! 6)) OR
         push_bit 56 (ucast (ptr ! 7)))"

definition SipHashUint256 :: "u64 \<Rightarrow> u64 \<Rightarrow> uint256 \<Rightarrow> u64" where
  "SipHashUint256 k0 k1 val =
     (let d = GetUint64 val 0;
          v = (0x736f6d6570736575 XOR k0, 0x646f72616e646f6d XOR k1, 0x6c7967656e657261 XOR k0,
               (0x7465646279746573 XOR k1) XOR d);
          v = SIPROUND v; v = SIPROUND v; v = xor_v0 d v;
          d = GetUint64 val 1;
          v = xor_v3 d v; v = SIPROUND v; v = SIPROUND v; v = xor_v0 d v;
          d = GetUint64 val 2;
          v = xor_v3 d v; v = SIPROUND v; v = SIPROUND v; v = xor_v0 d v;
          d = GetUint64 val 3;
          v = xor_v3 d v; v = SIPROUND v; v = SIPROUND v; v = xor_v0 d v;
          v = xor_v3 (push_bit 59 4) v; v = SIPROUND v; v = SIPROUND v; v = xor_v0 (push_bit 59 4) v;
          v = xor_v2 0xFF v;
          v = SIPROUND v; v = SIPROUND v; v = SIPROUND v; v = SIPROUND v
      in xor_all v)"

subsection \<open>Hash functions on whole messages\<close>

lemma hbuf_Pad:
  assumes "stream_inv T iv msg h"
  shows "length (hbuf (Pad_with T WriteSize h)) = 64"
  using stream_inv_Pad [OF assms] by (simp add: stream_inv_def)

lemma CSHA256_Reset_Write_fips:
  assumes "length (hbuf h) = 64"
  shows "CSHA256_Finalize (CSHA256_Write (CSHA256_Reset h) data) = fips_sha256 data"
proof -
  have "CSHA256_Reset h = CSHA256 (hbuf h)" by (cases h) (simp add: CSHA256_Reset_def CSHA256_def)
  with CSHA256_fips [OF assms, of "[data]"] show ?thesis by simp
qed

lemma stream_inv_CSHA256:
  "stream_inv sha256_Transform sha256_Initialize (concat datas) (foldl CSHA256_Write CSHA256_new datas)"
proof -
  have W: "CSHA256_Write = Write_with sha256_Transform" by (intro ext) (simp add: CSHA256_Write_def)
  have "stream_inv sha256_Transform sha256_Initialize [] CSHA256_new"
    by (simp add: CSHA256_new_def CSHA256_def stream_inv_Reset)
  from stream_inv_Writes [OF this, of datas] show ?thesis by (simp add: W)
qed

lemma CHash256_fips:
  "CHash256_Finalize (foldl CHash256_Write CSHA256_new datas) = fips_sha256 (fips_sha256 (concat datas))"
proof -
  have W: "CHash256_Write = CSHA256_Write" by (intro ext) (simp add: CHash256_Write_def)
  let ?h = "foldl CSHA256_Write CSHA256_new datas"
  have "CSHA256_Finalize ?h = fips_sha256 (concat datas)"
    by (simp add: CSHA256_new_def CSHA256_fips)
  with hbuf_Pad [OF stream_inv_CSHA256 [of datas], of WriteBE64] show ?thesis
    by (simp add: W CHash256_Finalize_def CSHA256_state_after_Finalize_def CSHA256_Reset_Write_fips)
qed

lemma Hash_fips [simp]: "Hash p = fips_sha256 (fips_sha256 p)"
  using CHash256_fips [of "[p]"] by (simp add: Hash_def)

lemma Hash_2_eq: "Hash_2 p1 p2 = Hash (p1 @ p2)"
  using CHash256_fips [of "[p1, p2]"] by (simp add: Hash_2_def del: Hash_fips) (simp)

lemma Hash_3_eq: "Hash_3 p1 p2 p3 = Hash (p1 @ p2 @ p3)"
  using CHash256_fips [of "[p1, p2, p3]"] by (simp add: Hash_3_def)

declare Hash_fips [simp del]

lemma length_Hash [simp]: "length (Hash p) = 32"
  by (simp add: Hash_fips length_fips_sha256)

lemma length_Hash160 [simp]: "length (Hash160 p) = 20"
  by (simp add: Hash160_def CHash160_Finalize_def length_CRIPEMD160_Finalize)

lemma SerializeHash_eq: "SerializeHash chunks = Hash (concat chunks)"
proof -
  have W: "CHashWriter_write = CHash256_Write" by (intro ext) (simp add: CHashWriter_write_def)
  show ?thesis by (simp add: SerializeHash_def W CHashWriter_GetHash_def CHash256_fips Hash_fips)
qed

subsection \<open>The specialised SipHash\<close>

lemma sip_count_mod: "c < 8 \<Longrightarrow> (8 * k + c) mod 8 = (c :: nat)"
  by simp

text \<open>Eight bytes written one at a time are one 64-bit word written at once.\<close>

lemma CSipHasher_Write_8:
  assumes "length bs = 8"
  shows "CSipHasher_Write \<lparr>sip_v = v, sip_tmp = 0, sip_count = 8 * k\<rparr> bs =
         \<lparr>sip_v = sip_absorb (GetUint64 bs 0) v, sip_tmp = 0, sip_count = 8 * (k + 1)\<rparr>"
proof -
  obtain b0 b1 b2 b3 b4 b5 b6 b7 where bs: "bs = [b0, b1, b2, b3, b4, b5, b6, b7]"
    using assms by (auto simp: eval_nat_numeral length_Suc_conv)
  show ?thesis
    unfolding bs CSipHasher_Write_def
    by (simp add: CSipHasher_Write_byte_def Let_def GetUint64_def mod_Suc ac_simps flip: add_Suc_right)
qed

lemma GetUint64_take: "8 * pos + 8 \<le> length val \<Longrightarrow> GetUint64 (take 8 (drop (8 * pos) val)) 0 = GetUint64 val pos"
  by (simp add: GetUint64_def mult.commute)

lemma CSipHasher_Write_append: "CSipHasher_Write h (xs @ ys) = CSipHasher_Write (CSipHasher_Write h xs) ys"
  by (simp add: CSipHasher_Write_def)

definition siphash_uint256_words :: "u64 \<Rightarrow> u64 \<Rightarrow> uint256 \<Rightarrow> (unit, unit, u64) outcome" where
  "siphash_uint256_words k0 k1 val =
     bindO (CSipHasher_Write64 (CSipHasher_new k0 k1) (GetUint64 val 0)) (\<lambda>h.
     bindO (CSipHasher_Write64 h (GetUint64 val 1)) (\<lambda>h.
     bindO (CSipHasher_Write64 h (GetUint64 val 2)) (\<lambda>h.
     bindO (CSipHasher_Write64 h (GetUint64 val 3)) (\<lambda>h.
     Ok (CSipHasher_Finalize h)))))"

lemma siphash_size: "push_bit 59 4 = (push_bit 56 32 :: u64)"
  by (simp add: push_bit_eq_mult)

lemma SipHashUint256_absorb:
  "SipHashUint256 k0 k1 val =
     sip_finish (sip_absorb (push_bit 56 32) (sip_absorb (GetUint64 val 3) (sip_absorb (GetUint64 val 2)
       (sip_absorb (GetUint64 val 1) (sip_absorb (GetUint64 val 0) (sip_v (CSipHasher_new k0 k1)))))))"
  unfolding SipHashUint256_def Let_def siphash_size
  by (simp add: sip_absorb_def sip_finish_def CSipHasher_new_def)

lemma siphash_words: "siphash_uint256_words k0 k1 val = Ok (SipHashUint256 k0 k1 val)"
  unfolding SipHashUint256_absorb
  by (simp add: siphash_uint256_words_def CSipHasher_Write64_def CSipHasher_Finalize_def
      CSipHasher_new_def Let_def)

lemma siphash_bytes:
  assumes "length val = 32"
  shows "CSipHasher_Finalize (CSipHasher_Write (CSipHasher_new k0 k1) val) = SipHashUint256 k0 k1 val"
proof -
  define part where "part i = take 8 (drop (8 * i) val)" for i
  have "drop (8 * i) val = part i @ drop (8 * (i + 1)) val" for i
    using append_take_drop_id [of 8 "drop (8 * i) val"] by (simp add: part_def add.commute)
  from this [of 0] this [of 1] this [of 2] this [of 3]
  have val: "val = part 0 @ part 1 @ part 2 @ part 3" using assms by simp
  have len: "length (part i) = 8" "GetUint64 (part i) 0 = GetUint64 val i" if "i < 4" for i
    using that assms by (simp_all add: part_def GetUint64_take)
  have new: "CSipHasher_new k0 k1 = \<lparr>sip_v = sip_v (CSipHasher_new k0 k1), sip_tmp = 0, sip_count = 8 * 0\<rparr>"
    by (simp add: CSipHasher_new_def)
  show ?thesis
    unfolding SipHashUint256_absorb
    by (subst (1) val, subst new)
      (simp only: CSipHasher_Write_append CSipHasher_Write_8 len, simp add: len CSipHasher_Finalize_def)
qed

text \<open>
  \<open>SipHashUint256\<close>, the variant unrolled for 32-byte values, is identical to the general
  SipHash-2-4 hasher: to four \<open>Write(uint64_t)\<close> calls, as its comment states, none of which trips
  the assertion on \<open>count\<close>, and to the byte-wise \<open>Write\<close>.
\<close>

theorem SipHashUint256_generic:
  assumes "length val = 32"
  shows "siphash_uint256_words k0 k1 val = Ok (SipHashUint256 k0 k1 val) \<and>
         CSipHasher_Finalize (CSipHasher_Write (CSipHasher_new k0 k1) val) = SipHashUint256 k0 k1 val"
  using siphash_words siphash_bytes [OF assms] by blast

theorem SipHashUint256_generic_witness:
  "CSipHasher_Finalize (CSipHasher_Write (CSipHasher_new 1 2) (replicate 32 7)) =
     SipHashUint256 1 2 (replicate 32 7)"
  using SipHashUint256_generic [of "replicate 32 7" 1 2] by simp

text \<open>
  Hashing is independent of how a message is split: the two- and three-argument forms of
  \<open>Hash\<close> and the serialising \<open>CHashWriter\<close> give the double SHA-256 of the concatenation, and
  \<open>CSHA1\<close> and \<open>CRIPEMD160\<close> only depend on the concatenation of what was written.
\<close>

theorem hash_split:
  "Hash_2 p1 p2 = Hash (p1 @ p2) \<and> Hash_3 p1 p2 p3 = Hash (p1 @ p2 @ p3) \<and>
   SerializeHash chunks = Hash (concat chunks) \<and>
   Hash p1 = fips_sha256 (fips_sha256 p1) \<and>
   CSHA1_Finalize (foldl CSHA1_Write CSHA1_new chunks) =
     CSHA1_Finalize (CSHA1_Write CSHA1_new (concat chunks)) \<and>
   CRIPEMD160_Finalize (foldl CRIPEMD160_Write CRIPEMD160_new chunks) =
     CRIPEMD160_Finalize (CRIPEMD160_Write CRIPEMD160_new (concat chunks))"
  using csha1.Finalize_split [of CSHA1_new chunks "[concat chunks]"]
    cripemd160.Finalize_split [of CRIPEMD160_new chunks "[concat chunks]"]
  by (simp add: Hash_2_eq Hash_3_eq SerializeHash_eq Hash_fips CSHA1_new_def CRIPEMD160_new_def
      CSHA1_buf CRIPEMD160_buf CSHA1_Reset_new CRIPEMD160_Reset_new)

end
