(* ===== verification/Interpreter.thy ===== *)
theory Interpreter
  imports Script Script_Error Hash
begin

text \<open>
  The script machine of \<^verbatim>\<open>src/src/script/interpreter.cpp\<close>: the encoding checks on signatures and
  public keys, and \<open>EvalScript\<close> with one definition per group of \<open>case\<close> labels of its switch.

  A stack is a list whose head is the back of the C++ vector, so \<open>stacktop(-i)\<close> is the element
  with index \<open>i - 1\<close>. \<open>vector::at\<close> and \<open>popstack\<close> throw on a stack that is too small, the
  constructor of \<open>CScriptNum\<close> throws on a bad number, and a failed assertion aborts; the loop
  turns every exception into \<open>SCRIPT_ERR_UNKNOWN_ERROR\<close>. The signature checker is the record of
  the three virtual methods of \<open>BaseSignatureChecker\<close>. \<open>CPubKey::CheckLowS\<close> calls the elliptic
  curve library and is a parameter.
\<close>

subsection \<open>Flags\<close>

datatype SigVersion = SIGVERSION_BASE | SIGVERSION_WITNESS_V0

definition SIGHASH_ALL :: nat where "SIGHASH_ALL = 1"
definition SIGHASH_NONE :: nat where "SIGHASH_NONE = 2"
definition SIGHASH_SINGLE :: nat where "SIGHASH_SINGLE = 3"
definition SIGHASH_ANYONECANPAY :: nat where "SIGHASH_ANYONECANPAY = 0x80"

definition SCRIPT_VERIFY_NONE :: u32 where "SCRIPT_VERIFY_NONE = 0"
definition SCRIPT_VERIFY_P2SH :: u32 where "SCRIPT_VERIFY_P2SH = push_bit 0 1"
definition SCRIPT_VERIFY_STRICTENC :: u32 where "SCRIPT_VERIFY_STRICTENC = push_bit 1 1"
definition SCRIPT_VERIFY_DERSIG :: u32 where "SCRIPT_VERIFY_DERSIG = push_bit 2 1"
definition SCRIPT_VERIFY_LOW_S :: u32 where "SCRIPT_VERIFY_LOW_S = push_bit 3 1"
definition SCRIPT_VERIFY_NULLDUMMY :: u32 where "SCRIPT_VERIFY_NULLDUMMY = push_bit 4 1"
definition SCRIPT_VERIFY_SIGPUSHONLY :: u32 where "SCRIPT_VERIFY_SIGPUSHONLY = push_bit 5 1"
definition SCRIPT_VERIFY_MINIMALDATA :: u32 where "SCRIPT_VERIFY_MINIMALDATA = push_bit 6 1"
definition SCRIPT_VERIFY_DISCOURAGE_UPGRADABLE_NOPS :: u32 where
  "SCRIPT_VERIFY_DISCOURAGE_UPGRADABLE_NOPS = push_bit 7 1"
definition SCRIPT_VERIFY_CLEANSTACK :: u32 where "SCRIPT_VERIFY_CLEANSTACK = push_bit 8 1"
definition SCRIPT_VERIFY_CHECKLOCKTIMEVERIFY :: u32 where
  "SCRIPT_VERIFY_CHECKLOCKTIMEVERIFY = push_bit 9 1"
definition SCRIPT_VERIFY_CHECKSEQUENCEVERIFY :: u32 where
  "SCRIPT_VERIFY_CHECKSEQUENCEVERIFY = push_bit 10 1"
definition SCRIPT_VERIFY_WITNESS :: u32 where "SCRIPT_VERIFY_WITNESS = push_bit 11 1"
definition SCRIPT_VERIFY_DISCOURAGE_UPGRADABLE_WITNESS_PROGRAM :: u32 where
  "SCRIPT_VERIFY_DISCOURAGE_UPGRADABLE_WITNESS_PROGRAM = push_bit 12 1"
definition SCRIPT_VERIFY_MINIMALIF :: u32 where "SCRIPT_VERIFY_MINIMALIF = push_bit 13 1"
definition SCRIPT_VERIFY_NULLFAIL :: u32 where "SCRIPT_VERIFY_NULLFAIL = push_bit 14 1"
definition SCRIPT_VERIFY_WITNESS_PUBKEYTYPE :: u32 where
  "SCRIPT_VERIFY_WITNESS_PUBKEYTYPE = push_bit 15 1"

text \<open>The test \<open>(flags & F) != 0\<close>.\<close>

definition has_flag :: "u32 \<Rightarrow> u32 \<Rightarrow> bool" where
  "has_flag flags f \<longleftrightarrow> flags AND f \<noteq> 0"

type_synonym 'a script_result = "(ScriptError, script_exn, 'a) outcome"

record BaseSignatureChecker =
  CheckSig :: "valtype \<Rightarrow> valtype \<Rightarrow> CScript \<Rightarrow> SigVersion \<Rightarrow> bool"
  CheckLockTime :: "int \<Rightarrow> bool"
  CheckSequence :: "int \<Rightarrow> bool"

subsection \<open>Encodings\<close>

fun CastToBool :: "valtype \<Rightarrow> bool" where
  "CastToBool [] = False"
| "CastToBool (b # bs) =
     (if b \<noteq> 0 then \<not> (bs = [] \<and> b = 0x80) else CastToBool bs)"

definition IsCompressedOrUncompressedPubKey :: "valtype \<Rightarrow> bool" where
  "IsCompressedOrUncompressedPubKey vchPubKey =
     (if length vchPubKey < 33 then False
      else if vchPubKey ! 0 = 0x04 then length vchPubKey = 65
      else if vchPubKey ! 0 = 0x02 \<or> vchPubKey ! 0 = 0x03 then length vchPubKey = 33
      else False)"

definition IsCompressedPubKey :: "valtype \<Rightarrow> bool" where
  "IsCompressedPubKey vchPubKey =
     (if length vchPubKey \<noteq> 33 then False
      else if vchPubKey ! 0 \<noteq> 0x02 \<and> vchPubKey ! 0 \<noteq> 0x03 then False
      else True)"

definition IsValidSignatureEncoding :: "valtype \<Rightarrow> bool" where
  "IsValidSignatureEncoding sig =
     (if length sig < 9 then False
      else if length sig > 73 then False
      else if sig ! 0 \<noteq> 0x30 then False
      else if unat (sig ! 1) \<noteq> length sig - 3 then False
      else
        let lenR = unat (sig ! 3) in
        if 5 + lenR \<ge> length sig then False
        else
          let lenS = unat (sig ! (5 + lenR)) in
          if lenR + lenS + 7 \<noteq> length sig then False
          else if sig ! 2 \<noteq> 0x02 then False
          else if lenR = 0 then False
          else if sig ! 4 AND 0x80 \<noteq> 0 then False
          else if lenR > 1 \<and> sig ! 4 = 0 \<and> \<not> (sig ! 5 AND 0x80 \<noteq> 0) then False
          else if sig ! (lenR + 4) \<noteq> 0x02 then False
          else if lenS = 0 then False
          else if sig ! (lenR + 6) AND 0x80 \<noteq> 0 then False
          else if lenS > 1 \<and> sig ! (lenR + 6) = 0 \<and> \<not> (sig ! (lenR + 7) AND 0x80 \<noteq> 0) then False
          else True)"

definition IsLowDERSignature :: "(valtype \<Rightarrow> bool) \<Rightarrow> valtype \<Rightarrow> unit script_result" where
  "IsLowDERSignature CheckLowS vchSig =
     (if \<not> IsValidSignatureEncoding vchSig then Fail SCRIPT_ERR_SIG_DER
      else if \<not> CheckLowS (butlast vchSig) then Fail SCRIPT_ERR_SIG_HIGH_S
      else Ok ())"

definition IsDefinedHashtypeSignature :: "valtype \<Rightarrow> bool" where
  "IsDefinedHashtypeSignature vchSig =
     (if length vchSig = 0 then False
      else
        let nHashType = unat (last vchSig AND NOT (of_nat SIGHASH_ANYONECANPAY))
        in \<not> (nHashType < SIGHASH_ALL \<or> nHashType > SIGHASH_SINGLE))"

definition CheckSignatureEncoding :: "(valtype \<Rightarrow> bool) \<Rightarrow> valtype \<Rightarrow> u32 \<Rightarrow> unit script_result" where
  "CheckSignatureEncoding CheckLowS vchSig flags =
     (if length vchSig = 0 then Ok ()
      else if has_flag flags (SCRIPT_VERIFY_DERSIG OR SCRIPT_VERIFY_LOW_S OR SCRIPT_VERIFY_STRICTENC) \<and>
              \<not> IsValidSignatureEncoding vchSig
      then Fail SCRIPT_ERR_SIG_DER
      else if has_flag flags SCRIPT_VERIFY_LOW_S \<and> IsLowDERSignature CheckLowS vchSig \<noteq> Ok ()
      then IsLowDERSignature CheckLowS vchSig
      else if has_flag flags SCRIPT_VERIFY_STRICTENC \<and> \<not> IsDefinedHashtypeSignature vchSig
      then Fail SCRIPT_ERR_SIG_HASHTYPE
      else Ok ())"

definition CheckPubKeyEncoding :: "valtype \<Rightarrow> u32 \<Rightarrow> SigVersion \<Rightarrow> unit script_result" where
  "CheckPubKeyEncoding vchPubKey flags sigversion =
     (if has_flag flags SCRIPT_VERIFY_STRICTENC \<and> \<not> IsCompressedOrUncompressedPubKey vchPubKey
      then Fail SCRIPT_ERR_PUBKEYTYPE
      else if has_flag flags SCRIPT_VERIFY_WITNESS_PUBKEYTYPE \<and> sigversion = SIGVERSION_WITNESS_V0 \<and>
              \<not> IsCompressedPubKey vchPubKey
      then Fail SCRIPT_ERR_WITNESS_PUBKEYTYPE
      else Ok ())"

definition CheckMinimalPush :: "valtype \<Rightarrow> opcodetype \<Rightarrow> bool" where
  "CheckMinimalPush data opcode =
     (if length data = 0 then opcode = OP_0
      else if length data = 1 \<and> unat (data ! 0) \<ge> 1 \<and> unat (data ! 0) \<le> 16
      then opcode = OP_1 + (unat (data ! 0) - 1)
      else if length data = 1 \<and> data ! 0 = 0x81 then opcode = OP_1NEGATE
      else if length data \<le> 75 then opcode = length data
      else if length data \<le> 255 then opcode = OP_PUSHDATA1
      else if length data \<le> 65535 then opcode = OP_PUSHDATA2
      else True)"

subsection \<open>The machine\<close>

record script_env =
  env_flags :: u32
  env_checker :: BaseSignatureChecker
  env_sigversion :: SigVersion
  env_CheckLowS :: "valtype \<Rightarrow> bool"

text \<open>The local variables of \<open>EvalScript\<close>.\<close>

record machine =
  stack :: "valtype list"
  altstack :: "valtype list"
  vfExec :: "bool list"
  nOpCount :: nat
  pc :: CScript
  pbegincodehash :: CScript

definition vchFalse :: valtype where "vchFalse = []"
definition vchTrue :: valtype where "vchTrue = [1]"

definition stacktop :: "valtype list \<Rightarrow> nat \<Rightarrow> valtype script_result" where
  "stacktop st i = (if 1 \<le> i \<and> i \<le> length st then Ok (st ! (i - 1)) else Throw Out_of_range)"

definition popstack :: "valtype list \<Rightarrow> valtype list script_result" where
  "popstack st = (if st = [] then Throw (Runtime_error ''popstack(): stack empty'') else Ok (tl st))"

definition fRequireMinimal :: "script_env \<Rightarrow> bool" where
  "fRequireMinimal E = has_flag (env_flags E) SCRIPT_VERIFY_MINIMALDATA"

text \<open>\<open>CScriptNum(stacktop(-i), fRequireMinimal)\<close>.\<close>

definition top_num :: "script_env \<Rightarrow> valtype list \<Rightarrow> nat \<Rightarrow> int script_result" where
  "top_num E st i =
     bindO (stacktop st i) (\<lambda>vch. CScriptNum vch (fRequireMinimal E) nDefaultMaxNumSize)"

definition need :: "bool \<Rightarrow> ScriptError \<Rightarrow> unit script_result" where
  "need c err = (if c then Ok () else Fail err)"

abbreviation (input) stack_error :: ScriptError where
  "stack_error \<equiv> SCRIPT_ERR_INVALID_STACK_OPERATION"

subsubsection \<open>Push value and control\<close>

definition eval_push_value :: "opcodetype \<Rightarrow> machine \<Rightarrow> machine script_result" where
  "eval_push_value opcode s = Ok (s\<lparr>stack := getvch (int opcode - (int OP_1 - 1)) # stack s\<rparr>)"

definition eval_OP_CHECKLOCKTIMEVERIFY :: "script_env \<Rightarrow> machine \<Rightarrow> machine script_result" where
  "eval_OP_CHECKLOCKTIMEVERIFY E s =
     (if \<not> has_flag (env_flags E) SCRIPT_VERIFY_CHECKLOCKTIMEVERIFY then
        (if has_flag (env_flags E) SCRIPT_VERIFY_DISCOURAGE_UPGRADABLE_NOPS
         then Fail SCRIPT_ERR_DISCOURAGE_UPGRADABLE_NOPS else Ok s)
      else
        bindO (need (\<not> length (stack s) < 1) stack_error) (\<lambda>_.
        bindO (stacktop (stack s) 1) (\<lambda>vch.
        bindO (CScriptNum vch (fRequireMinimal E) 5) (\<lambda>nLockTime.
        bindO (need (\<not> nLockTime < 0) SCRIPT_ERR_NEGATIVE_LOCKTIME) (\<lambda>_.
        bindO (need (CheckLockTime (env_checker E) nLockTime) SCRIPT_ERR_UNSATISFIED_LOCKTIME) (\<lambda>_.
        Ok s))))))"

definition SEQUENCE_LOCKTIME_DISABLE_FLAG :: nat where
  "SEQUENCE_LOCKTIME_DISABLE_FLAG = 2 ^ 31"

definition eval_OP_CHECKSEQUENCEVERIFY :: "script_env \<Rightarrow> machine \<Rightarrow> machine script_result" where
  "eval_OP_CHECKSEQUENCEVERIFY E s =
     (if \<not> has_flag (env_flags E) SCRIPT_VERIFY_CHECKSEQUENCEVERIFY then
        (if has_flag (env_flags E) SCRIPT_VERIFY_DISCOURAGE_UPGRADABLE_NOPS
         then Fail SCRIPT_ERR_DISCOURAGE_UPGRADABLE_NOPS else Ok s)
      else
        bindO (need (\<not> length (stack s) < 1) stack_error) (\<lambda>_.
        bindO (stacktop (stack s) 1) (\<lambda>vch.
        bindO (CScriptNum vch (fRequireMinimal E) 5) (\<lambda>nSequence.
        bindO (need (\<not> nSequence < 0) SCRIPT_ERR_NEGATIVE_LOCKTIME) (\<lambda>_.
        if nSequence AND int SEQUENCE_LOCKTIME_DISABLE_FLAG \<noteq> 0 then Ok s
        else
          bindO (need (CheckSequence (env_checker E) nSequence) SCRIPT_ERR_UNSATISFIED_LOCKTIME) (\<lambda>_.
          Ok s))))))"

definition eval_OP_NOPx :: "script_env \<Rightarrow> machine \<Rightarrow> machine script_result" where
  "eval_OP_NOPx E s =
     (if has_flag (env_flags E) SCRIPT_VERIFY_DISCOURAGE_UPGRADABLE_NOPS
      then Fail SCRIPT_ERR_DISCOURAGE_UPGRADABLE_NOPS else Ok s)"

definition eval_OP_IF :: "script_env \<Rightarrow> bool \<Rightarrow> opcodetype \<Rightarrow> machine \<Rightarrow> machine script_result" where
  "eval_OP_IF E fExec opcode s =
     (if fExec then
        bindO (need (\<not> length (stack s) < 1) SCRIPT_ERR_UNBALANCED_CONDITIONAL) (\<lambda>_.
        bindO (stacktop (stack s) 1) (\<lambda>vch.
        bindO (if env_sigversion E = SIGVERSION_WITNESS_V0 \<and> has_flag (env_flags E) SCRIPT_VERIFY_MINIMALIF
               then bindO (need (\<not> length vch > 1) SCRIPT_ERR_MINIMALIF) (\<lambda>_.
                    need (\<not> (length vch = 1 \<and> vch ! 0 \<noteq> 1)) SCRIPT_ERR_MINIMALIF)
               else Ok ()) (\<lambda>_.
        let fValue = CastToBool vch;
            fValue = (if opcode = OP_NOTIF then \<not> fValue else fValue)
        in bindO (popstack (stack s)) (\<lambda>st.
           Ok (s\<lparr>stack := st, vfExec := fValue # vfExec s\<rparr>)))))
      else Ok (s\<lparr>vfExec := False # vfExec s\<rparr>))"

definition eval_OP_ELSE :: "machine \<Rightarrow> machine script_result" where
  "eval_OP_ELSE s =
     bindO (need (vfExec s \<noteq> []) SCRIPT_ERR_UNBALANCED_CONDITIONAL) (\<lambda>_.
     Ok (s\<lparr>vfExec := (\<not> hd (vfExec s)) # tl (vfExec s)\<rparr>))"

definition eval_OP_ENDIF :: "machine \<Rightarrow> machine script_result" where
  "eval_OP_ENDIF s =
     bindO (need (vfExec s \<noteq> []) SCRIPT_ERR_UNBALANCED_CONDITIONAL) (\<lambda>_.
     Ok (s\<lparr>vfExec := tl (vfExec s)\<rparr>))"

definition eval_OP_VERIFY :: "machine \<Rightarrow> machine script_result" where
  "eval_OP_VERIFY s =
     bindO (need (\<not> length (stack s) < 1) stack_error) (\<lambda>_.
     bindO (stacktop (stack s) 1) (\<lambda>vch.
     if CastToBool vch then bindO (popstack (stack s)) (\<lambda>st. Ok (s\<lparr>stack := st\<rparr>))
     else Fail SCRIPT_ERR_VERIFY))"

subsubsection \<open>Stack operations\<close>

definition eval_OP_TOALTSTACK :: "machine \<Rightarrow> machine script_result" where
  "eval_OP_TOALTSTACK s =
     bindO (need (\<not> length (stack s) < 1) stack_error) (\<lambda>_.
     bindO (stacktop (stack s) 1) (\<lambda>vch.
     bindO (popstack (stack s)) (\<lambda>st.
     Ok (s\<lparr>altstack := vch # altstack s, stack := st\<rparr>))))"

definition eval_OP_FROMALTSTACK :: "machine \<Rightarrow> machine script_result" where
  "eval_OP_FROMALTSTACK s =
     bindO (need (\<not> length (altstack s) < 1) SCRIPT_ERR_INVALID_ALTSTACK_OPERATION) (\<lambda>_.
     bindO (stacktop (altstack s) 1) (\<lambda>vch.
     bindO (popstack (altstack s)) (\<lambda>alt.
     Ok (s\<lparr>stack := vch # stack s, altstack := alt\<rparr>))))"

definition eval_OP_2DROP :: "machine \<Rightarrow> machine script_result" where
  "eval_OP_2DROP s =
     bindO (need (\<not> length (stack s) < 2) stack_error) (\<lambda>_.
     bindO (popstack (stack s)) (\<lambda>st.
     bindO (popstack st) (\<lambda>st.
     Ok (s\<lparr>stack := st\<rparr>))))"

definition eval_OP_2DUP :: "machine \<Rightarrow> machine script_result" where
  "eval_OP_2DUP s =
     bindO (need (\<not> length (stack s) < 2) stack_error) (\<lambda>_.
     bindO (stacktop (stack s) 2) (\<lambda>vch1.
     bindO (stacktop (stack s) 1) (\<lambda>vch2.
     Ok (s\<lparr>stack := vch2 # vch1 # stack s\<rparr>))))"

definition eval_OP_3DUP :: "machine \<Rightarrow> machine script_result" where
  "eval_OP_3DUP s =
     bindO (need (\<not> length (stack s) < 3) stack_error) (\<lambda>_.
     bindO (stacktop (stack s) 3) (\<lambda>vch1.
     bindO (stacktop (stack s) 2) (\<lambda>vch2.
     bindO (stacktop (stack s) 1) (\<lambda>vch3.
     Ok (s\<lparr>stack := vch3 # vch2 # vch1 # stack s\<rparr>)))))"

definition eval_OP_2OVER :: "machine \<Rightarrow> machine script_result" where
  "eval_OP_2OVER s =
     bindO (need (\<not> length (stack s) < 4) stack_error) (\<lambda>_.
     bindO (stacktop (stack s) 4) (\<lambda>vch1.
     bindO (stacktop (stack s) 3) (\<lambda>vch2.
     Ok (s\<lparr>stack := vch2 # vch1 # stack s\<rparr>))))"

text \<open>\<open>stack.erase(stack.end() - i)\<close> for one element, with \<open>i\<close> counted from the top.\<close>

definition erase_at :: "valtype list \<Rightarrow> nat \<Rightarrow> valtype list" where
  "erase_at st i = take (i - 1) st @ drop i st"

text \<open>\<open>swap(stacktop(-i), stacktop(-j))\<close>.\<close>

definition swap_top :: "valtype list \<Rightarrow> nat \<Rightarrow> nat \<Rightarrow> valtype list script_result" where
  "swap_top st i j =
     bindO (stacktop st i) (\<lambda>x. bindO (stacktop st j) (\<lambda>y.
     Ok (st[i - 1 := y, j - 1 := x])))"

definition eval_OP_2ROT :: "machine \<Rightarrow> machine script_result" where
  "eval_OP_2ROT s =
     bindO (need (\<not> length (stack s) < 6) stack_error) (\<lambda>_.
     bindO (stacktop (stack s) 6) (\<lambda>vch1.
     bindO (stacktop (stack s) 5) (\<lambda>vch2.
     let st = take 4 (stack s) @ drop 6 (stack s)
     in Ok (s\<lparr>stack := vch2 # vch1 # st\<rparr>))))"

definition eval_OP_2SWAP :: "machine \<Rightarrow> machine script_result" where
  "eval_OP_2SWAP s =
     bindO (need (\<not> length (stack s) < 4) stack_error) (\<lambda>_.
     bindO (swap_top (stack s) 4 2) (\<lambda>st.
     bindO (swap_top st 3 1) (\<lambda>st.
     Ok (s\<lparr>stack := st\<rparr>))))"

definition eval_OP_IFDUP :: "machine \<Rightarrow> machine script_result" where
  "eval_OP_IFDUP s =
     bindO (need (\<not> length (stack s) < 1) stack_error) (\<lambda>_.
     bindO (stacktop (stack s) 1) (\<lambda>vch.
     if CastToBool vch then Ok (s\<lparr>stack := vch # stack s\<rparr>) else Ok s))"

definition eval_OP_DEPTH :: "machine \<Rightarrow> machine script_result" where
  "eval_OP_DEPTH s = Ok (s\<lparr>stack := getvch (int (length (stack s))) # stack s\<rparr>)"

definition eval_OP_DROP :: "machine \<Rightarrow> machine script_result" where
  "eval_OP_DROP s =
     bindO (need (\<not> length (stack s) < 1) stack_error) (\<lambda>_.
     bindO (popstack (stack s)) (\<lambda>st. Ok (s\<lparr>stack := st\<rparr>)))"

definition eval_OP_DUP :: "machine \<Rightarrow> machine script_result" where
  "eval_OP_DUP s =
     bindO (need (\<not> length (stack s) < 1) stack_error) (\<lambda>_.
     bindO (stacktop (stack s) 1) (\<lambda>vch. Ok (s\<lparr>stack := vch # stack s\<rparr>)))"

definition eval_OP_NIP :: "machine \<Rightarrow> machine script_result" where
  "eval_OP_NIP s =
     bindO (need (\<not> length (stack s) < 2) stack_error) (\<lambda>_.
     Ok (s\<lparr>stack := erase_at (stack s) 2\<rparr>))"

definition eval_OP_OVER :: "machine \<Rightarrow> machine script_result" where
  "eval_OP_OVER s =
     bindO (need (\<not> length (stack s) < 2) stack_error) (\<lambda>_.
     bindO (stacktop (stack s) 2) (\<lambda>vch. Ok (s\<lparr>stack := vch # stack s\<rparr>)))"

definition eval_OP_PICK :: "script_env \<Rightarrow> opcodetype \<Rightarrow> machine \<Rightarrow> machine script_result" where
  "eval_OP_PICK E opcode s =
     bindO (need (\<not> length (stack s) < 2) stack_error) (\<lambda>_.
     bindO (top_num E (stack s) 1) (\<lambda>bn.
     let n = getint bn in
     bindO (popstack (stack s)) (\<lambda>st.
     bindO (need (\<not> (n < 0 \<or> n \<ge> int (length st))) stack_error) (\<lambda>_.
     bindO (stacktop st (nat n + 1)) (\<lambda>vch.
     let st = (if opcode = OP_ROLL then erase_at st (nat n + 1) else st)
     in Ok (s\<lparr>stack := vch # st\<rparr>))))))"

definition eval_OP_ROT :: "machine \<Rightarrow> machine script_result" where
  "eval_OP_ROT s =
     bindO (need (\<not> length (stack s) < 3) stack_error) (\<lambda>_.
     bindO (swap_top (stack s) 3 2) (\<lambda>st.
     bindO (swap_top st 2 1) (\<lambda>st.
     Ok (s\<lparr>stack := st\<rparr>))))"

definition eval_OP_SWAP :: "machine \<Rightarrow> machine script_result" where
  "eval_OP_SWAP s =
     bindO (need (\<not> length (stack s) < 2) stack_error) (\<lambda>_.
     bindO (swap_top (stack s) 2 1) (\<lambda>st.
     Ok (s\<lparr>stack := st\<rparr>)))"

text \<open>\<open>stack.insert(stack.end()-2, vch)\<close>.\<close>

definition eval_OP_TUCK :: "machine \<Rightarrow> machine script_result" where
  "eval_OP_TUCK s =
     bindO (need (\<not> length (stack s) < 2) stack_error) (\<lambda>_.
     bindO (stacktop (stack s) 1) (\<lambda>vch.
     Ok (s\<lparr>stack := take 2 (stack s) @ vch # drop 2 (stack s)\<rparr>)))"

definition eval_OP_SIZE :: "machine \<Rightarrow> machine script_result" where
  "eval_OP_SIZE s =
     bindO (need (\<not> length (stack s) < 1) stack_error) (\<lambda>_.
     bindO (stacktop (stack s) 1) (\<lambda>vch.
     Ok (s\<lparr>stack := getvch (int (length vch)) # stack s\<rparr>)))"

subsubsection \<open>Comparison and numbers\<close>

definition vchBool :: "bool \<Rightarrow> valtype" where
  "vchBool b = (if b then vchTrue else vchFalse)"

definition eval_OP_EQUAL :: "opcodetype \<Rightarrow> machine \<Rightarrow> machine script_result" where
  "eval_OP_EQUAL opcode s =
     bindO (need (\<not> length (stack s) < 2) stack_error) (\<lambda>_.
     bindO (stacktop (stack s) 2) (\<lambda>vch1.
     bindO (stacktop (stack s) 1) (\<lambda>vch2.
     let fEqual = (vch1 = vch2) in
     bindO (popstack (stack s)) (\<lambda>st.
     bindO (popstack st) (\<lambda>st.
     let st = vchBool fEqual # st in
     if opcode = OP_EQUALVERIFY then
       (if fEqual then bindO (popstack st) (\<lambda>st. Ok (s\<lparr>stack := st\<rparr>))
        else Fail SCRIPT_ERR_EQUALVERIFY)
     else Ok (s\<lparr>stack := st\<rparr>))))))"

text \<open>The assignment of a comparison to a \<open>CScriptNum\<close>.\<close>

definition num_of_bool :: "bool \<Rightarrow> int" where
  "num_of_bool b = (if b then 1 else 0)"

definition eval_unary :: "opcodetype \<Rightarrow> int \<Rightarrow> int script_result" where
  "eval_unary opcode bn =
     (if opcode = OP_1ADD then CScriptNum_add_assign bn 1
      else if opcode = OP_1SUB then CScriptNum_sub_assign bn 1
      else if opcode = OP_NEGATE then CScriptNum_neg bn
      else if opcode = OP_ABS then (if bn < 0 then CScriptNum_neg bn else Ok bn)
      else if opcode = OP_NOT then Ok (num_of_bool (bn = 0))
      else if opcode = OP_0NOTEQUAL then Ok (num_of_bool (bn \<noteq> 0))
      else Abort)"

definition eval_numeric_unary :: "script_env \<Rightarrow> opcodetype \<Rightarrow> machine \<Rightarrow> machine script_result" where
  "eval_numeric_unary E opcode s =
     bindO (need (\<not> length (stack s) < 1) stack_error) (\<lambda>_.
     bindO (top_num E (stack s) 1) (\<lambda>bn.
     bindO (eval_unary opcode bn) (\<lambda>bn.
     bindO (popstack (stack s)) (\<lambda>st.
     Ok (s\<lparr>stack := getvch bn # st\<rparr>)))))"

definition eval_binary :: "opcodetype \<Rightarrow> int \<Rightarrow> int \<Rightarrow> int script_result" where
  "eval_binary opcode bn1 bn2 =
     (if opcode = OP_ADD then CScriptNum_add bn1 bn2
      else if opcode = OP_SUB then CScriptNum_sub bn1 bn2
      else if opcode = OP_BOOLAND then Ok (num_of_bool (bn1 \<noteq> 0 \<and> bn2 \<noteq> 0))
      else if opcode = OP_BOOLOR then Ok (num_of_bool (bn1 \<noteq> 0 \<or> bn2 \<noteq> 0))
      else if opcode = OP_NUMEQUAL then Ok (num_of_bool (bn1 = bn2))
      else if opcode = OP_NUMEQUALVERIFY then Ok (num_of_bool (bn1 = bn2))
      else if opcode = OP_NUMNOTEQUAL then Ok (num_of_bool (bn1 \<noteq> bn2))
      else if opcode = OP_LESSTHAN then Ok (num_of_bool (bn1 < bn2))
      else if opcode = OP_GREATERTHAN then Ok (num_of_bool (bn1 > bn2))
      else if opcode = OP_LESSTHANOREQUAL then Ok (num_of_bool (bn1 \<le> bn2))
      else if opcode = OP_GREATERTHANOREQUAL then Ok (num_of_bool (bn1 \<ge> bn2))
      else if opcode = OP_MIN then Ok (if bn1 < bn2 then bn1 else bn2)
      else if opcode = OP_MAX then Ok (if bn1 > bn2 then bn1 else bn2)
      else Abort)"

definition eval_numeric_binary :: "script_env \<Rightarrow> opcodetype \<Rightarrow> machine \<Rightarrow> machine script_result" where
  "eval_numeric_binary E opcode s =
     bindO (need (\<not> length (stack s) < 2) stack_error) (\<lambda>_.
     bindO (top_num E (stack s) 2) (\<lambda>bn1.
     bindO (top_num E (stack s) 1) (\<lambda>bn2.
     bindO (eval_binary opcode bn1 bn2) (\<lambda>bn.
     bindO (popstack (stack s)) (\<lambda>st.
     bindO (popstack st) (\<lambda>st.
     let st = getvch bn # st in
     if opcode = OP_NUMEQUALVERIFY then
       bindO (stacktop st 1) (\<lambda>vch.
       if CastToBool vch then bindO (popstack st) (\<lambda>st. Ok (s\<lparr>stack := st\<rparr>))
       else Fail SCRIPT_ERR_NUMEQUALVERIFY)
     else Ok (s\<lparr>stack := st\<rparr>)))))))"

definition eval_OP_WITHIN :: "script_env \<Rightarrow> machine \<Rightarrow> machine script_result" where
  "eval_OP_WITHIN E s =
     bindO (need (\<not> length (stack s) < 3) stack_error) (\<lambda>_.
     bindO (top_num E (stack s) 3) (\<lambda>bn1.
     bindO (top_num E (stack s) 2) (\<lambda>bn2.
     bindO (top_num E (stack s) 1) (\<lambda>bn3.
     let fValue = (bn2 \<le> bn1 \<and> bn1 < bn3) in
     bindO (popstack (stack s)) (\<lambda>st.
     bindO (popstack st) (\<lambda>st.
     bindO (popstack st) (\<lambda>st.
     Ok (s\<lparr>stack := vchBool fValue # st\<rparr>))))))))"

subsubsection \<open>Crypto\<close>

definition eval_hash :: "opcodetype \<Rightarrow> machine \<Rightarrow> machine script_result" where
  "eval_hash opcode s =
     bindO (need (\<not> length (stack s) < 1) stack_error) (\<lambda>_.
     bindO (stacktop (stack s) 1) (\<lambda>vch.
     let vchHash =
       (if opcode = OP_RIPEMD160 then CRIPEMD160_Finalize (CRIPEMD160_Write CRIPEMD160_new vch)
        else if opcode = OP_SHA1 then CSHA1_Finalize (CSHA1_Write CSHA1_new vch)
        else if opcode = OP_SHA256 then CSHA256_Finalize (CSHA256_Write CSHA256_new vch)
        else if opcode = OP_HASH160 then CHash160_Finalize (CHash160_Write CSHA256_new vch)
        else if opcode = OP_HASH256 then CHash256_Finalize (CHash256_Write CSHA256_new vch)
        else replicate 32 0)
     in bindO (popstack (stack s)) (\<lambda>st.
        Ok (s\<lparr>stack := vchHash # st\<rparr>))))"

definition eval_OP_CODESEPARATOR :: "machine \<Rightarrow> machine script_result" where
  "eval_OP_CODESEPARATOR s = Ok (s\<lparr>pbegincodehash := pc s\<rparr>)"

text \<open>\<open>scriptCode.FindAndDelete(CScript(vchSig))\<close>, for scripts before segregated witness only.\<close>

definition drop_signature :: "script_env \<Rightarrow> CScript \<Rightarrow> valtype \<Rightarrow> CScript" where
  "drop_signature E scriptCode vchSig =
     (if env_sigversion E = SIGVERSION_BASE
      then snd (FindAndDelete scriptCode (push_data [] vchSig)) else scriptCode)"

definition check_encodings :: "script_env \<Rightarrow> valtype \<Rightarrow> valtype \<Rightarrow> unit script_result" where
  "check_encodings E vchSig vchPubKey =
     bindO (CheckSignatureEncoding (env_CheckLowS E) vchSig (env_flags E)) (\<lambda>_.
     CheckPubKeyEncoding vchPubKey (env_flags E) (env_sigversion E))"

definition eval_OP_CHECKSIG :: "script_env \<Rightarrow> opcodetype \<Rightarrow> machine \<Rightarrow> machine script_result" where
  "eval_OP_CHECKSIG E opcode s =
     bindO (need (\<not> length (stack s) < 2) stack_error) (\<lambda>_.
     bindO (stacktop (stack s) 2) (\<lambda>vchSig.
     bindO (stacktop (stack s) 1) (\<lambda>vchPubKey.
     let scriptCode = drop_signature E (pbegincodehash s) vchSig in
     bindO (check_encodings E vchSig vchPubKey) (\<lambda>_.
     let fSuccess = CheckSig (env_checker E) vchSig vchPubKey scriptCode (env_sigversion E) in
     bindO (need (\<not> (\<not> fSuccess \<and> has_flag (env_flags E) SCRIPT_VERIFY_NULLFAIL \<and> length vchSig \<noteq> 0))
             SCRIPT_ERR_SIG_NULLFAIL) (\<lambda>_.
     bindO (popstack (stack s)) (\<lambda>st.
     bindO (popstack st) (\<lambda>st.
     let st = vchBool fSuccess # st in
     if opcode = OP_CHECKSIGVERIFY then
       (if fSuccess then bindO (popstack st) (\<lambda>st. Ok (s\<lparr>stack := st\<rparr>))
        else Fail SCRIPT_ERR_CHECKSIGVERIFY)
     else Ok (s\<lparr>stack := st\<rparr>))))))))"

fun multisig_drop :: "script_env \<Rightarrow> valtype list \<Rightarrow> nat \<Rightarrow> nat \<Rightarrow> CScript \<Rightarrow> CScript script_result" where
  "multisig_drop E st isig 0 scriptCode = Ok scriptCode"
| "multisig_drop E st isig (Suc n) scriptCode =
     bindO (stacktop st isig) (\<lambda>vchSig.
     multisig_drop E st (isig + 1) n (drop_signature E scriptCode vchSig))"

function multisig_loop ::
  "script_env \<Rightarrow> valtype list \<Rightarrow> CScript \<Rightarrow> nat \<Rightarrow> nat \<Rightarrow> int \<Rightarrow> int \<Rightarrow> bool script_result" where
  "multisig_loop E st scriptCode isig ikey nSigsCount nKeysCount =
     (if nSigsCount > 0 then
        bindO (stacktop st isig) (\<lambda>vchSig.
        bindO (stacktop st ikey) (\<lambda>vchPubKey.
        bindO (check_encodings E vchSig vchPubKey) (\<lambda>_.
        let fOk = CheckSig (env_checker E) vchSig vchPubKey scriptCode (env_sigversion E);
            isig = (if fOk then isig + 1 else isig);
            nSigsCount = (if fOk then nSigsCount - 1 else nSigsCount)
        in if nSigsCount > nKeysCount - 1 then Ok False
           else multisig_loop E st scriptCode isig (ikey + 1) nSigsCount (nKeysCount - 1))))
      else Ok True)"
  by pat_completeness auto
termination
  by (relation "measure (\<lambda>(E, st, scriptCode, isig, ikey, nSigs, nKeys). nat nKeys)") (auto split: if_splits)

declare multisig_loop.simps [simp del]

text \<open>The loop \<open>while (i-- > 1)\<close>: \<open>n\<close> is the number of elements still to pop.\<close>

fun multisig_cleanup ::
  "script_env \<Rightarrow> bool \<Rightarrow> nat \<Rightarrow> nat \<Rightarrow> valtype list \<Rightarrow> valtype list script_result" where
  "multisig_cleanup E fSuccess 0 ikey2 st = Ok st"
| "multisig_cleanup E fSuccess (Suc n) ikey2 st =
     bindO (if \<not> fSuccess \<and> has_flag (env_flags E) SCRIPT_VERIFY_NULLFAIL \<and> ikey2 = 0
            then bindO (stacktop st 1) (\<lambda>vch. need (length vch = 0) SCRIPT_ERR_SIG_NULLFAIL)
            else Ok ()) (\<lambda>_.
     bindO (popstack st) (\<lambda>st. multisig_cleanup E fSuccess n (ikey2 - 1) st))"

text \<open>The extra element, which \<open>SCRIPT_VERIFY_NULLDUMMY\<close> requires to be empty, and the result.\<close>

definition multisig_finish ::
  "script_env \<Rightarrow> opcodetype \<Rightarrow> bool \<Rightarrow> valtype list \<Rightarrow> machine \<Rightarrow> machine script_result" where
  "multisig_finish E opcode fSuccess st s =
     bindO (need (\<not> length st < 1) stack_error) (\<lambda>_.
     bindO (stacktop st 1) (\<lambda>vch.
     bindO (need (\<not> (has_flag (env_flags E) SCRIPT_VERIFY_NULLDUMMY \<and> length vch \<noteq> 0)) SCRIPT_ERR_SIG_NULLDUMMY) (\<lambda>_.
     bindO (popstack st) (\<lambda>st.
     let st = vchBool fSuccess # st in
     if opcode = OP_CHECKMULTISIGVERIFY then
       (if fSuccess then bindO (popstack st) (\<lambda>st. Ok (s\<lparr>stack := st\<rparr>))
        else Fail SCRIPT_ERR_CHECKMULTISIGVERIFY)
     else Ok (s\<lparr>stack := st\<rparr>)))))"

definition eval_OP_CHECKMULTISIG :: "script_env \<Rightarrow> opcodetype \<Rightarrow> machine \<Rightarrow> machine script_result" where
  "eval_OP_CHECKMULTISIG E opcode s =
     (let st = stack s; i = 1 in
     bindO (need (\<not> length st < i) stack_error) (\<lambda>_.
     bindO (top_num E st i) (\<lambda>bn.
     let nKeysCount = getint bn in
     bindO (need (\<not> (nKeysCount < 0 \<or> nKeysCount > int MAX_PUBKEYS_PER_MULTISIG)) SCRIPT_ERR_PUBKEY_COUNT) (\<lambda>_.
     let s = s\<lparr>nOpCount := nOpCount s + nat nKeysCount\<rparr> in
     bindO (need (\<not> nOpCount s > MAX_OPS_PER_SCRIPT) SCRIPT_ERR_OP_COUNT) (\<lambda>_.
     let ikey = i + 1; ikey2 = nat nKeysCount + 2; i = ikey + nat nKeysCount in
     bindO (need (\<not> length st < i) stack_error) (\<lambda>_.
     bindO (top_num E st i) (\<lambda>bn.
     let nSigsCount = getint bn in
     bindO (need (\<not> (nSigsCount < 0 \<or> nSigsCount > nKeysCount)) SCRIPT_ERR_SIG_COUNT) (\<lambda>_.
     let isig = i + 1; i = isig + nat nSigsCount in
     bindO (need (\<not> length st < i) stack_error) (\<lambda>_.
     bindO (multisig_drop E st isig (nat nSigsCount) (pbegincodehash s)) (\<lambda>scriptCode.
     bindO (multisig_loop E st scriptCode isig ikey nSigsCount nKeysCount) (\<lambda>fSuccess.
     bindO (multisig_cleanup E fSuccess (i - 1) ikey2 st) (\<lambda>st.
     multisig_finish E opcode fSuccess st s))))))))))))"

subsubsection \<open>The loop\<close>

definition is_disabled :: "opcodetype \<Rightarrow> bool" where
  "is_disabled opcode \<longleftrightarrow>
     opcode = OP_CAT \<or> opcode = OP_SUBSTR \<or> opcode = OP_LEFT \<or> opcode = OP_RIGHT \<or>
     opcode = OP_INVERT \<or> opcode = OP_AND \<or> opcode = OP_OR \<or> opcode = OP_XOR \<or>
     opcode = OP_2MUL \<or> opcode = OP_2DIV \<or> opcode = OP_MUL \<or> opcode = OP_DIV \<or>
     opcode = OP_MOD \<or> opcode = OP_LSHIFT \<or> opcode = OP_RSHIFT"

definition eval_switch :: "script_env \<Rightarrow> bool \<Rightarrow> opcodetype \<Rightarrow> machine \<Rightarrow> machine script_result" where
  "eval_switch E fExec opcode s =
     (if opcode = OP_1NEGATE \<or> (OP_1 \<le> opcode \<and> opcode \<le> OP_16) then eval_push_value opcode s
      else if opcode = OP_NOP then Ok s
      else if opcode = OP_CHECKLOCKTIMEVERIFY then eval_OP_CHECKLOCKTIMEVERIFY E s
      else if opcode = OP_CHECKSEQUENCEVERIFY then eval_OP_CHECKSEQUENCEVERIFY E s
      else if opcode = OP_NOP1 \<or> (OP_NOP4 \<le> opcode \<and> opcode \<le> OP_NOP10) then eval_OP_NOPx E s
      else if opcode = OP_IF \<or> opcode = OP_NOTIF then eval_OP_IF E fExec opcode s
      else if opcode = OP_ELSE then eval_OP_ELSE s
      else if opcode = OP_ENDIF then eval_OP_ENDIF s
      else if opcode = OP_VERIFY then eval_OP_VERIFY s
      else if opcode = OP_RETURN then Fail SCRIPT_ERR_OP_RETURN
      else if opcode = OP_TOALTSTACK then eval_OP_TOALTSTACK s
      else if opcode = OP_FROMALTSTACK then eval_OP_FROMALTSTACK s
      else if opcode = OP_2DROP then eval_OP_2DROP s
      else if opcode = OP_2DUP then eval_OP_2DUP s
      else if opcode = OP_3DUP then eval_OP_3DUP s
      else if opcode = OP_2OVER then eval_OP_2OVER s
      else if opcode = OP_2ROT then eval_OP_2ROT s
      else if opcode = OP_2SWAP then eval_OP_2SWAP s
      else if opcode = OP_IFDUP then eval_OP_IFDUP s
      else if opcode = OP_DEPTH then eval_OP_DEPTH s
      else if opcode = OP_DROP then eval_OP_DROP s
      else if opcode = OP_DUP then eval_OP_DUP s
      else if opcode = OP_NIP then eval_OP_NIP s
      else if opcode = OP_OVER then eval_OP_OVER s
      else if opcode = OP_PICK \<or> opcode = OP_ROLL then eval_OP_PICK E opcode s
      else if opcode = OP_ROT then eval_OP_ROT s
      else if opcode = OP_SWAP then eval_OP_SWAP s
      else if opcode = OP_TUCK then eval_OP_TUCK s
      else if opcode = OP_SIZE then eval_OP_SIZE s
      else if opcode = OP_EQUAL \<or> opcode = OP_EQUALVERIFY then eval_OP_EQUAL opcode s
      else if opcode = OP_1ADD \<or> opcode = OP_1SUB \<or> opcode = OP_NEGATE \<or> opcode = OP_ABS \<or>
              opcode = OP_NOT \<or> opcode = OP_0NOTEQUAL then eval_numeric_unary E opcode s
      else if opcode = OP_ADD \<or> opcode = OP_SUB \<or> opcode = OP_BOOLAND \<or> opcode = OP_BOOLOR \<or>
              opcode = OP_NUMEQUAL \<or> opcode = OP_NUMEQUALVERIFY \<or> opcode = OP_NUMNOTEQUAL \<or>
              opcode = OP_LESSTHAN \<or> opcode = OP_GREATERTHAN \<or> opcode = OP_LESSTHANOREQUAL \<or>
              opcode = OP_GREATERTHANOREQUAL \<or> opcode = OP_MIN \<or> opcode = OP_MAX
      then eval_numeric_binary E opcode s
      else if opcode = OP_WITHIN then eval_OP_WITHIN E s
      else if opcode = OP_RIPEMD160 \<or> opcode = OP_SHA1 \<or> opcode = OP_SHA256 \<or> opcode = OP_HASH160 \<or>
              opcode = OP_HASH256 then eval_hash opcode s
      else if opcode = OP_CODESEPARATOR then eval_OP_CODESEPARATOR s
      else if opcode = OP_CHECKSIG \<or> opcode = OP_CHECKSIGVERIFY then eval_OP_CHECKSIG E opcode s
      else if opcode = OP_CHECKMULTISIG \<or> opcode = OP_CHECKMULTISIGVERIFY
      then eval_OP_CHECKMULTISIG E opcode s
      else Fail SCRIPT_ERR_BAD_OPCODE)"

text \<open>The body of the loop after an instruction was read.\<close>

definition eval_instr :: "script_env \<Rightarrow> opcodetype \<Rightarrow> valtype \<Rightarrow> machine \<Rightarrow> machine script_result" where
  "eval_instr E opcode vchPushValue s =
     (let fExec = (False \<notin> set (vfExec s)) in
     bindO (need (\<not> length vchPushValue > MAX_SCRIPT_ELEMENT_SIZE) SCRIPT_ERR_PUSH_SIZE) (\<lambda>_.
     let s = (if opcode > OP_16 then s\<lparr>nOpCount := nOpCount s + 1\<rparr> else s) in
     bindO (need (\<not> (opcode > OP_16 \<and> nOpCount s > MAX_OPS_PER_SCRIPT)) SCRIPT_ERR_OP_COUNT) (\<lambda>_.
     bindO (need (\<not> is_disabled opcode) SCRIPT_ERR_DISABLED_OPCODE) (\<lambda>_.
     bindO (if fExec \<and> opcode \<le> OP_PUSHDATA4 then
              bindO (need (\<not> (fRequireMinimal E \<and> \<not> CheckMinimalPush vchPushValue opcode)) SCRIPT_ERR_MINIMALDATA) (\<lambda>_.
              Ok (s\<lparr>stack := vchPushValue # stack s\<rparr>))
            else if fExec \<or> (OP_IF \<le> opcode \<and> opcode \<le> OP_ENDIF) then eval_switch E fExec opcode s
            else Ok s) (\<lambda>s.
     bindO (need (\<not> length (stack s) + length (altstack s) > 1000) SCRIPT_ERR_STACK_SIZE) (\<lambda>_.
     Ok s))))))"

definition eval_step :: "script_env \<Rightarrow> machine \<Rightarrow> machine script_result" where
  "eval_step E s =
     (case GetOp2 (pc s) of (ok, opcode, vchPushValue, pc') \<Rightarrow>
        if \<not> ok then Fail SCRIPT_ERR_BAD_OPCODE
        else eval_instr E opcode vchPushValue (s\<lparr>pc := pc'\<rparr>))"

subsection \<open>Results of the primitives\<close>

named_theorems prim_Ok

lemma need_eq [prim_Ok, simp]:
  "need c err = Ok u \<longleftrightarrow> c" "need c err = Fail e \<longleftrightarrow> \<not> c \<and> e = err"
  "need c err \<noteq> Throw x" "need c err \<noteq> Abort"
  by (auto simp: need_def)

lemma stacktop_eq [prim_Ok]:
  "stacktop st i = Ok v \<longleftrightarrow> 1 \<le> i \<and> i \<le> length st \<and> v = st ! (i - 1)"
  "stacktop st i \<noteq> Fail e"
  "stacktop st i = Throw x \<longleftrightarrow> \<not> (1 \<le> i \<and> i \<le> length st) \<and> x = Out_of_range"
  "stacktop st i \<noteq> Abort"
  by (auto simp: stacktop_def)

lemma popstack_eq [prim_Ok]:
  "popstack st = Ok st' \<longleftrightarrow> st \<noteq> [] \<and> st' = tl st"
  "popstack st \<noteq> Fail e"
  "popstack st = Throw x \<longleftrightarrow> st = [] \<and> x = Runtime_error ''popstack(): stack empty''"
  "popstack st \<noteq> Abort"
  by (auto simp: popstack_def)

lemma swap_top_eq [prim_Ok]:
  "swap_top st i j = Ok st' \<longleftrightarrow>
     1 \<le> i \<and> i \<le> length st \<and> 1 \<le> j \<and> j \<le> length st \<and>
     st' = st[i - 1 := st ! (j - 1), j - 1 := st ! (i - 1)]"
  by (auto simp: swap_top_def outcome_simps prim_Ok)

lemma top_num_eq [prim_Ok]:
  "top_num E st i = Ok n \<longleftrightarrow>
     1 \<le> i \<and> i \<le> length st \<and> CScriptNum (st ! (i - 1)) (fRequireMinimal E) nDefaultMaxNumSize = (Ok n :: int script_result)"
  by (auto simp: top_num_def outcome_simps prim_Ok)

lemmas stack_op_defs =
  eval_OP_TOALTSTACK_def eval_OP_FROMALTSTACK_def eval_OP_2DROP_def eval_OP_2DUP_def eval_OP_3DUP_def
  eval_OP_2OVER_def eval_OP_2ROT_def eval_OP_2SWAP_def eval_OP_IFDUP_def eval_OP_DEPTH_def
  eval_OP_DROP_def eval_OP_DUP_def eval_OP_NIP_def eval_OP_OVER_def eval_OP_PICK_def eval_OP_ROT_def
  eval_OP_SWAP_def eval_OP_TUCK_def eval_OP_SIZE_def

lemmas control_op_defs =
  eval_push_value_def eval_OP_CHECKLOCKTIMEVERIFY_def eval_OP_CHECKSEQUENCEVERIFY_def
  eval_OP_NOPx_def eval_OP_IF_def eval_OP_ELSE_def eval_OP_ENDIF_def eval_OP_VERIFY_def

lemmas value_op_defs =
  eval_OP_EQUAL_def eval_numeric_unary_def eval_numeric_binary_def eval_OP_WITHIN_def eval_hash_def
  eval_OP_CODESEPARATOR_def

text \<open>A property of every branch of the switch is a property of the switch.\<close>

lemma if_rule: "(c \<Longrightarrow> P a) \<Longrightarrow> P b \<Longrightarrow> P (if c then a else b)"
  by simp

definition unary_ops :: "opcodetype set" where
  "unary_ops = {OP_1ADD, OP_1SUB, OP_NEGATE, OP_ABS, OP_NOT, OP_0NOTEQUAL}"

definition binary_ops :: "opcodetype set" where
  "binary_ops = {OP_ADD, OP_SUB, OP_BOOLAND, OP_BOOLOR, OP_NUMEQUAL, OP_NUMEQUALVERIFY, OP_NUMNOTEQUAL,
     OP_LESSTHAN, OP_GREATERTHAN, OP_LESSTHANOREQUAL, OP_GREATERTHANOREQUAL, OP_MIN, OP_MAX}"

lemma eval_switch_rule:
  assumes "opcode \<le> OP_16 \<Longrightarrow> P (eval_push_value opcode s)" "P (Ok s)"
    and "P (eval_OP_CHECKLOCKTIMEVERIFY E s)" "P (eval_OP_CHECKSEQUENCEVERIFY E s)" "P (eval_OP_NOPx E s)"
    and "P (eval_OP_IF E fExec opcode s)" "P (eval_OP_ELSE s)" "P (eval_OP_ENDIF s)" "P (eval_OP_VERIFY s)"
    and "P (Fail SCRIPT_ERR_OP_RETURN)" "P (Fail SCRIPT_ERR_BAD_OPCODE)"
    and "P (eval_OP_TOALTSTACK s)" "P (eval_OP_FROMALTSTACK s)" "P (eval_OP_2DROP s)" "P (eval_OP_2DUP s)"
    and "P (eval_OP_3DUP s)" "P (eval_OP_2OVER s)" "P (eval_OP_2ROT s)" "P (eval_OP_2SWAP s)"
    and "P (eval_OP_IFDUP s)" "P (eval_OP_DEPTH s)" "P (eval_OP_DROP s)" "P (eval_OP_DUP s)"
    and "P (eval_OP_NIP s)" "P (eval_OP_OVER s)" "P (eval_OP_PICK E opcode s)" "P (eval_OP_ROT s)"
    and "P (eval_OP_SWAP s)" "P (eval_OP_TUCK s)" "P (eval_OP_SIZE s)" "P (eval_OP_EQUAL opcode s)"
    and "opcode \<in> unary_ops \<Longrightarrow> P (eval_numeric_unary E opcode s)"
    and "opcode \<in> binary_ops \<Longrightarrow> P (eval_numeric_binary E opcode s)"
    and "P (eval_OP_WITHIN E s)" "P (eval_hash opcode s)" "P (eval_OP_CODESEPARATOR s)"
    and "P (eval_OP_CHECKSIG E opcode s)" "P (eval_OP_CHECKMULTISIG E opcode s)"
  shows "P (eval_switch E fExec opcode s)"
  unfolding eval_switch_def
  by (rule if_rule [where P = P], (rule assms; auto simp: unary_ops_def binary_ops_def))+ (rule assms)

text \<open>No operation moves \<open>pc\<close>; the start of the signed code stays or moves to \<open>pc\<close>.\<close>

definition keeps_pc :: "machine \<Rightarrow> machine script_result \<Rightarrow> bool" where
  "keeps_pc s r \<longleftrightarrow>
     (\<forall>s'. r = Ok s' \<longrightarrow> pc s' = pc s \<and> (pbegincodehash s' = pbegincodehash s \<or> pbegincodehash s' = pc s))"

lemma eval_switch_keeps_pc: "keeps_pc s (eval_switch E fExec opcode s)"
  by (rule eval_switch_rule;
      (auto simp: keeps_pc_def control_op_defs stack_op_defs value_op_defs eval_OP_CHECKSIG_def
        eval_OP_CHECKMULTISIG_def multisig_finish_def Let_def outcome_simps prim_Ok split: if_splits; fail))

lemma eval_instr_pc:
  assumes "eval_instr E opcode v s = Ok s'"
  shows "pc s' = pc s \<and> (pbegincodehash s' = pbegincodehash s \<or> pbegincodehash s' = pc s)"
  using assms eval_switch_keeps_pc [of s E _ opcode] eval_switch_keeps_pc [of "s\<lparr>nOpCount := nOpCount s + 1\<rparr>" E _ opcode]
  by (fastforce simp: eval_instr_def Let_def outcome_simps keeps_pc_def split: if_splits)

lemma eval_step_Ok:
  "eval_step E s = Ok s' \<longleftrightarrow>
     (\<exists>opcode v pc'. GetOp2 (pc s) = (True, opcode, v, pc') \<and> eval_instr E opcode v (s\<lparr>pc := pc'\<rparr>) = Ok s')"
  by (auto simp: eval_step_def split: prod.splits if_splits)

lemma eval_step_progress: "eval_step E s = Ok s' \<Longrightarrow> length (pc s') < length (pc s)"
  by (auto simp: eval_step_Ok dest!: GetOp2_progress eval_instr_pc)

text \<open>The loop \<open>while (pc < pend)\<close>.\<close>

function eval_loop :: "script_env \<Rightarrow> machine \<Rightarrow> machine script_result" where
  "eval_loop E s =
     (if pc s = [] then Ok s else bindO (eval_step E s) (\<lambda>s'. eval_loop E s'))"
  by pat_completeness auto
termination
  by (relation "measure (\<lambda>(E, s). length (pc s))") (auto dest: eval_step_progress)

declare eval_loop.simps [simp del]

lemma eval_loop_step: "pc s \<noteq> [] \<Longrightarrow> eval_step E s = Ok s' \<Longrightarrow> eval_loop E s = eval_loop E s'"
  by (subst eval_loop.simps) simp

lemma eval_loop_end: "pc s = [] \<Longrightarrow> eval_loop E s = Ok s"
  by (subst eval_loop.simps) simp

definition initial :: "valtype list \<Rightarrow> CScript \<Rightarrow> machine" where
  "initial st script =
     \<lparr>stack = st, altstack = [], vfExec = [], nOpCount = 0, pc = script, pbegincodehash = script\<rparr>"

text \<open>
  \<open>EvalScript\<close> returns the stack on success and the error otherwise. Callers do not read the
  stack after a failure. An exception in the loop is caught; a failed assertion is not.
\<close>

definition EvalScript ::
  "(valtype \<Rightarrow> bool) \<Rightarrow> valtype list \<Rightarrow> CScript \<Rightarrow> u32 \<Rightarrow> BaseSignatureChecker \<Rightarrow> SigVersion \<Rightarrow>
   valtype list script_result" where
  "EvalScript CheckLowS st script flags checker sigversion =
     (if length script > MAX_SCRIPT_SIZE then Fail SCRIPT_ERR_SCRIPT_SIZE
      else
        let E = \<lparr>env_flags = flags, env_checker = checker, env_sigversion = sigversion,
                 env_CheckLowS = CheckLowS\<rparr>
        in case eval_loop E (initial st script) of
             Ok s \<Rightarrow> if vfExec s \<noteq> [] then Fail SCRIPT_ERR_UNBALANCED_CONDITIONAL else Ok (stack s)
           | Fail e \<Rightarrow> Fail e
           | Throw x \<Rightarrow> Fail SCRIPT_ERR_UNKNOWN_ERROR
           | Abort \<Rightarrow> Abort)"

end
