(* ===== verification/Interpreter_Softfork.thy ===== *)
theory Interpreter_Softfork
  imports Interpreter
begin

text \<open>
  The verification flags are soft-fork safe, as \<^verbatim>\<open>src/src/script/interpreter.h\<close> says of each of them:
  turning flags on only makes more scripts fail. A script accepted with the larger set of flags
  is accepted with the smaller one and leaves the same stack.
\<close>

definition flags_subset :: "u32 \<Rightarrow> u32 \<Rightarrow> bool" where
  "flags_subset f g \<longleftrightarrow> f AND g = f"

lemma flags_subset_has_flag:
  assumes "flags_subset f g" "has_flag f x"
  shows "has_flag g x"
proof -
  have "f AND x = f AND (g AND x)"
    using assms(1) by (simp add: flags_subset_def flip: and.assoc)
  with assms(2) show ?thesis by (auto simp: has_flag_def)
qed

text \<open>
  With \<open>SCRIPT_VERIFY_DISCOURAGE_UPGRADABLE_NOPS\<close> in the smaller set the two lock time opcodes must
  be treated alike: as disabled NOPs they are rejected, as enabled opcodes they may succeed.
\<close>

definition softfork :: "u32 \<Rightarrow> u32 \<Rightarrow> bool" where
  "softfork f g \<longleftrightarrow> flags_subset f g \<and>
     (has_flag f SCRIPT_VERIFY_DISCOURAGE_UPGRADABLE_NOPS \<longrightarrow>
        has_flag f SCRIPT_VERIFY_CHECKLOCKTIMEVERIFY = has_flag g SCRIPT_VERIFY_CHECKLOCKTIMEVERIFY \<and>
        has_flag f SCRIPT_VERIFY_CHECKSEQUENCEVERIFY = has_flag g SCRIPT_VERIFY_CHECKSEQUENCEVERIFY)"

text \<open>Success of the first result carries over to the second.\<close>

definition implies :: "'a script_result \<Rightarrow> 'a script_result \<Rightarrow> bool" where
  "implies r r' \<longleftrightarrow> (\<forall>a. r = Ok a \<longrightarrow> r' = Ok a)"

named_theorems implies_intros

lemma implies_bind [implies_intros]:
  "implies m m' \<Longrightarrow> (\<And>a. m = Ok a \<Longrightarrow> implies (f a) (f' a)) \<Longrightarrow> implies (bindO m f) (bindO m' f')"
  by (auto simp: implies_def outcome_simps)

lemma implies_refl [simp, intro]: "implies r r"
  by (simp add: implies_def)

lemma implies_Fail [simp, intro]: "implies (Fail e) r"
  by (simp add: implies_def)

lemma implies_need [implies_intros]: "(c \<Longrightarrow> c') \<Longrightarrow> implies (need c e) (need c' e')"
  by (auto simp: implies_def)

lemma implies_if [implies_intros]:
  "(c \<Longrightarrow> implies a a') \<Longrightarrow> (\<not> c \<Longrightarrow> implies b b') \<Longrightarrow> implies (if c then a else b) (if c then a' else b')"
  by simp

locale softfork_envs =
  fixes E E' :: script_env
  assumes flags: "softfork (env_flags E) (env_flags E')"
    and same: "env_checker E = env_checker E'" "env_sigversion E = env_sigversion E'"
      "env_CheckLowS E = env_CheckLowS E'"
begin

lemma has_flag_mono: "has_flag (env_flags E) x \<Longrightarrow> has_flag (env_flags E') x"
  using flags flags_subset_has_flag by (auto simp: softfork_def)

lemma minimal_mono: "fRequireMinimal E \<Longrightarrow> fRequireMinimal E'"
  by (simp add: fRequireMinimal_def has_flag_mono)

lemma CScriptNum_mono [implies_intros]:
  "implies (CScriptNum v (fRequireMinimal E') n) (CScriptNum v (fRequireMinimal E) n)"
  using minimal_mono by (auto simp: implies_def CScriptNum_def split: if_splits)

lemma top_num_mono [implies_intros]: "implies (top_num E' st i) (top_num E st i)"
  unfolding top_num_def by (intro implies_intros implies_refl)

lemma CheckSignatureEncoding_mono [implies_intros]:
  "implies (CheckSignatureEncoding low sig (env_flags E')) (CheckSignatureEncoding low sig (env_flags E))"
  using has_flag_mono [of SCRIPT_VERIFY_LOW_S] has_flag_mono [of SCRIPT_VERIFY_STRICTENC]
    has_flag_mono [of "SCRIPT_VERIFY_DERSIG OR SCRIPT_VERIFY_LOW_S OR SCRIPT_VERIFY_STRICTENC"]
  by (auto simp: implies_def CheckSignatureEncoding_def IsLowDERSignature_def split: if_splits)

lemma CheckPubKeyEncoding_mono [implies_intros]:
  "implies (CheckPubKeyEncoding key (env_flags E') v) (CheckPubKeyEncoding key (env_flags E) v)"
  using has_flag_mono [of SCRIPT_VERIFY_STRICTENC] has_flag_mono [of SCRIPT_VERIFY_WITNESS_PUBKEYTYPE]
  by (auto simp: implies_def CheckPubKeyEncoding_def split: if_splits)

lemma check_encodings_mono [implies_intros]: "implies (check_encodings E' sig key) (check_encodings E sig key)"
  unfolding check_encodings_def same by (intro implies_intros)

lemma locktime_mono:
  "implies (eval_OP_CHECKLOCKTIMEVERIFY E' s) (eval_OP_CHECKLOCKTIMEVERIFY E s)"
  "implies (eval_OP_CHECKSEQUENCEVERIFY E' s) (eval_OP_CHECKSEQUENCEVERIFY E s)"
  "implies (eval_OP_NOPx E' s) (eval_OP_NOPx E s)"
  using flags has_flag_mono [of SCRIPT_VERIFY_DISCOURAGE_UPGRADABLE_NOPS] minimal_mono
    CScriptNum_mono [unfolded implies_def, rule_format]
  by (auto simp: implies_def eval_OP_CHECKLOCKTIMEVERIFY_def eval_OP_CHECKSEQUENCEVERIFY_def
      eval_OP_NOPx_def softfork_def same outcome_simps dest: has_flag_mono split: if_splits)

lemma IF_mono: "implies (eval_OP_IF E' fExec opcode s) (eval_OP_IF E fExec opcode s)"
  using has_flag_mono [of SCRIPT_VERIFY_MINIMALIF]
  by (auto simp: implies_def eval_OP_IF_def same outcome_simps Let_def split: if_splits)

lemma numeric_mono:
  "implies (eval_OP_PICK E' opcode s) (eval_OP_PICK E opcode s)"
  "implies (eval_numeric_unary E' opcode s) (eval_numeric_unary E opcode s)"
  "implies (eval_numeric_binary E' opcode s) (eval_numeric_binary E opcode s)"
  "implies (eval_OP_WITHIN E' s) (eval_OP_WITHIN E s)"
  unfolding eval_OP_PICK_def eval_numeric_unary_def eval_numeric_binary_def eval_OP_WITHIN_def Let_def
  by (intro implies_intros implies_refl; assumption?)+

lemma drop_signature_same: "drop_signature E' = drop_signature E"
  by (intro ext) (simp add: drop_signature_def same)

lemma CHECKSIG_mono: "implies (eval_OP_CHECKSIG E' opcode s) (eval_OP_CHECKSIG E opcode s)"
  unfolding eval_OP_CHECKSIG_def Let_def drop_signature_same same
  by (intro implies_intros implies_refl) (auto dest: has_flag_mono)

lemma multisig_drop_same: "multisig_drop E' st isig n code = multisig_drop E st isig n code"
  by (induction n arbitrary: isig code) (simp_all add: drop_signature_same)

lemma multisig_loop_mono:
  "implies (multisig_loop E' st code isig ikey nSigs nKeys) (multisig_loop E st code isig ikey nSigs nKeys)"
proof (induction "nat nKeys" arbitrary: isig ikey nSigs nKeys rule: less_induct)
  case less
  show ?case
    unfolding multisig_loop.simps [of E' st code isig ikey nSigs nKeys]
      multisig_loop.simps [of E st code isig ikey nSigs nKeys] Let_def same
    by (intro implies_intros implies_refl less.hyps) (auto split: if_splits)
qed

lemma multisig_cleanup_mono:
  "implies (multisig_cleanup E' fSuccess n ikey2 st) (multisig_cleanup E fSuccess n ikey2 st)"
proof (induction n arbitrary: ikey2 st)
  case (Suc n)
  then show ?case using has_flag_mono [of SCRIPT_VERIFY_NULLFAIL]
    by (auto simp: implies_def outcome_simps split: if_splits)
qed simp

lemma multisig_finish_mono:
  "implies (multisig_finish E' opcode fSuccess st s) (multisig_finish E opcode fSuccess st s)"
  unfolding multisig_finish_def Let_def
  by (intro implies_intros implies_refl) (auto dest: has_flag_mono)

lemma CHECKMULTISIG_mono: "implies (eval_OP_CHECKMULTISIG E' opcode s) (eval_OP_CHECKMULTISIG E opcode s)"
  unfolding eval_OP_CHECKMULTISIG_def Let_def multisig_drop_same
  by (intro implies_intros implies_refl multisig_loop_mono multisig_cleanup_mono multisig_finish_mono; assumption)

lemma eval_switch_mono: "implies (eval_switch E' fExec opcode s) (eval_switch E fExec opcode s)"
  unfolding eval_switch_def
  by (intro implies_if implies_refl locktime_mono IF_mono numeric_mono CHECKSIG_mono CHECKMULTISIG_mono)

lemma eval_instr_mono: "implies (eval_instr E' opcode v s) (eval_instr E opcode v s)"
  unfolding eval_instr_def Let_def
  by (intro implies_intros implies_refl eval_switch_mono) (auto dest: minimal_mono)

lemma eval_step_mono: "implies (eval_step E' s) (eval_step E s)"
  using eval_instr_mono by (auto simp: eval_step_def implies_def split: prod.splits)

lemma eval_loop_mono: "implies (eval_loop E' s) (eval_loop E s)"
proof (induction "length (pc s)" arbitrary: s rule: less_induct)
  case less
  show ?case
    unfolding eval_loop.simps [of E' s] eval_loop.simps [of E s]
    by (intro implies_intros implies_refl eval_step_mono less) (rule eval_step_progress)
qed

end

text \<open>The flag sets of \<^verbatim>\<open>src/src/script/standard.h\<close> and \<^verbatim>\<open>src/src/policy/policy.h\<close>.\<close>

definition MANDATORY_SCRIPT_VERIFY_FLAGS :: u32 where
  "MANDATORY_SCRIPT_VERIFY_FLAGS = SCRIPT_VERIFY_P2SH"

definition STANDARD_SCRIPT_VERIFY_FLAGS :: u32 where
  "STANDARD_SCRIPT_VERIFY_FLAGS =
     MANDATORY_SCRIPT_VERIFY_FLAGS OR SCRIPT_VERIFY_DERSIG OR SCRIPT_VERIFY_STRICTENC OR
     SCRIPT_VERIFY_MINIMALDATA OR SCRIPT_VERIFY_NULLDUMMY OR SCRIPT_VERIFY_DISCOURAGE_UPGRADABLE_NOPS OR
     SCRIPT_VERIFY_CLEANSTACK OR SCRIPT_VERIFY_MINIMALIF OR SCRIPT_VERIFY_NULLFAIL OR
     SCRIPT_VERIFY_CHECKLOCKTIMEVERIFY OR SCRIPT_VERIFY_CHECKSEQUENCEVERIFY OR SCRIPT_VERIFY_LOW_S OR
     SCRIPT_VERIFY_WITNESS OR SCRIPT_VERIFY_DISCOURAGE_UPGRADABLE_WITNESS_PROGRAM OR
     SCRIPT_VERIFY_WITNESS_PUBKEYTYPE"

definition STANDARD_NOT_MANDATORY_VERIFY_FLAGS :: u32 where
  "STANDARD_NOT_MANDATORY_VERIFY_FLAGS = STANDARD_SCRIPT_VERIFY_FLAGS AND NOT MANDATORY_SCRIPT_VERIFY_FLAGS"

lemmas flag_defs =
  SCRIPT_VERIFY_NONE_def SCRIPT_VERIFY_P2SH_def SCRIPT_VERIFY_STRICTENC_def SCRIPT_VERIFY_DERSIG_def
  SCRIPT_VERIFY_LOW_S_def SCRIPT_VERIFY_NULLDUMMY_def SCRIPT_VERIFY_SIGPUSHONLY_def
  SCRIPT_VERIFY_MINIMALDATA_def SCRIPT_VERIFY_DISCOURAGE_UPGRADABLE_NOPS_def SCRIPT_VERIFY_CLEANSTACK_def
  SCRIPT_VERIFY_CHECKLOCKTIMEVERIFY_def SCRIPT_VERIFY_CHECKSEQUENCEVERIFY_def SCRIPT_VERIFY_WITNESS_def
  SCRIPT_VERIFY_DISCOURAGE_UPGRADABLE_WITNESS_PROGRAM_def SCRIPT_VERIFY_MINIMALIF_def
  SCRIPT_VERIFY_NULLFAIL_def SCRIPT_VERIFY_WITNESS_PUBKEYTYPE_def MANDATORY_SCRIPT_VERIFY_FLAGS_def
  STANDARD_SCRIPT_VERIFY_FLAGS_def

lemma softfork_standard: "softfork MANDATORY_SCRIPT_VERIFY_FLAGS STANDARD_SCRIPT_VERIFY_FLAGS"
  by (simp add: softfork_def flags_subset_def has_flag_def flag_defs push_bit_eq_mult)

interpretation standard: softfork_envs
  "\<lparr>env_flags = MANDATORY_SCRIPT_VERIFY_FLAGS, env_checker = c, env_sigversion = v, env_CheckLowS = l\<rparr>"
  "\<lparr>env_flags = STANDARD_SCRIPT_VERIFY_FLAGS, env_checker = c, env_sigversion = v, env_CheckLowS = l\<rparr>"
  by unfold_locales (simp_all add: softfork_standard)

lemma EvalScript_softfork:
  assumes "softfork f g" "EvalScript l st script g c v = Ok st'"
  shows "EvalScript l st script f c v = Ok st'"
proof -
  have "softfork_envs \<lparr>env_flags = f, env_checker = c, env_sigversion = v, env_CheckLowS = l\<rparr>
    \<lparr>env_flags = g, env_checker = c, env_sigversion = v, env_CheckLowS = l\<rparr>"
    using assms(1) by unfold_locales simp_all
  from softfork_envs.eval_loop_mono [OF this, of "initial st script"] assms(2) show ?thesis
    by (auto simp: EvalScript_def Let_def implies_def split: if_splits outcome.splits)
qed


definition no_checker :: BaseSignatureChecker where
  "no_checker = \<lparr>CheckSig = (\<lambda>_ _ _ _. False), CheckLockTime = (\<lambda>_. False), CheckSequence = (\<lambda>_. False)\<rparr>"

lemma eval_one_plus_one:
  "EvalScript l [] [0x51, 0x51, 0x93] STANDARD_SCRIPT_VERIFY_FLAGS no_checker SIGVERSION_BASE = Ok [[2]]"
  by (simp add: EvalScript_def initial_def eval_loop_step eval_loop_end eval_step_def eval_instr_def
      GetOp2_def Let_def need_def MAX_SCRIPT_SIZE_def MAX_SCRIPT_ELEMENT_SIZE_def MAX_OPS_PER_SCRIPT_def
      is_disabled_def eval_switch_def eval_push_value_def eval_numeric_binary_def top_num_def stacktop_def
      popstack_def getvch_def CScriptNum_serialize_def serialize_loop.simps CScriptNum_def
      nDefaultMaxNumSize_def set_vch_def eval_binary_def CScriptNum_add_def int64_def int_limits)


end
