(* ===== verification/Interpreter_Safety.thy ===== *)
theory Interpreter_Safety
  imports Interpreter
begin

text \<open>
  The guards of \<open>EvalScript\<close>: no stack access is out of range, no assertion fails, the only
  exceptions are those of badly encoded numbers, and the limits on the machine hold after every
  instruction.
\<close>

subsection \<open>Exceptions\<close>

text \<open>A result that is not an abort and throws at most a number error.\<close>

definition safe :: "'a script_result \<Rightarrow> bool" where
  "safe r \<longleftrightarrow> r \<noteq> Abort \<and> (\<forall>x. r = Throw x \<longrightarrow> (\<exists>m. x = Scriptnum_error m))"

named_theorems safe_intros

lemma safe_bind [safe_intros]:
  "safe m \<Longrightarrow> (\<And>a. m = Ok a \<Longrightarrow> safe (f a)) \<Longrightarrow> safe (bindO m f)"
  by (cases m) (auto simp: safe_def)

lemma safe_Ok [simp, safe_intros]: "safe (Ok a)"
  by (simp add: safe_def)

lemma safe_Fail [simp, safe_intros]: "safe (Fail e)"
  by (simp add: safe_def)

lemma safe_need [simp, safe_intros]: "safe (need c err)"
  by (simp add: safe_def)

lemma safe_stacktop: "1 \<le> i \<Longrightarrow> i \<le> length st \<Longrightarrow> safe (stacktop st i)"
  by (simp add: stacktop_def)

lemma safe_popstack: "0 < length st \<Longrightarrow> safe (popstack st)"
  by (auto simp: popstack_def)

lemma safe_CScriptNum [safe_intros]: "safe (CScriptNum vch b n)"
  by (auto simp: safe_def CScriptNum_def)

lemma safe_top_num: "1 \<le> i \<Longrightarrow> i \<le> length st \<Longrightarrow> safe (top_num E st i)"
  by (auto simp: top_num_def intro!: safe_intros safe_stacktop)

lemma safe_swap_top: "1 \<le> i \<Longrightarrow> i \<le> length st \<Longrightarrow> 1 \<le> j \<Longrightarrow> j \<le> length st \<Longrightarrow> safe (swap_top st i j)"
  by (auto simp: swap_top_def prim_Ok intro!: safe_intros safe_stacktop)

lemma tl_Nil_iff: "tl xs = [] \<longleftrightarrow> length xs < 2" "[] = tl xs \<longleftrightarrow> length xs < 2"
  by (cases xs; auto)+

lemmas size_simps = Suc_le_eq tl_Nil_iff

lemmas safe_prims = safe_stacktop safe_popstack safe_top_num safe_swap_top

lemma safe_stack_ops:
  "safe (eval_OP_TOALTSTACK s)" "safe (eval_OP_FROMALTSTACK s)" "safe (eval_OP_2DROP s)"
  "safe (eval_OP_2DUP s)" "safe (eval_OP_3DUP s)" "safe (eval_OP_2OVER s)" "safe (eval_OP_2ROT s)"
  "safe (eval_OP_2SWAP s)" "safe (eval_OP_IFDUP s)" "safe (eval_OP_DEPTH s)" "safe (eval_OP_DROP s)"
  "safe (eval_OP_DUP s)" "safe (eval_OP_NIP s)" "safe (eval_OP_OVER s)" "safe (eval_OP_PICK E opcode s)"
  "safe (eval_OP_ROT s)" "safe (eval_OP_SWAP s)" "safe (eval_OP_TUCK s)" "safe (eval_OP_SIZE s)"
  unfolding stack_op_defs Let_def
  by (auto intro!: safe_intros safe_prims simp: prim_Ok Let_def size_simps)

lemma safe_control_ops:
  "safe (eval_push_value opcode s)" "safe (eval_OP_CHECKLOCKTIMEVERIFY E s)"
  "safe (eval_OP_CHECKSEQUENCEVERIFY E s)" "safe (eval_OP_NOPx E s)" "safe (eval_OP_IF E fExec opcode s)"
  "safe (eval_OP_ELSE s)" "safe (eval_OP_ENDIF s)" "safe (eval_OP_VERIFY s)"
  unfolding control_op_defs Let_def
  by (auto intro!: safe_intros safe_prims simp: prim_Ok size_simps)

lemma num_bound: "CScriptNum vch b nDefaultMaxNumSize = Ok n \<Longrightarrow> \<bar>n\<bar> < 2147483648"
  using CScriptNum_bound [of vch b nDefaultMaxNumSize n] by (simp add: nDefaultMaxNumSize_def)

lemma top_num_bound: "top_num E st i = Ok n \<Longrightarrow> \<bar>n\<bar> < 2147483648"
  using num_bound by (auto simp: prim_Ok)

lemma safe_int64: "\<bar>n\<bar> < 4294967296 \<Longrightarrow> safe (int64 n)"
  by (auto simp: int64_def int_limits abs_less_iff)

lemma safe_unary: "opcode \<in> unary_ops \<Longrightarrow> \<bar>n\<bar> < 2147483648 \<Longrightarrow> safe (eval_unary opcode n)"
  by (auto simp: unary_ops_def eval_unary_def CScriptNum_add_assign_def CScriptNum_sub_assign_def
      CScriptNum_neg_def assertO_def int_limits intro!: safe_int64)

lemma safe_binary:
  "opcode \<in> binary_ops \<Longrightarrow> \<bar>n\<bar> < 2147483648 \<Longrightarrow> \<bar>m\<bar> < 2147483648 \<Longrightarrow> safe (eval_binary opcode n m)"
  by (auto simp: binary_ops_def eval_binary_def CScriptNum_add_def CScriptNum_sub_def intro!: safe_int64)

lemma safe_numeric_unary: "opcode \<in> unary_ops \<Longrightarrow> safe (eval_numeric_unary E opcode s)"
  unfolding eval_numeric_unary_def
  by (intro safe_intros safe_prims safe_unary) (auto simp: size_simps prim_Ok dest: num_bound)

lemma safe_numeric_binary: "opcode \<in> binary_ops \<Longrightarrow> safe (eval_numeric_binary E opcode s)"
  unfolding eval_numeric_binary_def Let_def
  by (intro safe_intros safe_prims safe_binary if_rule [where P = safe])
    (auto simp: size_simps prim_Ok dest: num_bound)

lemma safe_value_ops:
  "safe (eval_OP_EQUAL opcode s)" "safe (eval_OP_WITHIN E s)" "safe (eval_hash opcode s)"
  "safe (eval_OP_CODESEPARATOR s)"
  unfolding value_op_defs Let_def
  by (auto intro!: safe_intros safe_prims simp: prim_Ok size_simps)

lemma safe_check_encodings [safe_intros]: "safe (check_encodings E vchSig vchPubKey)"
  by (auto simp: check_encodings_def CheckSignatureEncoding_def CheckPubKeyEncoding_def
      IsLowDERSignature_def safe_def outcome_simps split: if_splits)

lemma safe_OP_CHECKSIG: "safe (eval_OP_CHECKSIG E opcode s)"
  unfolding eval_OP_CHECKSIG_def Let_def
  by (auto intro!: safe_intros safe_prims simp: prim_Ok size_simps)

lemma safe_multisig_drop: "1 \<le> isig \<Longrightarrow> isig + n \<le> Suc (length st) \<Longrightarrow> safe (multisig_drop E st isig n scriptCode)"
  by (induction n arbitrary: isig scriptCode) (auto intro!: safe_intros safe_prims)

lemma safe_multisig_loop_nat:
  "1 \<le> isig \<Longrightarrow> isig + nat nSigs \<le> Suc (length st) \<Longrightarrow> 1 \<le> ikey \<Longrightarrow> ikey + k \<le> Suc (length st) \<Longrightarrow>
   nSigs \<le> int k \<Longrightarrow> safe (multisig_loop E st scriptCode isig ikey nSigs (int k))"
proof (induction k arbitrary: isig ikey nSigs)
  case 0
  then show ?case by (subst multisig_loop.simps) simp
next
  case (Suc k)
  have "nat (nSigs - 1) = nat nSigs - 1" by simp
  with Suc.prems show ?case
    by (subst multisig_loop.simps, unfold Let_def)
      (auto intro!: safe_intros safe_prims Suc.IH simp: prim_Ok)
qed

lemma safe_multisig_loop:
  "1 \<le> isig \<Longrightarrow> isig + nat nSigs \<le> Suc (length st) \<Longrightarrow> 1 \<le> ikey \<Longrightarrow> ikey + nat nKeys \<le> Suc (length st) \<Longrightarrow>
   nSigs \<le> nKeys \<Longrightarrow> safe (multisig_loop E st scriptCode isig ikey nSigs nKeys)"
  using safe_multisig_loop_nat [of isig nSigs st ikey "nat nKeys" E scriptCode]
  by (cases "0 \<le> nKeys") (simp_all add: multisig_loop.simps)

lemma safe_multisig_cleanup: "n \<le> length st \<Longrightarrow> safe (multisig_cleanup E fSuccess n ikey2 st)"
  by (induction n arbitrary: ikey2 st)
    (auto intro!: safe_intros safe_prims simp: prim_Ok size_simps)

lemma getint_small: "\<bar>n\<bar> < 2147483648 \<Longrightarrow> getint n = n"
  by (auto simp: getint_def int_limits abs_less_iff)

lemma safe_multisig_finish [safe_intros]: "safe (multisig_finish E opcode fSuccess st s)"
  unfolding multisig_finish_def Let_def
  by (auto intro!: safe_intros safe_prims simp: prim_Ok size_simps)

lemma safe_OP_CHECKMULTISIG: "safe (eval_OP_CHECKMULTISIG E opcode s)"
  unfolding eval_OP_CHECKMULTISIG_def Let_def
  by (intro safe_intros safe_prims if_rule [where P = safe] safe_multisig_drop safe_multisig_loop
      safe_multisig_cleanup) (auto simp: prim_Ok size_simps)

lemma safe_eval_switch: "safe (eval_switch E fExec opcode s)"
  by (rule eval_switch_rule)
    (simp_all add: safe_stack_ops safe_control_ops safe_value_ops safe_numeric_unary safe_numeric_binary
      safe_OP_CHECKSIG safe_OP_CHECKMULTISIG)

lemma safe_eval_step: "safe (eval_step E s)"
  by (auto simp: eval_step_def eval_instr_def Let_def split: prod.splits
      intro!: safe_intros safe_eval_switch)

lemma safe_eval_loop: "safe (eval_loop E s)"
  by (induction E s rule: eval_loop.induct)
    (subst eval_loop.simps, auto intro!: safe_intros safe_eval_step)

lemma EvalScript_no_abort: "EvalScript CheckLowS st script flags checker sigversion \<noteq> Abort"
  using safe_eval_loop by (auto simp: EvalScript_def Let_def safe_def split: outcome.splits)

lemma EvalScript_no_throw: "EvalScript CheckLowS st script flags checker sigversion \<noteq> Throw x"
  by (auto simp: EvalScript_def Let_def split: outcome.splits)

subsection \<open>Limits\<close>

definition small :: "valtype list \<Rightarrow> bool" where
  "small st \<longleftrightarrow> (\<forall>v \<in> set st. length v \<le> MAX_SCRIPT_ELEMENT_SIZE)"

named_theorems small_simps

lemma small_basic [small_simps, simp]:
  "small []" "small (v # st) \<longleftrightarrow> length v \<le> MAX_SCRIPT_ELEMENT_SIZE \<and> small st"
  "small (st @ st') \<longleftrightarrow> small st \<and> small st'"
  by (auto simp: small_def)

lemma small_part [small_simps]:
  "small st \<Longrightarrow> small (take n st)" "small st \<Longrightarrow> small (drop n st)" "small st \<Longrightarrow> small (tl st)"
  by (auto simp: small_def dest: in_set_takeD in_set_dropD intro: list.set_sel(2)) (metis list.set_sel(2) tl_Nil)

lemma small_nth [small_simps]: "small st \<Longrightarrow> i < length st \<Longrightarrow> length (st ! i) \<le> MAX_SCRIPT_ELEMENT_SIZE"
  by (simp add: small_def)

lemma small_update [small_simps]:
  "small st \<Longrightarrow> length v \<le> MAX_SCRIPT_ELEMENT_SIZE \<Longrightarrow> small (st[i := v])"
  using set_update_subset_insert [of st i v] by (auto simp: small_def)

lemma length_getvch: "\<bar>n\<bar> < 9223372036854775808 \<Longrightarrow> length (getvch n) \<le> MAX_SCRIPT_ELEMENT_SIZE"
  using length_serialize [of n 7] by (simp add: getvch_def MAX_SCRIPT_ELEMENT_SIZE_def)

lemma length_vchBool: "length (vchBool b) \<le> MAX_SCRIPT_ELEMENT_SIZE"
  by (simp add: vchBool_def vchTrue_def vchFalse_def MAX_SCRIPT_ELEMENT_SIZE_def)

text \<open>What every instruction keeps, and what holds after it.\<close>

definition limits :: "machine \<Rightarrow> bool" where
  "limits s \<longleftrightarrow> small (stack s) \<and> small (altstack s) \<and> nOpCount s \<le> MAX_OPS_PER_SCRIPT"

definition keeps_limits :: "machine script_result \<Rightarrow> bool" where
  "keeps_limits r \<longleftrightarrow> (\<forall>s'. r = Ok s' \<longrightarrow> limits s')"

lemma limits_stack_ops:
  assumes "limits s" "int (length (stack s)) < 9223372036854775808"
  shows "keeps_limits (eval_OP_TOALTSTACK s)" "keeps_limits (eval_OP_FROMALTSTACK s)"
    "keeps_limits (eval_OP_2DROP s)" "keeps_limits (eval_OP_2DUP s)" "keeps_limits (eval_OP_3DUP s)"
    "keeps_limits (eval_OP_2OVER s)" "keeps_limits (eval_OP_2ROT s)" "keeps_limits (eval_OP_2SWAP s)"
    "keeps_limits (eval_OP_IFDUP s)" "keeps_limits (eval_OP_DEPTH s)" "keeps_limits (eval_OP_DROP s)"
    "keeps_limits (eval_OP_DUP s)" "keeps_limits (eval_OP_NIP s)" "keeps_limits (eval_OP_OVER s)"
    "keeps_limits (eval_OP_PICK E opcode s)" "keeps_limits (eval_OP_ROT s)" "keeps_limits (eval_OP_SWAP s)"
    "keeps_limits (eval_OP_TUCK s)"
  using assms unfolding keeps_limits_def limits_def stack_op_defs
  by (auto simp: prim_Ok outcome_simps Let_def erase_at_def Suc_le_eq
      intro!: small_simps length_getvch split: if_splits)

lemma limits_OP_SIZE: "limits s \<Longrightarrow> keeps_limits (eval_OP_SIZE s)"
  using small_nth [of "stack s" 0]
  by (auto simp: keeps_limits_def limits_def eval_OP_SIZE_def prim_Ok outcome_simps
      MAX_SCRIPT_ELEMENT_SIZE_def intro!: length_getvch [unfolded MAX_SCRIPT_ELEMENT_SIZE_def])

lemma limits_control_ops:
  assumes "limits s"
  shows "opcode \<le> OP_16 \<Longrightarrow> keeps_limits (eval_push_value opcode s)"
    "keeps_limits (eval_OP_CHECKLOCKTIMEVERIFY E s)"
    "keeps_limits (eval_OP_CHECKSEQUENCEVERIFY E s)" "keeps_limits (eval_OP_NOPx E s)"
    "keeps_limits (eval_OP_IF E fExec opcode s)" "keeps_limits (eval_OP_ELSE s)"
    "keeps_limits (eval_OP_ENDIF s)" "keeps_limits (eval_OP_VERIFY s)"
  using assms unfolding keeps_limits_def limits_def control_op_defs
  by (auto simp: prim_Ok outcome_simps Let_def intro!: small_simps length_getvch split: if_splits)

lemma unary_bound: "eval_unary opcode n = Ok m \<Longrightarrow> \<bar>m\<bar> \<le> \<bar>n\<bar> + 1"
  by (auto simp: eval_unary_def CScriptNum_add_assign_def CScriptNum_sub_assign_def CScriptNum_neg_def
      assertO_def int64_def num_of_bool_def outcome_simps split: if_splits)

lemma binary_bound: "eval_binary opcode n k = Ok m \<Longrightarrow> \<bar>m\<bar> \<le> \<bar>n\<bar> + \<bar>k\<bar> + 1"
  by (auto simp: eval_binary_def CScriptNum_add_def CScriptNum_sub_def int64_def num_of_bool_def
      split: if_splits)

lemma limits_value_ops:
  assumes "limits s"
  shows "keeps_limits (eval_OP_EQUAL opcode s)" "keeps_limits (eval_OP_WITHIN E s)"
    "keeps_limits (eval_OP_CODESEPARATOR s)" "keeps_limits (eval_OP_CHECKSIG E opcode s)"
  using assms unfolding keeps_limits_def limits_def value_op_defs eval_OP_CHECKSIG_def
  by (auto simp: prim_Ok outcome_simps Let_def intro!: small_simps length_vchBool split: if_splits)

lemma limits_numeric:
  assumes "limits s"
  shows "keeps_limits (eval_numeric_unary E opcode s)" "keeps_limits (eval_numeric_binary E opcode s)"
proof -
  have "length (getvch m) \<le> MAX_SCRIPT_ELEMENT_SIZE"
    if "eval_unary opcode n = Ok m" "CScriptNum v b nDefaultMaxNumSize = (Ok n :: int script_result)" for n m v b
    using unary_bound [OF that(1)] num_bound [OF that(2)] by (intro length_getvch) linarith
  then show "keeps_limits (eval_numeric_unary E opcode s)"
    using assms unfolding keeps_limits_def limits_def eval_numeric_unary_def
    by (auto simp: prim_Ok outcome_simps intro!: small_simps)
  have "length (getvch m) \<le> MAX_SCRIPT_ELEMENT_SIZE"
    if "eval_binary opcode n k = Ok m" "CScriptNum v b nDefaultMaxNumSize = (Ok n :: int script_result)"
      "CScriptNum w b nDefaultMaxNumSize = (Ok k :: int script_result)" for n k m v w b
    using binary_bound [OF that(1)] num_bound [OF that(2)] num_bound [OF that(3)]
    by (intro length_getvch) linarith
  then show "keeps_limits (eval_numeric_binary E opcode s)"
    using assms unfolding keeps_limits_def limits_def eval_numeric_binary_def Let_def
    by (auto simp: prim_Ok outcome_simps intro!: small_simps split: if_splits)
qed

lemma length_CSHA256_Finalize: "length (CSHA256_Finalize h) = 32"
  by (simp add: CSHA256_Finalize_def Let_def)

lemma limits_eval_hash: "limits s \<Longrightarrow> keeps_limits (eval_hash opcode s)"
  unfolding keeps_limits_def limits_def eval_hash_def Let_def
  by (auto simp: prim_Ok outcome_simps length_CSHA256_Finalize length_CRIPEMD160_Finalize
      length_CSHA1_Finalize CHash160_Finalize_def CHash256_Finalize_def Let_def
      MAX_SCRIPT_ELEMENT_SIZE_def intro!: small_simps)

lemma multisig_cleanup_Ok:
  "multisig_cleanup E fSuccess n ikey2 st = Ok st' \<Longrightarrow> n \<le> length st \<and> st' = drop n st"
proof (induction n arbitrary: ikey2 st)
  case (Suc n)
  then have "st \<noteq> []" "multisig_cleanup E fSuccess n (ikey2 - 1) (tl st) = Ok st'"
    by (auto simp: outcome_simps prim_Ok split: if_splits)
  with Suc.IH show ?case by (cases st) auto
qed simp

lemma multisig_finish_Ok:
  "multisig_finish E opcode fSuccess st s = Ok s' \<Longrightarrow>
     s' = s\<lparr>stack := vchBool fSuccess # tl st\<rparr> \<or> s' = s\<lparr>stack := tl st\<rparr>"
  by (auto simp: multisig_finish_def outcome_simps prim_Ok Let_def split: if_splits)

lemma OP_CHECKMULTISIG_Ok:
  assumes "eval_OP_CHECKMULTISIG E opcode s = Ok s'"
  shows "\<exists>n fSuccess k. nOpCount s + n \<le> MAX_OPS_PER_SCRIPT \<and>
    (s' = s\<lparr>nOpCount := nOpCount s + n, stack := vchBool fSuccess # drop k (stack s)\<rparr> \<or>
     s' = s\<lparr>nOpCount := nOpCount s + n, stack := drop k (stack s)\<rparr>)"
proof -
  from assms obtain n fSuccess k i st where
    n: "nOpCount s + n \<le> MAX_OPS_PER_SCRIPT" and
    st: "multisig_cleanup E fSuccess k i (stack s) = Ok st" and
    fin: "multisig_finish E opcode fSuccess st (s\<lparr>nOpCount := nOpCount s + n\<rparr>) = Ok s'"
    by (auto simp: eval_OP_CHECKMULTISIG_def Let_def bindO_eq_Ok not_less simp del: multisig_cleanup.simps)
  have "tl st = drop (Suc k) (stack s)" using multisig_cleanup_Ok [OF st] by (simp add: drop_Suc tl_drop)
  with multisig_finish_Ok [OF fin] n show ?thesis by auto
qed

lemma limits_OP_CHECKMULTISIG: "limits s \<Longrightarrow> keeps_limits (eval_OP_CHECKMULTISIG E opcode s)"
  unfolding keeps_limits_def
  by (auto dest!: OP_CHECKMULTISIG_Ok simp: limits_def intro!: small_simps length_vchBool)

lemma limits_eval_switch:
  assumes "limits s" "int (length (stack s)) < 9223372036854775808"
  shows "keeps_limits (eval_switch E fExec opcode s)"
  by (rule eval_switch_rule)
    (simp_all add: limits_stack_ops [OF assms] limits_control_ops limits_value_ops limits_numeric
      limits_eval_hash limits_OP_SIZE limits_OP_CHECKMULTISIG assms, simp_all add: keeps_limits_def assms)

lemma limits_eval_step:
  assumes "limits s" "int (length (stack s)) < 9223372036854775808" "eval_step E s = Ok s'"
  shows "limits s' \<and> length (stack s') + length (altstack s') \<le> 1000"
proof -
  obtain opcode v pc' where i: "eval_instr E opcode v (s\<lparr>pc := pc'\<rparr>) = Ok s'"
    using assms(3) by (auto simp: eval_step_Ok)
  have lim: "limits (s\<lparr>pc := pc', nOpCount := n\<rparr>)" if "n \<le> MAX_OPS_PER_SCRIPT" for n
    using assms(1) that by (simp add: limits_def)
  have "limits (s\<lparr>pc := pc'\<rparr>)" using assms(1) by (simp add: limits_def)
  with i lim [of "nOpCount s + 1"] show ?thesis
    using limits_eval_switch [of "s\<lparr>pc := pc'\<rparr>" E _ opcode]
      limits_eval_switch [of "s\<lparr>pc := pc', nOpCount := nOpCount s + 1\<rparr>" E _ opcode] assms(2)
    by (auto simp: eval_instr_def Let_def outcome_simps keeps_limits_def limits_def split: if_splits)
qed

subsection \<open>Runs\<close>

text \<open>\<open>run E n s s'\<close>: the loop goes from \<open>s\<close> to \<open>s'\<close> in \<open>n\<close> instructions.\<close>

inductive run :: "script_env \<Rightarrow> nat \<Rightarrow> machine \<Rightarrow> machine \<Rightarrow> bool" for E where
  run_refl: "run E 0 s s"
| run_step: "run E n s s' \<Longrightarrow> pc s' \<noteq> [] \<Longrightarrow> eval_step E s' = Ok s'' \<Longrightarrow> run E (Suc n) s s''"

inductive_cases run_0E: "run E 0 s s'"

lemma run_Cons: "pc s \<noteq> [] \<Longrightarrow> eval_step E s = Ok s' \<Longrightarrow> run E n s' s'' \<Longrightarrow> run E (Suc n) s s''"
  by (rotate_tac 2, induction rule: run.induct) (auto intro: run.intros)

lemma eval_loop_run: "eval_loop E s = Ok s' \<Longrightarrow> \<exists>n. run E n s s' \<and> pc s' = []"
proof (induction "length (pc s)" arbitrary: s rule: less_induct)
  case less
  show ?case
  proof (cases "pc s = []")
    case True
    with less.prems show ?thesis using run_refl [of E s] by (auto simp: eval_loop_end)
  next
    case False
    with less.prems obtain s1 where s1: "eval_step E s = Ok s1" "eval_loop E s1 = Ok s'"
      by (subst (asm) eval_loop.simps) (auto simp: outcome_simps)
    with less.hyps [of s1] obtain n where "run E n s1 s'" "pc s' = []"
      using eval_step_progress by blast
    with run_Cons [OF False s1(1)] show ?thesis by blast
  qed
qed

lemma run_eval_loop: "run E n s s' \<Longrightarrow> eval_loop E s = eval_loop E s'"
  by (induction rule: run.induct) (simp_all add: eval_loop_step)

lemma suffix_pc:
  assumes "eval_step E s = Ok s'" "suffix (pc s) script" "suffix (pbegincodehash s) script"
  shows "suffix (pc s') script \<and> suffix (pbegincodehash s') script"
  using assms
  by (auto simp: eval_step_Ok dest!: GetOp2_suffix eval_instr_pc intro: suffix_order.order_trans)

text \<open>The invariant of the loop.\<close>

definition machine_inv :: "valtype list \<Rightarrow> CScript \<Rightarrow> machine \<Rightarrow> bool" where
  "machine_inv st script s \<longleftrightarrow>
     limits s \<and> (s = initial st script \<or> length (stack s) + length (altstack s) \<le> 1000) \<and>
     suffix (pc s) script \<and> suffix (pbegincodehash s) script"

lemma run_inv:
  assumes "run E n (initial st script) s" "small st" "int (length st) < 9223372036854775808"
  shows "machine_inv st script s \<and> n + length (pc s) \<le> length script"
  using assms
proof (induction n "initial st script" s rule: run.induct)
  case run_refl
  then show ?case by (simp add: machine_inv_def limits_def initial_def)
next
  case (run_step n s' s'')
  from run_step have inv: "limits s'" "n + length (pc s') \<le> length script"
    "suffix (pc s') script" "suffix (pbegincodehash s') script"
    and len: "int (length (stack s')) < 9223372036854775808"
    by (auto simp: machine_inv_def initial_def)
  from limits_eval_step [OF inv(1) len run_step(4)] suffix_pc [OF run_step(4) inv(3,4)]
    eval_step_progress [OF run_step(4)] inv(2)
  show ?case by (simp add: machine_inv_def)
qed

lemma GetOp2_nonempty: "GetOp2 p = (True, opcode, v, p') \<Longrightarrow> p \<noteq> []"
  by auto


text \<open>
  C4: the limits of the machine. In every state the loop reaches from a stack of elements of at
  most 520 bytes, all elements of both stacks have at most 520 bytes, at most 201 operations were
  counted, both stacks together hold at most 1000 elements after an instruction, and \<open>pc\<close> and
  \<open>pbegincodehash\<close> point into the script. Every instruction consumes a byte, so there are at most
  as many instructions as bytes, and \<open>EvalScript\<close> succeeds exactly when such a run ends with no
  conditional open.
\<close>

theorem EvalScript_limits:
  assumes "\<forall>v \<in> set st. length v \<le> MAX_SCRIPT_ELEMENT_SIZE" "int (length st) < 2 ^ 63"
    and "run \<lparr>env_flags = flags, env_checker = checker, env_sigversion = v, env_CheckLowS = low\<rparr> n (initial st script) s"
  shows "n + length (pc s) \<le> length script \<and>
    (\<forall>v \<in> set (stack s) \<union> set (altstack s). length v \<le> MAX_SCRIPT_ELEMENT_SIZE) \<and>
    nOpCount s \<le> MAX_OPS_PER_SCRIPT \<and>
    (0 < n \<longrightarrow> length (stack s) + length (altstack s) \<le> 1000) \<and>
    suffix (pc s) script \<and> suffix (pbegincodehash s) script \<and>
    (pc s = [] \<and> vfExec s = [] \<and> length script \<le> MAX_SCRIPT_SIZE \<longrightarrow>
       EvalScript low st script flags checker v = Ok (stack s))"
proof -
  have inv: "machine_inv st script s" "n + length (pc s) \<le> length script"
    using run_inv [OF assms(3)] assms by (simp_all add: small_def)
  then show ?thesis
    using run_eval_loop [OF assms(3)]
    by (auto simp: machine_inv_def limits_def small_def initial_def EvalScript_def eval_loop_end)
qed

lemma run_one:
  "run \<lparr>env_flags = 0, env_checker = c, env_sigversion = SIGVERSION_BASE, env_CheckLowS = l\<rparr> 1
     (initial [] [0x51]) ((initial [[1]] [])\<lparr>pbegincodehash := [0x51]\<rparr>)"
proof -
  have "eval_step \<lparr>env_flags = 0, env_checker = c, env_sigversion = SIGVERSION_BASE, env_CheckLowS = l\<rparr>
    (initial [] [0x51]) = Ok ((initial [[1]] [])\<lparr>pbegincodehash := [0x51]\<rparr>)"
    by (simp add: initial_def eval_step_def eval_instr_def GetOp2_def Let_def need_def
        MAX_SCRIPT_ELEMENT_SIZE_def is_disabled_def eval_switch_def eval_push_value_def getvch_def
        CScriptNum_serialize_def serialize_loop.simps)
  from run_step [OF run_refl _ this] show ?thesis by (simp add: initial_def)
qed

theorem EvalScript_limits_witness:
  "EvalScript (\<lambda>_. True) [] [0x51] 0
     \<lparr>CheckSig = (\<lambda>_ _ _ _. False), CheckLockTime = (\<lambda>_. False), CheckSequence = (\<lambda>_. False)\<rparr>
     SIGVERSION_BASE = Ok [[1]]"
  using EvalScript_limits [OF _ _ run_one, of "\<lambda>_. True" "\<lparr>CheckSig = (\<lambda>_ _ _ _. False),
    CheckLockTime = (\<lambda>_. False), CheckSequence = (\<lambda>_. False)\<rparr>"]
  by (simp add: initial_def MAX_SCRIPT_SIZE_def)

text \<open>\<open>CastToBool\<close> is the test of a script number against zero, negative zero included.\<close>

lemma digit_eq:
  assumes "(b :: nat) < 256"
  shows "b + 256 * l = 256 * m \<longleftrightarrow> b = 0 \<and> l = m"
proof
  assume eq: "b + 256 * l = 256 * m"
  from arg_cong [OF this, of "\<lambda>n. n mod 256"] assms have "b = 0" by simp
  with eq show "b = 0 \<and> l = m" by simp
qed simp

lemma CastToBool_le_val:
  "CastToBool v \<longleftrightarrow> le_val v \<noteq> 0 \<and> \<not> (v \<noteq> [] \<and> le_val v = 128 * 256 ^ (length v - 1))"
proof (induction v rule: CastToBool.induct)
  case (2 b bs)
  have b: "b = 0 \<longleftrightarrow> unat b = 0" "b = 0x80 \<longleftrightarrow> unat b = 128"
    by (simp_all add: byte_eq_iff)
  show ?case
  proof (cases bs)
    case Nil
    then show ?thesis using b by auto
  next
    case (Cons c cs)
    have "unat b + 256 * le_val bs = 128 * 256 ^ length bs \<longleftrightarrow> unat b = 0 \<and> le_val bs = 128 * 256 ^ length cs"
      using Cons digit_eq [OF unat_byte_less, of b "le_val bs" "128 * 256 ^ length cs"] by simp
    with 2 Cons b show ?thesis by auto
  qed
qed simp

lemma CastToBool_value: "CastToBool v \<longleftrightarrow> vch_value v \<noteq> 0"
proof (cases "v = []")
  case False
  then have v: "le_val v = le_val (butlast v) + 256 ^ (length v - 1) * unat (last v)"
    using le_val_append [of "butlast v" "[last v]"] by simp
  have low: "le_val (butlast v) < 256 ^ (length v - 1)" using le_val_bound [of "butlast v"] by simp
  show ?thesis
  proof (cases "128 \<le> unat (last v)")
    case True
    then have "256 ^ (length v - 1) * 128 \<le> le_val v"
      unfolding v by (metis add.commute mult_le_mono2 trans_le_add1)
    moreover have "0 < (256 :: nat) ^ (length v - 1)" by simp
    ultimately show ?thesis
      using True False unfolding CastToBool_le_val vch_value_def
      by (simp del: of_nat_diff zero_less_power) linarith
  next
    case F: False
    then have le: "unat (last v) + 1 \<le> 128" by simp
    have "le_val v < 256 ^ (length v - 1) * (unat (last v) + 1)"
      unfolding v distrib_left using low by simp
    also have "\<dots> \<le> 256 ^ (length v - 1) * 128" using le by (rule mult_le_mono2)
    finally have "le_val v < 128 * 256 ^ (length v - 1)" by (simp only: mult.commute)
    with F False show ?thesis by (auto simp: CastToBool_le_val vch_value_def)
  qed
qed (simp add: vch_value_def)

end
