(* ===== verification/Interpreter_Ops.thy ===== *)
theory Interpreter_Ops
  imports Interpreter_Safety
begin

text \<open>
  What single instructions compute: the stack diagrams of the stack operations, conditionals,
  \<open>OP_CHECKMULTISIG\<close> against the existence of an order-preserving assignment of signatures to keys,
  and the encodings accepted by the checks on signatures and pushes.
\<close>

subsection \<open>Branches that are not executed\<close>

lemma eval_switch_conditional:
  assumes "OP_IF \<le> opcode" "opcode \<le> OP_ENDIF" "eval_switch E False opcode s = Ok s'"
  shows "stack s' = stack s \<and> altstack s' = altstack s \<and> nOpCount s' = nOpCount s \<and>
         pbegincodehash s' = pbegincodehash s"
proof -
  have "opcode = 0x63 \<or> opcode = 0x64 \<or> opcode = 0x65 \<or> opcode = 0x66 \<or> opcode = 0x67 \<or> opcode = 0x68"
    using assms(1,2) by auto
  with assms(3) show ?thesis
    by (auto simp: eval_switch_def eval_OP_IF_def eval_OP_ELSE_def eval_OP_ENDIF_def outcome_simps)
qed

text \<open>
  An instruction in a branch that is not executed changes neither stack and does not move
  the start of the signed code; it can only fail, count towards the operation limit, or open,
  flip or close a conditional.
\<close>

theorem skipped_branch:
  assumes "False \<in> set (vfExec s)" "eval_step E s = Ok s'"
  shows "stack s' = stack s \<and> altstack s' = altstack s \<and> pbegincodehash s' = pbegincodehash s \<and>
         nOpCount s' \<le> nOpCount s + 1"
proof -
  obtain opcode v pc' where "eval_instr E opcode v (s\<lparr>pc := pc'\<rparr>) = Ok s'"
    using assms(2) by (auto simp: eval_step_Ok)
  moreover define s1 where "s1 = (if opcode > OP_16 then s\<lparr>pc := pc', nOpCount := nOpCount (s\<lparr>pc := pc'\<rparr>) + 1\<rparr> else s\<lparr>pc := pc'\<rparr>)"
  ultimately have "(if OP_IF \<le> opcode \<and> opcode \<le> OP_ENDIF then eval_switch E False opcode s1 else Ok s1) = Ok s'"
    using assms(1) by (auto simp: eval_instr_def Let_def outcome_simps split del: if_split)
  then have "s' = s1 \<or> (OP_IF \<le> opcode \<and> opcode \<le> OP_ENDIF \<and> eval_switch E False opcode s1 = Ok s')"
    by (simp split: if_splits)
  moreover have "stack s1 = stack s \<and> altstack s1 = altstack s \<and> pbegincodehash s1 = pbegincodehash s \<and>
      nOpCount s1 \<le> nOpCount s + 1" by (simp add: s1_def)
  ultimately show ?thesis using eval_switch_conditional by metis
qed

lemma skipped_branch_instance:
  "eval_step \<lparr>env_flags = 0, env_checker = c, env_sigversion = SIGVERSION_BASE, env_CheckLowS = l\<rparr>
     \<lparr>stack = [[7]], altstack = [], vfExec = [False], nOpCount = 1, pc = [0x75], pbegincodehash = []\<rparr> =
   Ok \<lparr>stack = [[7]], altstack = [], vfExec = [False], nOpCount = 2, pc = [], pbegincodehash = []\<rparr>"
  by (simp add: eval_step_def eval_instr_def GetOp2_def Let_def need_def MAX_SCRIPT_ELEMENT_SIZE_def
      MAX_OPS_PER_SCRIPT_def is_disabled_def)

theorem skipped_branch_witness:
  "stack (\<lparr>stack = [[7]], altstack = [], vfExec = [False], nOpCount = 2, pc = [], pbegincodehash = []\<rparr> :: machine) = [[7]]"
  using skipped_branch [OF _ skipped_branch_instance] by simp

subsection \<open>Stack diagrams\<close>

text \<open>
  The stack operations do what the diagrams in their comments say, for any values and any
  rest of the stack. The top of the stack is on the left here.
\<close>

theorem stack_diagrams:
  "eval_OP_2DROP (s\<lparr>stack := x2 # x1 # r\<rparr>) = Ok (s\<lparr>stack := r\<rparr>) \<and>
   eval_OP_2DUP (s\<lparr>stack := x2 # x1 # r\<rparr>) = Ok (s\<lparr>stack := x2 # x1 # x2 # x1 # r\<rparr>) \<and>
   eval_OP_3DUP (s\<lparr>stack := x3 # x2 # x1 # r\<rparr>) = Ok (s\<lparr>stack := x3 # x2 # x1 # x3 # x2 # x1 # r\<rparr>) \<and>
   eval_OP_2OVER (s\<lparr>stack := x4 # x3 # x2 # x1 # r\<rparr>) = Ok (s\<lparr>stack := x2 # x1 # x4 # x3 # x2 # x1 # r\<rparr>) \<and>
   eval_OP_2ROT (s\<lparr>stack := x6 # x5 # x4 # x3 # x2 # x1 # r\<rparr>) =
     Ok (s\<lparr>stack := x2 # x1 # x6 # x5 # x4 # x3 # r\<rparr>) \<and>
   eval_OP_2SWAP (s\<lparr>stack := x4 # x3 # x2 # x1 # r\<rparr>) = Ok (s\<lparr>stack := x2 # x1 # x4 # x3 # r\<rparr>) \<and>
   eval_OP_IFDUP (s\<lparr>stack := x1 # r\<rparr>) = Ok (s\<lparr>stack := (if CastToBool x1 then [x1, x1] else [x1]) @ r\<rparr>) \<and>
   eval_OP_DROP (s\<lparr>stack := x1 # r\<rparr>) = Ok (s\<lparr>stack := r\<rparr>) \<and>
   eval_OP_DUP (s\<lparr>stack := x1 # r\<rparr>) = Ok (s\<lparr>stack := x1 # x1 # r\<rparr>) \<and>
   eval_OP_NIP (s\<lparr>stack := x2 # x1 # r\<rparr>) = Ok (s\<lparr>stack := x2 # r\<rparr>) \<and>
   eval_OP_OVER (s\<lparr>stack := x2 # x1 # r\<rparr>) = Ok (s\<lparr>stack := x1 # x2 # x1 # r\<rparr>) \<and>
   eval_OP_ROT (s\<lparr>stack := x3 # x2 # x1 # r\<rparr>) = Ok (s\<lparr>stack := x1 # x3 # x2 # r\<rparr>) \<and>
   eval_OP_SWAP (s\<lparr>stack := x2 # x1 # r\<rparr>) = Ok (s\<lparr>stack := x1 # x2 # r\<rparr>) \<and>
   eval_OP_TUCK (s\<lparr>stack := x2 # x1 # r\<rparr>) = Ok (s\<lparr>stack := x2 # x1 # x2 # r\<rparr>)"
  by (simp add: stack_op_defs stacktop_def popstack_def swap_top_def need_def erase_at_def)

subsection \<open>Multiple signatures\<close>

text \<open>
  The matching of the loop: each signature is tried on the keys in order, and a key that failed
  or was used is not looked at again.
\<close>

fun greedy :: "('a \<Rightarrow> 'b \<Rightarrow> bool) \<Rightarrow> 'a list \<Rightarrow> 'b list \<Rightarrow> bool" where
  "greedy c [] ks = True"
| "greedy c (s # ss) [] = False"
| "greedy c (s # ss) (k # ks) = (if c s k then greedy c ss ks else greedy c (s # ss) ks)"

lemma greedy_iff: "greedy c ss ks \<longleftrightarrow> (\<exists>ks'. subseq ks' ks \<and> list_all2 c ss ks')"
proof (induction c ss ks rule: greedy.induct)
  case (3 c s ss k ks)
  show ?case
  proof (cases "c s k")
    case True
    have "(\<exists>ks'. subseq ks' (k # ks) \<and> list_all2 c (s # ss) ks') \<longleftrightarrow> (\<exists>ks'. subseq ks' ks \<and> list_all2 c ss ks')"
    proof
      assume "\<exists>ks'. subseq ks' (k # ks) \<and> list_all2 c (s # ss) ks'"
      then obtain z zs where "subseq (z # zs) (k # ks)" "list_all2 c ss zs"
        by (auto simp: list_all2_Cons1)
      then show "\<exists>ks'. subseq ks' ks \<and> list_all2 c ss ks'"
        by (auto split: if_splits dest: subseq_Cons')
    next
      assume "\<exists>ks'. subseq ks' ks \<and> list_all2 c ss ks'"
      then obtain zs where "subseq zs ks" "list_all2 c ss zs" by blast
      with True show "\<exists>ks'. subseq ks' (k # ks) \<and> list_all2 c (s # ss) ks'"
        by (intro exI [of _ "k # zs"]) simp
    qed
    with 3 True show ?thesis by simp
  next
    case False
    have "(\<exists>ks'. subseq ks' (k # ks) \<and> list_all2 c (s # ss) ks') \<longleftrightarrow> (\<exists>ks'. subseq ks' ks \<and> list_all2 c (s # ss) ks')"
      using False by (auto simp: list_all2_Cons1 intro: list_emb_Cons split: if_splits)
    with 3 False show ?thesis by simp
  qed
qed (auto elim: list_emb.cases)

lemma greedy_too_few: "length ks < length ss \<Longrightarrow> \<not> greedy c ss ks"
  by (auto simp: greedy_iff dest!: list_all2_lengthD list_emb_length)

lemma stacktop_drop: "1 \<le> i \<Longrightarrow> drop (i - 1) st = x # r \<Longrightarrow> stacktop st i = Ok x"
  by (cases "i \<le> length st") (auto simp: stacktop_def nth_via_drop)

lemma drop_next: "1 \<le> i \<Longrightarrow> drop (i - 1) st = x # r \<Longrightarrow> drop (Suc i - 1) st = r"
  by (cases i) (auto simp: drop_Suc simp flip: tl_drop)

lemma multisig_loop_greedy:
  assumes "\<forall>sig \<in> set sigs. \<forall>key \<in> set keys. check_encodings E sig key = Ok ()"
    and "drop (isig - 1) st = sigs @ r1" "drop (ikey - 1) st = keys @ r2" "1 \<le> isig" "1 \<le> ikey"
    and "length sigs \<le> length keys"
  shows "multisig_loop E st code isig ikey (int (length sigs)) (int (length keys)) =
    Ok (greedy (\<lambda>s k. CheckSig (env_checker E) s k code (env_sigversion E)) sigs keys)"
  using assms
proof (induction keys arbitrary: sigs isig ikey)
  case Nil
  then show ?case by (simp add: multisig_loop.simps)
next
  case (Cons k ks)
  show ?case
  proof (cases sigs)
    case Nil
    then show ?thesis by (simp add: multisig_loop.simps)
  next
    case sigs: (Cons s ss)
    let ?c = "\<lambda>s k. CheckSig (env_checker E) s k code (env_sigversion E)"
    have top: "stacktop st isig = Ok s" "stacktop st ikey = Ok k"
      using Cons.prems sigs by (auto intro: stacktop_drop)
    have next_key: "drop (Suc ikey - 1) st = ks @ r2" "drop (Suc isig - 1) st = ss @ r1"
      using drop_next Cons.prems sigs by auto
    show ?thesis
    proof (cases "?c s k")
      case True
      have "multisig_loop E st code (Suc isig) (Suc ikey) (int (length ss)) (int (length ks)) = Ok (greedy ?c ss ks)"
        using Cons.IH [of ss "Suc isig" "Suc ikey"] Cons.prems sigs next_key by simp
      with True top sigs Cons.prems show ?thesis
        by (subst multisig_loop.simps) simp
    next
      case False
      show ?thesis
      proof (cases "length sigs \<le> length ks")
        case True
        then have "multisig_loop E st code isig (Suc ikey) (int (length sigs)) (int (length ks)) = Ok (greedy ?c sigs ks)"
          using Cons.IH [of sigs isig "Suc ikey"] Cons.prems next_key by simp
        with False top sigs Cons.prems True show ?thesis by (subst multisig_loop.simps) simp
      next
        case short: False
        with greedy_too_few [of ks sigs ?c] False top sigs Cons.prems show ?thesis
          by (subst multisig_loop.simps) simp
      qed
    qed
  qed
qed

lemma multisig_drop_foldl:
  "drop (isig - 1) st = sigs @ r \<Longrightarrow> 1 \<le> isig \<Longrightarrow>
   multisig_drop E st isig (length sigs) code = Ok (foldl (drop_signature E) code sigs)"
proof (induction sigs arbitrary: isig code)
  case (Cons s ss)
  then have "stacktop st isig = Ok s" "drop (Suc isig - 1) st = ss @ r"
    using stacktop_drop drop_next by auto
  with Cons.IH [of "Suc isig"] show ?case by simp
qed simp

lemma multisig_cleanup_plain:
  "n \<le> length st \<Longrightarrow> fSuccess \<or> \<not> has_flag (env_flags E) SCRIPT_VERIFY_NULLFAIL \<Longrightarrow>
   multisig_cleanup E fSuccess n ikey2 st = Ok (drop n st)"
proof (induction n arbitrary: ikey2 st)
  case (Suc n)
  then obtain x st' where "st = x # st'" by (cases st) auto
  with Suc show ?case by (auto simp: popstack_def)
qed simp

lemma CScriptNum_getvch:
  "n \<le> 20 \<Longrightarrow> CScriptNum (getvch (int n)) b nDefaultMaxNumSize = Ok (int n)"
proof -
  assume "n \<le> 20"
  then have "\<bar>int n\<bar> < 2 ^ (8 * Suc 3 - 1)" by simp
  from length_serialize [OF this] have "length (getvch (int n)) \<le> 4" by (simp add: getvch_def)
  moreover have "set_vch (getvch (int n)) = int n"
    using calculation by (simp add: set_vch_value getvch_def vch_value_serialize)
  ultimately have "CScriptNum (getvch (int n)) True nDefaultMaxNumSize = Ok (int n)"
    by (simp add: CScriptNum_minimal minimal_serialize getvch_def nDefaultMaxNumSize_def)
  then show ?thesis by (cases b) (auto simp: CScriptNum_def split: if_splits)
qed

lemma getint_nat: "n \<le> 20 \<Longrightarrow> getint (int n) = int n"
  by (simp add: getint_def int_limits)

text \<open>
  C6: \<open>OP_CHECKMULTISIG\<close> accepts exactly when the signatures can be assigned to a subsequence of
  the public keys, in order, such that each signature is valid for its key: trying the keys once,
  in order, with an early exit, misses no assignment. The operation pops both counts, all keys and
  signatures and one element more, and the number of keys counts towards the operation limit.
  Here the signatures pass the encoding checks, \<open>NULLFAIL\<close> is off, and \<open>NULLDUMMY\<close> is off or satisfied.
\<close>

theorem checkmultisig_matching:
  assumes stk: "stack s = getvch (int (length keys)) # keys @ getvch (int (length sigs)) # sigs @ dummy # rest"
    and lens: "length sigs \<le> length keys" "length keys \<le> MAX_PUBKEYS_PER_MULTISIG"
      "nOpCount s + length keys \<le> MAX_OPS_PER_SCRIPT"
    and enc: "\<forall>sig \<in> set sigs. \<forall>key \<in> set keys. check_encodings E sig key = Ok ()"
    and nullfail: "\<not> has_flag (env_flags E) SCRIPT_VERIFY_NULLFAIL"
    and nulldummy: "\<not> has_flag (env_flags E) SCRIPT_VERIFY_NULLDUMMY \<or> dummy = []"
  shows "eval_OP_CHECKMULTISIG E OP_CHECKMULTISIG s =
    Ok (s\<lparr>nOpCount := nOpCount s + length keys,
          stack := vchBool (\<exists>keys'. subseq keys' keys \<and>
              list_all2 (\<lambda>sig key. CheckSig (env_checker E) sig key
                (foldl (drop_signature E) (pbegincodehash s) sigs) (env_sigversion E)) sigs keys') # rest\<rparr>)"
proof -
  let ?code = "foldl (drop_signature E) (pbegincodehash s) sigs"
  let ?m = "length keys" and ?n = "length sigs"
  have m20: "?m \<le> 20" "?n \<le> 20" using lens by (simp_all add: MAX_PUBKEYS_PER_MULTISIG_def)
  have keys: "drop (2 - 1) (stack s) = keys @ getvch (int ?n) # sigs @ dummy # rest"
    and sigs: "drop (?m + 3 - 1) (stack s) = sigs @ dummy # rest"
    and fin: "drop (?m + 2 + ?n) (stack s) = dummy # rest" using stk by simp_all
  have top: "stacktop (stack s) 1 = Ok (getvch (int ?m))" "stacktop (stack s) (2 + ?m) = Ok (getvch (int ?n))"
    using stk by (simp_all add: stacktop_def nth_append)
  have nums: "top_num E (stack s) 1 = Ok (int ?m)" "top_num E (stack s) (2 + ?m) = Ok (int ?n)"
    using top m20 by (simp_all add: top_num_def CScriptNum_getvch)
  have loop: "multisig_loop E (stack s) ?code (?m + 3) 2 (int ?n) (int ?m) =
      Ok (greedy (\<lambda>sig key. CheckSig (env_checker E) sig key ?code (env_sigversion E)) sigs keys)"
    using multisig_loop_greedy [OF enc sigs keys] lens by simp
  have len: "length (stack s) = ?m + ?n + 3 + length rest" using stk by simp
  have clean: "multisig_cleanup E b (?m + 2 + ?n) i (stack s) = Ok (dummy # rest)" for b i
    using multisig_cleanup_plain [of "?m + 2 + ?n" "stack s" b E i] nullfail len fin by simp
  have finish: "multisig_finish E OP_CHECKMULTISIG b (dummy # rest) (s\<lparr>nOpCount := nOpCount s + ?m\<rparr>) =
      Ok (s\<lparr>nOpCount := nOpCount s + ?m, stack := vchBool b # rest\<rparr>)" for b
    using nulldummy by (auto simp: multisig_finish_def need_def stacktop_def popstack_def)
  have drp: "multisig_drop E (stack s) (?m + 3) ?n (pbegincodehash s) = Ok ?code"
    using multisig_drop_foldl [OF sigs] by simp
  have arith: "1 + 1 = (2::nat)" "2 + ?m + 1 = ?m + 3" "?m + 3 + ?n - 1 = ?m + 2 + ?n" by simp_all
  show ?thesis
    unfolding eval_OP_CHECKMULTISIG_def Let_def nums bindO.simps getint_nat [OF m20(1)] nat_int arith
      getint_nat [OF m20(2)] clean finish need_def
    using lens len by (simp add: drp loop greedy_iff)
qed

lemma checkmultisig_example:
  "list_all2 (\<lambda>sig key. sig = (key :: valtype)) [[5], [6]] [[5], [6]]" "subseq [[5], [6]] [[5], [9], [6 :: byte]]"
  by simp_all

theorem checkmultisig_matching_witness:
  "eval_OP_CHECKMULTISIG
     \<lparr>env_flags = 0, env_checker = \<lparr>CheckSig = (\<lambda>sig key code v. sig = key), CheckLockTime = (\<lambda>_. False),
        CheckSequence = (\<lambda>_. False)\<rparr>, env_sigversion = SIGVERSION_WITNESS_V0, env_CheckLowS = (\<lambda>_. True)\<rparr>
     OP_CHECKMULTISIG
     \<lparr>stack = [getvch 3, [5], [9], [6], getvch 2, [5], [6], [], [7]], altstack = [], vfExec = [], nOpCount = 1,
       pc = [], pbegincodehash = []\<rparr> =
   Ok \<lparr>stack = [[1], [7]], altstack = [], vfExec = [], nOpCount = 4, pc = [], pbegincodehash = []\<rparr>"
proof -
  have "\<exists>keys'. subseq keys' [[5], [9], [6 :: byte]] \<and> list_all2 (\<lambda>sig key. sig = key) [[5], [6]] keys'"
    using checkmultisig_example by blast
  then show ?thesis
    by (subst checkmultisig_matching [of _ "[[5], [9], [6]]" "[[5], [6]]" "[]" "[[7]]"])
      (simp_all add: MAX_PUBKEYS_PER_MULTISIG_def MAX_OPS_PER_SCRIPT_def check_encodings_def
        CheckSignatureEncoding_def CheckPubKeyEncoding_def has_flag_def vchBool_def vchTrue_def)
qed

end
