(* ===== verification/Encoding_Checks.thy ===== *)
theory Encoding_Checks
  imports Interpreter
begin

text \<open>
  The encodings accepted by the checks of \<^verbatim>\<open>src/src/script/interpreter.cpp\<close>: strict DER signatures,
  public keys and minimal pushes, each against a description of the format.
\<close>

subsection \<open>DER signatures\<close>

text \<open>A positive integer in the shortest big-endian two's complement encoding.\<close>

definition der_int :: "valtype \<Rightarrow> bool" where
  "der_int x \<longleftrightarrow> x \<noteq> [] \<and> unat (hd x) < 128 \<and> (1 < length x \<and> hd x = 0 \<longrightarrow> 128 \<le> unat (x ! 1))"

text \<open>\<open>0x30 [total-length] 0x02 [R-length] [R] 0x02 [S-length] [S] [sighash]\<close>\<close>

definition der_sig :: "valtype \<Rightarrow> valtype \<Rightarrow> byte \<Rightarrow> valtype" where
  "der_sig R S sighash =
     [0x30, of_nat (length R + length S + 4), 0x02, of_nat (length R)] @ R @
     [0x02, of_nat (length S)] @ S @ [sighash]"

lemma length_der_sig: "length (der_sig R S h) = length R + length S + 7"
  by (simp add: der_sig_def)

lemma nth_der_sig:
  "der_sig R S h ! 0 = 0x30" "der_sig R S h ! 1 = of_nat (length R + length S + 4)"
  "der_sig R S h ! 2 = 0x02" "der_sig R S h ! 3 = of_nat (length R)"
  "R \<noteq> [] \<Longrightarrow> der_sig R S h ! 4 = hd R"
  "1 < length R \<Longrightarrow> der_sig R S h ! 5 = R ! 1"
  "der_sig R S h ! (length R + 4) = 0x02" "der_sig R S h ! (5 + length R) = of_nat (length S)"
  "S \<noteq> [] \<Longrightarrow> der_sig R S h ! (length R + 6) = hd S"
  "1 < length S \<Longrightarrow> der_sig R S h ! (length R + 7) = S ! 1"
  by (simp_all add: der_sig_def nth_append hd_conv_nth numeral_eq_Suc)

lemma neg_bit: "(b :: byte) AND 0x80 \<noteq> 0 \<longleftrightarrow> \<not> unat b < 128"
  using and_128_iff [of b] by auto

lemma der_sig_valid:
  assumes "der_int R" "der_int S" "length R + length S + 7 \<le> 73"
  shows "IsValidSignatureEncoding (der_sig R S h)"
proof -
  have ne: "R \<noteq> []" "S \<noteq> []" using assms by (auto simp: der_int_def)
  then have len: "0 < length R" "0 < length S" by simp_all
  have R: "unat (hd R) < 128" "1 < length R \<longrightarrow> hd R = 0 \<longrightarrow> 128 \<le> unat (R ! 1)"
    and S: "unat (hd S) < 128" "1 < length S \<longrightarrow> hd S = 0 \<longrightarrow> 128 \<le> unat (S ! 1)"
    using assms by (auto simp: der_int_def)
  have u: "unat (of_nat (length R + length S + 4) :: byte) = length R + length S + 4"
    "unat (of_nat (length R) :: byte) = length R" "unat (of_nat (length S) :: byte) = length S"
    using assms(3) by (simp_all add: unat_of_nat_byte del: of_nat_add)
  have two: "\<not> length R + length S < 2" using len by linarith
  have nulls: "\<not> (length R > 1 \<and> hd R = 0 \<and> unat (der_sig R S h ! 5) < 128)"
    "\<not> (length S > 1 \<and> hd S = 0 \<and> unat (der_sig R S h ! (length R + 7)) < 128)"
    using R S nth_der_sig(6) [of R S h] nth_der_sig(10) [of S R h] by auto
  show ?thesis
    unfolding IsValidSignatureEncoding_def Let_def length_der_sig neg_bit nth_der_sig(1-4) u nth_der_sig(8)
      nth_der_sig(7) nth_der_sig(5) [OF ne(1)] nth_der_sig(9) [OF ne(2)]
    using R S len assms(3) nulls two by simp
qed

lemma list_split2: "Suc i < length xs \<Longrightarrow> drop i xs = xs ! i # xs ! Suc i # drop (Suc (Suc i)) xs"
  by (simp add: Cons_nth_drop_Suc)

lemma valid_der_sig:
  assumes "IsValidSignatureEncoding sig"
  shows "\<exists>R S h. sig = der_sig R S h \<and> der_int R \<and> der_int S \<and> length sig \<le> 73"
proof -
  define lenR where "lenR = unat (sig ! 3)"
  define lenS where "lenS = unat (sig ! (5 + lenR))"
  have facts: "9 \<le> length sig" "length sig \<le> 73" "sig ! 0 = 0x30" "unat (sig ! 1) = length sig - 3"
    "lenR + lenS + 7 = length sig" "sig ! 2 = 0x02" "0 < lenR" "unat (sig ! 4) < 128"
    "lenR > 1 \<and> sig ! 4 = 0 \<longrightarrow> \<not> unat (sig ! 5) < 128" "sig ! (lenR + 4) = 0x02" "0 < lenS"
    "unat (sig ! (lenR + 6)) < 128"
    "lenS > 1 \<and> sig ! (lenR + 6) = 0 \<longrightarrow> \<not> unat (sig ! (lenR + 7)) < 128"
    using assms unfolding IsValidSignatureEncoding_def Let_def lenR_def [symmetric] lenS_def [symmetric] neg_bit
    by (auto split: if_splits)
  define R where "R = take lenR (drop 4 sig)"
  define S where "S = take lenS (drop (lenR + 6) sig)"
  define h where "h = sig ! (lenR + lenS + 6)"
  have lens: "length R = lenR" "length S = lenS" using facts by (simp_all add: R_def S_def)
  have "sig = drop 0 sig" by simp
  also have "\<dots> = sig ! 0 # sig ! 1 # drop 2 sig" using list_split2 [of 0 sig] facts by (simp add: numeral_2_eq_2)
  also have "drop 2 sig = sig ! 2 # sig ! 3 # drop 4 sig" using list_split2 [of 2 sig] facts by simp
  also have "drop 4 sig = R @ drop (lenR + 4) sig"
    using append_take_drop_id [of lenR "drop 4 sig"] by (simp add: R_def)
  also have "drop (lenR + 4) sig = sig ! (lenR + 4) # sig ! (5 + lenR) # drop (lenR + 6) sig"
    using list_split2 [of "lenR + 4" sig] facts by (simp add: eval_nat_numeral)
  also have "drop (lenR + 6) sig = S @ drop (lenR + lenS + 6) sig"
    using append_take_drop_id [of lenS "drop (lenR + 6) sig"] by (simp add: S_def ac_simps)
  also have "drop (lenR + lenS + 6) sig = [h]"
    using Cons_nth_drop_Suc [of "lenR + lenS + 6" sig] facts by (simp add: h_def)
  finally have sig: "sig = [sig ! 0, sig ! 1, sig ! 2, sig ! 3] @ R @ [sig ! (lenR + 4), sig ! (5 + lenR)] @ S @ [h]"
    by simp
  have "sig ! 1 = of_nat (length R + length S + 4)" "sig ! 3 = of_nat (length R)" "sig ! (5 + lenR) = of_nat (length S)"
    using facts by (simp_all add: byte_eq_iff unat_of_nat_byte lens lenR_def lenS_def flip: of_nat_add)
  then have "sig = der_sig R S h"
    using sig facts unfolding der_sig_def by simp
  moreover have "der_int R"
    using facts lens unfolding der_int_def R_def by (auto simp: hd_drop_conv_nth)
  moreover have "der_int S"
    using facts(5,11-13) unfolding der_int_def S_def by (auto simp: hd_drop_conv_nth add.commute)
  ultimately show ?thesis using facts(2) by blast
qed

text \<open>
  C7: \<open>IsValidSignatureEncoding\<close>, the consensus check of BIP66, accepts exactly the strict DER
  encodings: a compound of two positive integers in shortest form with right lengths, followed by
  one hash type byte, of at most 73 bytes.
\<close>

theorem IsValidSignatureEncoding_iff:
  "IsValidSignatureEncoding sig \<longleftrightarrow>
     (\<exists>R S sighash. sig = der_sig R S sighash \<and> der_int R \<and> der_int S \<and> length sig \<le> 73)"
  using valid_der_sig der_sig_valid by (auto simp: length_der_sig)

subsection \<open>Minimal pushes\<close>

definition small_int_push :: "valtype \<Rightarrow> bool" where
  "small_int_push data \<longleftrightarrow> (\<exists>b. data = [b] \<and> (1 \<le> unat b \<and> unat b \<le> 16 \<or> b = 0x81))"

lemma WriteLE16_ReadLE16: "2 \<le> length bs \<Longrightarrow> WriteLE16 (ReadLE16 bs) = take 2 bs"
  using le_bytes_le_val [of "take 2 bs"] by (simp add: WriteLE16_def unat_ReadLE16)

lemma WriteLE32_ReadLE32: "4 \<le> length bs \<Longrightarrow> WriteLE32 (ReadLE32 bs) = take 4 bs"
  using le_bytes_le_val [of "take 4 bs"] by (simp add: WriteLE32_def unat_ReadLE32)

lemma push_data_head:
  "push_data [] data @ rest = x # xs \<Longrightarrow>
     unat x = (if length data < 76 then length data else if length data \<le> 255 then 76
               else if length data \<le> 65535 then 77 else 78)"
  by (auto simp: push_data_def unat_of_nat_byte split: if_splits)

lemma small_int_length: "small_int_push data \<Longrightarrow> length data = 1"
  by (auto simp: small_int_push_def)

lemma CheckMinimalPush_opcode:
  assumes "opcode \<le> OP_PUSHDATA4"
  shows "CheckMinimalPush data opcode \<longleftrightarrow> \<not> small_int_push data \<and>
    (opcode = (if length data < 76 then length data else if length data \<le> 255 then 76
               else if length data \<le> 65535 then 77 else opcode))"
proof -
  have "small_int_push data \<longleftrightarrow>
      length data = 1 \<and> (1 \<le> unat (data ! 0) \<and> unat (data ! 0) \<le> 16 \<or> data ! 0 = 0x81)"
    by (auto simp: small_int_push_def length_Suc_conv)
  with assms show ?thesis by (auto simp: CheckMinimalPush_def)
qed

lemma push_data_minimal:
  assumes g: "GetOp2 code = (True, opcode, data, rest)" and op: "opcode \<le> OP_PUSHDATA4"
  shows "CheckMinimalPush data opcode \<longleftrightarrow> \<not> small_int_push data \<and> code = push_data [] data @ rest"
proof -
  obtain n code1 code2 where p: "code = of_nat opcode # code1" "GetOp_size opcode code1 = Some (n, code2)"
    "n \<le> length code2" "data = take n code2" "rest = drop n code2"
    using g op by (cases rule: GetOp2_True_cases) auto
  have d: "length data = n" "code2 = data @ rest" using p by simp_all
  let ?op = "if n < 76 then n else if n \<le> 255 then 76 else if n \<le> 65535 then 77 else (78 :: nat)"
  have eq: "code = push_data [] data @ rest" if "opcode = ?op"
  proof -
    consider "opcode < 76" | "opcode = 76" | "opcode = 77" | "opcode = 78" using op by linarith
    then show ?thesis
    proof cases
      case 1
      then have "n = opcode" "code2 = code1" using p(2) by (simp_all add: GetOp_size_def)
      with 1 p(1) d show ?thesis by (simp add: push_data_def)
    next
      case 2
      then obtain b where b: "code1 = b # code2" "n = unat b"
        using p(2) by (cases code1) (auto simp: GetOp_size_def split: if_splits)
      moreover have "75 < n" "n \<le> 255" using that 2 by (auto split: if_splits)
      ultimately show ?thesis using 2 p(1) d by (simp add: push_data_def byte_eq_iff)
    next
      case 3
      then have "2 \<le> length code1" "n = unat (ReadLE16 code1)" "code2 = drop 2 code1"
        using p(2) by (auto simp: GetOp_size_def split: if_splits)
      moreover have "255 < n" "n \<le> 65535" using that 3 by (auto split: if_splits)
      ultimately have "code1 = WriteLE16 (of_nat n) @ data @ rest"
        using WriteLE16_ReadLE16 [of code1] append_take_drop_id [of 2 code1] d(2) by simp
      then show ?thesis using 3 p(1) d(1) \<open>255 < n\<close> \<open>n \<le> 65535\<close> by (simp add: push_data_def)
    next
      case 4
      then have "4 \<le> length code1" "n = unat (ReadLE32 code1)" "code2 = drop 4 code1"
        using p(2) by (auto simp: GetOp_size_def split: if_splits)
      moreover have "65535 < n" using that 4 by (auto split: if_splits)
      ultimately have "code1 = WriteLE32 (of_nat n) @ data @ rest"
        using WriteLE32_ReadLE32 [of code1] append_take_drop_id [of 4 code1] d(2) by simp
      then show ?thesis using 4 p(1) d(1) \<open>65535 < n\<close> by (simp add: push_data_def)
    qed
  qed
  have op_eq: "opcode = ?op" if "code = push_data [] data @ rest"
    using push_data_head [of data rest "of_nat opcode" code1] that p(1) op d(1)
    by (simp add: unat_of_nat_byte)
  have "n \<le> 65535 \<or> opcode = 78"
    using p(2) op unat_bound [of "ReadLE16 code1"] order_trans [OF unat_byte_le, of 65535 "hd code1"]
    by (auto simp: GetOp_size_def split: if_splits)
  then have iff: "(opcode = (if n < 76 then n else if n \<le> 255 then 76 else if n \<le> 65535 then 77 else opcode)) \<longleftrightarrow>
      opcode = ?op" by auto
  have code_iff: "code = push_data [] data @ rest \<longleftrightarrow> opcode = ?op" using eq op_eq by blast
  show ?thesis unfolding CheckMinimalPush_opcode [OF op, of data] d(1) code_iff iff by (rule refl)
qed

text \<open>
  The minimal push rule accepts exactly the pushes that \<open>CScript::operator<<\<close> writes, except
  for the values that \<open>OP_1\<close> to \<open>OP_16\<close> and \<open>OP_1NEGATE\<close> push: every value has one minimal push.
\<close>

theorem CheckMinimalPush_iff:
  assumes "GetOp2 code = (True, opcode, data, rest)" "opcode \<le> OP_PUSHDATA4"
  shows "CheckMinimalPush data opcode \<longleftrightarrow> \<not> small_int_push data \<and> code = push_data [] data @ rest"
  by (rule push_data_minimal [OF assms])

theorem CheckMinimalPush_iff_witness:
  "\<not> CheckMinimalPush [0xAA] OP_PUSHDATA1"
  using CheckMinimalPush_iff [of "[0x4c, 1, 0xAA]" OP_PUSHDATA1 "[0xAA]" "[]"]
  by (simp add: GetOp2_def GetOp_size_def push_data_def)

end
