(* ===== verification/Serialize.thy ===== *)
theory Serialize
  imports Veggie_Prelude
begin

text \<open>
  The serialisation templates of \<^verbatim>\<open>src/src/serialize.h\<close> and the stream \<open>CDataStream\<close> of
  \<^verbatim>\<open>src/src/streams.h\<close>. Serialising is the list of the bytes written; unserialising is a
  function from the unread bytes of the stream to the object and the bytes left, which throws
  \<open>std::ios_base::failure\<close> on short or malformed input. The locale \<open>codec\<close> is the
  contract that every pair of such functions of the sources keeps.
\<close>

named_theorems codec_simps \<open>what each unserialiser of the development accepts\<close>

datatype io_exn = Ios_failure string

type_synonym 'a read_result = "(unit, io_exn, 'a \<times> byte list) outcome"
type_synonym 'a unserializer = "byte list \<Rightarrow> 'a read_result"

definition MAX_SIZE :: nat where "MAX_SIZE = 0x02000000"

subsection \<open>The stream\<close>

text \<open>
  \<open>CDataStream\<close> keeps the whole buffer and a read position of type \<open>unsigned int\<close>; reading to
  the end clears the buffer. \<open>unread\<close> is what is left to read.
\<close>

record CDataStream =
  vch :: "byte list"
  nReadPos :: u32

definition CDataStream_read :: "nat \<Rightarrow> CDataStream \<Rightarrow> (unit, io_exn, byte list \<times> CDataStream) outcome" where
  "CDataStream_read nSize s =
     (let nReadPosNext = nReadPos s + of_nat nSize in
      if length (vch s) \<le> unat nReadPosNext then
        if length (vch s) < unat nReadPosNext
        then Throw (Ios_failure ''CDataStream::read(): end of data'')
        else bindO (assertO (unat (nReadPos s) + nSize \<le> length (vch s))) (\<lambda>_.
             Ok (take nSize (drop (unat (nReadPos s)) (vch s)), s\<lparr>nReadPos := 0, vch := []\<rparr>))
      else bindO (assertO (unat (nReadPos s) + nSize \<le> length (vch s))) (\<lambda>_.
           Ok (take nSize (drop (unat (nReadPos s)) (vch s)), s\<lparr>nReadPos := nReadPosNext\<rparr>)))"

definition CDataStream_write :: "byte list \<Rightarrow> CDataStream \<Rightarrow> CDataStream" where
  "CDataStream_write pch s = s\<lparr>vch := vch s @ pch\<rparr>"

definition CDataStream_ignore :: "int \<Rightarrow> CDataStream \<Rightarrow> (unit, io_exn, CDataStream) outcome" where
  "CDataStream_ignore nSize s =
     (if nSize < 0 then Throw (Ios_failure ''CDataStream::ignore(): nSize negative'')
      else
        let nReadPosNext = nReadPos s + of_int nSize in
        if length (vch s) \<le> unat nReadPosNext then
          if length (vch s) < unat nReadPosNext
          then Throw (Ios_failure ''CDataStream::ignore(): end of data'')
          else Ok (s\<lparr>nReadPos := 0, vch := []\<rparr>)
        else Ok (s\<lparr>nReadPos := nReadPosNext\<rparr>))"

definition CDataStream_Compact :: "CDataStream \<Rightarrow> CDataStream" where
  "CDataStream_Compact s = s\<lparr>vch := drop (unat (nReadPos s)) (vch s), nReadPos := 0\<rparr>"

definition CDataStream_Rewind :: "nat \<Rightarrow> CDataStream \<Rightarrow> bool \<times> CDataStream" where
  "CDataStream_Rewind n s =
     (if n > unat (nReadPos s) then (False, s)
      else (True, s\<lparr>nReadPos := nReadPos s - of_nat n\<rparr>))"

definition unread :: "CDataStream \<Rightarrow> byte list" where
  "unread s = drop (unat (nReadPos s)) (vch s)"

definition stream_ok :: "CDataStream \<Rightarrow> bool" where
  "stream_ok s \<longleftrightarrow> unat (nReadPos s) \<le> length (vch s) \<and> length (vch s) < 2 ^ 31"

text \<open>The abstract stream that the unserialisers read: the unread bytes.\<close>

definition read_bytes :: "nat \<Rightarrow> byte list unserializer" where
  "read_bytes n s =
     (if length s < n then Throw (Ios_failure ''CDataStream::read(): end of data'')
      else Ok (take n s, drop n s))"

subsection \<open>Integers\<close>

definition ser_writedata8 :: "byte \<Rightarrow> byte list" where "ser_writedata8 obj = [obj]"
definition ser_writedata16 :: "u16 \<Rightarrow> byte list" where "ser_writedata16 obj = WriteLE16 obj"
definition ser_writedata32 :: "u32 \<Rightarrow> byte list" where "ser_writedata32 obj = WriteLE32 obj"
definition ser_writedata64 :: "u64 \<Rightarrow> byte list" where "ser_writedata64 obj = WriteLE64 obj"

definition ser_readdata8 :: "byte unserializer" where
  "ser_readdata8 s = bindO (read_bytes 1 s) (\<lambda>(bs, s). Ok (hd bs, s))"

definition ser_readdata16 :: "u16 unserializer" where
  "ser_readdata16 s = bindO (read_bytes 2 s) (\<lambda>(bs, s). Ok (ReadLE16 bs, s))"

definition ser_readdata32 :: "u32 unserializer" where
  "ser_readdata32 s = bindO (read_bytes 4 s) (\<lambda>(bs, s). Ok (ReadLE32 bs, s))"

definition ser_readdata64 :: "u64 unserializer" where
  "ser_readdata64 s = bindO (read_bytes 8 s) (\<lambda>(bs, s). Ok (ReadLE64 bs, s))"

subsection \<open>Compact sizes\<close>

definition GetSizeOfCompactSize :: "u64 \<Rightarrow> nat" where
  "GetSizeOfCompactSize nSize =
     (if nSize < 253 then 1
      else if nSize \<le> 0xffff then 1 + 2
      else if nSize \<le> 0xffffffff then 1 + 4
      else 1 + 8)"

definition WriteCompactSize :: "u64 \<Rightarrow> byte list" where
  "WriteCompactSize nSize =
     (if nSize < 253 then ser_writedata8 (ucast nSize)
      else if nSize \<le> 0xffff then ser_writedata8 253 @ ser_writedata16 (ucast nSize)
      else if nSize \<le> 0xffffffff then ser_writedata8 254 @ ser_writedata32 (ucast nSize)
      else ser_writedata8 255 @ ser_writedata64 nSize)"

definition non_canonical :: io_exn where
  "non_canonical = Ios_failure ''non-canonical ReadCompactSize()''"

definition ReadCompactSize :: "u64 unserializer" where
  "ReadCompactSize s =
     bindO (ser_readdata8 s) (\<lambda>(chSize, s).
     bindO
       (if chSize < 253 then Ok (ucast chSize, s)
        else if chSize = 253 then
          bindO (ser_readdata16 s) (\<lambda>(n, s).
          if (ucast n :: u64) < 253 then Throw non_canonical else Ok (ucast n, s))
        else if chSize = 254 then
          bindO (ser_readdata32 s) (\<lambda>(n, s).
          if (ucast n :: u64) < 0x10000 then Throw non_canonical else Ok (ucast n, s))
        else
          bindO (ser_readdata64 s) (\<lambda>(n, s).
          if n < 0x100000000 then Throw non_canonical else Ok (n, s)))
     (\<lambda>(nSizeRet, s).
     if nSizeRet > of_nat MAX_SIZE
     then Throw (Ios_failure ''ReadCompactSize(): size too large'')
     else Ok (nSizeRet, s)))"

subsection \<open>Variable-length integers\<close>

text \<open>
  The templates are instantiated at unsigned types of several widths; the model is polymorphic
  in the width. \<open>WriteVarInt_tmp\<close> fills \<open>tmp\<close> from its first element on.
\<close>

lemma unat_drop_bit_7: "unat (drop_bit 7 (n :: 'a::len word)) = unat n div 128"
  using unat_bound [of n]
  by (simp add: unsigned_drop_bit_eq drop_bit_eq_div [where 'a = nat] take_bit_nat_eq_self)

lemma varint_decreases:
  assumes "unat (n :: 'a::len word) > 0x7F"
  shows "unat (drop_bit 7 n - 1) + 1 = unat n div 128"
proof -
  have "1 \<le> unat n div 128" using assms by (simp add: div_greater_zero_iff Suc_le_eq)
  then have "drop_bit 7 n \<noteq> 0" by (metis not_one_le_zero unat_drop_bit_7 unsigned_0)
  then show ?thesis by (simp add: unat_minus_one unat_drop_bit_7) (use \<open>1 \<le> unat n div 128\<close> in simp)
qed

function GetSizeOfVarInt :: "'a::len word \<Rightarrow> nat" where
  "GetSizeOfVarInt n =
     1 + (if unat n \<le> 0x7F then 0 else GetSizeOfVarInt (drop_bit 7 n - 1))"
  by pat_completeness auto
termination
proof (relation "measure unat")
  fix n :: "'a word" assume "\<not> unat n \<le> 0x7F"
  then have "unat (drop_bit 7 n - 1) + 1 = unat n div 128" by (intro varint_decreases) simp
  then show "(drop_bit 7 n - 1, n) \<in> measure unat" by simp
qed simp

function WriteVarInt_tmp :: "'a::len word \<Rightarrow> nat \<Rightarrow> byte list" where
  "WriteVarInt_tmp n len =
     (ucast (n AND 0x7F) OR (if len \<noteq> 0 then 0x80 else 0)) #
     (if unat n \<le> 0x7F then [] else WriteVarInt_tmp (drop_bit 7 n - 1) (len + 1))"
  by pat_completeness auto
termination
proof (relation "measure (unat \<circ> fst)")
  fix n :: "'a word" and len :: nat assume "\<not> unat n \<le> 0x7F"
  then have "unat (drop_bit 7 n - 1) + 1 = unat n div 128" by (intro varint_decreases) simp
  then show "((drop_bit 7 n - 1, len + 1), (n, len)) \<in> measure (unat \<circ> fst)" by simp
qed simp

definition WriteVarInt :: "'a::len word \<Rightarrow> byte list" where
  "WriteVarInt n = concat (map ser_writedata8 (rev (WriteVarInt_tmp n 0)))"

fun ReadVarInt_loop :: "'a::len word \<Rightarrow> 'a word unserializer" where
  "ReadVarInt_loop n [] = Throw (Ios_failure ''CDataStream::read(): end of data'')"
| "ReadVarInt_loop n (chData # s) =
     (let n = push_bit 7 n OR ucast (chData AND 0x7F) in
      if chData AND 0x80 \<noteq> 0 then ReadVarInt_loop (n + 1) s else Ok (n, s))"

definition ReadVarInt :: "'a::len word unserializer" where
  "ReadVarInt s = ReadVarInt_loop 0 s"

declare GetSizeOfVarInt.simps [simp del] WriteVarInt_tmp.simps [simp del]

subsection \<open>Vectors\<close>

text \<open>
  Vectors of bytes (and \<open>prevector\<close>s of bytes, which scripts are) are one block; they are read
  at most 5000000 bytes at a time, so that a bogus size does not allocate memory first.
\<close>

definition Serialize_bytes :: "byte list \<Rightarrow> byte list" where
  "Serialize_bytes v = WriteCompactSize (of_nat (length v)) @ v"

function Unserialize_bytes_loop :: "nat \<Rightarrow> nat \<Rightarrow> byte list \<Rightarrow> byte list unserializer" where
  "Unserialize_bytes_loop nSize i v s =
     (if i < nSize then
        let blk = min (nSize - i) 5000000 in
        bindO (read_bytes blk s) (\<lambda>(bs, s). Unserialize_bytes_loop nSize (i + blk) (v @ bs) s)
      else Ok (v, s))"
  by pat_completeness auto
termination
  by (relation "measure (\<lambda>(nSize, i, v, s). nSize - i)") auto

definition Unserialize_bytes :: "byte list unserializer" where
  "Unserialize_bytes s =
     bindO (ReadCompactSize s) (\<lambda>(nSize, s). Unserialize_bytes_loop (unat nSize) 0 [] s)"

text \<open>
  Vectors of other types are their elements one after the other. The loop that reads them
  extends the vector by \<open>5000000 / sizeof(T)\<close> elements at a time; for a type larger than
  that it would not advance.
\<close>

definition Serialize_vector :: "('a \<Rightarrow> byte list) \<Rightarrow> 'a list \<Rightarrow> byte list" where
  "Serialize_vector ser v = WriteCompactSize (of_nat (length v)) @ concat (map ser v)"

fun Unserialize_elems :: "'a unserializer \<Rightarrow> nat \<Rightarrow> 'a list unserializer" where
  "Unserialize_elems unser 0 s = Ok ([], s)"
| "Unserialize_elems unser (Suc n) s =
     bindO (unser s) (\<lambda>(x, s).
     bindO (Unserialize_elems unser n s) (\<lambda>(xs, s). Ok (x # xs, s)))"

function Unserialize_vector_loop ::
  "nat \<Rightarrow> 'a unserializer \<Rightarrow> nat \<Rightarrow> nat \<Rightarrow> 'a list \<Rightarrow> 'a list unserializer" where
  "Unserialize_vector_loop step unser nSize nMid v s =
     (if nMid < nSize then
        if step = 0 then Abort
        else
          let nMid' = (if nMid + step > nSize then nSize else nMid + step) in
          bindO (Unserialize_elems unser (nMid' - nMid) s) (\<lambda>(xs, s).
          Unserialize_vector_loop step unser nSize nMid' (v @ xs) s)
      else Ok (v, s))"
  by pat_completeness auto
termination
  by (relation "measure (\<lambda>(step, unser, nSize, nMid, v, s). nSize - nMid)") (auto split: if_splits)

definition Unserialize_vector :: "nat \<Rightarrow> 'a unserializer \<Rightarrow> 'a list unserializer" where
  "Unserialize_vector sizeofT unser s =
     bindO (ReadCompactSize s) (\<lambda>(nSize, s).
     Unserialize_vector_loop (5000000 div sizeofT) unser (unat nSize) 0 [] s)"

declare Unserialize_bytes_loop.simps [simp del] Unserialize_vector_loop.simps [simp del]


subsection \<open>The stream refines the list of its unread bytes\<close>

lemma unat_pos_add:
  assumes "stream_ok s" "n < 2 ^ 31"
  shows "unat (nReadPos s + of_nat n) = unat (nReadPos s) + n"
  using assms by (simp add: stream_ok_def unat_word_ariths unat_of_nat)

lemma read_refines:
  assumes s: "stream_ok s" and n: "n < 2 ^ 31"
  shows "(case CDataStream_read n s of
            Ok (bs, s') \<Rightarrow> read_bytes n (unread s) = Ok (bs, unread s') \<and> stream_ok s'
          | Throw x \<Rightarrow> read_bytes n (unread s) = Throw x
          | _ \<Rightarrow> False)"
  using s unat_pos_add [OF s n]
  by (auto simp: CDataStream_read_def read_bytes_def unread_def stream_ok_def Let_def assertO_def
      add.commute)

lemma ignore_refines:
  assumes s: "stream_ok s" and n: "n < 2 ^ 31"
  shows "(case CDataStream_ignore (int n) s of
            Ok s' \<Rightarrow> unread s' = drop n (unread s) \<and> n \<le> length (unread s) \<and> stream_ok s'
          | Throw x \<Rightarrow> length (unread s) < n
          | _ \<Rightarrow> False)"
  using s unat_pos_add [OF s n]
  by (auto simp: CDataStream_ignore_def unread_def stream_ok_def Let_def add.commute)

lemma rewind_refines:
  "(case CDataStream_Rewind n s of
      (True, s') \<Rightarrow> drop n (unread s') = unread s
    | (False, s') \<Rightarrow> s' = s \<and> unat (nReadPos s) < n)"
proof (cases "n \<le> unat (nReadPos s)")
  case True
  then have "unat (of_nat n :: u32) = n" using unat_bound [of "nReadPos s"] by (simp add: unat_of_nat)
  then have "unat (nReadPos s - of_nat n) = unat (nReadPos s) - n"
    using True by (simp add: unat_sub word_le_nat_alt)
  then show ?thesis using True by (simp add: CDataStream_Rewind_def unread_def)
qed (simp add: CDataStream_Rewind_def)

subsection \<open>Reading in blocks is reading at once\<close>

lemma bindO_assoc_pair:
  "bindO (bindO m (\<lambda>(x, s). f x s)) g = bindO m (\<lambda>(x, s). bindO (f x s) g)"
  by (cases m) auto

lemma elems_append:
  "Unserialize_elems unser (m + n) s =
     bindO (Unserialize_elems unser m s) (\<lambda>(xs, s).
     bindO (Unserialize_elems unser n s) (\<lambda>(ys, s). Ok (xs @ ys, s)))"
proof (induction m arbitrary: s)
  case 0
  then show ?case by (cases "Unserialize_elems unser n s") auto
next
  case (Suc m)
  then show ?case by (simp add: bindO_assoc_pair)
qed

lemma vector_loop_elems:
  assumes "step \<noteq> 0" "nMid \<le> nSize"
  shows "Unserialize_vector_loop step unser nSize nMid v s =
     bindO (Unserialize_elems unser (nSize - nMid) s) (\<lambda>(xs, s). Ok (v @ xs, s))"
  using assms
proof (induction step unser nSize nMid v s rule: Unserialize_vector_loop.induct)
  case (1 step unser nSize nMid v s)
  show ?case
  proof (cases "nMid < nSize")
    case False
    then show ?thesis using 1 by (subst Unserialize_vector_loop.simps) simp
  next
    case True
    define nMid' where "nMid' = (if nMid + step > nSize then nSize else nMid + step)"
    have le: "nMid \<le> nMid'" "nMid' \<le> nSize" using 1 True by (auto simp: nMid'_def)
    have "nSize - nMid = (nMid' - nMid) + (nSize - nMid')" using le by simp
    then have "Unserialize_elems unser (nSize - nMid) s =
        bindO (Unserialize_elems unser (nMid' - nMid) s) (\<lambda>(xs, s).
        bindO (Unserialize_elems unser (nSize - nMid') s) (\<lambda>(ys, s). Ok (xs @ ys, s)))"
      by (metis elems_append)
    moreover have "Unserialize_vector_loop step unser nSize nMid v s =
        bindO (Unserialize_elems unser (nMid' - nMid) s) (\<lambda>(xs, s).
        bindO (Unserialize_elems unser (nSize - nMid') s) (\<lambda>(ys, s). Ok ((v @ xs) @ ys, s)))"
      using 1 True le by (subst Unserialize_vector_loop.simps)
        (auto simp: nMid'_def [symmetric] Let_def intro!: bindO_cong)
    ultimately show ?thesis by (simp add: bindO_assoc_pair)
  qed
qed

lemma read_bytes_append:
  "read_bytes (m + n) s =
     bindO (read_bytes m s) (\<lambda>(xs, s). bindO (read_bytes n s) (\<lambda>(ys, s). Ok (xs @ ys, s)))"
  by (auto simp: read_bytes_def take_add add.commute)

lemma bytes_loop_read:
  assumes "i \<le> nSize"
  shows "Unserialize_bytes_loop nSize i v s =
     bindO (read_bytes (nSize - i) s) (\<lambda>(xs, s). Ok (v @ xs, s))"
  using assms
proof (induction nSize i v s rule: Unserialize_bytes_loop.induct)
  case (1 nSize i v s)
  show ?case
  proof (cases "i < nSize")
    case False
    then show ?thesis using 1 by (subst Unserialize_bytes_loop.simps) (simp add: read_bytes_def)
  next
    case True
    define blk where "blk = min (nSize - i) 5000000"
    have "nSize - i = blk + (nSize - (i + blk))" "i + blk \<le> nSize" using True by (auto simp: blk_def)
    then have "read_bytes (nSize - i) s =
        bindO (read_bytes blk s) (\<lambda>(xs, s).
        bindO (read_bytes (nSize - (i + blk)) s) (\<lambda>(ys, s). Ok (xs @ ys, s)))"
      by (metis read_bytes_append)
    moreover have "Unserialize_bytes_loop nSize i v s =
        bindO (read_bytes blk s) (\<lambda>(xs, s).
        bindO (read_bytes (nSize - (i + blk)) s) (\<lambda>(ys, s). Ok ((v @ xs) @ ys, s)))"
      using 1 True \<open>i + blk \<le> nSize\<close> by (subst Unserialize_bytes_loop.simps)
        (auto simp: blk_def [symmetric] Let_def intro!: bindO_cong)
    ultimately show ?thesis by (simp add: bindO_assoc_pair)
  qed
qed

subsection \<open>The contract of a serialisable type\<close>

text \<open>
  What an unserialiser accepts is exactly what the serialiser writes for the valid values, and
  on anything else it throws: no input makes it abort.
\<close>

locale codec =
  fixes ser :: "'a \<Rightarrow> byte list"
    and unser :: "'a unserializer"
    and valid :: "'a \<Rightarrow> bool"
  assumes unser_iff: "unser s = Ok (x, rest) \<longleftrightarrow> valid x \<and> s = ser x @ rest"
    and unser_total: "unser s \<noteq> Abort \<and> unser s \<noteq> Fail ()"
begin

lemma roundtrip: "valid x \<Longrightarrow> unser (ser x @ rest) = Ok (x, rest)"
  by (simp add: unser_iff)

lemma elems_iff:
  "Unserialize_elems unser n s = Ok (xs, rest) \<longleftrightarrow>
     length xs = n \<and> list_all valid xs \<and> s = concat (map ser xs) @ rest"
proof (induction n arbitrary: s xs)
  case 0
  then show ?case by auto
next
  case (Suc n)
  then show ?case by (cases xs) (auto simp: outcome_simps unser_iff split: prod.splits)
qed

lemma elems_total: "Unserialize_elems unser n s \<noteq> Abort \<and> Unserialize_elems unser n s \<noteq> Fail ()"
  by (induction n arbitrary: s) (auto simp: outcome_simps unser_total split: prod.splits)

lemma vector_loop_iff:
  assumes "step \<noteq> 0"
  shows "Unserialize_vector_loop step unser nSize 0 [] s = Ok (xs, rest) \<longleftrightarrow>
     length xs = nSize \<and> list_all valid xs \<and> s = concat (map ser xs) @ rest"
  using assms by (auto simp: vector_loop_elems outcome_simps elems_iff split: prod.splits)

lemma vector_loop_total:
  assumes "step \<noteq> 0"
  shows "Unserialize_vector_loop step unser nSize 0 [] s \<noteq> Abort \<and>
     Unserialize_vector_loop step unser nSize 0 [] s \<noteq> Fail ()"
  using assms elems_total by (auto simp: vector_loop_elems outcome_simps split: prod.splits)

end

subsubsection \<open>Integers\<close>

lemma read_bytes_Ok [codec_simps]: "read_bytes n s = Ok (x, rest) \<longleftrightarrow> length x = n \<and> s = x @ rest"
  by (auto simp: read_bytes_def not_less min_def dest: arg_cong [where f = length])

lemma read_bytes_total: "read_bytes n s \<noteq> Abort \<and> read_bytes n s \<noteq> Fail ()"
  by (simp add: read_bytes_def)

lemma WriteLE_ReadLE:
  "length bs = 2 \<Longrightarrow> WriteLE16 (ReadLE16 bs) = bs"
  "length bs = 4 \<Longrightarrow> WriteLE32 (ReadLE32 bs) = bs"
  "length bs = 8 \<Longrightarrow> WriteLE64 (ReadLE64 bs) = bs"
  using le_bytes_le_val [of bs] le_val_bound [of bs] by (simp_all add: common_defs unat_of_nat)

lemma ReadLE_WriteLE:
  "ReadLE16 (WriteLE16 a) = a" "ReadLE32 (WriteLE32 b) = b" "ReadLE64 (WriteLE64 c) = c"
  using ReadLE16_WriteLE16 [of a "[]"] ReadLE32_WriteLE32 [of b "[]"] ReadLE64_WriteLE64 [of c "[]"]
  by simp_all

lemmas ser_write_defs =
  ser_writedata8_def ser_writedata16_def ser_writedata32_def ser_writedata64_def

lemmas ser_defs = ser_write_defs ser_readdata8_def ser_readdata16_def ser_readdata32_def ser_readdata64_def

interpretation ser8: codec ser_writedata8 ser_readdata8 "\<lambda>_. True"
  by unfold_locales
    (auto simp: ser_defs outcome_simps read_bytes_total codec_simps length_Suc_conv split: prod.splits)

interpretation ser16: codec ser_writedata16 ser_readdata16 "\<lambda>_. True"
  by unfold_locales
    (auto simp: ser_defs outcome_simps read_bytes_total codec_simps WriteLE_ReadLE ReadLE_WriteLE
      split: prod.splits)

interpretation ser32: codec ser_writedata32 ser_readdata32 "\<lambda>_. True"
  by unfold_locales
    (auto simp: ser_defs outcome_simps read_bytes_total codec_simps WriteLE_ReadLE ReadLE_WriteLE
      split: prod.splits)

interpretation ser64: codec ser_writedata64 ser_readdata64 "\<lambda>_. True"
  by unfold_locales
    (auto simp: ser_defs outcome_simps read_bytes_total codec_simps WriteLE_ReadLE ReadLE_WriteLE
      split: prod.splits)

subsubsection \<open>Compact sizes\<close>

lemma compact_cases:
  obtains "(ch :: byte) < 253" | "ch = 253" | "ch = 254" | "ch = 255"
proof -
  have "ch = 255" if "\<not> ch < 253" "ch \<noteq> 253" "ch \<noteq> 254"
    using that by (auto simp: word_less_nat_alt word_unat_eq_iff intro: antisym)
  then show thesis using that by blast
qed

lemma ReadCompactSize_cases:
  "ReadCompactSize s = Ok (n, rest) \<longleftrightarrow>
     (\<exists>ch s'. s = ch # s' \<and>
       (ch < 253 \<and> n = ucast ch \<and> s' = rest \<or>
        ch = 253 \<and> (\<exists>m :: u16. s' = WriteLE16 m @ rest \<and> n = ucast m \<and> \<not> n < 253) \<or>
        ch = 254 \<and> (\<exists>m :: u32. s' = WriteLE32 m @ rest \<and> n = ucast m \<and> \<not> n < 0x10000) \<or>
        ch = 255 \<and> s' = WriteLE64 n @ rest \<and> \<not> n < 0x100000000)) \<and>
     unat n \<le> MAX_SIZE"
proof -
  have max: "unat n \<le> MAX_SIZE \<longleftrightarrow> \<not> n > of_nat MAX_SIZE" for n :: u64
    by (simp add: word_less_nat_alt not_less unat_of_nat MAX_SIZE_def)
  have read8: "ser_readdata8 (ch # s') = Ok (ch, s')" for ch s'
    by (simp add: ser8.unser_iff ser_writedata8_def)
  show ?thesis
  proof (cases s)
    case Nil
    then show ?thesis by (simp add: ReadCompactSize_def ser_readdata8_def read_bytes_def)
  next
    case (Cons ch s')
    show ?thesis
      by (cases rule: compact_cases [of ch])
        (auto simp: ReadCompactSize_def Cons read8 max outcome_simps ser16.unser_iff ser32.unser_iff
          ser64.unser_iff ser_write_defs split: if_splits)
  qed
qed

lemma ucast_u64: "unat (ucast (m :: u16) :: u64) = unat m" "unat (ucast (k :: u32) :: u64) = unat k"
  "unat (ucast (b :: byte) :: u64) = unat b"
  using unat_bound [of m] unat_bound [of k]
  by (simp_all add: unsigned_ucast_eq take_bit_nat_eq_self less_trans [OF unat_byte_less])

lemma u64_ucast:
  "unat (ucast (n :: u64) :: u16) = unat n mod 2 ^ 16" "unat (ucast n :: u32) = unat n mod 2 ^ 32"
  "unat (ucast n :: byte) = unat n mod 2 ^ 8"
  by (simp_all add: unsigned_ucast_eq take_bit_eq_mod)

lemmas compact_nat = word_unat_eq_iff word_less_nat_alt word_le_nat_alt ucast_u64 u64_ucast

lemma WriteCompactSize_cases:
  "bs = WriteCompactSize n \<longleftrightarrow>
     (\<exists>ch s'. bs = ch # s' \<and>
       (ch < 253 \<and> n = ucast ch \<and> s' = [] \<or>
        ch = 253 \<and> (\<exists>m :: u16. s' = WriteLE16 m \<and> n = ucast m \<and> \<not> n < 253) \<or>
        ch = 254 \<and> (\<exists>m :: u32. s' = WriteLE32 m \<and> n = ucast m \<and> \<not> n < 0x10000) \<or>
        ch = 255 \<and> s' = WriteLE64 n \<and> \<not> n < 0x100000000))" (is "_ \<longleftrightarrow> ?R")
proof
  assume bs: "bs = WriteCompactSize n"
  consider "n < 253" | "\<not> n < 253" "n \<le> 0xffff" | "\<not> n \<le> 0xffff" "n \<le> 0xffffffff" | "\<not> n \<le> 0xffffffff"
    by blast
  then show ?R
  proof cases
    case 1
    then have "(ucast n :: byte) < 253 \<and> n = ucast (ucast n :: byte)" by (simp add: compact_nat)
    then show ?thesis using 1 by (simp add: bs WriteCompactSize_def ser_write_defs)
  next
    case 2
    then have "n = ucast (ucast n :: u16)" by (simp add: compact_nat)
    then show ?thesis using 2 by (simp add: bs WriteCompactSize_def ser_write_defs) blast
  next
    case 3
    then have "n = ucast (ucast n :: u32)" "\<not> n < 0x10000" "\<not> n < 253" by (simp_all add: compact_nat)
    then show ?thesis using 3 by (simp add: bs WriteCompactSize_def ser_write_defs) blast
  next
    case 4
    then have "\<not> n < 0x100000000" "\<not> n < 253" "\<not> n \<le> 0xffff" by (simp_all add: compact_nat)
    then show ?thesis using 4 by (simp add: bs WriteCompactSize_def ser_write_defs)
  qed
next
  have back16: "ucast (ucast m :: u64) = m" "\<not> 0xffff < unat m" "\<not> 0xffffffff < unat m" for m :: u16
    using unat_bound [of m] by (simp_all add: compact_nat)
  have back32: "ucast (ucast m :: u64) = m" "\<not> 0xffffffff < unat m" for m :: u32
    using unat_bound [of m] by (simp_all add: compact_nat)
  have back8: "ucast (ucast b :: u64) = b" for b :: byte
    using unat_bound [of b] by (simp add: compact_nat)
  assume ?R
  then show "bs = WriteCompactSize n"
    by (auto simp: WriteCompactSize_def ser_write_defs back16 back32 back8 word_less_nat_alt
        word_le_nat_alt ucast_u64 not_less not_le)
qed

lemma WriteCompactSize_Nil: "WriteCompactSize n \<noteq> []"
  using WriteCompactSize_cases [of "[]" n] by auto

lemma ReadCompactSize_iff [codec_simps]:
  "ReadCompactSize s = Ok (n, rest) \<longleftrightarrow> unat n \<le> MAX_SIZE \<and> s = WriteCompactSize n @ rest"
proof -
  have "s = WriteCompactSize n @ rest \<longleftrightarrow> (\<exists>bs. bs = WriteCompactSize n \<and> s = bs @ rest)" by simp
  then show ?thesis
    unfolding ReadCompactSize_cases WriteCompactSize_cases by fastforce
qed

lemma ReadCompactSize_total: "ReadCompactSize s \<noteq> Abort \<and> ReadCompactSize s \<noteq> Fail ()"
  by (auto simp: ReadCompactSize_def outcome_simps ser8.unser_total ser16.unser_total ser32.unser_total
      ser64.unser_total split: if_splits)

interpretation compactsize: codec WriteCompactSize ReadCompactSize "\<lambda>n. unat n \<le> MAX_SIZE"
  by unfold_locales (simp_all add: ReadCompactSize_iff ReadCompactSize_total)

lemma length_WriteCompactSize: "length (WriteCompactSize n) = GetSizeOfCompactSize n"
  by (simp add: WriteCompactSize_def GetSizeOfCompactSize_def ser_write_defs)

subsubsection \<open>Variable-length integers\<close>

lemma digit_mask: "(0x7F :: 'a::len word) = mask 7"
  by (simp add: mask_eq_exp_minus_1)

lemma bit_128: "bit (0x80 :: int) k \<longleftrightarrow> k = 7"
  using bit_exp_iff [of 7 k, where 'a = int] by auto

lemma digit_flag:
  "(ucast (n AND 0x7F :: 'a::len word) OR (0 :: byte)) AND 0x80 = 0"
  "(ucast (n AND 0x7F :: 'a::len word) OR (0x80 :: byte)) AND 0x80 = 0x80"
  unfolding digit_mask by (auto intro!: bit_word_eqI simp: bit_simps bit_128)

lemma digit_value:
  assumes "c = 0 \<or> c = 0x80"
  shows "push_bit 7 (drop_bit 7 n) OR ucast ((ucast (n AND 0x7F :: 'a::len word) OR (c :: byte)) AND 0x7F) = n"
proof (rule bit_word_eqI)
  fix k assume "k < LENGTH('a)"
  moreover have "bit c k \<Longrightarrow> k = 7" for k using assms by (auto simp: bit_128)
  ultimately show "bit (push_bit 7 (drop_bit 7 n) OR ucast ((ucast (n AND 0x7F) OR c) AND 0x7F)) k = bit n k"
    unfolding digit_mask by (cases "k < 7") (auto simp: bit_simps)
qed

lemma drop_bit_small:
  assumes "unat n \<le> 0x7F"
  shows "drop_bit 7 n = 0"
proof -
  have "unat n div 128 = 0" using assms by simp
  then show ?thesis using unat_drop_bit_7 [of n] by (metis unat_eq_zero)
qed

lemma ReadVarInt_digits:
  "len \<noteq> 0 \<Longrightarrow> ReadVarInt_loop 0 (rev (WriteVarInt_tmp n len) @ s) = ReadVarInt_loop (n + 1) s"
proof (induction n len arbitrary: s rule: WriteVarInt_tmp.induct)
  case (1 n len)
  show ?case
  proof (cases "unat n \<le> 0x7F")
    case True
    then show ?thesis using 1(2) digit_value [of "0x80" n] digit_flag(2) [of n]
      by (subst WriteVarInt_tmp.simps) (simp add: drop_bit_small Let_def)
  next
    case False
    then show ?thesis using 1(1) [OF False] 1(2) digit_value [of "0x80" n] digit_flag(2) [of n]
      by (subst WriteVarInt_tmp.simps) (simp add: Let_def)
  qed
qed

lemma WriteVarInt_eq: "WriteVarInt n = rev (WriteVarInt_tmp n 0)"
proof -
  have "concat (map ser_writedata8 xs) = xs" for xs by (induction xs) (auto simp: ser_writedata8_def)
  then show ?thesis by (simp add: WriteVarInt_def)
qed

lemma ReadVarInt_WriteVarInt: "ReadVarInt (WriteVarInt n @ s) = Ok (n, s)"
proof (cases "unat n \<le> 0x7F")
  case True
  then have "drop_bit 7 n = 0" by (rule drop_bit_small)
  then show ?thesis using True digit_value [of 0 n] digit_flag(1) [of n]
    unfolding ReadVarInt_def WriteVarInt_eq by (subst WriteVarInt_tmp.simps) (simp add: Let_def)
next
  case False
  then show ?thesis using digit_value [of 0 n] digit_flag(1) [of n]
    unfolding ReadVarInt_def WriteVarInt_eq
    by (subst WriteVarInt_tmp.simps) (simp add: Let_def ReadVarInt_digits)
qed

lemma length_WriteVarInt_tmp: "length (WriteVarInt_tmp n len) = GetSizeOfVarInt n"
proof (induction n len rule: WriteVarInt_tmp.induct)
  case (1 n len)
  then show ?case
    by (subst WriteVarInt_tmp.simps, subst GetSizeOfVarInt.simps) simp
qed

lemma GetSizeOfVarInt_bound: "unat n < 128 ^ k \<Longrightarrow> 0 < k \<Longrightarrow> GetSizeOfVarInt n \<le> k"
proof (induction k arbitrary: n)
  case (Suc k)
  show ?case
  proof (cases "unat n \<le> 0x7F")
    case True
    then show ?thesis by (subst GetSizeOfVarInt.simps) simp
  next
    case False
    then have d: "unat (drop_bit 7 n - 1) + 1 = unat n div 128" by (intro varint_decreases) simp
    have "unat n div 128 < 128 ^ k" using Suc.prems by (simp add: div_less_iff_less_mult mult.commute)
    moreover have "k \<noteq> 0" using calculation d by (intro notI) simp
    ultimately have "GetSizeOfVarInt (drop_bit 7 n - 1) \<le> k" using d Suc.IH by simp
    then show ?thesis using False by (subst GetSizeOfVarInt.simps) simp
  qed
qed simp

lemma varint_size_bound: "GetSizeOfVarInt (n :: 'a::len word) \<le> (LENGTH('a) + 6) div 7"
proof (rule GetSizeOfVarInt_bound)
  have "LENGTH('a) \<le> 7 * ((LENGTH('a) + 6) div 7)" by linarith
  then have "(2 :: nat) ^ LENGTH('a) \<le> 2 ^ (7 * ((LENGTH('a) + 6) div 7))" by (rule power_increasing) simp
  then show "unat n < 128 ^ ((LENGTH('a) + 6) div 7)"
    by (intro less_le_trans [OF unat_bound [of n]]) (simp add: power_mult)
  have "0 < LENGTH('a)" by simp
  then show "0 < (LENGTH('a) + 6) div 7" by linarith
qed

subsubsection \<open>Vectors\<close>

lemma bytes_iff [codec_simps]:
  "Unserialize_bytes s = Ok (v, rest) \<longleftrightarrow> length v \<le> MAX_SIZE \<and> s = Serialize_bytes v @ rest"
proof -
  have "unat (of_nat (length v) :: u64) = length v" if "length v \<le> MAX_SIZE"
    using that by (simp add: unat_of_nat MAX_SIZE_def)
  then show ?thesis
    by (auto simp: Unserialize_bytes_def Serialize_bytes_def outcome_simps codec_simps bytes_loop_read
      split: prod.splits intro!: exI [of _ "of_nat (length v)"])
qed

lemma bytes_total: "Unserialize_bytes s \<noteq> Abort \<and> Unserialize_bytes s \<noteq> Fail ()"
  by (auto simp: Unserialize_bytes_def outcome_simps ReadCompactSize_total bytes_loop_read read_bytes_total
      split: prod.splits)

interpretation bytes: codec Serialize_bytes Unserialize_bytes "\<lambda>v. length v \<le> MAX_SIZE"
  by unfold_locales (simp_all add: bytes_iff bytes_total)

context codec
begin

lemma vector_iff:
  assumes "0 < sizeofT" "sizeofT \<le> 5000000"
  shows "Unserialize_vector sizeofT unser s = Ok (v, rest) \<longleftrightarrow>
     (length v \<le> MAX_SIZE \<and> list_all valid v) \<and> s = Serialize_vector ser v @ rest"
proof -
  have "unat (of_nat (length v) :: u64) = length v" if "length v \<le> MAX_SIZE"
    using that by (simp add: unat_of_nat MAX_SIZE_def)
  moreover have "5000000 div sizeofT \<noteq> 0" using assms by (simp add: div_eq_0_iff)
  ultimately show ?thesis
    by (auto simp: Unserialize_vector_def Serialize_vector_def outcome_simps codec_simps vector_loop_iff
      split: prod.splits intro!: exI [of _ "of_nat (length v)"])
qed

lemma vector_codec:
  assumes "0 < sizeofT" "sizeofT \<le> 5000000"
  shows "codec (Serialize_vector ser) (Unserialize_vector sizeofT unser)
     (\<lambda>v. length v \<le> MAX_SIZE \<and> list_all valid v)"
proof
  have "5000000 div sizeofT \<noteq> 0" using assms by (simp add: div_eq_0_iff)
  then show "Unserialize_vector sizeofT unser s \<noteq> Abort \<and> Unserialize_vector sizeofT unser s \<noteq> Fail ()" for s
    using vector_loop_total
    by (auto simp: Unserialize_vector_def outcome_simps ReadCompactSize_total split: prod.splits)
qed (simp add: vector_iff assms)

end

subsection \<open>Properties\<close>

text \<open>
  C8: the compact size has one encoding. \<open>ReadCompactSize\<close> accepts exactly the bytes that
  \<open>WriteCompactSize\<close> writes for a size of at most \<open>MAX_SIZE\<close>, throws on every other input
  (longer forms of a small size, sizes too large, short input), and the size that
  \<open>GetSizeOfCompactSize\<close> announces is the number of bytes written.
\<close>

theorem compact_size_canonical:
  "(ReadCompactSize s = Ok (n, rest) \<longleftrightarrow> unat n \<le> MAX_SIZE \<and> s = WriteCompactSize n @ rest) \<and>
   ReadCompactSize s \<noteq> Abort \<and>
   length (WriteCompactSize n) = GetSizeOfCompactSize n"
  by (simp add: ReadCompactSize_iff ReadCompactSize_total length_WriteCompactSize)

text \<open>
  Variable-length integers of every width round-trip, the announced size is the written
  size, and the digits fit the buffer \<open>tmp[(sizeof(n)*8+6)/7]\<close>.
\<close>

theorem varint_roundtrip:
  fixes n :: "'a::len word"
  shows "ReadVarInt (WriteVarInt n @ s) = Ok (n, s) \<and>
     length (WriteVarInt n) = GetSizeOfVarInt n \<and>
     length (WriteVarInt_tmp n 0) \<le> (LENGTH('a) + 6) div 7"
  using varint_size_bound [of n] ReadVarInt_WriteVarInt [of n s]
  by (simp add: length_WriteVarInt_tmp WriteVarInt_eq)



end
