(* ===== verification/Transaction.thy ===== *)
theory Transaction
  imports Serialize Script Hash "HOL-Library.Signed_Division"
begin

text \<open>
  Transactions, \<^verbatim>\<open>src/src/primitives/transaction.h\<close> and \<^verbatim>\<open>src/src/primitives/transaction.cpp\<close>, and
  amounts, \<^verbatim>\<open>src/src/amount.h\<close>. A \<open>CTransaction\<close> is a \<open>CMutableTransaction\<close> with its hash cached;
  here the hash is recomputed. Fields that the sources name \<open>hash\<close>, \<open>n\<close>, \<open>scriptSig\<close> carry a
  prefix, since record selectors are constants.
\<close>

subsection \<open>Amounts\<close>

type_synonym CAmount = int

definition COIN :: CAmount where "COIN = 100000000"
definition MAX_MONEY :: CAmount where "MAX_MONEY = 21000000 * COIN"

definition MoneyRange :: "CAmount \<Rightarrow> bool" where
  "MoneyRange nValue \<longleftrightarrow> nValue \<ge> 0 \<and> nValue \<le> MAX_MONEY"

text \<open>A fee rate is its \<open>nSatoshisPerK\<close>. Products are computed in \<open>int64_t\<close> and must not overflow.\<close>

type_synonym CFeeRate = CAmount

definition CFeeRate_of :: "CAmount \<Rightarrow> nat \<Rightarrow> ('e, 'x, CFeeRate) outcome" where
  "CFeeRate_of nFeePaid nBytes =
     bindO (assertO (int nBytes \<le> int64_max)) (\<lambda>_.
     let nSize = int nBytes in
     if nSize > 0 then bindO (int64 (nFeePaid * 1000)) (\<lambda>p. Ok (p sdiv nSize))
     else Ok 0)"

definition GetFee :: "CFeeRate \<Rightarrow> nat \<Rightarrow> ('e, 'x, CAmount) outcome" where
  "GetFee nSatoshisPerK nBytes =
     bindO (assertO (int nBytes \<le> int64_max)) (\<lambda>_.
     let nSize = int nBytes in
     bindO (int64 (nSatoshisPerK * nSize)) (\<lambda>p.
     let nFee = p sdiv 1000 in
     Ok (if nFee = 0 \<and> nSize \<noteq> 0
         then if nSatoshisPerK > 0 then 1 else if nSatoshisPerK < 0 then -1 else nFee
         else nFee)))"

definition GetFeePerK :: "CFeeRate \<Rightarrow> ('e, 'x, CAmount) outcome" where
  "GetFeePerK r = GetFee r 1000"

subsection \<open>Outpoints, inputs and outputs\<close>

record COutPoint =
  op_hash :: uint256
  op_n :: u32

definition COutPoint_null :: COutPoint where
  "COutPoint_null = \<lparr>op_hash = replicate 32 0, op_n = -1\<rparr>"

definition uint256_IsNull :: "uint256 \<Rightarrow> bool" where
  "uint256_IsNull h \<longleftrightarrow> list_all (\<lambda>b. b = 0) h"

definition COutPoint_IsNull :: "COutPoint \<Rightarrow> bool" where
  "COutPoint_IsNull p \<longleftrightarrow> uint256_IsNull (op_hash p) \<and> op_n p = -1"

definition uint256_Serialize :: "uint256 \<Rightarrow> byte list" where
  "uint256_Serialize h = h"

definition uint256_Unserialize :: "uint256 unserializer" where
  "uint256_Unserialize s = read_bytes 32 s"

definition COutPoint_Serialize :: "COutPoint \<Rightarrow> byte list" where
  "COutPoint_Serialize p = uint256_Serialize (op_hash p) @ ser_writedata32 (op_n p)"

definition COutPoint_Unserialize :: "COutPoint unserializer" where
  "COutPoint_Unserialize s =
     bindO (uint256_Unserialize s) (\<lambda>(h, s).
     bindO (ser_readdata32 s) (\<lambda>(i, s).
     Ok (\<lparr>op_hash = h, op_n = i\<rparr>, s)))"

text \<open>\<open>scriptWitness\<close> is the \<open>stack\<close> of the \<open>CScriptWitness\<close>, first element first.\<close>

type_synonym CScriptWitness = "valtype list"

record CTxIn =
  prevout :: COutPoint
  in_scriptSig :: CScript
  nSequence :: u32
  scriptWitness :: CScriptWitness

definition SEQUENCE_FINAL :: u32 where "SEQUENCE_FINAL = 0xffffffff"

definition CTxIn_Serialize :: "CTxIn \<Rightarrow> byte list" where
  "CTxIn_Serialize txin =
     COutPoint_Serialize (prevout txin) @ Serialize_bytes (in_scriptSig txin) @
     ser_writedata32 (nSequence txin)"

definition CTxIn_Unserialize :: "CTxIn unserializer" where
  "CTxIn_Unserialize s =
     bindO (COutPoint_Unserialize s) (\<lambda>(p, s).
     bindO (Unserialize_bytes s) (\<lambda>(script, s).
     bindO (ser_readdata32 s) (\<lambda>(nSeq, s).
     Ok (\<lparr>prevout = p, in_scriptSig = script, nSequence = nSeq, scriptWitness = []\<rparr>, s))))"

record CTxOut =
  nValue :: CAmount
  out_scriptPubKey :: CScript

definition CTxOut_null :: CTxOut where
  "CTxOut_null = \<lparr>nValue = -1, out_scriptPubKey = []\<rparr>"

definition CTxOut_IsNull :: "CTxOut \<Rightarrow> bool" where
  "CTxOut_IsNull txout \<longleftrightarrow> nValue txout = -1"

definition CTxOut_Serialize :: "CTxOut \<Rightarrow> byte list" where
  "CTxOut_Serialize txout =
     ser_writedata64 (of_int (nValue txout)) @ Serialize_bytes (out_scriptPubKey txout)"

definition CTxOut_Unserialize :: "CTxOut unserializer" where
  "CTxOut_Unserialize s =
     bindO (ser_readdata64 s) (\<lambda>(v, s).
     bindO (Unserialize_bytes s) (\<lambda>(script, s).
     Ok (\<lparr>nValue = sint v, out_scriptPubKey = script\<rparr>, s)))"

text \<open>The dust threshold: three times the fee of creating and spending the output.\<close>

definition WITNESS_SCALE_FACTOR :: nat where "WITNESS_SCALE_FACTOR = 4"

definition GetDustThreshold :: "CTxOut \<Rightarrow> CFeeRate \<Rightarrow> ('e, 'x, CAmount) outcome" where
  "GetDustThreshold txout minRelayTxFee =
     (if IsUnspendable (out_scriptPubKey txout) then Ok 0
      else
        let nSize = length (CTxOut_Serialize txout);
            nSize = (if IsWitnessProgram (out_scriptPubKey txout) \<noteq> None
                     then nSize + (32 + 4 + 1 + (107 div WITNESS_SCALE_FACTOR) + 4)
                     else nSize + (32 + 4 + 1 + 107 + 4))
        in bindO (GetFee minRelayTxFee nSize) (\<lambda>fee. int64 (3 * fee)))"

definition IsDust :: "CTxOut \<Rightarrow> CFeeRate \<Rightarrow> ('e, 'x, bool) outcome" where
  "IsDust txout minRelayTxFee =
     bindO (GetDustThreshold txout minRelayTxFee) (\<lambda>d. Ok (nValue txout < d))"

subsection \<open>Transactions\<close>

record CMutableTransaction =
  nVersion :: u32
  vin :: "CTxIn list"
  vout :: "CTxOut list"
  nLockTime :: u32

type_synonym CTransaction = CMutableTransaction

definition HasWitness :: "CMutableTransaction \<Rightarrow> bool" where
  "HasWitness tx \<longleftrightarrow> list_ex (\<lambda>txin. scriptWitness txin \<noteq> []) (vin tx)"

definition CTransaction_IsNull :: "CTransaction \<Rightarrow> bool" where
  "CTransaction_IsNull tx \<longleftrightarrow> vin tx = [] \<and> vout tx = []"

definition IsCoinBase :: "CTransaction \<Rightarrow> bool" where
  "IsCoinBase tx \<longleftrightarrow> length (vin tx) = 1 \<and> COutPoint_IsNull (prevout (vin tx ! 0))"

text \<open>
  The sizes of the element types, which only bound how much memory a vector takes before its
  elements have been read.
\<close>

definition sizeof_CTxIn :: nat where "sizeof_CTxIn = 96"
definition sizeof_CTxOut :: nat where "sizeof_CTxOut = 40"
definition sizeof_valtype :: nat where "sizeof_valtype = 24"

fun Unserialize_witnesses :: "CTxIn list \<Rightarrow> CTxIn list unserializer" where
  "Unserialize_witnesses [] s = Ok ([], s)"
| "Unserialize_witnesses (txin # txins) s =
     bindO (Unserialize_vector sizeof_valtype Unserialize_bytes s) (\<lambda>(w, s).
     bindO (Unserialize_witnesses txins s) (\<lambda>(txins, s).
     Ok (txin\<lparr>scriptWitness := w\<rparr> # txins, s)))"

definition UnserializeTransaction :: "bool \<Rightarrow> CMutableTransaction unserializer" where
  "UnserializeTransaction fAllowWitness s =
     bindO (ser_readdata32 s) (\<lambda>(ver, s).
     bindO (Unserialize_vector sizeof_CTxIn CTxIn_Unserialize s) (\<lambda>(ins, s).
     bindO
       (if length ins = 0 \<and> fAllowWitness then
          bindO (ser_readdata8 s) (\<lambda>(flags, s).
          if flags \<noteq> 0 then
            bindO (Unserialize_vector sizeof_CTxIn CTxIn_Unserialize s) (\<lambda>(ins, s).
            bindO (Unserialize_vector sizeof_CTxOut CTxOut_Unserialize s) (\<lambda>(outs, s).
            Ok (flags, ins, outs, s)))
          else Ok (flags, ins, [], s))
        else
          bindO (Unserialize_vector sizeof_CTxOut CTxOut_Unserialize s) (\<lambda>(outs, s).
          Ok (0, ins, outs, s))) (\<lambda>(flags, ins, outs, s).
     bindO
       (if flags AND 1 \<noteq> 0 \<and> fAllowWitness then
          bindO (Unserialize_witnesses ins s) (\<lambda>(ins, s). Ok (flags XOR 1, ins, s))
        else Ok (flags, ins, s)) (\<lambda>(flags, ins, s).
     if flags \<noteq> 0 then Throw (Ios_failure ''Unknown transaction optional data'')
     else
       bindO (ser_readdata32 s) (\<lambda>(lock, s).
       Ok (\<lparr>nVersion = ver, vin = ins, vout = outs, nLockTime = lock\<rparr>, s))))))"

definition SerializeTransaction :: "bool \<Rightarrow> CMutableTransaction \<Rightarrow> byte list" where
  "SerializeTransaction fAllowWitness tx =
     (let flags = (if fAllowWitness \<and> HasWitness tx then 1 else 0 :: byte) in
      ser_writedata32 (nVersion tx) @
      (if flags \<noteq> 0 then Serialize_vector CTxIn_Serialize [] @ ser_writedata8 flags else []) @
      Serialize_vector CTxIn_Serialize (vin tx) @
      Serialize_vector CTxOut_Serialize (vout tx) @
      (if flags AND 1 \<noteq> 0
       then concat (map (\<lambda>txin. Serialize_vector Serialize_bytes (scriptWitness txin)) (vin tx))
       else []) @
      ser_writedata32 (nLockTime tx))"

definition CTransaction_GetHash :: "CTransaction \<Rightarrow> uint256" where
  "CTransaction_GetHash tx = SerializeHash [SerializeTransaction False tx]"

definition GetWitnessHash :: "CTransaction \<Rightarrow> uint256" where
  "GetWitnessHash tx =
     (if \<not> HasWitness tx then CTransaction_GetHash tx
      else SerializeHash [SerializeTransaction True tx])"

text \<open>\<open>GetValueOut\<close> adds each output's value before it checks the range.\<close>

datatype tx_exn = Value_out_of_range

fun GetValueOut_loop :: "CAmount \<Rightarrow> CTxOut list \<Rightarrow> (unit, tx_exn, CAmount) outcome" where
  "GetValueOut_loop nValueOut [] = Ok nValueOut"
| "GetValueOut_loop nValueOut (it # outs) =
     bindO (int64 (nValueOut + nValue it)) (\<lambda>nValueOut.
     if \<not> MoneyRange (nValue it) \<or> \<not> MoneyRange nValueOut then Throw Value_out_of_range
     else GetValueOut_loop nValueOut outs)"

definition GetValueOut :: "CTransaction \<Rightarrow> (unit, tx_exn, CAmount) outcome" where
  "GetValueOut tx = GetValueOut_loop 0 (vout tx)"

definition GetTotalSize :: "CTransaction \<Rightarrow> nat" where
  "GetTotalSize tx = length (SerializeTransaction True tx)"

definition GetTransactionWeight :: "CTransaction \<Rightarrow> nat" where
  "GetTransactionWeight tx =
     length (SerializeTransaction False tx) * (WITNESS_SCALE_FACTOR - 1) +
     length (SerializeTransaction True tx)"

fun CalculateModifiedSize_loop :: "nat \<Rightarrow> CTxIn list \<Rightarrow> nat" where
  "CalculateModifiedSize_loop nTxSize [] = nTxSize"
| "CalculateModifiedSize_loop nTxSize (it # ins) =
     (let offset = 41 + min 110 (length (in_scriptSig it)) in
      CalculateModifiedSize_loop (if nTxSize > offset then nTxSize - offset else nTxSize) ins)"

definition CalculateModifiedSize :: "CTransaction \<Rightarrow> nat \<Rightarrow> nat" where
  "CalculateModifiedSize tx nTxSize =
     CalculateModifiedSize_loop
       (if nTxSize = 0
        then (GetTransactionWeight tx + WITNESS_SCALE_FACTOR - 1) div WITNESS_SCALE_FACTOR
        else nTxSize)
       (vin tx)"

subsection \<open>The codecs of transactions\<close>

definition outpoint_ok :: "COutPoint \<Rightarrow> bool" where
  "outpoint_ok p \<longleftrightarrow> length (op_hash p) = 32"

definition txin_ok :: "CTxIn \<Rightarrow> bool" where
  "txin_ok txin \<longleftrightarrow> outpoint_ok (prevout txin) \<and> length (in_scriptSig txin) \<le> MAX_SIZE"

definition txin_bare :: "CTxIn \<Rightarrow> bool" where
  "txin_bare txin \<longleftrightarrow> txin_ok txin \<and> scriptWitness txin = []"

definition txout_ok :: "CTxOut \<Rightarrow> bool" where
  "txout_ok txout \<longleftrightarrow> int64_min \<le> nValue txout \<and> nValue txout \<le> int64_max \<and>
     length (out_scriptPubKey txout) \<le> MAX_SIZE"

definition witness_ok :: "CScriptWitness \<Rightarrow> bool" where
  "witness_ok w \<longleftrightarrow> length w \<le> MAX_SIZE \<and> list_all (\<lambda>v. length v \<le> MAX_SIZE) w"

definition tx_ok :: "CMutableTransaction \<Rightarrow> bool" where
  "tx_ok tx \<longleftrightarrow>
     length (vin tx) \<le> MAX_SIZE \<and> list_all txin_ok (vin tx) \<and>
     list_all (witness_ok \<circ> scriptWitness) (vin tx) \<and>
     length (vout tx) \<le> MAX_SIZE \<and> list_all txout_ok (vout tx)"

definition strip_witness :: "CMutableTransaction \<Rightarrow> CMutableTransaction" where
  "strip_witness tx = tx\<lparr>vin := map (\<lambda>txin. txin\<lparr>scriptWitness := []\<rparr>) (vin tx)\<rparr>"

lemmas codec_total = read_bytes_total ser8.unser_total ser32.unser_total ser64.unser_total bytes_total

lemma sint_of_int64: "int64_min \<le> v \<Longrightarrow> v \<le> int64_max \<Longrightarrow> sint (of_int v :: u64) = v"
  by (simp add: int_limits sint_sbintrunc' signed_take_bit_int_eq_self_iff)

lemma int64_sint: "int64_min \<le> sint (w :: u64)" "sint w \<le> int64_max"
  using sint_ge [of w] sint_lt [of w] by (simp_all add: int_limits)

interpretation outpoint: codec COutPoint_Serialize COutPoint_Unserialize outpoint_ok
proof
  show "COutPoint_Unserialize s = Ok (x, rest) \<longleftrightarrow> outpoint_ok x \<and> s = COutPoint_Serialize x @ rest" for s x rest
    by (cases x) (auto simp: COutPoint_Unserialize_def COutPoint_Serialize_def uint256_Serialize_def
      uint256_Unserialize_def outpoint_ok_def outcome_simps codec_simps ser32.unser_iff split: prod.splits)
  show "COutPoint_Unserialize s \<noteq> Abort \<and> COutPoint_Unserialize s \<noteq> Fail ()" for s
    by (auto simp: COutPoint_Unserialize_def uint256_Unserialize_def outcome_simps codec_total
      split: prod.splits)
qed

interpretation txin: codec CTxIn_Serialize CTxIn_Unserialize txin_bare
proof
  show "CTxIn_Unserialize s = Ok (x, rest) \<longleftrightarrow> txin_bare x \<and> s = CTxIn_Serialize x @ rest" for s x rest
    by (cases x) (auto simp: CTxIn_Unserialize_def CTxIn_Serialize_def txin_bare_def txin_ok_def
      outcome_simps codec_simps outpoint.unser_iff ser32.unser_iff split: prod.splits)
  show "CTxIn_Unserialize s \<noteq> Abort \<and> CTxIn_Unserialize s \<noteq> Fail ()" for s
    by (auto simp: CTxIn_Unserialize_def outcome_simps codec_total outpoint.unser_total split: prod.splits)
qed

interpretation txout: codec CTxOut_Serialize CTxOut_Unserialize txout_ok
proof
  show "CTxOut_Unserialize s = Ok (x, rest) \<longleftrightarrow> txout_ok x \<and> s = CTxOut_Serialize x @ rest" for s x rest
    by (cases x) (auto simp: CTxOut_Unserialize_def CTxOut_Serialize_def txout_ok_def outcome_simps
      codec_simps ser64.unser_iff sint_of_int64 int64_sint split: prod.splits
      intro: exI [of _ "of_int (nValue x)"])
  show "CTxOut_Unserialize s \<noteq> Abort \<and> CTxOut_Unserialize s \<noteq> Fail ()" for s
    by (auto simp: CTxOut_Unserialize_def outcome_simps codec_total split: prod.splits)
qed

interpretation vins: codec "Serialize_vector CTxIn_Serialize"
  "Unserialize_vector sizeof_CTxIn CTxIn_Unserialize" "\<lambda>v. length v \<le> MAX_SIZE \<and> list_all txin_bare v"
  by (rule txin.vector_codec) (simp_all add: sizeof_CTxIn_def)

interpretation vouts: codec "Serialize_vector CTxOut_Serialize"
  "Unserialize_vector sizeof_CTxOut CTxOut_Unserialize" "\<lambda>v. length v \<le> MAX_SIZE \<and> list_all txout_ok v"
  by (rule txout.vector_codec) (simp_all add: sizeof_CTxOut_def)

interpretation wits: codec "Serialize_vector Serialize_bytes"
  "Unserialize_vector sizeof_valtype Unserialize_bytes" witness_ok
  unfolding witness_ok_def [abs_def] by (rule bytes.vector_codec) (simp_all add: sizeof_valtype_def)

lemma witnesses_iff:
  "Unserialize_witnesses ins s = Ok (ins', rest) \<longleftrightarrow>
     map (\<lambda>txin. txin\<lparr>scriptWitness := []\<rparr>) ins' = map (\<lambda>txin. txin\<lparr>scriptWitness := []\<rparr>) ins \<and>
     list_all (witness_ok \<circ> scriptWitness) ins' \<and>
     s = concat (map (\<lambda>txin. Serialize_vector Serialize_bytes (scriptWitness txin)) ins') @ rest"
proof (induction ins arbitrary: s ins')
  case Nil
  then show ?case by auto
next
  case (Cons txin ins)
  show ?case
  proof (cases ins')
    case Nil
    then show ?thesis by (auto simp: outcome_simps split: prod.splits)
  next
    case (Cons txin' ins'')
    have "txin\<lparr>scriptWitness := w\<rparr> = txin' \<longleftrightarrow>
        txin'\<lparr>scriptWitness := []\<rparr> = txin\<lparr>scriptWitness := []\<rparr> \<and> scriptWitness txin' = w" for w
      by (cases txin; cases txin') auto
    then show ?thesis using Cons.IH Cons by (auto simp: outcome_simps wits.unser_iff split: prod.splits)
  qed
qed

lemma witnesses_total: "Unserialize_witnesses ins s \<noteq> Abort \<and> Unserialize_witnesses ins s \<noteq> Fail ()"
  by (induction ins arbitrary: s) (auto simp: outcome_simps wits.unser_total split: prod.splits)

lemmas tx_total = codec_total vins.unser_total vouts.unser_total witnesses_total

lemma UnserializeTransaction_total:
  "UnserializeTransaction allow s \<noteq> Abort \<and> UnserializeTransaction allow s \<noteq> Fail ()"
  by (auto simp: UnserializeTransaction_def outcome_simps tx_total split: prod.splits if_splits)

text \<open>Serialising an input does not write its witness.\<close>

lemma CTxIn_Serialize_witness [simp]: "CTxIn_Serialize (txin\<lparr>scriptWitness := w\<rparr>) = CTxIn_Serialize txin"
  by (simp add: CTxIn_Serialize_def)

lemma vins_strip:
  "Serialize_vector CTxIn_Serialize (map (\<lambda>txin. txin\<lparr>scriptWitness := []\<rparr>) ins) =
   Serialize_vector CTxIn_Serialize ins"
  by (simp add: Serialize_vector_def comp_def)

lemma strip_bare: "list_all txin_ok ins \<Longrightarrow> list_all txin_bare (map (\<lambda>txin. txin\<lparr>scriptWitness := []\<rparr>) ins)"
  by (auto simp: list_all_iff txin_bare_def txin_ok_def)

lemma vins_read:
  assumes "length ins \<le> MAX_SIZE" "list_all txin_ok ins"
  shows "Unserialize_vector sizeof_CTxIn CTxIn_Unserialize (Serialize_vector CTxIn_Serialize ins @ s) =
     Ok (map (\<lambda>txin. txin\<lparr>scriptWitness := []\<rparr>) ins, s)"
  using assms vins.roundtrip [of "map (\<lambda>txin. txin\<lparr>scriptWitness := []\<rparr>) ins" s]
  by (simp add: vins_strip strip_bare)

lemma no_witness_map: "\<not> HasWitness tx \<Longrightarrow> map (scriptWitness_update (\<lambda>_. [])) (vin tx) = vin tx"
  by (auto simp: HasWitness_def list_ex_iff intro!: map_idI)

lemma no_witness_strip: "\<not> HasWitness tx \<Longrightarrow> strip_witness tx = tx"
  by (simp add: strip_witness_def no_witness_map)

lemma ser32_read: "ser_readdata32 (ser_writedata32 x @ s) = Ok (x, s)"
  by (rule ser32.roundtrip) simp

lemma roundtrip_base:
  assumes "tx_ok tx"
  shows "UnserializeTransaction False (SerializeTransaction False tx @ rest) = Ok (strip_witness tx, rest)"
  using assms
  by (simp add: tx_ok_def UnserializeTransaction_def SerializeTransaction_def ser32_read vins_read
      vouts.roundtrip strip_witness_def)

lemma roundtrip_plain:
  assumes "tx_ok tx" "\<not> HasWitness tx" "vin tx \<noteq> []"
  shows "UnserializeTransaction True (SerializeTransaction True tx @ rest) = Ok (tx, rest)"
  using assms
  by (simp add: tx_ok_def UnserializeTransaction_def SerializeTransaction_def ser32_read vins_read
      vouts.roundtrip no_witness_map)

lemma roundtrip_empty:
  assumes "vin tx = []" "vout tx = []"
  shows "UnserializeTransaction True (SerializeTransaction True tx @ rest) = Ok (tx, rest)"
proof -
  have zero: "Serialize_vector ser [] @ s = ser_writedata8 0 @ s" for ser :: "'a \<Rightarrow> byte list" and s
    by (simp add: Serialize_vector_def WriteCompactSize_def)
  have "Unserialize_vector sizeof_CTxIn CTxIn_Unserialize (ser_writedata8 0 @ s) = Ok ([], s)" for s
    using vins_read [of "[]" s] by (simp add: zero)
  then show ?thesis using assms
    by (cases tx) (simp add: UnserializeTransaction_def SerializeTransaction_def HasWitness_def zero
      ser32_read ser8.roundtrip)
qed

lemma roundtrip_witness:
  assumes tx: "tx_ok tx" and w: "HasWitness tx"
  shows "UnserializeTransaction True (SerializeTransaction True tx @ rest) = Ok (tx, rest)"
proof -
  have "Unserialize_witnesses (map (\<lambda>txin. txin\<lparr>scriptWitness := []\<rparr>) (vin tx))
      (concat (map (\<lambda>txin. Serialize_vector Serialize_bytes (scriptWitness txin)) (vin tx)) @ s) =
      Ok (vin tx, s)" for s
    using tx by (simp add: witnesses_iff tx_ok_def comp_def)
  then show ?thesis
    using tx w vins_read [of "[]"]
    by (simp add: tx_ok_def UnserializeTransaction_def SerializeTransaction_def ser32_read vins_read
        vouts.roundtrip ser8.roundtrip)
qed

subsection \<open>Sums of outputs\<close>

lemma sum_values_nonneg: "list_all (\<lambda>out. MoneyRange (nValue out)) outs \<Longrightarrow> 0 \<le> sum_list (map nValue outs)"
  by (auto simp: list_all_iff MoneyRange_def intro!: sum_list_nonneg)

lemma GetValueOut_step:
  assumes "MoneyRange acc" "MoneyRange v" "acc + v \<le> MAX_MONEY"
  shows "MoneyRange (acc + v)" "int64 (acc + v) = Ok (acc + v)"
  using assms by (simp_all add: int64_def MoneyRange_def MAX_MONEY_def COIN_def int_limits)

lemma GetValueOut_loop_Ok:
  assumes "MoneyRange acc"
  shows "GetValueOut_loop acc outs = Ok v \<longleftrightarrow>
     list_all (\<lambda>out. MoneyRange (nValue out)) outs \<and> v = acc + sum_list (map nValue outs) \<and> v \<le> MAX_MONEY"
  using assms
proof (induction outs arbitrary: acc)
  case (Cons out outs)
  show ?case
  proof (cases "MoneyRange (nValue out) \<and> acc + nValue out \<le> MAX_MONEY")
    case True
    then show ?thesis using Cons by (auto simp: GetValueOut_step algebra_simps)
  next
    case False
    then have "GetValueOut_loop acc (out # outs) \<noteq> Ok v"
      by (auto simp: outcome_simps int64_def MoneyRange_def split: if_splits)
    then show ?thesis using False sum_values_nonneg [of outs] by auto
  qed
qed (auto simp: MoneyRange_def)

lemma GetValueOut_loop_no_abort:
  assumes "MoneyRange acc" "list_all (\<lambda>out. MoneyRange (nValue out)) outs"
  shows "GetValueOut_loop acc outs \<noteq> Abort"
  using assms
proof (induction outs arbitrary: acc)
  case (Cons out outs)
  then have "int64 (acc + nValue out) \<noteq> (Abort :: (unit, tx_exn, int) outcome)"
    by (simp add: int64_def MoneyRange_def MAX_MONEY_def COIN_def int_limits)
  then show ?case using Cons by (auto simp: outcome_simps)
qed simp

subsection \<open>Properties\<close>

text \<open>
  C10: transactions round-trip through their serialisation, with witnesses, and without them
  (which drops the witnesses); the empty input vector that marks the extended format is the only
  ambiguity, so a transaction without inputs must have no outputs. No input to the parser does
  anything but parse or throw.
\<close>

theorem transaction_roundtrip:
  assumes "tx_ok tx" "vin tx = [] \<Longrightarrow> vout tx = []"
  shows "UnserializeTransaction True (SerializeTransaction True tx @ rest) = Ok (tx, rest) \<and>
     UnserializeTransaction False (SerializeTransaction False tx @ rest) = Ok (strip_witness tx, rest) \<and>
     UnserializeTransaction fAllowWitness s \<noteq> Abort"
  using assms roundtrip_base [of tx] roundtrip_plain [of tx] roundtrip_witness [of tx]
    roundtrip_empty [of tx] UnserializeTransaction_total [of fAllowWitness s]
  by blast

definition sample_tx :: CMutableTransaction where
  "sample_tx = \<lparr>nVersion = 2,
     vin = [\<lparr>prevout = \<lparr>op_hash = replicate 32 7, op_n = 1\<rparr>, in_scriptSig = [], nSequence = 0xfffffffe,
             scriptWitness = [[1, 2], []]\<rparr>],
     vout = [\<lparr>nValue = 5000, out_scriptPubKey = [0x51]\<rparr>], nLockTime = 500\<rparr>"

lemma sample_tx_ok: "tx_ok sample_tx"
  by (simp add: sample_tx_def tx_ok_def txin_ok_def txout_ok_def outpoint_ok_def witness_ok_def
      MAX_SIZE_def int_limits)

theorem transaction_roundtrip_witness:
  "UnserializeTransaction True (SerializeTransaction True sample_tx) = Ok (sample_tx, []) \<and> HasWitness sample_tx"
proof -
  have "vin sample_tx = [] \<Longrightarrow> vout sample_tx = []" by (simp add: sample_tx_def)
  then show ?thesis
    using sample_tx_ok transaction_roundtrip [of sample_tx "[]" True "[]"] by (simp add: sample_tx_def HasWitness_def)
qed

text \<open>
  C11: the transaction id commits to everything but the witnesses. It is the double SHA-256 of
  the basic serialisation, which two transactions share exactly when they agree outside their
  witnesses.
\<close>

theorem txid_commits:
  assumes "tx_ok tx" "tx_ok tx'"
  shows "(SerializeTransaction False tx = SerializeTransaction False tx' \<longleftrightarrow>
            strip_witness tx = strip_witness tx') \<and>
     CTransaction_GetHash tx = Hash (SerializeTransaction False tx) \<and>
     CTransaction_GetHash (strip_witness tx) = CTransaction_GetHash tx \<and>
     (\<not> HasWitness tx \<longrightarrow> GetWitnessHash tx = CTransaction_GetHash tx)"
proof -
  have S: "SerializeTransaction False (strip_witness tx) = SerializeTransaction False tx" for tx
    by (simp add: SerializeTransaction_def strip_witness_def vins_strip)
  have A: "strip_witness tx = strip_witness tx'"
    if "SerializeTransaction False tx = SerializeTransaction False tx'"
    using roundtrip_base [of tx "[]"] roundtrip_base [of tx' "[]"] assms that by simp
  have B: "SerializeTransaction False tx = SerializeTransaction False tx'"
    if "strip_witness tx = strip_witness tx'"
    using S [of tx] S [of tx'] that by simp
  have "SerializeTransaction False tx = SerializeTransaction False tx' \<longleftrightarrow>
      strip_witness tx = strip_witness tx'"
    using A B by blast
  then show ?thesis
    by (simp only: CTransaction_GetHash_def GetWitnessHash_def SerializeHash_eq S) simp
qed

theorem txid_commits_witness:
  "tx_ok sample_tx \<and> HasWitness sample_tx \<and>
   CTransaction_GetHash (strip_witness sample_tx) = CTransaction_GetHash sample_tx"
  using txid_commits [OF sample_tx_ok sample_tx_ok] sample_tx_ok
  by (simp add: sample_tx_def HasWitness_def)

text \<open>
  The addition comes before the range check: with a first output in range and a second one near
  the top of \<open>int64_t\<close> the addition itself overflows.
\<close>

definition overflow_tx :: CMutableTransaction where
  "overflow_tx = \<lparr>nVersion = 1, vin = [],
     vout = [\<lparr>nValue = 1, out_scriptPubKey = []\<rparr>, \<lparr>nValue = int64_max, out_scriptPubKey = []\<rparr>],
     nLockTime = 0\<rparr>"

lemma GetValueOut_overflow: "GetValueOut overflow_tx = Abort"
  by (simp add: overflow_tx_def GetValueOut_def int64_def MoneyRange_def MAX_MONEY_def COIN_def int_limits)



end
