(* ===== verification/Signature_Hash.thy ===== *)
theory Signature_Hash
  imports Transaction Interpreter
begin

text \<open>
  Signature hashes and the transaction signature checker of
  \<^verbatim>\<open>src/src/script/interpreter.cpp\<close>, and the container \<open>CPubKey\<close> of \<^verbatim>\<open>src/src/pubkey.h\<close>.
  The verification of an ECDSA signature by libsecp256k1 is the parameter \<open>Verify\<close>. An access
  \<open>txTo.vin[nIn]\<close> out of range is \<open>Abort\<close>.
\<close>

subsection \<open>Public keys\<close>

text \<open>The bytes of \<open>vch\<close> in use; an invalid key starts with \<open>0xFF\<close>.\<close>

type_synonym CPubKey = "byte list"

definition CPubKey_GetLen :: "byte \<Rightarrow> nat" where
  "CPubKey_GetLen chHeader =
     (if chHeader = 2 \<or> chHeader = 3 then 33
      else if chHeader = 4 \<or> chHeader = 6 \<or> chHeader = 7 then 65
      else 0)"

definition CPubKey_Set :: "byte list \<Rightarrow> CPubKey" where
  "CPubKey_Set bs =
     (let len = (if bs = [] then 0 else CPubKey_GetLen (bs ! 0)) in
      if len \<noteq> 0 \<and> len = length bs then bs else [0xFF])"

definition CPubKey_size :: "CPubKey \<Rightarrow> nat" where
  "CPubKey_size pubkey = CPubKey_GetLen (pubkey ! 0)"

definition CPubKey_IsValid :: "CPubKey \<Rightarrow> bool" where
  "CPubKey_IsValid pubkey \<longleftrightarrow> CPubKey_size pubkey > 0"

subsection \<open>The signature serialiser\<close>

type_synonym 'a access = "(unit, unit, 'a) outcome"

definition vin_at :: "CTransaction \<Rightarrow> nat \<Rightarrow> CTxIn access" where
  "vin_at tx i = (if i < length (vin tx) then Ok (vin tx ! i) else Abort)"

definition vout_at :: "CTransaction \<Rightarrow> nat \<Rightarrow> CTxOut access" where
  "vout_at tx i = (if i < length (vout tx) then Ok (vout tx ! i) else Abort)"

text \<open>The hash type is an \<open>int\<close>, kept as its 32 bits.\<close>

definition base_type :: "u32 \<Rightarrow> nat" where
  "base_type nHashType = unat (nHashType AND 0x1f)"

definition any_one_can_pay :: "u32 \<Rightarrow> bool" where
  "any_one_can_pay nHashType \<longleftrightarrow> nHashType AND of_nat SIGHASH_ANYONECANPAY \<noteq> 0"

record CTransactionSignatureSerializer =
  ser_txTo :: CTransaction
  ser_scriptCode :: CScript
  ser_nIn :: nat
  fAnyoneCanPay :: bool
  fHashSingle :: bool
  fHashNone :: bool

definition signature_serializer ::
  "CTransaction \<Rightarrow> CScript \<Rightarrow> nat \<Rightarrow> u32 \<Rightarrow> CTransactionSignatureSerializer" where
  "signature_serializer txToIn scriptCodeIn nInIn nHashTypeIn =
     \<lparr>ser_txTo = txToIn, ser_scriptCode = scriptCodeIn, ser_nIn = nInIn,
      fAnyoneCanPay = any_one_can_pay nHashTypeIn,
      fHashSingle = (base_type nHashTypeIn = SIGHASH_SINGLE),
      fHashNone = (base_type nHashTypeIn = SIGHASH_NONE)\<rparr>"

function count_separators :: "CScript \<Rightarrow> nat" where
  "count_separators it =
     (case GetOp2 it of
        (True, opcode, _, it') \<Rightarrow> (if opcode = OP_CODESEPARATOR then 1 else 0) + count_separators it'
      | (False, _, _, _) \<Rightarrow> 0)"
  by pat_completeness auto
termination
  by (relation "measure length") (auto dest!: GetOp2_progress [OF sym])

text \<open>
  The second loop writes the bytes before each separator. It ends where \<open>GetOp\<close> fails, with
  the iterator where the failed read left it. The result is the bytes written, \<open>itBegin\<close> and \<open>it\<close>.
\<close>

function write_script_code :: "CScript \<Rightarrow> CScript \<Rightarrow> byte list \<times> CScript \<times> CScript" where
  "write_script_code itBegin it =
     (case GetOp2 it of
        (True, opcode, _, it') \<Rightarrow>
          if opcode = OP_CODESEPARATOR then
            let (bs, itBegin', itEnd) = write_script_code it' it' in
            (take (length itBegin - length it' - 1) itBegin @ bs, itBegin', itEnd)
          else write_script_code itBegin it'
      | (False, _, _, it') \<Rightarrow> ([], itBegin, it'))"
  by pat_completeness auto
termination
  by (relation "measure (length \<circ> snd)") (auto dest!: GetOp2_progress [OF sym])

declare count_separators.simps [simp del] write_script_code.simps [simp del]

definition SerializeScriptCode :: "CScript \<Rightarrow> byte list" where
  "SerializeScriptCode scriptCode =
     (let nCodeSeparators = count_separators scriptCode;
          (bs, itBegin, it) = write_script_code scriptCode scriptCode
      in WriteCompactSize (of_nat (length scriptCode) - of_nat nCodeSeparators) @ bs @
         (if itBegin \<noteq> [] then take (length itBegin - length it) itBegin else []))"

definition SerializeInput :: "CTransactionSignatureSerializer \<Rightarrow> nat \<Rightarrow> byte list access" where
  "SerializeInput S nInput =
     (let nInput = (if fAnyoneCanPay S then ser_nIn S else nInput) in
      bindO (vin_at (ser_txTo S) nInput) (\<lambda>txin.
      Ok (COutPoint_Serialize (prevout txin) @
          (if nInput \<noteq> ser_nIn S then Serialize_bytes []
           else SerializeScriptCode (ser_scriptCode S)) @
          (if nInput \<noteq> ser_nIn S \<and> (fHashSingle S \<or> fHashNone S) then ser_writedata32 0
           else ser_writedata32 (nSequence txin)))))"

definition SerializeOutput :: "CTransactionSignatureSerializer \<Rightarrow> nat \<Rightarrow> byte list access" where
  "SerializeOutput S nOutput =
     (if fHashSingle S \<and> nOutput \<noteq> ser_nIn S then Ok (CTxOut_Serialize CTxOut_null)
      else bindO (vout_at (ser_txTo S) nOutput) (\<lambda>txout. Ok (CTxOut_Serialize txout)))"

text \<open>\<open>for (i = 0; i < n; i++) f(i)\<close>, the bytes that the calls write one after the other.\<close>

fun write_each :: "(nat \<Rightarrow> byte list access) \<Rightarrow> nat list \<Rightarrow> byte list access" where
  "write_each f [] = Ok []"
| "write_each f (i # is) = bindO (f i) (\<lambda>bs. bindO (write_each f is) (\<lambda>cs. Ok (bs @ cs)))"

definition signature_Serialize :: "CTransactionSignatureSerializer \<Rightarrow> byte list access" where
  "signature_Serialize S =
     (let nInputs = (if fAnyoneCanPay S then 1 else length (vin (ser_txTo S)));
          nOutputs = (if fHashNone S then 0
                      else if fHashSingle S then ser_nIn S + 1 else length (vout (ser_txTo S)))
      in bindO (write_each (SerializeInput S) [0..<nInputs]) (\<lambda>ins.
         bindO (write_each (SerializeOutput S) [0..<nOutputs]) (\<lambda>outs.
         Ok (ser_writedata32 (nVersion (ser_txTo S)) @
             WriteCompactSize (of_nat nInputs) @ ins @
             WriteCompactSize (of_nat nOutputs) @ outs @
             ser_writedata32 (nLockTime (ser_txTo S))))))"

subsection \<open>Signature hashes\<close>

definition GetPrevoutHash :: "CTransaction \<Rightarrow> uint256" where
  "GetPrevoutHash txTo = SerializeHash (map (\<lambda>txin. COutPoint_Serialize (prevout txin)) (vin txTo))"

definition GetSequenceHash :: "CTransaction \<Rightarrow> uint256" where
  "GetSequenceHash txTo = SerializeHash (map (\<lambda>txin. ser_writedata32 (nSequence txin)) (vin txTo))"

definition GetOutputsHash :: "CTransaction \<Rightarrow> uint256" where
  "GetOutputsHash txTo = SerializeHash (map CTxOut_Serialize (vout txTo))"

record PrecomputedTransactionData =
  hashPrevouts :: uint256
  hashSequence :: uint256
  hashOutputs :: uint256

definition PrecomputedTransactionData_of :: "CTransaction \<Rightarrow> PrecomputedTransactionData" where
  "PrecomputedTransactionData_of txTo =
     \<lparr>hashPrevouts = GetPrevoutHash txTo, hashSequence = GetSequenceHash txTo,
      hashOutputs = GetOutputsHash txTo\<rparr>"

definition uint256_zero :: uint256 where "uint256_zero = replicate 32 0"

definition uint256_one :: uint256 where "uint256_one = 1 # replicate 31 0"

definition SignatureHash ::
  "CScript \<Rightarrow> CTransaction \<Rightarrow> nat \<Rightarrow> u32 \<Rightarrow> CAmount \<Rightarrow> SigVersion \<Rightarrow> PrecomputedTransactionData option \<Rightarrow>
   uint256 access" where
  "SignatureHash scriptCode txTo nIn nHashType amount sigversion cache =
     (if sigversion = SIGVERSION_WITNESS_V0 then
        let hPrevouts =
              (if \<not> any_one_can_pay nHashType
               then case cache of Some c \<Rightarrow> hashPrevouts c | None \<Rightarrow> GetPrevoutHash txTo
               else uint256_zero);
            hSequence =
              (if \<not> any_one_can_pay nHashType \<and> base_type nHashType \<noteq> SIGHASH_SINGLE \<and>
                  base_type nHashType \<noteq> SIGHASH_NONE
               then case cache of Some c \<Rightarrow> hashSequence c | None \<Rightarrow> GetSequenceHash txTo
               else uint256_zero);
            hOutputs =
              (if base_type nHashType \<noteq> SIGHASH_SINGLE \<and> base_type nHashType \<noteq> SIGHASH_NONE
               then case cache of Some c \<Rightarrow> hashOutputs c | None \<Rightarrow> GetOutputsHash txTo
               else if base_type nHashType = SIGHASH_SINGLE \<and> nIn < length (vout txTo)
               then SerializeHash [CTxOut_Serialize (vout txTo ! nIn)]
               else uint256_zero)
        in bindO (vin_at txTo nIn) (\<lambda>txin.
           Ok (SerializeHash
             [ser_writedata32 (nVersion txTo),
              uint256_Serialize hPrevouts,
              uint256_Serialize hSequence,
              COutPoint_Serialize (prevout txin),
              Serialize_bytes scriptCode,
              ser_writedata64 (of_int amount),
              ser_writedata32 (nSequence txin),
              uint256_Serialize hOutputs,
              ser_writedata32 (nLockTime txTo),
              ser_writedata32 nHashType]))
      else if nIn \<ge> length (vin txTo) then Ok uint256_one
      else if base_type nHashType = SIGHASH_SINGLE \<and> nIn \<ge> length (vout txTo) then Ok uint256_one
      else
        bindO (signature_Serialize (signature_serializer txTo scriptCode nIn nHashType)) (\<lambda>bs.
        Ok (SerializeHash [bs, ser_writedata32 nHashType])))"

subsection \<open>The signature checker\<close>

definition checker_CheckSig ::
  "(CPubKey \<Rightarrow> uint256 \<Rightarrow> valtype \<Rightarrow> bool) \<Rightarrow> CTransaction \<Rightarrow> nat \<Rightarrow> CAmount \<Rightarrow>
   PrecomputedTransactionData option \<Rightarrow> valtype \<Rightarrow> valtype \<Rightarrow> CScript \<Rightarrow> SigVersion \<Rightarrow> bool access" where
  "checker_CheckSig Verify txTo nIn amount txdata vchSigIn vchPubKey scriptCode sigversion =
     (let pubkey = CPubKey_Set vchPubKey in
      if \<not> CPubKey_IsValid pubkey then Ok False
      else if vchSigIn = [] then Ok False
      else
        let nHashType = ucast (last vchSigIn); vchSig = butlast vchSigIn in
        bindO (SignatureHash scriptCode txTo nIn nHashType amount sigversion txdata) (\<lambda>sighash.
        Ok (Verify pubkey sighash vchSig)))"

definition checker_CheckLockTime :: "CTransaction \<Rightarrow> nat \<Rightarrow> int \<Rightarrow> bool access" where
  "checker_CheckLockTime txTo nIn nLock =
     (if \<not> ((unat (nLockTime txTo) < LOCKTIME_THRESHOLD \<and> nLock < int LOCKTIME_THRESHOLD) \<or>
            (unat (nLockTime txTo) \<ge> LOCKTIME_THRESHOLD \<and> nLock \<ge> int LOCKTIME_THRESHOLD))
      then Ok False
      else if nLock > int (unat (nLockTime txTo)) then Ok False
      else bindO (vin_at txTo nIn) (\<lambda>txin. Ok (SEQUENCE_FINAL \<noteq> nSequence txin)))"

definition SEQUENCE_LOCKTIME_TYPE_FLAG :: u32 where "SEQUENCE_LOCKTIME_TYPE_FLAG = push_bit 22 1"
definition SEQUENCE_LOCKTIME_MASK :: u32 where "SEQUENCE_LOCKTIME_MASK = 0x0000ffff"
definition SEQUENCE_LOCKTIME_GRANULARITY :: nat where "SEQUENCE_LOCKTIME_GRANULARITY = 9"

text \<open>\<open>nSequence & nLockTimeMask\<close> on the 64-bit value of the script number.\<close>

definition checker_CheckSequence :: "CTransaction \<Rightarrow> nat \<Rightarrow> int \<Rightarrow> bool access" where
  "checker_CheckSequence txTo nIn nSeq =
     bindO (vin_at txTo nIn) (\<lambda>txin.
     let txToSequence = int (unat (nSequence txin)) in
     if nVersion txTo < 2 then Ok False
     else if txToSequence AND int SEQUENCE_LOCKTIME_DISABLE_FLAG \<noteq> 0 then Ok False
     else
       let nLockTimeMask = int (unat (SEQUENCE_LOCKTIME_TYPE_FLAG OR SEQUENCE_LOCKTIME_MASK));
           typeFlag = int (unat SEQUENCE_LOCKTIME_TYPE_FLAG);
           txToSequenceMasked = txToSequence AND nLockTimeMask;
           nSequenceMasked = nSeq AND nLockTimeMask
       in Ok (((txToSequenceMasked < typeFlag \<and> nSequenceMasked < typeFlag) \<or>
               (txToSequenceMasked \<ge> typeFlag \<and> nSequenceMasked \<ge> typeFlag)) \<and>
              \<not> nSequenceMasked > txToSequenceMasked))"

text \<open>
  The checker as the interpreter uses it. The callbacks return a truth value; that they are
  called within range is shown below for an input index of the transaction.
\<close>

definition TransactionSignatureChecker ::
  "(CPubKey \<Rightarrow> uint256 \<Rightarrow> valtype \<Rightarrow> bool) \<Rightarrow> CTransaction \<Rightarrow> nat \<Rightarrow> CAmount \<Rightarrow>
   PrecomputedTransactionData option \<Rightarrow> BaseSignatureChecker" where
  "TransactionSignatureChecker Verify txTo nIn amount txdata =
     \<lparr>CheckSig = (\<lambda>vchSig vchPubKey scriptCode sigversion.
        checker_CheckSig Verify txTo nIn amount txdata vchSig vchPubKey scriptCode sigversion = Ok True),
      CheckLockTime = (\<lambda>nLock. checker_CheckLockTime txTo nIn nLock = Ok True),
      CheckSequence = (\<lambda>nSeq. checker_CheckSequence txTo nIn nSeq = Ok True)\<rparr>"

subsection \<open>The code separators are left out\<close>

definition separator :: "byte list" where
  "separator = [of_nat OP_CODESEPARATOR]"

lemma GetOp2_separator:
  assumes "GetOp2 it = (True, opcode, v, it')"
  shows "opcode = OP_CODESEPARATOR \<longleftrightarrow> take (length it - length it') it = separator"
proof -
  have "length it' < length it" using GetOp2_progress [OF assms] .
  then obtain k where k: "length it - length it' = Suc k" by (metis Suc_diff_Suc)
  show ?thesis using assms
  proof (cases rule: GetOp2_True_cases)
    case (push n pc1 pc2)
    then show ?thesis using k by (auto simp: separator_def word_unat_eq_iff unat_of_nat)
  next
    case op
    then show ?thesis by (auto simp: separator_def word_unat_eq_iff unat_of_nat)
  qed
qed

lemma count_separators_instrs: "instrs it = (es, t) \<Longrightarrow> count_separators it = length (filter ((=) separator) es)"
proof (induction it arbitrary: es t rule: instrs.induct)
  case (1 it)
  obtain ok opcode v it' where get: "GetOp2 it = (ok, opcode, v, it')" by (cases "GetOp2 it") auto
  show ?case
  proof (cases ok)
    case True
    with get have get: "GetOp2 it = (True, opcode, v, it')" by simp
    obtain es' t' where rec: "instrs it' = (es', t')" by (cases "instrs it'") auto
    have "es = take (length it - length it') it # es'"
      using 1(2) get rec by (subst (asm) instrs.simps) simp
    then show ?thesis using 1(1) [OF get [symmetric] refl refl refl rec] get GetOp2_separator [OF get]
      by (subst count_separators.simps) auto
  next
    case False
    then show ?thesis using get 1(2) by (subst count_separators.simps, subst (asm) instrs.simps) simp
  qed
qed

lemma GetOp2_length: "length (snd (snd (snd (GetOp2 it)))) \<le> length it"
  by (cases it) (auto simp: GetOp2_def Let_def split: option.splits dest!: GetOp_size_suffix suffix_length_le)

text \<open>The bytes that the last, failing, read has passed when the script ends in an unreadable tail.\<close>

definition failed_read :: "byte list \<Rightarrow> byte list" where
  "failed_read t = take (length t - length (snd (snd (snd (GetOp2 t))))) t"

lemma write_script_code_instrs:
  assumes "instrs it = (es, t)" "write_script_code (pre @ it) it = (bs, itBegin, itEnd)"
  shows "bs @ take (length itBegin - length itEnd) itBegin =
     pre @ concat (filter (\<lambda>e. e \<noteq> separator) es) @ failed_read t"
  using assms
proof (induction it arbitrary: es t pre bs itBegin itEnd rule: instrs.induct)
  case (1 it)
  obtain ok opcode v it' where get: "GetOp2 it = (ok, opcode, v, it')" by (cases "GetOp2 it") auto
  show ?case
  proof (cases ok)
    case True
    with get have get: "GetOp2 it = (True, opcode, v, it')" by simp
    obtain es' t' where rec: "instrs it' = (es', t')" by (cases "instrs it'") auto
    define e where "e = take (length it - length it') it"
    have it: "it = e @ it'" using GetOp2_suffix [OF get] by (auto simp: e_def suffix_def)
    have es: "es = e # es'" "t = t'"
      using 1(2) get rec by (subst (asm) instrs.simps, simp add: e_def)+
    note IH = 1(1) [OF get [symmetric] refl refl refl rec]
    show ?thesis
    proof (cases "opcode = OP_CODESEPARATOR")
      case True
      then have e: "e = separator" using GetOp2_separator [OF get] by (simp add: e_def)
      obtain bs' where w: "write_script_code ([] @ it') it' = (bs', itBegin, itEnd)" "bs = pre @ bs'"
        using 1(3) get True it e
        by (subst (asm) write_script_code.simps) (auto simp: separator_def split: prod.splits)
      show ?thesis using IH [OF w(1)] by (simp add: w(2) es e)
    next
      case False
      then have e: "e \<noteq> separator" using GetOp2_separator [OF get] by (simp add: e_def)
      have w: "write_script_code ((pre @ e) @ it') it' = (bs, itBegin, itEnd)"
        using 1(3) get False it by (subst (asm) write_script_code.simps) simp
      show ?thesis using IH [OF w] e by (simp add: es)
    qed
  next
    case False
    then have "bs = []" "itBegin = pre @ it" "itEnd = it'" "es = []" "t = it"
      using get 1(2,3) by (subst (asm) write_script_code.simps, subst (asm) instrs.simps, simp)+
    moreover have "length it' \<le> length it"
      using GetOp2_length [of it] get by simp
    ultimately show ?thesis using get by (simp add: failed_read_def)
  qed
qed

definition without_separators :: "CScript \<Rightarrow> CScript" where
  "without_separators scriptCode = concat (filter (\<lambda>e. e \<noteq> separator) (fst (instrs scriptCode)))"

definition parses :: "CScript \<Rightarrow> bool" where
  "parses scriptCode \<longleftrightarrow> snd (instrs scriptCode) = []"

lemma length_filter_separators:
  "length (concat es) = length (concat (filter (\<lambda>e. e \<noteq> separator) es)) + length (filter ((=) separator) es)"
  by (induction es) (auto simp: separator_def)

lemma SerializeScriptCode_parsed:
  assumes "parses scriptCode"
  shows "SerializeScriptCode scriptCode = Serialize_bytes (without_separators scriptCode)"
proof -
  obtain es where es: "instrs scriptCode = (es, [])"
    using assms by (cases "instrs scriptCode") (simp add: parses_def)
  obtain bs itBegin it where w: "write_script_code ([] @ scriptCode) scriptCode = (bs, itBegin, it)"
    by (cases "write_script_code ([] @ scriptCode) scriptCode") auto
  have "length scriptCode = length (concat es)" using instrs_spec [OF es] by simp
  then have "(of_nat (length scriptCode) - of_nat (count_separators scriptCode) :: u64) =
      of_nat (length (without_separators scriptCode))"
    using length_filter_separators [of es]
    by (simp add: count_separators_instrs [OF es] without_separators_def es)
  then show ?thesis
    using write_script_code_instrs [OF es w] w
    by (auto simp: SerializeScriptCode_def Serialize_bytes_def without_separators_def es failed_read_def)
qed

subsection \<open>The transaction that a signature covers\<close>

text \<open>
  The specification of the hash for scripts before segregated witness: the signature signs a
  copy of the transaction whose inputs and outputs are blanked as the hash type says.
\<close>

definition sighash_in :: "bool \<Rightarrow> CScript \<Rightarrow> nat \<Rightarrow> nat \<Rightarrow> CTxIn \<Rightarrow> CTxIn" where
  "sighash_in free_seq code nIn i txin =
     \<lparr>prevout = prevout txin,
      in_scriptSig = (if i = nIn then code else []),
      nSequence = (if i \<noteq> nIn \<and> free_seq then 0 else nSequence txin),
      scriptWitness = []\<rparr>"

definition sighash_tx :: "CScript \<Rightarrow> CTransaction \<Rightarrow> nat \<Rightarrow> u32 \<Rightarrow> CTransaction" where
  "sighash_tx code tx nIn ht =
     (let single = (base_type ht = SIGHASH_SINGLE); none = (base_type ht = SIGHASH_NONE) in
      \<lparr>nVersion = nVersion tx,
       vin = (if any_one_can_pay ht then [sighash_in (single \<or> none) code nIn nIn (vin tx ! nIn)]
              else map (\<lambda>i. sighash_in (single \<or> none) code nIn i (vin tx ! i)) [0..<length (vin tx)]),
       vout = (if none then []
               else if single then replicate nIn CTxOut_null @ [vout tx ! nIn] else vout tx),
       nLockTime = nLockTime tx\<rparr>)"

lemma write_each_Ok:
  "(\<And>i. i \<in> set is \<Longrightarrow> f i = Ok (g i)) \<Longrightarrow> write_each f is = Ok (concat (map g is))"
  by (induction "is") auto

lemma SerializeInput_Ok:
  assumes "parses code" "nIn < length (vin tx)" "i < length (vin tx)"
  shows "SerializeInput (signature_serializer tx code nIn ht) i =
     Ok (let k = (if any_one_can_pay ht then nIn else i) in
         CTxIn_Serialize (sighash_in (base_type ht = SIGHASH_SINGLE \<or> base_type ht = SIGHASH_NONE)
           (without_separators code) nIn k (vin tx ! k)))"
  using assms
  by (auto simp: SerializeInput_def signature_serializer_def vin_at_def Let_def CTxIn_Serialize_def
      sighash_in_def SerializeScriptCode_parsed)

lemma SerializeOutput_Ok:
  assumes "i < length (vout tx) \<or> (base_type ht = SIGHASH_SINGLE \<and> i \<noteq> nIn)"
  shows "SerializeOutput (signature_serializer tx code nIn ht) i =
     Ok (CTxOut_Serialize (if base_type ht = SIGHASH_SINGLE \<and> i \<noteq> nIn then CTxOut_null else vout tx ! i))"
  using assms by (auto simp: SerializeOutput_def signature_serializer_def vout_at_def)

lemma map_upt_nth: "map (\<lambda>i. f (xs ! i)) [0..<length xs] = map f xs"
  by (rule nth_equalityI) simp_all

lemma single_outputs:
  "map (\<lambda>i. if i \<noteq> k then a else xs ! i) [0..<Suc k] = replicate k a @ [xs ! k]"
proof -
  have "map (\<lambda>i. if i \<noteq> k then a else xs ! i) [0..<k] = map (\<lambda>_. a) [0..<k]"
    by (rule map_cong) auto
  then show ?thesis by (simp add: map_replicate_const)
qed

lemma write_inputs:
  assumes code: "parses code" and nIn: "nIn < length (vin tx)"
  shows "write_each (SerializeInput (signature_serializer tx code nIn ht))
      [0..<if any_one_can_pay ht then 1 else length (vin tx)] =
    Ok (concat (map CTxIn_Serialize (vin (sighash_tx (without_separators code) tx nIn ht))))"
proof (cases "any_one_can_pay ht")
  case True
  have "vin tx \<noteq> []" using nIn by auto
  with True show ?thesis
    by (simp add: SerializeInput_Ok [OF code nIn] sighash_tx_def Let_def)
next
  case False
  then have "write_each (SerializeInput (signature_serializer tx code nIn ht)) [0..<length (vin tx)] =
    Ok (concat (map (\<lambda>i. CTxIn_Serialize
      (sighash_in (base_type ht = SIGHASH_SINGLE \<or> base_type ht = SIGHASH_NONE)
        (without_separators code) nIn i (vin tx ! i))) [0..<length (vin tx)]))"
    by (intro write_each_Ok) (simp add: SerializeInput_Ok [OF code nIn])
  with False show ?thesis by (simp add: sighash_tx_def Let_def comp_def)
qed

lemma write_outputs:
  assumes single: "base_type ht = SIGHASH_SINGLE \<Longrightarrow> nIn < length (vout tx)"
  shows "write_each (SerializeOutput (signature_serializer tx code nIn ht))
      [0..<if base_type ht = SIGHASH_NONE then 0
           else if base_type ht = SIGHASH_SINGLE then nIn + 1 else length (vout tx)] =
    Ok (concat (map CTxOut_Serialize (vout (sighash_tx code' tx nIn ht))))"
proof -
  consider "base_type ht = SIGHASH_NONE" | "base_type ht \<noteq> SIGHASH_NONE" "base_type ht = SIGHASH_SINGLE"
    | "base_type ht \<noteq> SIGHASH_NONE" "base_type ht \<noteq> SIGHASH_SINGLE" by blast
  then show ?thesis
  proof cases
    case 1
    then show ?thesis by (simp add: sighash_tx_def Let_def)
  next
    case 2
    have "write_each (SerializeOutput (signature_serializer tx code nIn ht)) [0..<Suc nIn] =
        Ok (concat (map (\<lambda>i. CTxOut_Serialize (if i \<noteq> nIn then CTxOut_null else vout tx ! i)) [0..<Suc nIn]))"
    proof (rule write_each_Ok)
      fix i assume "i \<in> set [0..<Suc nIn]"
      then have "i < length (vout tx) \<or> (base_type ht = SIGHASH_SINGLE \<and> i \<noteq> nIn)"
        using 2 single [OF 2(2)] by auto
      from SerializeOutput_Ok [OF this] 2(2)
      show "SerializeOutput (signature_serializer tx code nIn ht) i =
          Ok (CTxOut_Serialize (if i \<noteq> nIn then CTxOut_null else vout tx ! i))"
        by simp
    qed
    also have "map (\<lambda>i. CTxOut_Serialize (if i \<noteq> nIn then CTxOut_null else vout tx ! i)) [0..<Suc nIn] =
        map CTxOut_Serialize (replicate nIn CTxOut_null @ [vout tx ! nIn])"
      by (simp only: single_outputs [symmetric] map_map comp_def)
    finally show ?thesis using 2 by (simp add: sighash_tx_def Let_def del: upt_Suc)
  next
    case 3
    then have "write_each (SerializeOutput (signature_serializer tx code nIn ht)) [0..<length (vout tx)] =
        Ok (concat (map (\<lambda>i. CTxOut_Serialize (vout tx ! i)) [0..<length (vout tx)]))"
      by (intro write_each_Ok) (simp add: SerializeOutput_Ok)
    with 3 show ?thesis by (simp add: sighash_tx_def Let_def map_upt_nth)
  qed
qed

lemma signature_Serialize_spec:
  assumes code: "parses code" and nIn: "nIn < length (vin tx)"
    and single: "base_type ht = SIGHASH_SINGLE \<Longrightarrow> nIn < length (vout tx)"
  shows "signature_Serialize (signature_serializer tx code nIn ht) =
     Ok (SerializeTransaction False (sighash_tx (without_separators code) tx nIn ht))"
proof -
  let ?T = "sighash_tx (without_separators code) tx nIn ht"
  have len: "length (vin ?T) = (if any_one_can_pay ht then 1 else length (vin tx))"
    "length (vout ?T) = (if base_type ht = SIGHASH_NONE then 0
       else if base_type ht = SIGHASH_SINGLE then nIn + 1 else length (vout tx))"
    by (simp_all add: sighash_tx_def Let_def)
  have sel: "ser_txTo (signature_serializer tx code nIn ht) = tx"
    "fAnyoneCanPay (signature_serializer tx code nIn ht) = any_one_can_pay ht"
    "fHashNone (signature_serializer tx code nIn ht) \<longleftrightarrow> base_type ht = SIGHASH_NONE"
    "fHashSingle (signature_serializer tx code nIn ht) \<longleftrightarrow> base_type ht = SIGHASH_SINGLE"
    "ser_nIn (signature_serializer tx code nIn ht) = nIn"
    "nVersion ?T = nVersion tx" "nLockTime ?T = nLockTime tx"
    by (simp_all add: signature_serializer_def sighash_tx_def Let_def)
  have ins: "write_each (SerializeInput (signature_serializer tx code nIn ht)) [0..<length (vin ?T)] =
      Ok (concat (map CTxIn_Serialize (vin ?T)))"
    unfolding len by (rule write_inputs [OF code nIn])
  have outs: "write_each (SerializeOutput (signature_serializer tx code nIn ht)) [0..<length (vout ?T)] =
      Ok (concat (map CTxOut_Serialize (vout ?T)))"
    unfolding len by (rule write_outputs [OF single])
  show ?thesis
    unfolding signature_Serialize_def sel Let_def len [symmetric] ins outs
    by (simp add: SerializeTransaction_def Serialize_vector_def sel Let_def)
qed

subsection \<open>What a signature covers\<close>

definition covered :: "u32 \<Rightarrow> nat \<Rightarrow> CTransaction \<Rightarrow>
    u32 \<times> u32 \<times> COutPoint \<times> u32 \<times> COutPoint list \<times> u32 list \<times> CTxOut list" where
  "covered ht nIn tx =
     (let single = (base_type ht = SIGHASH_SINGLE); none = (base_type ht = SIGHASH_NONE) in
      (nVersion tx, nLockTime tx, prevout (vin tx ! nIn), nSequence (vin tx ! nIn),
       if any_one_can_pay ht then [] else map prevout (vin tx),
       if any_one_can_pay ht \<or> single \<or> none then [] else map nSequence (vin tx),
       if none then [] else if single then [vout tx ! nIn] else vout tx))"

lemma map_upt_eq_iff: "map f [0..<m] = map g [0..<n] \<longleftrightarrow> m = n \<and> (\<forall>i<m. f i = g i)"
  by (auto simp: list_eq_iff_nth_eq)

lemma map_nth_eq_iff:
  "map f xs = map f ys \<longleftrightarrow> length xs = length ys \<and> (\<forall>i<length xs. f (xs ! i) = f (ys ! i))"
  by (auto simp: list_eq_iff_nth_eq)

lemma sighash_in_eq:
  "sighash_in f code nIn i a = sighash_in f code nIn i b \<longleftrightarrow>
     prevout a = prevout b \<and> (i = nIn \<or> \<not> f \<longrightarrow> nSequence a = nSequence b)"
  by (auto simp: sighash_in_def)

lemma sighash_ins_eq:
  assumes "nIn < length xs"
  shows "map (\<lambda>i. sighash_in f code nIn i (xs ! i)) [0..<length xs] =
         map (\<lambda>i. sighash_in f code nIn i (ys ! i)) [0..<length ys] \<longleftrightarrow>
    map prevout xs = map prevout ys \<and> nSequence (xs ! nIn) = nSequence (ys ! nIn) \<and>
    (f \<or> map nSequence xs = map nSequence ys)"
  unfolding map_upt_eq_iff map_nth_eq_iff sighash_in_eq using assms by blast

lemma sighash_tx_covered:
  assumes "nIn < length (vin tx)" "nIn < length (vin tx')"
  shows "sighash_tx code tx nIn ht = sighash_tx code tx' nIn ht \<longleftrightarrow> covered ht nIn tx = covered ht nIn tx'"
proof -
  have ins: "[sighash_in f code nIn nIn (vin tx ! nIn)] = [sighash_in f code nIn nIn (vin tx' ! nIn)] \<longleftrightarrow>
      prevout (vin tx ! nIn) = prevout (vin tx' ! nIn) \<and>
      nSequence (vin tx ! nIn) = nSequence (vin tx' ! nIn)" for f
    by (simp add: sighash_in_def)
  have nth: "map prevout (vin tx) = map prevout (vin tx') \<Longrightarrow> prevout (vin tx ! nIn) = prevout (vin tx' ! nIn)"
    using assms by (metis nth_map)
  show ?thesis
    by (cases "any_one_can_pay ht")
      (auto simp: sighash_tx_def covered_def Let_def ins sighash_ins_eq [OF assms(1)] nth simp del: list.inject)
qed

lemma sighash_tx_ok:
  assumes "tx_ok tx" "length code \<le> MAX_SIZE" "nIn < length (vin tx)"
    "base_type ht = SIGHASH_SINGLE \<Longrightarrow> nIn < length (vout tx)"
  shows "tx_ok (sighash_tx code tx nIn ht)"
  using assms
  by (auto simp: tx_ok_def sighash_tx_def Let_def sighash_in_def list_all_iff txin_ok_def witness_ok_def
      txout_ok_def CTxOut_null_def int_limits MAX_SIZE_def)

lemma strip_sighash_tx: "strip_witness (sighash_tx code tx nIn ht) = sighash_tx code tx nIn ht"
  by (simp add: strip_witness_def sighash_tx_def Let_def sighash_in_def comp_def)

lemma length_without_separators: "parses code \<Longrightarrow> length (without_separators code) \<le> length code"
proof -
  assume "parses code"
  then obtain es where es: "instrs code = (es, [])"
    by (cases "instrs code") (simp add: parses_def)
  have "length code = length (concat es)" using instrs_spec [OF es] by simp
  then show ?thesis using length_filter_separators [of es] by (simp add: without_separators_def es)
qed

lemma SignatureHash_legacy:
  assumes "parses scriptCode" "nIn < length (vin tx)"
    "base_type ht = SIGHASH_SINGLE \<Longrightarrow> nIn < length (vout tx)"
  shows "SignatureHash scriptCode tx nIn ht amount SIGVERSION_BASE cache =
     Ok (Hash (SerializeTransaction False (sighash_tx (without_separators scriptCode) tx nIn ht) @
               ser_writedata32 ht))"
  using assms(2,3) signature_Serialize_spec [OF assms]
  by (auto simp: SignatureHash_def SerializeHash_eq)

lemma SignatureHash_witness_covered:
  assumes "nIn < length (vin tx)" "nIn < length (vin tx')"
    "base_type ht = SIGHASH_SINGLE \<Longrightarrow> nIn < length (vout tx) \<and> nIn < length (vout tx')"
    "covered ht nIn tx = covered ht nIn tx'"
  shows "SignatureHash code tx nIn ht amount SIGVERSION_WITNESS_V0 None =
         SignatureHash code tx' nIn ht amount SIGVERSION_WITNESS_V0 None"
proof -
  have same: "nVersion tx = nVersion tx'" "nLockTime tx = nLockTime tx'"
    "prevout (vin tx ! nIn) = prevout (vin tx' ! nIn)" "nSequence (vin tx ! nIn) = nSequence (vin tx' ! nIn)"
    using assms(4) by (simp_all add: covered_def Let_def)
  have lift: "map (\<lambda>txin. f (p txin)) xs = map (\<lambda>txin. f (p txin)) ys" if "map p xs = map p ys"
    for f p and xs ys :: "CTxIn list"
    using arg_cong [OF that, of "map f"] by (simp add: comp_def)
  have prevouts: "GetPrevoutHash tx = GetPrevoutHash tx'" if "\<not> any_one_can_pay ht"
  proof -
    have "map prevout (vin tx) = map prevout (vin tx')"
      using assms(4) that by (simp add: covered_def Let_def)
    from lift [OF this, of COutPoint_Serialize] show ?thesis by (simp add: GetPrevoutHash_def)
  qed
  have seqs: "GetSequenceHash tx = GetSequenceHash tx'"
    if "\<not> any_one_can_pay ht" "base_type ht \<noteq> SIGHASH_SINGLE" "base_type ht \<noteq> SIGHASH_NONE"
  proof -
    have "map nSequence (vin tx) = map nSequence (vin tx')"
      using assms(4) that by (simp add: covered_def Let_def)
    from lift [OF this, of ser_writedata32] show ?thesis by (simp add: GetSequenceHash_def)
  qed
  have outs: "GetOutputsHash tx = GetOutputsHash tx'"
    if "base_type ht \<noteq> SIGHASH_SINGLE" "base_type ht \<noteq> SIGHASH_NONE"
    using assms(4) that by (simp add: covered_def Let_def GetOutputsHash_def)
  have out: "vout tx ! nIn = vout tx' ! nIn" if "base_type ht = SIGHASH_SINGLE"
    using assms(4) that by (simp add: covered_def Let_def SIGHASH_NONE_def SIGHASH_SINGLE_def)
  show ?thesis
    using assms(1-3)
    by (cases "base_type ht = SIGHASH_SINGLE")
      (simp_all add: SignatureHash_def Let_def vin_at_def same prevouts seqs outs out)
qed

lemma write_each_total: "(\<And>i. i \<in> set is \<Longrightarrow> \<exists>bs. f i = Ok bs) \<Longrightarrow> \<exists>bs. write_each f is = Ok bs"
proof (induction "is")
  case (Cons i "is")
  then obtain bs cs where "f i = Ok bs" "write_each f is = Ok cs" by fastforce
  then show ?case by simp
qed simp

lemma SignatureHash_in_range:
  assumes nIn: "nIn < length (vin tx)"
  shows "\<exists>h. SignatureHash code tx nIn ht amount sv cache = Ok h"
proof (cases "sv = SIGVERSION_WITNESS_V0 \<or> base_type ht = SIGHASH_SINGLE \<and> nIn \<ge> length (vout tx)")
  case True
  then show ?thesis using nIn by (auto simp: SignatureHash_def Let_def vin_at_def)
next
  case False
  let ?S = "signature_serializer tx code nIn ht"
  have sel: "ser_txTo ?S = tx" "fAnyoneCanPay ?S = any_one_can_pay ht" "ser_nIn ?S = nIn"
    "fHashNone ?S \<longleftrightarrow> base_type ht = SIGHASH_NONE" "fHashSingle ?S \<longleftrightarrow> base_type ht = SIGHASH_SINGLE"
    by (simp_all add: signature_serializer_def)
  have "\<exists>bs. write_each (SerializeInput ?S) [0..<if any_one_can_pay ht then 1 else length (vin tx)] = Ok bs"
    using nIn by (intro write_each_total) (auto simp: SerializeInput_def sel vin_at_def Let_def)
  moreover have "\<exists>bs. write_each (SerializeOutput ?S)
      [0..<if base_type ht = SIGHASH_NONE then 0
           else if base_type ht = SIGHASH_SINGLE then nIn + 1 else length (vout tx)] = Ok bs"
    using False by (intro write_each_total) (auto simp: SerializeOutput_def sel vout_at_def split: if_splits)
  ultimately have "\<exists>bs. signature_Serialize ?S = Ok bs"
    by (auto simp: signature_Serialize_def sel Let_def)
  then show ?thesis using False nIn by (auto simp: SignatureHash_def)
qed

subsection \<open>Properties\<close>

text \<open>
  C13: before segregated witness, the in-place serialiser hashes exactly what it stands for, the
  serialisation of the transaction in which the script of the signed input is the signed script
  without code separators, the other scripts are empty, and inputs, sequence numbers and outputs
  are blanked as the hash type says, followed by the hash type.
\<close>

theorem sighash_legacy_spec:
  assumes "parses scriptCode" "nIn < length (vin tx)"
    "base_type ht = SIGHASH_SINGLE \<Longrightarrow> nIn < length (vout tx)"
  shows "SignatureHash scriptCode tx nIn ht amount SIGVERSION_BASE cache =
     Ok (Hash (SerializeTransaction False (sighash_tx (without_separators scriptCode) tx nIn ht) @
               ser_writedata32 ht))"
  using assms by (rule SignatureHash_legacy)

lemma parses_example: "parses [0xab, 0xac]" "without_separators [0xab, 0xac] = [0xac]"
  by (simp_all add: parses_def without_separators_def instrs.simps GetOp2_def GetOp_size_def separator_def)

theorem sighash_legacy_spec_witness:
  "SignatureHash [0xab, 0xac] sample_tx 0 1 0 SIGVERSION_BASE None =
     Ok (Hash (SerializeTransaction False (sighash_tx [0xac] sample_tx 0 1) @ ser_writedata32 1))"
proof -
  have "0 < length (vin sample_tx)" "base_type 1 = SIGHASH_SINGLE \<Longrightarrow> 0 < length (vout sample_tx)"
    by (simp_all add: sample_tx_def)
  from sighash_legacy_spec [OF parses_example(1) this] show ?thesis by (simp add: parses_example)
qed





end
