(* ===== verification/Verify_Script.thy ===== *)
theory Verify_Script
  imports Interpreter_Safety Interpreter_Softfork Signature_Hash
begin

text \<open>
  \<open>VerifyScript\<close>, \<open>VerifyWitnessProgram\<close> and the counting of witness signature operations,
  the rest of \<^verbatim>\<open>src/src/script/interpreter.cpp\<close>. A witness is a list with its first element
  first, as in the sources; stacks have their top first.
\<close>

subsection \<open>Verification\<close>

text \<open>The script that a version 0 program of 20 bytes stands for.\<close>

definition witness_pubkeyhash_script :: "valtype \<Rightarrow> CScript script_result" where
  "witness_pubkeyhash_script program =
     bindO (push_opcode [] OP_DUP) (\<lambda>s.
     bindO (push_opcode s OP_HASH160) (\<lambda>s.
     bindO (push_opcode (push_data s program) OP_EQUALVERIFY) (\<lambda>s.
     push_opcode s OP_CHECKSIG)))"

text \<open>The part of \<open>VerifyWitnessProgram\<close> behind the choice of the script and the stack.\<close>

definition execute_witness ::
  "(valtype \<Rightarrow> bool) \<Rightarrow> valtype list \<Rightarrow> CScript \<Rightarrow> u32 \<Rightarrow> BaseSignatureChecker \<Rightarrow> unit script_result" where
  "execute_witness CheckLowS st script flags checker =
     bindO (need (list_all (\<lambda>v. \<not> length v > MAX_SCRIPT_ELEMENT_SIZE) st) SCRIPT_ERR_PUSH_SIZE) (\<lambda>_.
     bindO (EvalScript CheckLowS st script flags checker SIGVERSION_WITNESS_V0) (\<lambda>st.
     bindO (need (length st = 1) SCRIPT_ERR_EVAL_FALSE) (\<lambda>_.
     bindO (stacktop st 1) (\<lambda>v.
     need (CastToBool v) SCRIPT_ERR_EVAL_FALSE))))"

definition VerifyWitnessProgram ::
  "(valtype \<Rightarrow> bool) \<Rightarrow> CScriptWitness \<Rightarrow> nat \<Rightarrow> valtype \<Rightarrow> u32 \<Rightarrow> BaseSignatureChecker \<Rightarrow> unit script_result" where
  "VerifyWitnessProgram CheckLowS witness witversion program flags checker =
     (if witversion = 0 then
        if length program = 32 then
          if length witness = 0 then Fail SCRIPT_ERR_WITNESS_PROGRAM_WITNESS_EMPTY
          else
            let script = last witness; st = rev (butlast witness);
                hashScriptPubKey = CSHA256_Finalize (CSHA256_Write CSHA256_new script)
            in if hashScriptPubKey \<noteq> program then Fail SCRIPT_ERR_WITNESS_PROGRAM_MISMATCH
               else execute_witness CheckLowS st script flags checker
        else if length program = 20 then
          if length witness \<noteq> 2 then Fail SCRIPT_ERR_WITNESS_PROGRAM_MISMATCH
          else bindO (witness_pubkeyhash_script program) (\<lambda>script.
               execute_witness CheckLowS (rev witness) script flags checker)
        else Fail SCRIPT_ERR_WITNESS_PROGRAM_WRONG_LENGTH
      else if has_flag flags SCRIPT_VERIFY_DISCOURAGE_UPGRADABLE_WITNESS_PROGRAM
      then Fail SCRIPT_ERR_DISCOURAGE_UPGRADABLE_WITNESS_PROGRAM
      else Ok ())"

text \<open>\<open>stack.resize(1)\<close> keeps the bottom element.\<close>

definition resize_1 :: "valtype list \<Rightarrow> valtype list" where
  "resize_1 st = (if st = [] then [[]] else [last st])"

text \<open>
  The check of a witness program behind a script: the witness is checked when the script is a
  program, and the scriptSig must then be \<open>expected\<close>. Returns \<open>hadWitness\<close> and the stack.
\<close>

definition check_witness ::
  "(valtype \<Rightarrow> bool) \<Rightarrow> bool \<Rightarrow> ScriptError \<Rightarrow> CScript \<Rightarrow> CScriptWitness \<Rightarrow> u32 \<Rightarrow> BaseSignatureChecker \<Rightarrow>
   bool \<Rightarrow> valtype list \<Rightarrow> (bool \<times> valtype list) script_result" where
  "check_witness CheckLowS expected malleated script witness flags checker hadWitness st =
     (if has_flag flags SCRIPT_VERIFY_WITNESS then
        case IsWitnessProgram script of
          Some (witnessversion, witnessprogram) \<Rightarrow>
            bindO (need expected malleated) (\<lambda>_.
            bindO (VerifyWitnessProgram CheckLowS witness witnessversion witnessprogram flags checker) (\<lambda>_.
            Ok (True, resize_1 st)))
        | None \<Rightarrow> Ok (hadWitness, st)
      else Ok (hadWitness, st))"

text \<open>A stack must end with a true value on top.\<close>

definition check_true :: "valtype list \<Rightarrow> unit script_result" where
  "check_true st =
     bindO (need (st \<noteq> []) SCRIPT_ERR_EVAL_FALSE) (\<lambda>_.
     bindO (stacktop st 1) (\<lambda>v. need (CastToBool v) SCRIPT_ERR_EVAL_FALSE))"

text \<open>The evaluation of a pay-to-script-hash redeem script on \<open>stackCopy\<close>.\<close>

definition verify_p2sh ::
  "(valtype \<Rightarrow> bool) \<Rightarrow> CScript \<Rightarrow> CScriptWitness \<Rightarrow> u32 \<Rightarrow> BaseSignatureChecker \<Rightarrow>
   bool \<Rightarrow> valtype list \<Rightarrow> (bool \<times> valtype list) script_result" where
  "verify_p2sh CheckLowS scriptSig witness flags checker hadWitness stackCopy =
     bindO (need (IsPushOnly scriptSig) SCRIPT_ERR_SIG_PUSHONLY) (\<lambda>_.
     bindO (assertO (stackCopy \<noteq> [])) (\<lambda>_.
     bindO (stacktop stackCopy 1) (\<lambda>pubKey2.
     bindO (popstack stackCopy) (\<lambda>st.
     bindO (EvalScript CheckLowS st pubKey2 flags checker SIGVERSION_BASE) (\<lambda>st.
     bindO (check_true st) (\<lambda>_.
     check_witness CheckLowS (scriptSig = push_data [] pubKey2) SCRIPT_ERR_WITNESS_MALLEATED_P2SH
       pubKey2 witness flags checker hadWitness st))))))"

definition VerifyScript ::
  "(valtype \<Rightarrow> bool) \<Rightarrow> CScript \<Rightarrow> CScript \<Rightarrow> CScriptWitness option \<Rightarrow> u32 \<Rightarrow> BaseSignatureChecker \<Rightarrow>
   unit script_result" where
  "VerifyScript CheckLowS scriptSig scriptPubKey witnessOpt flags checker =
     (let witness = (case witnessOpt of None \<Rightarrow> [] | Some w \<Rightarrow> w) in
      bindO (need (\<not> (has_flag flags SCRIPT_VERIFY_SIGPUSHONLY \<and> \<not> IsPushOnly scriptSig)) SCRIPT_ERR_SIG_PUSHONLY) (\<lambda>_.
      bindO (EvalScript CheckLowS [] scriptSig flags checker SIGVERSION_BASE) (\<lambda>stackCopy.
      bindO (EvalScript CheckLowS stackCopy scriptPubKey flags checker SIGVERSION_BASE) (\<lambda>st.
      bindO (check_true st) (\<lambda>_.
      bindO (check_witness CheckLowS (length scriptSig = 0) SCRIPT_ERR_WITNESS_MALLEATED
               scriptPubKey witness flags checker False st) (\<lambda>(hadWitness, st).
      bindO (if has_flag flags SCRIPT_VERIFY_P2SH \<and> IsPayToScriptHash scriptPubKey
             then verify_p2sh CheckLowS scriptSig witness flags checker hadWitness stackCopy
             else Ok (hadWitness, st)) (\<lambda>(hadWitness, st).
      bindO (if has_flag flags SCRIPT_VERIFY_CLEANSTACK then
               bindO (assertO (has_flag flags SCRIPT_VERIFY_P2SH)) (\<lambda>_.
               bindO (assertO (has_flag flags SCRIPT_VERIFY_WITNESS)) (\<lambda>_.
               need (length st = 1) SCRIPT_ERR_CLEANSTACK))
             else Ok ()) (\<lambda>_.
      if has_flag flags SCRIPT_VERIFY_WITNESS then
        bindO (assertO (has_flag flags SCRIPT_VERIFY_P2SH)) (\<lambda>_.
        need (\<not> (\<not> hadWitness \<and> witness \<noteq> [])) SCRIPT_ERR_WITNESS_UNEXPECTED)
      else Ok ()))))))))"

subsection \<open>Counting witness signature operations\<close>

definition WitnessSigOps :: "nat \<Rightarrow> valtype \<Rightarrow> CScriptWitness \<Rightarrow> nat" where
  "WitnessSigOps witversion witprogram witness =
     (if witversion = 0 \<and> length witprogram = 20 then 1
      else if witversion = 0 \<and> length witprogram = 32 \<and> length witness > 0
      then GetSigOpCount (last witness) True
      else 0)"

lemma GetOp2_shrinks: "GetOp2 (b # it) = (ok, opcode, v, it') \<Longrightarrow> length it' < Suc (length it)"
  by (auto simp: GetOp2_def Let_def split: option.splits if_splits
      dest!: GetOp_size_suffix suffix_length_le)

function last_data :: "valtype \<Rightarrow> byte list \<Rightarrow> valtype" where
  "last_data data it =
     (if it = [] then data
      else let (_, _, data', it') = GetOp2 it in last_data data' it')"
  by pat_completeness auto
termination
  by (relation "measure (length \<circ> snd)") (auto simp: neq_Nil_conv dest!: GetOp2_shrinks [OF sym])

declare last_data.simps [simp del]

definition CountWitnessSigOps :: "CScript \<Rightarrow> CScript \<Rightarrow> CScriptWitness option \<Rightarrow> u32 \<Rightarrow> nat script_result" where
  "CountWitnessSigOps scriptSig scriptPubKey witnessOpt flags =
     (let witness = (case witnessOpt of None \<Rightarrow> [] | Some w \<Rightarrow> w) in
      if \<not> has_flag flags SCRIPT_VERIFY_WITNESS then Ok 0
      else bindO (assertO (has_flag flags SCRIPT_VERIFY_P2SH)) (\<lambda>_.
        case IsWitnessProgram scriptPubKey of
          Some (witnessversion, witnessprogram) \<Rightarrow> Ok (WitnessSigOps witnessversion witnessprogram witness)
        | None \<Rightarrow>
            if IsPayToScriptHash scriptPubKey \<and> IsPushOnly scriptSig then
              case IsWitnessProgram (last_data [] scriptSig) of
                Some (witnessversion, witnessprogram) \<Rightarrow> Ok (WitnessSigOps witnessversion witnessprogram witness)
              | None \<Rightarrow> Ok 0
            else Ok 0))"

subsection \<open>No assertion fails\<close>

definition flags_consistent :: "u32 \<Rightarrow> bool" where
  "flags_consistent flags \<longleftrightarrow>
     (has_flag flags SCRIPT_VERIFY_CLEANSTACK \<longrightarrow> has_flag flags SCRIPT_VERIFY_WITNESS) \<and>
     (has_flag flags SCRIPT_VERIFY_WITNESS \<longrightarrow> has_flag flags SCRIPT_VERIFY_P2SH)"

lemma P2SH_needs_stack:
  assumes "IsPayToScriptHash script"
  shows "EvalScript l [] script flags c v = Fail SCRIPT_ERR_INVALID_STACK_OPERATION"
proof -
  obtain rest where s: "script = 0xa9 # rest"
    using assms by (cases script) (auto simp: IsPayToScriptHash_def)
  have "length script \<le> MAX_SCRIPT_SIZE" using assms by (simp add: IsPayToScriptHash_def script_limits)
  moreover have "GetOp2 script = (True, OP_HASH160, [], rest)" by (simp add: s GetOp2_def)
  then have "eval_step \<lparr>env_flags = flags, env_checker = c, env_sigversion = v, env_CheckLowS = l\<rparr>
      (initial [] script) = Fail SCRIPT_ERR_INVALID_STACK_OPERATION"
    by (simp add: eval_step_def initial_def eval_instr_def need_def script_limits is_disabled_def
        eval_switch_def eval_hash_def)
  ultimately show ?thesis
    by (simp add: EvalScript_def s initial_def eval_loop.simps)
qed

definition no_abort :: "'a script_result \<Rightarrow> bool" where
  "no_abort r \<longleftrightarrow> r \<noteq> Abort \<and> (\<forall>x. r \<noteq> Throw x)"

named_theorems no_abort_intros

lemma no_abort_bind [no_abort_intros]:
  "no_abort m \<Longrightarrow> (\<And>a. m = Ok a \<Longrightarrow> no_abort (f a)) \<Longrightarrow> no_abort (bindO m f)"
  by (cases m) (auto simp: no_abort_def)

lemma no_abort_basic [no_abort_intros]:
  "no_abort (Ok a)" "no_abort (Fail e)" "no_abort (need b e)"
  "no_abort (EvalScript l st script flags c v)"
  by (auto simp: no_abort_def need_def EvalScript_no_abort EvalScript_no_throw)

lemma no_abort_assert [no_abort_intros]: "b \<Longrightarrow> no_abort (assertO b)"
  by (simp add: no_abort_def assertO_def)

lemma no_abort_stack [no_abort_intros]:
  "st \<noteq> [] \<Longrightarrow> no_abort (stacktop st 1)" "st \<noteq> [] \<Longrightarrow> no_abort (popstack st)"
  by (auto simp: no_abort_def stacktop_def popstack_def assertO_def Suc_le_eq)

lemma need_Ok: "need b e = Ok () \<longleftrightarrow> b"
  by (simp add: need_def)

lemma no_abort_check_true [no_abort_intros]: "no_abort (check_true st)"
  unfolding check_true_def by (intro no_abort_intros) (simp_all add: need_Ok)

lemma witness_script_eq:
  "length program = 20 \<Longrightarrow> witness_pubkeyhash_script program =
     Ok ([0x76, 0xa9, 0x14] @ program @ [0x88, 0xac])"
  by (simp add: witness_pubkeyhash_script_def push_opcode_def push_data_def)

lemma no_abort_execute [no_abort_intros]: "no_abort (execute_witness l st script flags c)"
  unfolding execute_witness_def by (intro no_abort_intros) (auto simp: need_Ok)

lemma no_abort_witness_program [no_abort_intros]: "no_abort (VerifyWitnessProgram l w ver prog flags c)"
  unfolding VerifyWitnessProgram_def
  by (auto simp: Let_def witness_script_eq intro!: no_abort_intros)

lemma no_abort_check_witness [no_abort_intros]:
  "no_abort (check_witness l b e script w flags c had st)"
  unfolding check_witness_def by (auto split: option.splits intro!: no_abort_intros)

lemma VerifyScript_no_abort:
  assumes "flags_consistent flags"
  shows "no_abort (VerifyScript l scriptSig scriptPubKey w flags c)"
proof -
  have p2sh: "no_abort (verify_p2sh l scriptSig wit flags c had stackCopy)"
    if "IsPayToScriptHash scriptPubKey" "EvalScript l stackCopy scriptPubKey flags c SIGVERSION_BASE = Ok st"
    for wit had stackCopy st
  proof -
    have "stackCopy \<noteq> []"
      using P2SH_needs_stack [OF that(1), of l flags c SIGVERSION_BASE] that(2) by auto
    then show ?thesis unfolding verify_p2sh_def by (intro no_abort_intros)
  qed
  show ?thesis
    using assms unfolding VerifyScript_def Let_def flags_consistent_def
    by (auto intro!: no_abort_intros intro: p2sh split: prod.splits)
qed

subsection \<open>Flags only ever restrict\<close>

lemma softfork_has_flag: "softfork f g \<Longrightarrow> has_flag f x \<Longrightarrow> has_flag g x"
  using flags_subset_has_flag by (auto simp: softfork_def)

lemma EvalScript_implies:
  "softfork f g \<Longrightarrow> implies (EvalScript l st script g c v) (EvalScript l st script f c v)"
  using EvalScript_softfork by (auto simp: implies_def)

lemma implies_unit: "implies r (Ok ())"
  by (simp add: implies_def)

lemma witness_program_implies:
  assumes "softfork f g"
  shows "implies (VerifyWitnessProgram l w ver prog g c) (VerifyWitnessProgram l w ver prog f c)"
proof -
  have "implies (execute_witness l st script g c) (execute_witness l st script f c)" for st script
    unfolding execute_witness_def by (intro implies_bind implies_refl EvalScript_implies assms)
  then show ?thesis
    using softfork_has_flag [OF assms]
    by (auto simp: VerifyWitnessProgram_def Let_def intro!: implies_bind implies_refl implies_Fail)
qed

lemma check_witness_implies:
  assumes "softfork f g" "has_flag f SCRIPT_VERIFY_WITNESS"
  shows "implies (check_witness l b e script w g c had st) (check_witness l b e script w f c had st)"
  using assms softfork_has_flag [OF assms]
  by (auto simp: check_witness_def split: option.splits
      intro!: implies_bind implies_refl witness_program_implies)

lemma verify_p2sh_implies:
  assumes "softfork f g" "has_flag f SCRIPT_VERIFY_WITNESS"
  shows "implies (verify_p2sh l scriptSig w g c had st) (verify_p2sh l scriptSig w f c had st)"
  unfolding verify_p2sh_def
  by (intro implies_bind implies_refl EvalScript_implies check_witness_implies assms)

lemma VerifyScript_implies_witness:
  assumes "softfork f g" "flags_consistent f" "has_flag f SCRIPT_VERIFY_WITNESS"
  shows "implies (VerifyScript l scriptSig scriptPubKey w g c) (VerifyScript l scriptSig scriptPubKey w f c)"
proof -
  note g = softfork_has_flag [OF assms(1)]
  have "has_flag f SCRIPT_VERIFY_P2SH" using assms(2,3) by (simp add: flags_consistent_def)
  then show ?thesis
    using assms(3) g unfolding VerifyScript_def Let_def case_prod_beta
    by (intro implies_bind check_witness_implies EvalScript_implies assms)
      (auto intro!: implies_bind implies_refl implies_need implies_unit verify_p2sh_implies assms)
qed

lemma VerifyScript_implies_plain:
  assumes "softfork f g" "flags_consistent f" "\<not> has_flag f SCRIPT_VERIFY_WITNESS"
  shows "implies (VerifyScript l scriptSig scriptPubKey w g c) (VerifyScript l scriptSig scriptPubKey w f c)"
proof -
  note g = softfork_has_flag [OF assms(1)]
  note eval = EvalScript_softfork [OF assms(1)]
  have clean: "\<not> has_flag f SCRIPT_VERIFY_CLEANSTACK" using assms(2,3) by (auto simp: flags_consistent_def)
  have wit: "check_witness l b e script wit f c had st = Ok (had, st)" for b e script wit had st
    using assms(3) by (simp add: check_witness_def)
  have p2sh: "\<exists>st'. verify_p2sh l scriptSig wit f c had st = Ok (had, st')"
    if "verify_p2sh l scriptSig wit g c had' st = Ok r" for wit had had' st r
    using that unfolding verify_p2sh_def wit by (auto simp: outcome_simps dest!: eval)
  show ?thesis
    unfolding implies_def
  proof (intro allI impI)
    fix a assume ok: "VerifyScript l scriptSig scriptPubKey w g c = Ok a"
    let ?w = "case w of None \<Rightarrow> [] | Some w \<Rightarrow> w"
    obtain st1 st2 had st where e: "EvalScript l [] scriptSig g c SIGVERSION_BASE = Ok st1"
      "EvalScript l st1 scriptPubKey g c SIGVERSION_BASE = Ok st2" "check_true st2 = Ok ()"
      and push: "\<not> (has_flag g SCRIPT_VERIFY_SIGPUSHONLY \<and> \<not> IsPushOnly scriptSig)"
      and h: "has_flag g SCRIPT_VERIFY_P2SH \<and> IsPayToScriptHash scriptPubKey \<Longrightarrow>
        verify_p2sh l scriptSig ?w g c had st1 = Ok st"
      using ok unfolding VerifyScript_def Let_def
      by (auto simp: outcome_simps need_Ok split: if_splits)
    show "VerifyScript l scriptSig scriptPubKey w f c = Ok a"
      using eval [OF e(1)] eval [OF e(2)] e(3) push g p2sh [OF h, of False] clean assms(3)
      unfolding VerifyScript_def Let_def wit
      by (auto simp: need_def)
  qed
qed

subsection \<open>Paying to a public key hash\<close>

definition p2pkh :: "valtype \<Rightarrow> CScript" where
  "p2pkh h = [0x76, 0xa9, 0x14] @ h @ [0x88, 0xac]"

abbreviation (input) env :: "(valtype \<Rightarrow> bool) \<Rightarrow> u32 \<Rightarrow> BaseSignatureChecker \<Rightarrow> SigVersion \<Rightarrow> script_env" where
  "env l flags c v \<equiv> \<lparr>env_flags = flags, env_checker = c, env_sigversion = v, env_CheckLowS = l\<rparr>"

lemma GetOp2_opcode: "0x4e < unat b \<Longrightarrow> GetOp2 (b # s) = (True, unat b, [], s)"
  by (simp add: GetOp2_def)

lemma GetOp2_push: "unat b < 0x4c \<Longrightarrow> length h = unat b \<Longrightarrow> GetOp2 (b # h @ s) = (True, unat b, h, s)"
  by (simp add: GetOp2_def GetOp_size_def)

lemmas run_simps = eval_step_def eval_instr_def need_def script_limits is_disabled_def eval_switch_def
  stacktop_def popstack_def assertO_def initial_def

lemma minimal_hash: "length h = 20 \<or> length h = 32 \<Longrightarrow> CheckMinimalPush h (length h)"
  by (auto simp: CheckMinimalPush_def)

text \<open>The first three instructions hash the key and push the hash.\<close>

lemma p2pkh_prefix:
  assumes h: "length h = 20"
  shows "eval_loop (env l flags c v) (initial [pub, sig] (p2pkh h)) =
    eval_loop (env l flags c v) \<lparr>stack = [h, Hash160 pub, pub, sig], altstack = [], vfExec = [],
       nOpCount = 2, pc = [0x88, 0xac], pbegincodehash = p2pkh h\<rparr>"
proof -
  let ?E = "env l flags c v"
  let ?m = "\<lambda>st n s. \<lparr>stack = st, altstack = [], vfExec = [], nOpCount = n, pc = s, pbegincodehash = p2pkh h\<rparr>"
  have 0: "initial [pub, sig] (p2pkh h) = ?m [pub, sig] 0 (0x76 # 0xa9 # 0x14 # h @ [0x88, 0xac])"
    by (simp add: initial_def p2pkh_def)
  have 1: "eval_step ?E (?m [pub, sig] 0 (0x76 # s)) = Ok (?m [pub, pub, sig] (Suc 0) s)" for s
    by (simp add: run_simps GetOp2_opcode eval_OP_DUP_def)
  have 2: "eval_step ?E (?m [pub, pub, sig] (Suc 0) (0xa9 # s)) = Ok (?m [Hash160 pub, pub, sig] 2 s)" for s
    by (simp add: run_simps GetOp2_opcode eval_hash_def Hash160_def)
  have 3: "eval_step ?E (?m [Hash160 pub, pub, sig] 2 (0x14 # h @ s)) = Ok (?m [h, Hash160 pub, pub, sig] 2 s)" for s
    using minimal_hash [of h] h by (simp add: run_simps GetOp2_push)
  show ?thesis unfolding 0 by (simp add: eval_loop_step 1 2 3)
qed

lemma check_encodings_cases:
  obtains "check_encodings E vchSig vchPubKey = Ok ()" | e where "check_encodings E vchSig vchPubKey = Fail e"
proof -
  have "check_encodings E vchSig vchPubKey \<noteq> Abort \<and> check_encodings E vchSig vchPubKey \<noteq> Throw x" for x
    by (auto simp: check_encodings_def CheckSignatureEncoding_def CheckPubKeyEncoding_def
      IsLowDERSignature_def outcome_simps split: if_splits)
  then show thesis using that by (cases "check_encodings E vchSig vchPubKey") auto
qed

lemma p2pkh_eval:
  assumes h: "length h = 20"
  shows "EvalScript l [pub, sig] (p2pkh h) flags c v =
    (if Hash160 pub \<noteq> h then Fail SCRIPT_ERR_EQUALVERIFY
     else bindO (check_encodings (env l flags c v) sig pub) (\<lambda>_.
       let fSuccess = CheckSig c sig pub (drop_signature (env l flags c v) (p2pkh h) sig) v in
       if \<not> fSuccess \<and> has_flag flags SCRIPT_VERIFY_NULLFAIL \<and> sig \<noteq> [] then Fail SCRIPT_ERR_SIG_NULLFAIL
       else Ok [vchBool fSuccess]))"
proof -
  let ?E = "env l flags c v"
  let ?m = "\<lambda>st n s. \<lparr>stack = st, altstack = [], vfExec = [], nOpCount = n, pc = s, pbegincodehash = p2pkh h\<rparr>"
  have 4: "eval_step ?E (?m [h, Hash160 pub, pub, sig] 2 [0x88, 0xac]) =
      (if Hash160 pub \<noteq> h then Fail SCRIPT_ERR_EQUALVERIFY else Ok (?m [pub, sig] 3 [0xac]))"
    by (simp add: run_simps GetOp2_opcode eval_OP_EQUAL_def)
  have 5: "eval_step ?E (?m [pub, sig] 3 [0xac]) =
      bindO (check_encodings ?E sig pub) (\<lambda>_.
       let fSuccess = CheckSig c sig pub (drop_signature ?E (p2pkh h) sig) v in
       if \<not> fSuccess \<and> has_flag flags SCRIPT_VERIFY_NULLFAIL \<and> sig \<noteq> [] then Fail SCRIPT_ERR_SIG_NULLFAIL
       else Ok (?m [vchBool fSuccess] 4 []))"
    by (cases "check_encodings ?E sig pub")
      (simp_all add: run_simps GetOp2_opcode eval_OP_CHECKSIG_def Let_def)
  have "length (p2pkh h) \<le> MAX_SCRIPT_SIZE" using h by (simp add: p2pkh_def script_limits)
  moreover have "eval_loop ?E (?m st n s) =
      (if s = [] then Ok (?m st n s) else bindO (eval_step ?E (?m st n s)) (eval_loop ?E))" for st n s
    by (subst eval_loop.simps) simp
  ultimately show ?thesis
    by (cases rule: check_encodings_cases [of ?E sig pub])
      (simp_all add: EvalScript_def p2pkh_prefix [OF h] 4 5 Let_def)
qed

text \<open>A version 0 witness program is two pushes.\<close>

lemma program_eval:
  assumes "length h = 20 \<or> length h = 32"
  shows "EvalScript l [] (0 # of_nat (length h) # h) flags c v = Ok [h, []]"
proof -
  let ?E = "env l flags c v"
  have n: "unat (of_nat (length h) :: byte) = length h" "length h < 0x4c" using assms by auto
  have 1: "eval_step ?E (initial [] (0 # s)) = Ok ((initial [] (0 # s))\<lparr>stack := [[]], pc := s\<rparr>)" for s
    by (simp add: run_simps GetOp2_def GetOp_size_def CheckMinimalPush_def)
  have 2: "GetOp2 (of_nat (length h) # h) = (True, length h, h, [])"
    using GetOp2_push [of "of_nat (length h)" h "[]"] n by simp
  have 3: "eval_step ?E (m\<lparr>stack := [[]], pc := of_nat (length h) # h\<rparr>) =
      Ok (m\<lparr>stack := [h, []], pc := []\<rparr>)" if "vfExec m = []" "altstack m = []" for m
    using 2 minimal_hash [OF assms] n assms that
    by (auto simp: eval_step_def eval_instr_def need_def script_limits is_disabled_def)
  let ?i = "initial [] (0 # of_nat (length h) # h)"
  have "eval_loop ?E ?i = eval_loop ?E (?i\<lparr>stack := [[]], pc := of_nat (length h) # h\<rparr>)"
    by (rule eval_loop_step [OF _ 1]) (simp add: initial_def)
  also have "\<dots> = eval_loop ?E (?i\<lparr>stack := [h, []], pc := []\<rparr>)"
    by (rule eval_loop_step [OF _ 3]) (simp_all add: initial_def)
  also have "\<dots> = Ok (?i\<lparr>stack := [h, []], pc := []\<rparr>)" by (rule eval_loop_end) simp
  finally show ?thesis using assms by (auto simp: EvalScript_def script_limits initial_def)
qed

lemma EvalScript_Nil: "EvalScript l st [] flags c v = Ok st"
  by (simp add: EvalScript_def initial_def eval_loop_end)

lemma VerifyScript_native:
  assumes h: "length h = 20 \<or> length h = 32"
    and flags: "flags_consistent flags" "has_flag flags SCRIPT_VERIFY_WITNESS"
  shows "VerifyScript l [] (0 # of_nat (length h) # h) (Some w) flags c =
    (if CastToBool h then VerifyWitnessProgram l w 0 h flags c else Fail SCRIPT_ERR_EVAL_FALSE)"
proof -
  have "IsWitnessProgram (0 # of_nat (length h) # h) = Some (0, h)"
    using h by (auto simp: IsWitnessProgram_def DecodeOP_N_def)
  moreover have "\<not> IsPayToScriptHash (0 # of_nat (length h) # h)"
    by (simp add: IsPayToScriptHash_def)
  moreover have "IsPushOnly []" by (simp add: IsPushOnly.simps)
  moreover have "check_true [h, []] = (if CastToBool h then Ok () else Fail SCRIPT_ERR_EVAL_FALSE)"
    by (simp add: check_true_def need_def stacktop_def assertO_def)
  moreover have "no_abort (VerifyWitnessProgram l w 0 h flags c)" by (rule no_abort_intros)
  moreover have "has_flag flags SCRIPT_VERIFY_P2SH" using flags by (simp add: flags_consistent_def)
  ultimately show ?thesis
    using flags(2)
    by (cases "VerifyWitnessProgram l w 0 h flags c")
      (auto simp: VerifyScript_def Let_def EvalScript_Nil program_eval [OF h] check_witness_def need_def
        resize_1_def assertO_def no_abort_def)
qed

lemma execute_witness_Ok:
  "execute_witness l st script flags c = Ok () \<longleftrightarrow>
     list_all (\<lambda>v. length v \<le> MAX_SCRIPT_ELEMENT_SIZE) st \<and>
     (\<exists>x. EvalScript l st script flags c SIGVERSION_WITNESS_V0 = Ok [x] \<and> CastToBool x)"
  by (auto simp: execute_witness_def outcome_simps need_Ok stacktop_eq length_Suc_conv not_less)

subsection \<open>Properties\<close>

text \<open>
  C16: \<open>VerifyScript\<close> never aborts and never throws: with flags in which \<open>CLEANSTACK\<close> comes with
  \<open>WITNESS\<close> and \<open>WITNESS\<close> with \<open>P2SH\<close> none of its assertions fails, for every script, witness and
  checker. In particular the copied stack is not empty when a pay-to-script-hash script succeeded.
\<close>

theorem VerifyScript_safe:
  assumes "flags_consistent flags"
  shows "VerifyScript CheckLowS scriptSig scriptPubKey witness flags checker \<noteq> Abort \<and>
    VerifyScript CheckLowS scriptSig scriptPubKey witness flags checker \<noteq> Throw x"
  using VerifyScript_no_abort [OF assms] by (simp add: no_abort_def)

lemma standard_consistent: "flags_consistent STANDARD_SCRIPT_VERIFY_FLAGS"
  "flags_consistent MANDATORY_SCRIPT_VERIFY_FLAGS" "has_flag STANDARD_SCRIPT_VERIFY_FLAGS SCRIPT_VERIFY_WITNESS"
  by (simp_all add: flags_consistent_def has_flag_def flag_defs push_bit_eq_mult)

theorem VerifyScript_safe_witness:
  "VerifyScript (\<lambda>_. True) [0x51] [] None STANDARD_SCRIPT_VERIFY_FLAGS no_checker \<noteq> Abort"
  using VerifyScript_safe [OF standard_consistent(1)] by blast

text \<open>
  C17: every script verification flag is a soft fork. A spend that is accepted with a set of
  flags is accepted with every consistent smaller set (with \<open>DISCOURAGE_UPGRADABLE_NOPS\<close> in
  the smaller set, both sets must agree on the two lock time flags).
\<close>

theorem VerifyScript_softfork:
  assumes "flags_subset f g" "flags_consistent f"
    and "has_flag f SCRIPT_VERIFY_DISCOURAGE_UPGRADABLE_NOPS \<longrightarrow>
        has_flag f SCRIPT_VERIFY_CHECKLOCKTIMEVERIFY = has_flag g SCRIPT_VERIFY_CHECKLOCKTIMEVERIFY \<and>
        has_flag f SCRIPT_VERIFY_CHECKSEQUENCEVERIFY = has_flag g SCRIPT_VERIFY_CHECKSEQUENCEVERIFY"
    and "VerifyScript CheckLowS scriptSig scriptPubKey witness g checker = Ok ()"
  shows "VerifyScript CheckLowS scriptSig scriptPubKey witness f checker = Ok ()"
proof -
  have "softfork f g" using assms(1,3) by (simp add: softfork_def)
  then show ?thesis
    using VerifyScript_implies_witness VerifyScript_implies_plain assms(2,4)
    by (cases "has_flag f SCRIPT_VERIFY_WITNESS") (auto simp: implies_def)
qed

lemma eval_one: "EvalScript l [] [0x51] flags c v = Ok [[1]]"
  by (simp add: EvalScript_def initial_def eval_loop_step eval_loop_end eval_step_def eval_instr_def
      GetOp2_def Let_def need_def script_limits is_disabled_def eval_switch_def eval_push_value_def
      getvch_def CScriptNum_serialize_def serialize_loop.simps)

lemma verify_one: "VerifyScript l [] [0x51] None STANDARD_SCRIPT_VERIFY_FLAGS c = Ok ()"
  using standard_consistent
  by (simp add: VerifyScript_def Let_def EvalScript_Nil eval_one check_true_def need_def stacktop_def
      assertO_def check_witness_def IsWitnessProgram_def IsPayToScriptHash_def IsPushOnly.simps
      flags_consistent_def)

theorem VerifyScript_softfork_witness:
  "VerifyScript (\<lambda>_. True) [] [0x51] None MANDATORY_SCRIPT_VERIFY_FLAGS no_checker = Ok ()"
proof (rule VerifyScript_softfork [of _ STANDARD_SCRIPT_VERIFY_FLAGS])
  show "VerifyScript (\<lambda>_. True) [] [0x51] None STANDARD_SCRIPT_VERIFY_FLAGS no_checker = Ok ()"
    by (rule verify_one)
qed (use softfork_standard standard_consistent in \<open>simp_all add: softfork_def\<close>)

text \<open>
  What spending a native witness output takes. For a 20-byte program the witness is a
  signature and a key of that hash, with accepted encodings, and the signature checks against the
  pay-to-pubkey-hash script of the program; for a 32-byte program its last element is a script of
  that hash which runs on the other elements, each at most 520 bytes, to a single true value. In
  both cases the program itself must not be zero, since it is first evaluated as a script.
\<close>

theorem native_witness_spend:
  assumes "flags_consistent flags" "has_flag flags SCRIPT_VERIFY_WITNESS"
  shows "(length h = 20 \<longrightarrow>
      (VerifyScript l [] (0 # 0x14 # h) (Some [sig, pub]) flags c = Ok () \<longleftrightarrow>
        CastToBool h \<and> length sig \<le> MAX_SCRIPT_ELEMENT_SIZE \<and> length pub \<le> MAX_SCRIPT_ELEMENT_SIZE \<and>
        Hash160 pub = h \<and>
        check_encodings (env l flags c SIGVERSION_WITNESS_V0) sig pub = Ok () \<and>
        CheckSig c sig pub (p2pkh h) SIGVERSION_WITNESS_V0)) \<and>
    (length h = 32 \<longrightarrow>
      (VerifyScript l [] (0 # 0x20 # h) (Some (args @ [script])) flags c = Ok () \<longleftrightarrow>
        CastToBool h \<and> CSHA256_Finalize (CSHA256_Write CSHA256_new script) = h \<and>
        list_all (\<lambda>v. length v \<le> MAX_SCRIPT_ELEMENT_SIZE) args \<and>
        (\<exists>x. EvalScript l (rev args) script flags c SIGVERSION_WITNESS_V0 = Ok [x] \<and> CastToBool x)))"
proof (intro conjI impI)
  assume h: "length h = 20"
  have cast: "CastToBool (vchBool b) = b" for b by (simp add: vchBool_def vchTrue_def vchFalse_def)
  have "execute_witness l [pub, sig] (p2pkh h) flags c = Ok () \<longleftrightarrow>
      length sig \<le> MAX_SCRIPT_ELEMENT_SIZE \<and> length pub \<le> MAX_SCRIPT_ELEMENT_SIZE \<and> Hash160 pub = h \<and>
      check_encodings (env l flags c SIGVERSION_WITNESS_V0) sig pub = Ok () \<and>
      CheckSig c sig pub (p2pkh h) SIGVERSION_WITNESS_V0"
    by (auto simp: execute_witness_Ok p2pkh_eval [OF h] outcome_simps drop_signature_def cast Let_def
        split: if_splits)
  then show "VerifyScript l [] (0 # 0x14 # h) (Some [sig, pub]) flags c = Ok () \<longleftrightarrow>
        CastToBool h \<and> length sig \<le> MAX_SCRIPT_ELEMENT_SIZE \<and> length pub \<le> MAX_SCRIPT_ELEMENT_SIZE \<and>
        Hash160 pub = h \<and>
        check_encodings (env l flags c SIGVERSION_WITNESS_V0) sig pub = Ok () \<and>
        CheckSig c sig pub (p2pkh h) SIGVERSION_WITNESS_V0"
    using VerifyScript_native [OF _ assms, of h l "[sig, pub]" c] h
    by (simp add: VerifyWitnessProgram_def witness_script_eq p2pkh_def)
next
  assume h: "length h = 32"
  then show "VerifyScript l [] (0 # 0x20 # h) (Some (args @ [script])) flags c = Ok () \<longleftrightarrow>
        CastToBool h \<and> CSHA256_Finalize (CSHA256_Write CSHA256_new script) = h \<and>
        list_all (\<lambda>v. length v \<le> MAX_SCRIPT_ELEMENT_SIZE) args \<and>
        (\<exists>x. EvalScript l (rev args) script flags c SIGVERSION_WITNESS_V0 = Ok [x] \<and> CastToBool x)"
    using VerifyScript_native [OF _ assms, of h l "args @ [script]" c]
    by (auto simp: VerifyWitnessProgram_def Let_def execute_witness_Ok list_all_iff)
qed

theorem native_witness_spend_witness:
  "let h = CSHA256_Finalize (CSHA256_Write CSHA256_new [0x51]) in
   VerifyScript (\<lambda>_. True) [] (0 # 0x20 # h) (Some [[0x51]]) STANDARD_SCRIPT_VERIFY_FLAGS no_checker = Ok () \<longleftrightarrow>
   CastToBool h"
proof -
  let ?h = "CSHA256_Finalize (CSHA256_Write CSHA256_new [0x51])"
  have "length ?h = 32" by (rule length_CSHA256_Finalize)
  moreover have "CastToBool [1]" by simp
  ultimately show ?thesis
    using native_witness_spend [OF standard_consistent(1,3), of ?h "\<lambda>_. True" "[]" "[]" no_checker "[]" "[0x51]"]
    by (simp add: Let_def eval_one)
qed

end
