(* ===== verification/Arith_Uint256.thy ===== *)
theory Arith_Uint256
  imports Veggie_Prelude
begin

text \<open>
  The unsigned big integers \<open>base_uint\<close> and \<open>arith_uint256\<close> of \<^verbatim>\<open>src/src/arith_uint256.h\<close> and
  \<^verbatim>\<open>src/src/arith_uint256.cpp\<close>. A number is the list of its 32-bit limbs \<open>pn\<close>, least significant
  first; the loops over limbs are recursions on the list, so they hold for every width. The
  lemmas refine each operation to natural numbers modulo the width.
\<close>

type_synonym base_uint = "u32 list"
type_synonym arith_uint256 = base_uint

datatype uint_exn = Uint_error string

type_synonym 'a uint_result = "(unit, uint_exn, 'a) outcome"

definition WIDTH :: nat where "WIDTH = 256 div 32"

subsection \<open>Operations\<close>

definition uint_zero :: arith_uint256 where
  "uint_zero = replicate WIDTH 0"

text \<open>\<open>base_uint(uint64_t)\<close>\<close>

definition uint_of_u64 :: "u64 \<Rightarrow> arith_uint256" where
  "uint_of_u64 b = ucast b # ucast (drop_bit 32 b) # replicate (WIDTH - 2) 0"

definition uint_is_zero :: "base_uint \<Rightarrow> bool" where
  "uint_is_zero pn \<longleftrightarrow> list_all (\<lambda>p. \<not> p \<noteq> 0) pn"

definition uint_not :: "base_uint \<Rightarrow> base_uint" where
  "uint_not pn = map (\<lambda>p. NOT p) pn"

text \<open>The carry of \<open>operator++\<close> and the borrow of \<open>operator--\<close> stop at the last limb.\<close>

fun uint_inc :: "base_uint \<Rightarrow> base_uint" where
  "uint_inc [] = []"
| "uint_inc (p # pn) = (let p = p + 1 in p # (if p = 0 then uint_inc pn else pn))"

fun uint_dec :: "base_uint \<Rightarrow> base_uint" where
  "uint_dec [] = []"
| "uint_dec (p # pn) = (let p = p - 1 in p # (if p = -1 then uint_dec pn else pn))"

definition uint_neg :: "base_uint \<Rightarrow> base_uint" where
  "uint_neg pn = uint_inc (uint_not pn)"

fun uint_add_loop :: "u64 \<Rightarrow> base_uint \<Rightarrow> base_uint \<Rightarrow> base_uint" where
  "uint_add_loop carry (p # pn) (b # bs) =
     (let n = carry + ucast p + ucast b in ucast n # uint_add_loop (drop_bit 32 n) pn bs)"
| "uint_add_loop carry _ _ = []"

definition uint_add :: "base_uint \<Rightarrow> base_uint \<Rightarrow> base_uint" where
  "uint_add pn b = uint_add_loop 0 pn b"

definition uint_sub :: "base_uint \<Rightarrow> base_uint \<Rightarrow> base_uint" where
  "uint_sub pn b = uint_add pn (uint_neg b)"

text \<open>The bitwise operators, and those with a \<open>uint64_t\<close>.\<close>

definition uint_xor :: "base_uint \<Rightarrow> base_uint \<Rightarrow> base_uint" where
  "uint_xor pn b = map2 (\<lambda>p q. p XOR q) pn b"

definition uint_and :: "base_uint \<Rightarrow> base_uint \<Rightarrow> base_uint" where
  "uint_and pn b = map2 (\<lambda>p q. p AND q) pn b"

definition uint_or :: "base_uint \<Rightarrow> base_uint \<Rightarrow> base_uint" where
  "uint_or pn b = map2 (\<lambda>p q. p OR q) pn b"

definition uint_xor64 :: "base_uint \<Rightarrow> u64 \<Rightarrow> base_uint" where
  "uint_xor64 pn b = pn[0 := pn ! 0 XOR ucast b, 1 := pn ! 1 XOR ucast (drop_bit 32 b)]"

definition uint_or64 :: "base_uint \<Rightarrow> u64 \<Rightarrow> base_uint" where
  "uint_or64 pn b = pn[0 := pn ! 0 OR ucast b, 1 := pn ! 1 OR ucast (drop_bit 32 b)]"

definition uint_add64 :: "base_uint \<Rightarrow> u64 \<Rightarrow> base_uint" where
  "uint_add64 pn b64 = uint_add pn (uint_of_u64 b64)"

definition uint_sub64 :: "base_uint \<Rightarrow> u64 \<Rightarrow> base_uint" where
  "uint_sub64 pn b64 = uint_add pn (uint_neg (uint_of_u64 b64))"

text \<open>\<open>operator*=(uint32_t)\<close>\<close>

fun uint_mul32_loop :: "u64 \<Rightarrow> u32 \<Rightarrow> base_uint \<Rightarrow> base_uint" where
  "uint_mul32_loop carry b32 [] = []"
| "uint_mul32_loop carry b32 (p # pn) =
     (let n = carry + ucast b32 * ucast p in ucast n # uint_mul32_loop (drop_bit 32 n) b32 pn)"

definition uint_mul32 :: "base_uint \<Rightarrow> u32 \<Rightarrow> base_uint" where
  "uint_mul32 pn b32 = uint_mul32_loop 0 b32 pn"

text \<open>
  \<open>operator*=(const base_uint&)\<close>: the inner loop adds \<open>a.pn[j] * b\<close> to the limbs of the result
  from the \<open>j\<close>-th on; the limbs before it do not change any more.
\<close>

fun uint_mul_row :: "u64 \<Rightarrow> u32 \<Rightarrow> base_uint \<Rightarrow> base_uint \<Rightarrow> base_uint" where
  "uint_mul_row carry aj (p # pn) (bi # b) =
     (let n = carry + ucast p + ucast aj * ucast bi in
      ucast n # uint_mul_row (drop_bit 32 n) aj pn b)"
| "uint_mul_row carry aj _ _ = []"

fun uint_mul_loop :: "base_uint \<Rightarrow> base_uint \<Rightarrow> base_uint \<Rightarrow> base_uint" where
  "uint_mul_loop (aj # a) b (p # pn) =
     (let pn' = uint_mul_row 0 aj (p # pn) b in hd pn' # uint_mul_loop a b (tl pn'))"
| "uint_mul_loop _ b pn = pn"

definition uint_mul :: "base_uint \<Rightarrow> base_uint \<Rightarrow> base_uint" where
  "uint_mul a b = uint_mul_loop a b (replicate (length a) 0)"

text \<open>\<open>operator<<=\<close> and \<open>operator>>=\<close>; \<open>pn[i] |= x\<close> is \<open>or_at\<close>.\<close>

definition or_at :: "nat \<Rightarrow> u32 \<Rightarrow> base_uint \<Rightarrow> base_uint" where
  "or_at i x pn = pn[i := pn ! i OR x]"

definition uint_shl :: "base_uint \<Rightarrow> nat \<Rightarrow> base_uint" where
  "uint_shl a shift =
     (let W = length a; k = shift div 32; s = shift mod 32 in
      fold (\<lambda>i pn.
          let pn = (if i + k + 1 < W \<and> s \<noteq> 0 then or_at (i + k + 1) (drop_bit (32 - s) (a ! i)) pn else pn)
          in if i + k < W then or_at (i + k) (push_bit s (a ! i)) pn else pn)
        [0..<W] (replicate W 0))"

definition uint_shr :: "base_uint \<Rightarrow> nat \<Rightarrow> base_uint" where
  "uint_shr a shift =
     (let W = length a; k = shift div 32; s = shift mod 32 in
      fold (\<lambda>i pn.
          let pn = (if i \<ge> k + 1 \<and> s \<noteq> 0 then or_at (i - k - 1) (push_bit (32 - s) (a ! i)) pn else pn)
          in if i \<ge> k then or_at (i - k) (drop_bit s (a ! i)) pn else pn)
        [0..<W] (replicate W 0))"

text \<open>\<open>CompareTo\<close> reads the limbs from the most significant one on.\<close>

fun compare_loop :: "base_uint \<Rightarrow> base_uint \<Rightarrow> int" where
  "compare_loop (p # pn) (b # bs) = (if p < b then -1 else if p > b then 1 else compare_loop pn bs)"
| "compare_loop _ _ = 0"

definition CompareTo :: "base_uint \<Rightarrow> base_uint \<Rightarrow> int" where
  "CompareTo pn b = compare_loop (rev pn) (rev b)"

definition EqualTo :: "base_uint \<Rightarrow> u64 \<Rightarrow> bool" where
  "EqualTo pn b \<longleftrightarrow>
     list_all (\<lambda>p. p = 0) (drop 2 pn) \<and> ucast (pn ! 1) = drop_bit 32 b \<and> ucast (pn ! 0) = b AND 0xffffffff"

text \<open>The inner loop of \<open>bits\<close> looks for the highest set bit of a limb, from bit 31 to bit 1.\<close>

fun limb_bits :: "u32 \<Rightarrow> nat \<Rightarrow> nat" where
  "limb_bits p 0 = 1"
| "limb_bits p (Suc b) = (if p AND push_bit (Suc b) 1 \<noteq> 0 then Suc b + 1 else limb_bits p b)"

fun uint_bits_loop :: "base_uint \<Rightarrow> nat \<Rightarrow> nat" where
  "uint_bits_loop pn 0 = 0"
| "uint_bits_loop pn (Suc pos) =
     (if pn ! pos \<noteq> 0 then 32 * pos + limb_bits (pn ! pos) 31 else uint_bits_loop pn pos)"

definition uint_bits :: "base_uint \<Rightarrow> nat" where
  "uint_bits pn = uint_bits_loop pn (length pn)"

text \<open>The long division; \<open>n\<close> is \<open>shift + 1\<close>.\<close>

fun uint_div_loop :: "base_uint \<Rightarrow> base_uint \<Rightarrow> base_uint \<Rightarrow> nat \<Rightarrow> base_uint" where
  "uint_div_loop pn num dv 0 = pn"
| "uint_div_loop pn num dv (Suc shift) =
     (let (num', pn') =
        (if CompareTo num dv \<ge> 0
         then (uint_sub num dv, or_at (shift div 32) (push_bit (shift mod 32) 1) pn)
         else (num, pn))
      in uint_div_loop pn' num' (uint_shr dv 1) shift)"

definition uint_div :: "base_uint \<Rightarrow> base_uint \<Rightarrow> base_uint uint_result" where
  "uint_div a b =
     (let num_bits = uint_bits a; div_bits = uint_bits b in
      if div_bits = 0 then Throw (Uint_error ''Division by zero'')
      else if div_bits > num_bits then Ok (replicate (length a) 0)
      else
        let shift = num_bits - div_bits
        in Ok (uint_div_loop (replicate (length a) 0) a (uint_shl b shift) (shift + 1)))"

definition GetLow64 :: "base_uint \<Rightarrow> u64" where
  "GetLow64 pn = ucast (pn ! 0) OR push_bit 32 (ucast (pn ! 1))"

subsection \<open>Compact numbers\<close>

text \<open>\<open>SetCompact\<close> with the values of \<open>*this\<close>, \<open>*pfNegative\<close> and \<open>*pfOverflow\<close>.\<close>

definition SetCompact :: "u32 \<Rightarrow> arith_uint256 \<times> bool \<times> bool" where
  "SetCompact nCompact =
     (let nSize = unat (drop_bit 24 nCompact);
          nWord0 = nCompact AND 0x007fffff;
          nWord = (if nSize \<le> 3 then drop_bit (8 * (3 - nSize)) nWord0 else nWord0);
          this = (if nSize \<le> 3 then uint_of_u64 (ucast nWord)
                  else uint_shl (uint_of_u64 (ucast nWord)) (8 * (nSize - 3)))
      in (this,
          nWord \<noteq> 0 \<and> nCompact AND 0x00800000 \<noteq> 0,
          nWord \<noteq> 0 \<and> (nSize > 34 \<or> (nWord > 0xff \<and> nSize > 33) \<or> (nWord > 0xffff \<and> nSize > 32))))"

definition GetCompact :: "arith_uint256 \<Rightarrow> bool \<Rightarrow> u32 uint_result" where
  "GetCompact this fNegative =
     (let nSize = (uint_bits this + 7) div 8;
          nCompact = (if nSize \<le> 3 then ucast (push_bit (8 * (3 - nSize)) (GetLow64 this))
                      else ucast (GetLow64 (uint_shr this (8 * (nSize - 3)))) :: u32);
          (nCompact, nSize) =
            (if nCompact AND 0x00800000 \<noteq> 0 then (drop_bit 8 nCompact, nSize + 1) else (nCompact, nSize))
      in bindO (assertO (nCompact AND NOT 0x007fffff = 0)) (\<lambda>_.
         bindO (assertO (nSize < 256)) (\<lambda>_.
         let nCompact = nCompact OR push_bit 24 (of_nat nSize) in
         Ok (nCompact OR (if fNegative \<and> nCompact AND 0x007fffff \<noteq> 0 then 0x00800000 else 0)))))"

definition ArithToUint256 :: "arith_uint256 \<Rightarrow> uint256" where
  "ArithToUint256 a = concat (map WriteLE32 a)"

fun UintToArith_loop :: "nat \<Rightarrow> byte list \<Rightarrow> base_uint" where
  "UintToArith_loop 0 a = []"
| "UintToArith_loop (Suc x) a = ReadLE32 a # UintToArith_loop x (drop 4 a)"

definition UintToArith256 :: "uint256 \<Rightarrow> arith_uint256" where
  "UintToArith256 a = UintToArith_loop WIDTH a"

subsection \<open>Values\<close>

fun uval :: "base_uint \<Rightarrow> nat" where
  "uval [] = 0"
| "uval (p # pn) = unat p + 2 ^ 32 * uval pn"

named_theorems uval_simps \<open>values of the operations on limbs\<close>

lemma unat_u32: "unat (p :: u32) < 2 ^ 32"
  using unat_bound [of p] by simp

lemma uval_bound: "uval pn < 2 ^ (32 * length pn)"
proof (induction pn)
  case (Cons p pn)
  have "unat p + 2 ^ 32 * uval pn < 2 ^ 32 * Suc (uval pn)"
    using unat_u32 [of p] by simp
  also have "\<dots> \<le> 2 ^ 32 * 2 ^ (32 * length pn)" using Cons by (intro mult_left_mono) simp_all
  finally show ?case by (simp add: power_add)
qed simp

lemma uval_append: "uval (xs @ ys) = uval xs + 2 ^ (32 * length xs) * uval ys"
  by (induction xs) (simp_all add: algebra_simps power_add)

lemma uval_replicate_0 [simp, uval_simps]: "uval (replicate n 0) = 0"
  by (induction n) simp_all

lemma uval_eq_0: "uval pn = 0 \<longleftrightarrow> list_all (\<lambda>p. p = 0) pn"
  by (induction pn) (auto simp: unat_eq_0)

lemma uval_inject: "length xs = length ys \<Longrightarrow> uval xs = uval ys \<Longrightarrow> xs = ys"
proof (induction xs ys rule: list_induct2)
  case (Cons x xs y ys)
  have "(unat x + 2 ^ 32 * uval xs) mod 2 ^ 32 = (unat y + 2 ^ 32 * uval ys) mod 2 ^ 32"
    "(unat x + 2 ^ 32 * uval xs) div 2 ^ 32 = (unat y + 2 ^ 32 * uval ys) div 2 ^ 32"
    using Cons.prems by simp_all
  then have "unat x = unat y" "uval xs = uval ys" using unat_u32 [of x] unat_u32 [of y] by simp_all
  then show ?case using Cons.IH by (simp add: word_unat_eq_iff)
qed simp

text \<open>One step of a carry loop: a 64-bit sum is its low limb and the carry.\<close>

lemma carry_step: "unat (ucast (n :: u64) :: u32) + 2 ^ 32 * unat (drop_bit 32 n) = unat n"
proof -
  have "unat (ucast n :: u32) = unat n mod 2 ^ 32"
    by (simp add: unsigned_ucast_eq take_bit_eq_mod)
  moreover have "unat (drop_bit 32 n) = unat n div 2 ^ 32"
    using unat_bound [of n]
    by (simp add: unsigned_drop_bit_eq drop_bit_eq_div [where 'a = nat] take_bit_nat_eq_self)
  ultimately show ?thesis by simp
qed

lemma unat_ucast_u64: "unat (ucast (p :: u32) :: u64) = unat p"
  using unat_u32 [of p] by (simp add: unsigned_ucast_eq take_bit_nat_eq_self)

lemma carry_small: "unat (n :: u64) < 2 ^ 32 * k \<Longrightarrow> unat (drop_bit 32 n) < k"
  using unat_bound [of n]
  by (simp add: unsigned_drop_bit_eq drop_bit_eq_div [where 'a = nat] take_bit_nat_eq_self
      div_less_iff_less_mult mult.commute)

lemma length_add_loop [simp]: "length (uint_add_loop carry xs ys) = min (length xs) (length ys)"
  by (induction carry xs ys rule: uint_add_loop.induct) (simp_all add: Let_def)

lemma mod_carry: "(a + 2 ^ 32 * (x mod 2 ^ k)) = (a + 2 ^ 32 * x) mod 2 ^ (32 + k)" if "a < 2 ^ 32" for a x k :: nat
proof -
  have "(a + 2 ^ 32 * x) mod (2 ^ 32 * 2 ^ k) = 2 ^ 32 * ((a + 2 ^ 32 * x) div 2 ^ 32 mod 2 ^ k) + (a + 2 ^ 32 * x) mod 2 ^ 32"
    by (rule mod_mult2_eq)
  then show ?thesis using that by (simp add: power_add)
qed

lemma uval_add_loop:
  assumes "length xs = length ys" "unat carry \<le> 1"
  shows "uval (uint_add_loop carry xs ys) = (unat carry + uval xs + uval ys) mod 2 ^ (32 * length xs)"
  using assms
proof (induction xs ys arbitrary: carry rule: list_induct2)
  case (Cons x xs y ys)
  define n where "n = carry + ucast x + (ucast y :: u64)"
  have n: "unat n = unat carry + unat x + unat y"
    using Cons.prems unat_u32 [of x] unat_u32 [of y]
    by (simp add: n_def unat_word_ariths unat_ucast_u64)
  have "unat (drop_bit 32 n) < 2"
    by (rule carry_small) (use n Cons.prems unat_u32 [of x] unat_u32 [of y] in simp)
  then have IH: "uval (uint_add_loop (drop_bit 32 n) xs ys) =
      (unat (drop_bit 32 n) + uval xs + uval ys) mod 2 ^ (32 * length xs)" by (intro Cons.IH) simp
  have "uval (uint_add_loop carry (x # xs) (y # ys)) =
      unat (ucast n :: u32) + 2 ^ 32 * ((unat (drop_bit 32 n) + uval xs + uval ys) mod 2 ^ (32 * length xs))"
    by (simp add: n_def [symmetric] IH)
  also have "\<dots> = (unat (ucast n :: u32) + 2 ^ 32 * (unat (drop_bit 32 n) + uval xs + uval ys)) mod
      2 ^ (32 + 32 * length xs)"
    by (rule mod_carry [OF unat_u32])
  also have "unat (ucast n :: u32) + 2 ^ 32 * (unat (drop_bit 32 n) + uval xs + uval ys) =
      unat n + 2 ^ 32 * (uval xs + uval ys)"
    using carry_step [of n] by simp
  finally show ?case by (simp add: n algebra_simps)
qed simp

lemma length_ops [simp]:
  "length (uint_inc pn) = length pn" "length (uint_dec pn) = length pn"
  "length (uint_not pn) = length pn" "length (uint_neg pn) = length pn"
  "length (uint_add pn b) = min (length pn) (length b)"
  "length (uint_sub pn b) = min (length pn) (length b)"
proof -
  have inc: "length (uint_inc xs) = length xs" "length (uint_dec xs) = length xs" for xs
    by (induction xs) (simp_all add: Let_def)
  then show "length (uint_inc pn) = length pn" "length (uint_dec pn) = length pn"
    "length (uint_not pn) = length pn" "length (uint_neg pn) = length pn"
    "length (uint_add pn b) = min (length pn) (length b)"
    "length (uint_sub pn b) = min (length pn) (length b)"
    by (simp_all add: uint_not_def uint_neg_def uint_add_def uint_sub_def)
qed

lemma uval_add [uval_simps]:
  "length xs = length ys \<Longrightarrow> uval (uint_add xs ys) = (uval xs + uval ys) mod 2 ^ (32 * length xs)"
  by (simp add: uint_add_def uval_add_loop)

lemma unat_minus_1: "unat (-1 :: u32) = 2 ^ 32 - 1"
  using unsigned_minus_1_eq_mask [where 'a = nat and 'b = 32] by (simp add: mask_eq_exp_minus_1)

lemma unat_NOT: "unat (NOT p) + unat p + 1 = 2 ^ 32" for p :: u32
proof -
  have "NOT p = -1 - p" unfolding not_eq_complement by (simp only: diff_conv_add_uminus add.commute)
  then have "unat (NOT p) = unat (-1 - p)" by simp
  also have "\<dots> = unat (-1 :: u32) - unat p" by (rule unat_sub) simp
  finally show ?thesis using unat_u32 [of p] by (simp add: unat_minus_1)
qed

lemma uval_not: "uval (uint_not pn) + uval pn + 1 = 2 ^ (32 * length pn)"
proof (induction pn)
  case (Cons p pn)
  have "uval (uint_not (p # pn)) + uval (p # pn) + 1 =
      (unat (NOT p) + unat p + 1) + 2 ^ 32 * (uval (uint_not pn) + uval pn)"
    by (simp add: uint_not_def algebra_simps)
  also have "\<dots> = 2 ^ 32 * (uval (uint_not pn) + uval pn + 1)" by (simp only: unat_NOT) simp
  also have "\<dots> = 2 ^ (32 * length (p # pn))" by (simp only: Cons) (simp add: power_add)
  finally show ?case .
qed (simp add: uint_not_def)

lemma uval_inc [uval_simps]: "uval (uint_inc pn) = (uval pn + 1) mod 2 ^ (32 * length pn)"
proof (induction pn)
  case (Cons p pn)
  show ?case
  proof (cases "p + 1 = 0")
    case True
    then have "p = -1" by (simp add: eq_neg_iff_add_eq_0)
    then have p: "unat p + 1 = 2 ^ 32" by (simp add: unat_minus_1)
    have "uval (uint_inc (p # pn)) = 0 + 2 ^ 32 * ((uval pn + 1) mod 2 ^ (32 * length pn))"
      using True Cons by simp
    also have "\<dots> = (0 + 2 ^ 32 * (uval pn + 1)) mod 2 ^ (32 + 32 * length pn)" by (rule mod_carry) simp
    also have "0 + 2 ^ 32 * (uval pn + 1) = uval (p # pn) + 1" using p by simp
    finally show ?thesis by simp
  next
    case False
    then have "unat (p + 1) = unat p + 1" using unatSuc [of p] by (simp add: add.commute)
    then have "uval (uint_inc (p # pn)) = uval (p # pn) + 1" using False by simp
    moreover have "uval (uint_inc (p # pn)) < 2 ^ (32 * length (p # pn))"
      using uval_bound [of "uint_inc (p # pn)"] by (simp only: length_ops)
    ultimately show ?thesis by simp
  qed
qed simp

lemma uval_neg [uval_simps]:
  "uval (uint_neg pn) = (2 ^ (32 * length pn) - uval pn) mod 2 ^ (32 * length pn)"
proof -
  have "uval (uint_not pn) + 1 = 2 ^ (32 * length pn) - uval pn" using uval_not [of pn] by simp
  then show ?thesis by (simp add: uint_neg_def uval_inc)
qed

lemma uval_sub [uval_simps]:
  assumes "length xs = length ys" "uval ys \<le> uval xs"
  shows "uval (uint_sub xs ys) = uval xs - uval ys"
proof -
  let ?M = "2 ^ (32 * length ys) :: nat"
  have "uval (uint_sub xs ys) = (uval xs + (?M - uval ys) mod ?M) mod ?M"
    using assms(1) by (simp add: uint_sub_def uval_add uval_neg)
  also have "\<dots> = (uval xs + (?M - uval ys)) mod ?M" by (rule mod_add_right_eq)
  also have "uval xs + (?M - uval ys) = (uval xs - uval ys) + ?M"
    using assms(2) uval_bound [of ys] by simp
  also have "\<dots> mod ?M = (uval xs - uval ys) mod ?M" by (rule mod_add_self2)
  also have "\<dots> = uval xs - uval ys"
    using uval_bound [of xs] assms(1) by (intro mod_less less_imp_diff_less) simp
  finally show ?thesis .
qed

lemma uval_dec: "uval pn \<noteq> 0 \<Longrightarrow> uval (uint_dec pn) = uval pn - 1"
proof (induction pn)
  case (Cons p pn)
  show ?case
  proof (cases "p = 0")
    case True
    then have "uval pn \<noteq> 0" using Cons.prems by simp
    then show ?thesis using True Cons.IH by (simp add: unat_minus_1 algebra_simps)
  next
    case False
    then have "unat (p - 1) = unat p - 1" "p - 1 \<noteq> -1" "unat p \<noteq> 0"
      by (simp_all add: unat_minus_one unat_eq_0)
    then show ?thesis by simp
  qed
qed simp

subsection \<open>Multiplication\<close>

lemma limb_product: "unat (x :: u32) * unat (y :: u32) \<le> (2 ^ 32 - 1) * (2 ^ 32 - 1)"
  using unat_u32 [of x] unat_u32 [of y] by (intro mult_mono) simp_all

lemma length_mul32_loop [simp]: "length (uint_mul32_loop c b pn) = length pn"
  by (induction c b pn rule: uint_mul32_loop.induct) (simp_all add: Let_def)

lemma length_mul_row [simp]: "length (uint_mul_row c a pn bs) = min (length pn) (length bs)"
  by (induction c a pn bs rule: uint_mul_row.induct) (simp_all add: Let_def)

lemma uval_mul32_loop:
  "unat carry < 2 ^ 32 \<Longrightarrow>
   uval (uint_mul32_loop carry b pn) = (unat carry + unat b * uval pn) mod 2 ^ (32 * length pn)"
proof (induction pn arbitrary: carry)
  case (Cons p pn)
  define n where "n = carry + ucast b * (ucast p :: u64)"
  have n: "unat n = unat carry + unat b * unat p"
    using Cons.prems limb_product [of b p] by (simp add: n_def unat_word_ariths unat_ucast_u64)
  have "unat (drop_bit 32 n) < 2 ^ 32"
    by (rule carry_small) (use n Cons.prems limb_product [of b p] in simp)
  then have IH: "uval (uint_mul32_loop (drop_bit 32 n) b pn) =
      (unat (drop_bit 32 n) + unat b * uval pn) mod 2 ^ (32 * length pn)" by (rule Cons.IH)
  have "uval (uint_mul32_loop carry b (p # pn)) =
      unat (ucast n :: u32) + 2 ^ 32 * ((unat (drop_bit 32 n) + unat b * uval pn) mod 2 ^ (32 * length pn))"
    by (simp add: n_def [symmetric] IH)
  also have "\<dots> = (unat (ucast n :: u32) + 2 ^ 32 * (unat (drop_bit 32 n) + unat b * uval pn)) mod
      2 ^ (32 + 32 * length pn)"
    by (rule mod_carry [OF unat_u32])
  also have "unat (ucast n :: u32) + 2 ^ 32 * (unat (drop_bit 32 n) + unat b * uval pn) =
      unat n + 2 ^ 32 * (unat b * uval pn)"
    using carry_step [of n] by simp
  finally show ?case by (simp add: n algebra_simps)
qed simp

lemma uval_mul32 [uval_simps]: "uval (uint_mul32 pn b) = (uval pn * unat b) mod 2 ^ (32 * length pn)"
  by (simp add: uint_mul32_def uval_mul32_loop mult.commute)

text \<open>A row keeps the lower limbs of \<open>pn + aj * b\<close>.\<close>

lemma uval_mul_row:
  "length pn \<le> length b \<Longrightarrow> unat carry < 2 ^ 32 \<Longrightarrow>
   uval (uint_mul_row carry aj pn b) = (unat carry + uval pn + unat aj * uval b) mod 2 ^ (32 * length pn)"
proof (induction pn arbitrary: carry b)
  case (Cons p pn)
  then obtain bi bs where b: "b = bi # bs" "length pn \<le> length bs" by (cases b) auto
  define n where "n = carry + ucast p + ucast aj * (ucast bi :: u64)"
  have n: "unat n = unat carry + unat p + unat aj * unat bi"
    using Cons.prems limb_product [of aj bi] unat_u32 [of p]
    by (simp add: n_def unat_word_ariths unat_ucast_u64)
  have "unat (drop_bit 32 n) < 2 ^ 32"
    by (rule carry_small) (use n Cons.prems limb_product [of aj bi] unat_u32 [of p] in simp)
  then have IH: "uval (uint_mul_row (drop_bit 32 n) aj pn bs) =
      (unat (drop_bit 32 n) + uval pn + unat aj * uval bs) mod 2 ^ (32 * length pn)"
    using b(2) by (intro Cons.IH)
  have "uval (uint_mul_row carry aj (p # pn) b) = unat (ucast n :: u32) +
      2 ^ 32 * ((unat (drop_bit 32 n) + uval pn + unat aj * uval bs) mod 2 ^ (32 * length pn))"
    by (simp add: b n_def [symmetric] IH)
  also have "\<dots> = (unat (ucast n :: u32) + 2 ^ 32 * (unat (drop_bit 32 n) + uval pn + unat aj * uval bs)) mod
      2 ^ (32 + 32 * length pn)"
    by (rule mod_carry [OF unat_u32])
  also have "unat (ucast n :: u32) + 2 ^ 32 * (unat (drop_bit 32 n) + uval pn + unat aj * uval bs) =
      unat n + 2 ^ 32 * (uval pn + unat aj * uval bs)"
    using carry_step [of n] by simp
  finally show ?case by (simp add: n b algebra_simps)
qed simp

lemma uval_mul_loop:
  "length a = length pn \<Longrightarrow> length pn \<le> length b \<Longrightarrow>
   uval (uint_mul_loop a b pn) = (uval pn + uval a * uval b) mod 2 ^ (32 * length pn) \<and>
   length (uint_mul_loop a b pn) = length pn"
proof (induction a arbitrary: pn)
  case (Cons aj a)
  then obtain p pn0 where pn: "pn = p # pn0" by (cases pn) auto
  define r where "r = uint_mul_row 0 aj pn b"
  have "length r = length pn" using Cons.prems by (simp add: r_def)
  then obtain q r0 where r: "r = q # r0" "length r0 = length pn0" using pn by (cases r) auto
  have row: "unat q + 2 ^ 32 * uval r0 = (uval pn + unat aj * uval b) mod 2 ^ (32 * length pn)"
    using uval_mul_row [of pn b 0 aj] Cons.prems r by (simp add: r_def)
  have IH: "uval (uint_mul_loop a b r0) = (uval r0 + uval a * uval b) mod 2 ^ (32 * length pn0)"
    "length (uint_mul_loop a b r0) = length pn0"
    using Cons.IH [of r0] Cons.prems r pn by auto
  have "uval (uint_mul_loop (aj # a) b pn) = unat q + 2 ^ 32 * ((uval r0 + uval a * uval b) mod 2 ^ (32 * length pn0))"
    using r IH by (simp add: pn r_def [unfolded pn, symmetric] Let_def)
  also have "\<dots> = (unat q + 2 ^ 32 * (uval r0 + uval a * uval b)) mod 2 ^ (32 + 32 * length pn0)"
    by (rule mod_carry [OF unat_u32])
  also have "unat q + 2 ^ 32 * (uval r0 + uval a * uval b) =
      (uval pn + unat aj * uval b) mod 2 ^ (32 * length pn) + 2 ^ 32 * (uval a * uval b)"
    using row by (simp add: algebra_simps)
  also have "\<dots> mod 2 ^ (32 + 32 * length pn0) =
      (uval pn + unat aj * uval b + 2 ^ 32 * (uval a * uval b)) mod 2 ^ (32 + 32 * length pn0)"
    by (simp add: pn mod_add_left_eq)
  finally show ?case using IH r by (simp add: pn r_def [unfolded pn, symmetric] Let_def algebra_simps)
qed simp

lemma uval_mul [uval_simps]:
  assumes "length a = length b"
  shows "uval (uint_mul a b) = (uval a * uval b) mod 2 ^ (32 * length a)" "length (uint_mul a b) = length a"
  using uval_mul_loop [of a "replicate (length a) 0" b] assms by (simp_all add: uint_mul_def)

subsection \<open>Bits of a value\<close>

lemma bit_limb_add:
  fixes a b :: nat
  assumes "a < 2 ^ 32"
  shows "bit (a + 2 ^ 32 * b) n \<longleftrightarrow> (if n < 32 then bit a n else bit b (n - 32))"
proof -
  have a: "\<not> bit a n" if "32 \<le> n" for n
    using assms that by (metis bit_take_bit_iff linorder_not_le take_bit_nat_eq_self)
  have "a + push_bit 32 b = a OR push_bit 32 b"
    by (rule disjunctive_add) (use a in \<open>auto simp: bit_push_bit_iff_nat not_le\<close>)
  then have "a + 2 ^ 32 * b = a OR push_bit 32 b" by (simp add: push_bit_nat_def mult.commute)
  then show ?thesis using a by (auto simp: bit_or_iff bit_push_bit_iff_nat not_le)
qed

lemma bit_uval: "bit (uval pn) n \<longleftrightarrow> n div 32 < length pn \<and> bit (pn ! (n div 32)) (n mod 32)"
proof (induction pn arbitrary: n)
  case (Cons p pn)
  show ?case
  proof (cases "n < 32")
    case True
    then show ?thesis using bit_limb_add [OF unat_u32, of p "uval pn" n] by (simp add: bit_unsigned_iff)
  next
    case False
    then have "n div 32 = Suc ((n - 32) div 32)" "n mod 32 = (n - 32) mod 32"
      by (simp_all add: le_div_geq le_mod_geq)
    then show ?thesis using False Cons bit_limb_add [OF unat_u32, of p "uval pn" n] by simp
  qed
qed simp

text \<open>The limbs of a left shift after the first \<open>m\<close> rounds of the loop.\<close>

definition shl_limb :: "base_uint \<Rightarrow> nat \<Rightarrow> nat \<Rightarrow> nat \<Rightarrow> nat \<Rightarrow> u32" where
  "shl_limb a k s m j =
     (if k \<le> j \<and> j - k < m then push_bit s (a ! (j - k)) else 0) OR
     (if k + 1 \<le> j \<and> j - k - 1 < m \<and> s \<noteq> 0 then drop_bit (32 - s) (a ! (j - k - 1)) else 0)"

definition shl_step :: "base_uint \<Rightarrow> nat \<Rightarrow> nat \<Rightarrow> nat \<Rightarrow> base_uint \<Rightarrow> base_uint" where
  "shl_step a k s i pn =
     (let pn = (if i + k + 1 < length a \<and> s \<noteq> 0 then or_at (i + k + 1) (drop_bit (32 - s) (a ! i)) pn else pn)
      in if i + k < length a then or_at (i + k) (push_bit s (a ! i)) pn else pn)"

lemma shl_fold:
  "m \<le> length a \<Longrightarrow>
   length (fold (shl_step a k s) [0..<m] (replicate (length a) 0)) = length a \<and>
   (\<forall>j<length a. fold (shl_step a k s) [0..<m] (replicate (length a) 0) ! j = shl_limb a k s m j)"
proof (induction m)
  case (Suc m)
  let ?pn = "fold (shl_step a k s) [0..<m] (replicate (length a) 0)"
  have IH: "length ?pn = length a" "\<And>j. j < length a \<Longrightarrow> ?pn ! j = shl_limb a k s m j"
    using Suc by auto
  have "shl_step a k s m ?pn ! j = shl_limb a k s (Suc m) j" if j: "j < length a" for j
  proof -
    consider "j = m + k" | "j = m + k + 1" | "j \<noteq> m + k" "j \<noteq> m + k + 1" by blast
    then show ?thesis
    proof cases
      case 1
      then show ?thesis using j IH
        by (auto simp: shl_step_def or_at_def shl_limb_def nth_list_update Let_def or.commute)
    next
      case 2
      then show ?thesis using j IH by (auto simp: shl_step_def or_at_def shl_limb_def nth_list_update Let_def)
    next
      case 3
      then have "j - k < Suc m \<longleftrightarrow> j - k < m" if "k \<le> j" using that by auto
      moreover have "j - k - 1 < Suc m \<longleftrightarrow> j - k - 1 < m" if "k + 1 \<le> j" using that 3 by auto
      ultimately show ?thesis using 3 j IH
        by (auto simp: shl_step_def or_at_def shl_limb_def nth_list_update Let_def)
    qed
  qed
  moreover have "length (shl_step a k s m ?pn) = length a"
    using IH by (simp add: shl_step_def or_at_def Let_def)
  ultimately show ?case by simp
qed (simp add: shl_limb_def)

lemma uint_shl_nth:
  "length (uint_shl a shift) = length a"
  "j < length a \<Longrightarrow> uint_shl a shift ! j = shl_limb a (shift div 32) (shift mod 32) (length a) j"
  using shl_fold [of "length a" a "shift div 32" "shift mod 32"]
  by (simp_all add: uint_shl_def Let_def shl_step_def [abs_def])

text \<open>Bit \<open>r\<close> of limb \<open>j\<close>, moved down by \<open>32 k + s\<close> positions.\<close>

lemma shift_position:
  assumes "(r :: nat) < 32" "s < 32" "32 * k + s \<le> 32 * j + r"
  shows "(32 * j + r - (32 * k + s)) div 32 = (if s \<le> r then j - k else j - k - 1) \<and>
         (32 * j + r - (32 * k + s)) mod 32 = (if s \<le> r then r - s else r + 32 - s)"
proof -
  have q: "(32 * q + x) div 32 = q \<and> (32 * q + x) mod 32 = x" if "x < 32" for q x :: nat
    using that by simp
  show ?thesis
  proof (cases "s \<le> r")
    case True
    then have "k \<le> j" using assms by linarith
    then have eq: "32 * j + r - (32 * k + s) = 32 * (j - k) + (r - s)" using True by (simp add: diff_mult_distrib2)
    show ?thesis unfolding eq using q [of "r - s" "j - k"] True assms by (simp only: if_True)
  next
    case False
    then have "k + 1 \<le> j" using assms by linarith
    then obtain d where "j = k + 1 + d" using le_Suc_ex by blast
    then have eq: "32 * j + r - (32 * k + s) = 32 * (j - k - 1) + (r + 32 - s)"
      using False assms by simp
    show ?thesis unfolding eq using q [of "r + 32 - s" "j - k - 1"] False assms by (simp only: if_False)
  qed
qed

lemma bit_u32: "bit (w :: u32) n \<Longrightarrow> n < 32"
  using bit_imp_le_length [of w n] by simp

lemma bit_shl_limb:
  assumes "r < 32" "j < length a" "s < 32"
  shows "bit (shl_limb a k s (length a) j) r \<longleftrightarrow>
    32 * k + s \<le> 32 * j + r \<and> bit (uval a) (32 * j + r - (32 * k + s))"
proof (cases "32 * k + s \<le> 32 * j + r")
  case True
  note pos = shift_position [OF assms(1,3) True]
  show ?thesis
  proof (cases "s \<le> r")
    case s: True
    then have "k \<le> j" using True assms by linarith
    then show ?thesis using True s pos assms
      by (auto simp: shl_limb_def bit_uval bit_or_iff bit_push_bit_iff bit_drop_bit_eq dest: bit_u32)
  next
    case s: False
    then have "k + 1 \<le> j" using True assms by linarith
    then show ?thesis using True s pos assms
      by (auto simp: shl_limb_def bit_uval bit_or_iff bit_push_bit_iff bit_drop_bit_eq add.commute)
  qed
next
  case False
  then have "j < k \<or> j = k \<and> r < s" using assms by linarith
  then show ?thesis using False assms by (auto simp: shl_limb_def bit_or_iff bit_push_bit_iff)
qed

lemma uval_shl [uval_simps]: "uval (uint_shl a shift) = (uval a * 2 ^ shift) mod 2 ^ (32 * length a)"
proof -
  have "uval (uint_shl a shift) = take_bit (32 * length a) (push_bit shift (uval a))"
  proof (rule bit_eqI)
    fix n :: nat
    have n: "32 * (n div 32) + n mod 32 = n" "32 * (shift div 32) + shift mod 32 = shift" by simp_all
    show "bit (uval (uint_shl a shift)) n = bit (take_bit (32 * length a) (push_bit shift (uval a))) n"
    proof (cases "n div 32 < length a")
      case True
      then have "n < 32 * length a" by (simp add: div_less_iff_less_mult mult.commute)
      then show ?thesis
        using bit_shl_limb [of "n mod 32" "n div 32" a "shift mod 32" "shift div 32"] n
        by (simp add: True bit_uval [of "uint_shl a shift"] uint_shl_nth bit_take_bit_iff bit_push_bit_iff_nat)
    next
      case False
      then have "\<not> n < 32 * length a" by (simp add: div_less_iff_less_mult mult.commute)
      then show ?thesis using False by (simp add: bit_uval [of "uint_shl a shift"] uint_shl_nth bit_take_bit_iff)
    qed
  qed
  then show ?thesis by (simp add: take_bit_eq_mod push_bit_eq_mult)
qed

text \<open>Likewise for the right shift.\<close>

definition shr_limb :: "base_uint \<Rightarrow> nat \<Rightarrow> nat \<Rightarrow> nat \<Rightarrow> nat \<Rightarrow> u32" where
  "shr_limb a k s m j =
     (if j + k < m then drop_bit s (a ! (j + k)) else 0) OR
     (if j + k + 1 < m \<and> s \<noteq> 0 then push_bit (32 - s) (a ! (j + k + 1)) else 0)"

definition shr_step :: "base_uint \<Rightarrow> nat \<Rightarrow> nat \<Rightarrow> nat \<Rightarrow> base_uint \<Rightarrow> base_uint" where
  "shr_step a k s i pn =
     (let pn = (if i \<ge> k + 1 \<and> s \<noteq> 0 then or_at (i - k - 1) (push_bit (32 - s) (a ! i)) pn else pn)
      in if i \<ge> k then or_at (i - k) (drop_bit s (a ! i)) pn else pn)"

lemma shr_step_nth:
  assumes "length pn = length a" "\<And>j. j < length a \<Longrightarrow> pn ! j = shr_limb a k s m j"
    and j: "j < length a" and m: "m < length a"
  shows "shr_step a k s m pn ! j = shr_limb a k s (Suc m) j"
proof -
  have pn: "pn ! j = shr_limb a k s m j" using assms by blast
  consider "j + k = m" | "j + k + 1 = m" | "j + k \<noteq> m" "j + k + 1 \<noteq> m" by blast
  then show ?thesis
    by cases (use assms(1) j m pn in
      \<open>auto simp: shr_step_def or_at_def shr_limb_def nth_list_update Let_def or.commute\<close>)
qed

lemma shr_fold:
  "m \<le> length a \<Longrightarrow>
   length (fold (shr_step a k s) [0..<m] (replicate (length a) 0)) = length a \<and>
   (\<forall>j<length a. fold (shr_step a k s) [0..<m] (replicate (length a) 0) ! j = shr_limb a k s m j)"
proof (induction m)
  case (Suc m)
  let ?pn = "fold (shr_step a k s) [0..<m] (replicate (length a) 0)"
  have IH: "length ?pn = length a" "\<And>j. j < length a \<Longrightarrow> ?pn ! j = shr_limb a k s m j"
    using Suc by auto
  have m: "m < length a" using Suc by simp
  have "shr_step a k s m ?pn ! j = shr_limb a k s (Suc m) j" if "j < length a" for j
    using shr_step_nth [OF IH that m] .
  moreover have "length (shr_step a k s m ?pn) = length a"
    using IH by (simp add: shr_step_def or_at_def Let_def)
  ultimately show ?case by simp
qed (simp add: shr_limb_def)

lemma uint_shr_nth:
  "length (uint_shr a shift) = length a"
  "j < length a \<Longrightarrow> uint_shr a shift ! j = shr_limb a (shift div 32) (shift mod 32) (length a) j"
  using shr_fold [of "length a" a "shift div 32" "shift mod 32"]
  by (simp_all add: uint_shr_def Let_def shr_step_def [abs_def])

lemma shift_position_up:
  assumes "(r :: nat) < 32" "s < 32"
  shows "(32 * j + r + (32 * k + s)) div 32 = (if r + s < 32 then j + k else j + k + 1) \<and>
         (32 * j + r + (32 * k + s)) mod 32 = (if r + s < 32 then r + s else r + s - 32)"
proof -
  have q: "(32 * q + x) div 32 = q \<and> (32 * q + x) mod 32 = x" if "x < 32" for q x :: nat
    using that by simp
  show ?thesis
  proof (cases "r + s < 32")
    case True
    have eq: "32 * j + r + (32 * k + s) = 32 * (j + k) + (r + s)" by simp
    show ?thesis unfolding eq using q [OF True] True by (simp only: if_True)
  next
    case False
    have eq: "32 * j + r + (32 * k + s) = 32 * (j + k + 1) + (r + s - 32)" using False by simp
    have "r + s - 32 < 32" using assms by simp
    then show ?thesis unfolding eq using q [of "r + s - 32" "j + k + 1"] False by (simp only: if_False)
  qed
qed

lemma bit_shr_limb:
  assumes "r < 32" "s < 32"
  shows "bit (shr_limb a k s (length a) j) r \<longleftrightarrow> bit (uval a) (32 * j + r + (32 * k + s))"
proof -
  note pos = shift_position_up [OF assms, of j k]
  show ?thesis
  proof (cases "r + s < 32")
    case True
    then show ?thesis using pos assms
      by (auto simp: shr_limb_def bit_uval bit_or_iff bit_push_bit_iff bit_drop_bit_eq add.commute)
  next
    case False
    then show ?thesis using pos assms
      by (auto simp: shr_limb_def bit_uval bit_or_iff bit_push_bit_iff bit_drop_bit_eq add.commute
          dest: bit_u32)
  qed
qed

lemma uval_shr [uval_simps]: "uval (uint_shr a shift) = uval a div 2 ^ shift"
proof -
  have "uval (uint_shr a shift) = drop_bit shift (uval a)"
  proof (rule bit_eqI)
    fix n :: nat
    have n: "32 * (n div 32) + n mod 32 = n" "32 * (shift div 32) + shift mod 32 = shift" by simp_all
    show "bit (uval (uint_shr a shift)) n = bit (drop_bit shift (uval a)) n"
    proof (cases "n div 32 < length a")
      case True
      show ?thesis
        using bit_shr_limb [of "n mod 32" "shift mod 32" a "shift div 32" "n div 32"] n
        by (simp add: True bit_uval [of "uint_shr a shift"] uint_shr_nth bit_drop_bit_eq add.commute)
    next
      case False
      then have "\<not> (shift + n) div 32 < length a" by (simp add: div_less_iff_less_mult)
      then have "\<not> bit (uval a) (shift + n)" by (simp only: bit_uval) simp
      then show ?thesis using False
        by (simp add: bit_uval [of "uint_shr a shift"] uint_shr_nth bit_drop_bit_eq)
    qed
  qed
  then show ?thesis by (simp add: drop_bit_eq_div)
qed

subsection \<open>Comparison\<close>

lemma uval_rev_Cons: "uval (rev (x # xs)) = uval (rev xs) + 2 ^ (32 * length xs) * unat x"
  by (simp add: uval_append)

lemma compare_loop_uval:
  "length xs = length ys \<Longrightarrow>
   compare_loop xs ys = (if uval (rev xs) < uval (rev ys) then -1 else if uval (rev xs) = uval (rev ys) then 0 else 1)"
proof (induction xs ys rule: list_induct2)
  case (Cons x xs y ys)
  let ?B = "2 ^ (32 * length xs) :: nat"
  have b: "uval (rev xs) < ?B" "uval (rev ys) < ?B"
    using uval_bound [of "rev xs"] uval_bound [of "rev ys"] Cons.hyps by simp_all
  have less: "u + ?B * m < v + ?B * n" if "m < n" "u < ?B" for m n u v :: nat
  proof -
    have "u + ?B * m < ?B * Suc m" using that by simp
    also have "\<dots> \<le> ?B * n" using that by (intro mult_left_mono) simp_all
    finally show ?thesis by simp
  qed
  consider "x < y" | "x > y" | "x = y" by fastforce
  then show ?case
  proof cases
    case 1
    then show ?thesis using less [of "unat x" "unat y" "uval (rev xs)" "uval (rev ys)"] b Cons.hyps
      by (simp add: uval_append word_less_nat_alt)
  next
    case 2
    then show ?thesis using less [of "unat y" "unat x" "uval (rev ys)" "uval (rev xs)"] b Cons.hyps
      by (simp add: uval_append word_less_nat_alt)
  next
    case 3
    then show ?thesis using Cons by (simp add: uval_append)
  qed
qed simp

lemma CompareTo_uval:
  "length a = length b \<Longrightarrow>
   CompareTo a b = (if uval a < uval b then -1 else if uval a = uval b then 0 else 1)"
  using compare_loop_uval [of "rev a" "rev b"] by (simp add: CompareTo_def)

lemma uval_of_u64 [uval_simps]: "uval (uint_of_u64 b) = unat b"
  using carry_step [of b] unat_u32 [of "ucast (drop_bit 32 b)"] unat_bound [of b]
  by (simp add: uint_of_u64_def unsigned_ucast_eq unsigned_drop_bit_eq take_bit_nat_eq_self
      drop_bit_eq_div [where 'a = nat] take_bit_eq_mod div_less_iff_less_mult mod_less)

lemma length_of_u64 [simp]: "length (uint_of_u64 b) = WIDTH"
  by (simp add: uint_of_u64_def WIDTH_def)

subsection \<open>The number of bits\<close>

lemma top_bit: "x < 2 ^ Suc k \<Longrightarrow> bit x k \<longleftrightarrow> 2 ^ k \<le> x" for x :: nat
proof -
  assume x: "x < 2 ^ Suc k"
  then have "x div 2 ^ k < 2" by (simp add: div_less_iff_less_mult)
  then have "odd (x div 2 ^ k) \<longleftrightarrow> x div 2 ^ k \<ge> 1" by (cases "x div 2 ^ k") auto
  also have "\<dots> \<longleftrightarrow> 2 ^ k \<le> x" by (simp add: div_greater_zero_iff Suc_le_eq)
  finally show ?thesis by (simp add: bit_iff_odd)
qed

lemma bit_unat_u32: "bit (unat p) k \<longleftrightarrow> bit p k" for p :: u32
  by (simp add: bit_unsigned_iff)

lemma limb_bits:
  "p \<noteq> 0 \<Longrightarrow> unat p < 2 ^ Suc n \<Longrightarrow>
   limb_bits p n > 0 \<and> limb_bits p n \<le> Suc n \<and> 2 ^ (limb_bits p n - 1) \<le> unat p \<and> unat p < 2 ^ limb_bits p n"
proof (induction n)
  case 0
  then show ?case by (simp add: unat_eq_0 Suc_le_eq unat_gt_0)
next
  case (Suc n)
  have t: "(p AND push_bit (Suc n) 1 \<noteq> 0) \<longleftrightarrow> 2 ^ Suc n \<le> unat p"
    unfolding top_bit [OF Suc.prems(2), symmetric] bit_unat_u32 by (rule bit_iff_and_push_bit_not_eq_0 [symmetric])
  show ?case
  proof (cases "2 ^ Suc n \<le> unat p")
    case True
    then show ?thesis using t Suc.prems by simp
  next
    case False
    then show ?thesis using t Suc.IH Suc.prems(1) by simp
  qed
qed

lemma uint_bits_loop:
  "pos \<le> length pn \<Longrightarrow> uval (take pos pn) < 2 ^ uint_bits_loop pn pos \<and>
     uint_bits_loop pn pos \<le> 32 * pos \<and>
     (uint_bits_loop pn pos > 0 \<longrightarrow> 2 ^ (uint_bits_loop pn pos - 1) \<le> uval (take pos pn))"
proof (induction pos)
  case (Suc pos)
  have u: "uval (take (Suc pos) pn) = uval (take pos pn) + 2 ^ (32 * pos) * unat (pn ! pos)"
    using Suc.prems by (simp add: take_Suc_conv_app_nth uval_append)
  show ?case
  proof (cases "pn ! pos = 0")
    case True
    then show ?thesis using Suc u by simp
  next
    case False
    let ?p = "pn ! pos" and ?k = "limb_bits (pn ! pos) 31"
    have k: "?k > 0" "?k \<le> 32" "2 ^ (?k - 1) \<le> unat ?p" "unat ?p < 2 ^ ?k"
      using limb_bits [of ?p 31] False unat_u32 [of ?p] by simp_all
    have b: "uval (take pos pn) < 2 ^ (32 * pos)"
      using uval_bound [of "take pos pn"] Suc.prems by simp
    have "uval (take (Suc pos) pn) < 2 ^ (32 * pos) * Suc (unat ?p)" using u b by simp
    also have "\<dots> \<le> 2 ^ (32 * pos) * 2 ^ ?k" using k by (intro mult_left_mono) simp_all
    finally have hi: "uval (take (Suc pos) pn) < 2 ^ (32 * pos + ?k)" by (simp add: power_add)
    have "2 ^ (32 * pos + ?k - 1) = (2 :: nat) ^ (32 * pos) * 2 ^ (?k - 1)"
      using k(1) by (simp add: power_add [symmetric])
    also have "\<dots> \<le> 2 ^ (32 * pos) * unat ?p" using k(3) by (intro mult_left_mono) simp_all
    finally have "2 ^ (32 * pos + ?k - 1) \<le> uval (take (Suc pos) pn)" using u by simp
    then show ?thesis using False hi k by simp
  qed
qed simp

lemma uint_bits:
  "uval pn < 2 ^ uint_bits pn" "uint_bits pn \<le> 32 * length pn"
  "uint_bits pn > 0 \<Longrightarrow> 2 ^ (uint_bits pn - 1) \<le> uval pn"
  using uint_bits_loop [of "length pn" pn] by (simp_all add: uint_bits_def)

lemma uint_bits_0: "uint_bits pn = 0 \<longleftrightarrow> uval pn = 0"
proof
  assume "uval pn = 0"
  then show "uint_bits pn = 0" using uint_bits(3) [of pn] by (cases "uint_bits pn") simp_all
qed (use uint_bits(1) [of pn] in simp)

subsection \<open>Division\<close>

lemma uval_update:
  "i < length pn \<Longrightarrow> uval (pn[i := y]) + 2 ^ (32 * i) * unat (pn ! i) = uval pn + 2 ^ (32 * i) * unat y"
proof (induction pn arbitrary: i)
  case (Cons p pn)
  show ?case
  proof (cases i)
    case (Suc j)
    have "2 ^ 32 * (uval (pn[j := y]) + 2 ^ (32 * j) * unat (pn ! j)) = 2 ^ 32 * (uval pn + 2 ^ (32 * j) * unat y)"
      using Cons Suc by simp
    then show ?thesis using Suc by (simp add: algebra_simps power_add)
  qed simp
qed simp

lemma unat_or_bit: "\<not> bit p r \<Longrightarrow> r < 32 \<Longrightarrow> unat (p OR push_bit r 1) = unat p + 2 ^ r" for p :: u32
proof -
  assume a: "\<not> bit p r" "r < 32"
  have "unat (p OR push_bit r 1) = set_bit r (unat p)"
    by (rule bit_eqI) (use a in \<open>auto simp: bit_unsigned_iff bit_or_iff bit_set_bit_iff bit_exp_iff\<close>)
  then show ?thesis using a by (simp add: set_bit_eq bit_unat_u32)
qed

lemma uval_set_bit:
  assumes "n < 32 * length pn" "\<not> bit (uval pn) n"
  shows "uval (or_at (n div 32) (push_bit (n mod 32) 1) pn) = uval pn + 2 ^ n"
proof -
  have i: "n div 32 < length pn" using assms(1) by (simp add: div_less_iff_less_mult mult.commute)
  have "\<not> bit (pn ! (n div 32)) (n mod 32)" using assms(2) i by (simp add: bit_uval)
  then have "unat (pn ! (n div 32) OR push_bit (n mod 32) 1) = unat (pn ! (n div 32)) + 2 ^ (n mod 32)"
    by (rule unat_or_bit) simp
  moreover have "2 ^ (32 * (n div 32)) * 2 ^ (n mod 32) = (2 :: nat) ^ n"
    by (simp add: power_add [symmetric])
  ultimately show ?thesis
    using uval_update [OF i, of "pn ! (n div 32) OR push_bit (n mod 32) 1"]
    by (simp add: or_at_def algebra_simps)
qed

lemma length_or_at [simp]: "length (or_at i x pn) = length pn"
  by (simp add: or_at_def)

text \<open>
  Before the step at \<open>n\<close> the divisor is \<open>B * 2 ^ n\<close>, the remainder is below twice that, and only
  bits above \<open>n\<close> of the quotient are set.
\<close>

lemma uint_div_loop_uval:
  assumes "length dv = length num" "length pn = length num" "n \<le> 32 * length num"
    and "n > 0 \<Longrightarrow> uval dv = B * 2 ^ (n - 1)" "uval num < B * 2 ^ n" "2 ^ n dvd uval pn"
  shows "uval (uint_div_loop pn num dv n) = uval pn + uval num div B \<and>
         length (uint_div_loop pn num dv n) = length pn"
  using assms
proof (induction n arbitrary: pn num dv)
  case (Suc n)
  have dv: "uval dv = B * 2 ^ n" using Suc.prems by simp
  have sh: "n > 0 \<Longrightarrow> uval (uint_shr dv 1) = B * 2 ^ (n - 1)"
    using dv by (cases n) (simp_all add: uval_shr)
  have B: "B > 0" using Suc.prems(5) by (cases B) simp_all
  have dvd: "2 ^ n dvd uval pn" using Suc.prems(6) by (rule dvd_trans [rotated]) (simp add: le_imp_power_dvd)
  show ?case
  proof (cases "uval dv \<le> uval num")
    case True
    have nb: "\<not> bit (uval pn) n" using Suc.prems(6) by (auto simp: bit_iff_odd elim!: dvdE)
    have q: "uval (or_at (n div 32) (push_bit (n mod 32) 1) pn) = uval pn + 2 ^ n"
      by (rule uval_set_bit) (use Suc.prems nb in simp_all)
    have r: "uval (uint_sub num dv) = uval num - B * 2 ^ n"
      using True Suc.prems dv by (simp add: uval_sub)
    have "uval (uint_div_loop (or_at (n div 32) (push_bit (n mod 32) 1) pn) (uint_sub num dv) (uint_shr dv 1) n) =
        (uval pn + 2 ^ n) + (uval num - B * 2 ^ n) div B \<and>
        length (uint_div_loop (or_at (n div 32) (push_bit (n mod 32) 1) pn) (uint_sub num dv) (uint_shr dv 1) n) = length pn"
      using Suc.IH [of "uint_shr dv 1" "uint_sub num dv" "or_at (n div 32) (push_bit (n mod 32) 1) pn"]
        Suc.prems sh q r dvd by (simp add: uint_shr_nth)
    moreover have "uval num div B = 2 ^ n + (uval num - B * 2 ^ n) div B"
    proof -
      have "uval num = (uval num - B * 2 ^ n) + B * 2 ^ n" using True dv by simp
      then show ?thesis using B by (metis add.commute div_mult_self2 neq0_conv)
    qed
    ultimately show ?thesis using True Suc.prems by (simp add: CompareTo_uval)
  next
    case False
    then show ?thesis using Suc.IH [of "uint_shr dv 1" num pn] Suc.prems sh dvd dv
      by (simp add: CompareTo_uval uint_shr_nth)
  qed
qed simp

lemma uval_div:
  assumes len: "length a = length b" and nz: "uval b \<noteq> 0"
  shows "\<exists>q. uint_div a b = Ok q \<and> length q = length a \<and> uval q = uval a div uval b"
proof (cases "uint_bits b > uint_bits a")
  case True
  have "uval a < 2 ^ uint_bits a" by (rule uint_bits)
  also have "\<dots> \<le> 2 ^ (uint_bits b - 1)" using True by (intro power_increasing) simp_all
  also have "\<dots> \<le> uval b" using True by (intro uint_bits) simp
  finally show ?thesis using True nz by (simp add: uint_div_def Let_def)
next
  case False
  define n where "n = uint_bits a - uint_bits b"
  have pos: "uint_bits b > 0" using nz by (simp only: zero_less_iff_neq_zero uint_bits_0 not_False_eq_True simp_thms)
  have "uval b * 2 ^ n < 2 ^ uint_bits b * 2 ^ n" by (intro mult_strict_right_mono uint_bits) simp
  also have "\<dots> = 2 ^ uint_bits a" using False by (simp add: n_def power_add [symmetric])
  also have "\<dots> \<le> 2 ^ (32 * length b)" using uint_bits(2) [of a] len by (intro power_increasing) simp_all
  finally have dv: "uval (uint_shl b n) = uval b * 2 ^ n" by (simp add: uval_shl)
  have "uval a < 2 ^ uint_bits a" by (rule uint_bits)
  also have "\<dots> = 2 ^ (uint_bits b - 1) * 2 ^ (n + 1)"
    using False pos by (simp only: n_def power_add [symmetric]) simp
  also have "\<dots> \<le> uval b * 2 ^ (n + 1)" using pos by (intro mult_right_mono uint_bits) simp_all
  finally have num: "uval a < uval b * 2 ^ (n + 1)" .
  have "n + 1 \<le> 32 * length a" using uint_bits(2) [of a] pos False by (simp add: n_def)
  then show ?thesis
    using uint_div_loop_uval [of "uint_shl b n" a "replicate (length a) 0" "n + 1" "uval b"] False pos dv num len
    by (simp add: uint_div_def Let_def n_def [symmetric] uint_shl_nth)
qed

lemma uint_div_0: "uval b = 0 \<Longrightarrow> uint_div a b = Throw (Uint_error ''Division by zero'')"
  by (simp add: uint_div_def uint_bits_0 Let_def)

subsection \<open>Conversion to and from hashes\<close>

lemma le_val_ArithToUint256: "le_val (ArithToUint256 a) = uval a \<and> length (ArithToUint256 a) = 4 * length a"
proof (induction a)
  case (Cons p a)
  have "unat p < 256 ^ 4" using unat_u32 [of p] by simp
  then show ?case using Cons by (simp add: ArithToUint256_def WriteLE32_def le_simps)
qed (simp add: ArithToUint256_def)

lemma uval_UintToArith_loop:
  "4 * n \<le> length h \<Longrightarrow> uval (UintToArith_loop n h) = le_val (take (4 * n) h) \<and> length (UintToArith_loop n h) = n"
proof (induction n arbitrary: h)
  case (Suc n)
  have "take (4 * Suc n) h = take 4 h @ take (4 * n) (drop 4 h)" by (simp add: take_add [symmetric])
  then show ?case using Suc by (simp add: unat_ReadLE32 le_val_append min_def)
qed simp

lemma uval_UintToArith256: "length h = 32 \<Longrightarrow> uval (UintToArith256 h) = le_val h \<and> length (UintToArith256 h) = WIDTH"
  using uval_UintToArith_loop [of WIDTH h] by (simp add: UintToArith256_def WIDTH_def)

text \<open>
  C18: the 256-bit integers compute with natural numbers modulo \<open>2 ^ 256\<close>. With \<open>uval\<close> the number a
  limb array stands for, the sum, the difference, the product with a number and with a 32-bit
  word, the sum with a 64-bit word, the shifts, the increment and the negation are those of the numbers reduced modulo \<open>2 ^ 256\<close>;
  \<open>CompareTo\<close> is the order of the numbers; \<open>bits\<close> is the position above the highest set bit;
  the long division gives the quotient and throws exactly for a zero divisor; and the conversion
  to a \<open>uint256\<close> and back is the identity.
\<close>

theorem arith_uint256_refines:
  assumes "length a = WIDTH" "length b = WIDTH"
  shows "uval (uint_add a b) = (uval a + uval b) mod 2 ^ 256 \<and>
    uval (uint_sub a b) = (uval a + (2 ^ 256 - uval b)) mod 2 ^ 256 \<and>
    uval (uint_mul a b) = (uval a * uval b) mod 2 ^ 256 \<and>
    uval (uint_mul32 a w) = (uval a * unat w) mod 2 ^ 256 \<and>
    uval (uint_shl a s) = (uval a * 2 ^ s) mod 2 ^ 256 \<and>
    uval (uint_shr a s) = uval a div 2 ^ s \<and>
    uval (uint_inc a) = (uval a + 1) mod 2 ^ 256 \<and>
    uval (uint_add64 a x) = (uval a + unat x) mod 2 ^ 256 \<and>
    uval (uint_neg a) = (2 ^ 256 - uval a) mod 2 ^ 256 \<and>
    CompareTo a b = (if uval a < uval b then -1 else if uval a = uval b then 0 else 1) \<and>
    uval a < 2 ^ uint_bits a \<and> (uint_bits a > 0 \<longrightarrow> 2 ^ (uint_bits a - 1) \<le> uval a) \<and>
    (case uint_div a b of
       Ok q \<Rightarrow> uval b \<noteq> 0 \<and> length q = WIDTH \<and> uval q = uval a div uval b
     | Throw e \<Rightarrow> uval b = 0 \<and> e = Uint_error ''Division by zero''
     | _ \<Rightarrow> False) \<and>
    UintToArith256 (ArithToUint256 a) = a"
proof (intro conjI)
  have w: "32 * WIDTH = 256" by (simp add: WIDTH_def)
  show "uval (uint_sub a b) = (uval a + (2 ^ 256 - uval b)) mod 2 ^ 256"
    using assms by (simp add: uint_sub_def uval_add uval_neg w mod_add_right_eq)
  show "case uint_div a b of
       Ok q \<Rightarrow> uval b \<noteq> 0 \<and> length q = WIDTH \<and> uval q = uval a div uval b
     | Throw e \<Rightarrow> uval b = 0 \<and> e = Uint_error ''Division by zero''
     | _ \<Rightarrow> False"
    using uval_div [of a b] uint_div_0 [of b a] assms by (cases "uval b = 0") auto
  have "length (ArithToUint256 a) = 32" "le_val (ArithToUint256 a) = uval a"
    using le_val_ArithToUint256 [of a] assms by (simp_all add: WIDTH_def)
  then show "UintToArith256 (ArithToUint256 a) = a"
    using uval_UintToArith256 [of "ArithToUint256 a"] assms by (intro uval_inject) simp_all
qed (use assms uint_bits in \<open>simp_all add: uval_simps CompareTo_uval uint_add64_def WIDTH_def\<close>)

theorem arith_uint256_refines_witness:
  "length (uint_of_u64 7) = WIDTH \<and> length (uint_of_u64 2) = WIDTH \<and>
   uint_div (uint_of_u64 7) (uint_of_u64 2) = Ok (uint_of_u64 3) \<and>
   uval (uint_sub (uint_of_u64 2) (uint_of_u64 7)) = 2 ^ 256 - 5"
proof -
  note r = arith_uint256_refines [OF length_of_u64 length_of_u64]
  have "case uint_div (uint_of_u64 7) (uint_of_u64 2) of
      Ok q \<Rightarrow> length q = WIDTH \<and> uval q = 3 | _ \<Rightarrow> False"
    using r [of 7 2] by (auto simp: uval_of_u64 split: outcome.splits)
  then obtain q where "uint_div (uint_of_u64 7) (uint_of_u64 2) = Ok q" "length q = WIDTH" "uval q = 3"
    by (auto split: outcome.splits)
  moreover from this(2,3) have "q = uint_of_u64 3" by (intro uval_inject) (simp_all add: uval_of_u64)
  moreover have "uval (uint_sub (uint_of_u64 2) (uint_of_u64 7)) = 2 ^ 256 - 5"
    using r [of 2 7] by (simp add: uval_of_u64)
  ultimately show ?thesis by simp
qed

end
