(* ===== verification/Arith_Compact.thy ===== *)
theory Arith_Compact
  imports Arith_Uint256
begin

text \<open>
  The compact 32-bit representation of 256-bit targets: what \<open>SetCompact\<close> and \<open>GetCompact\<close> of
  \<open>Arith_Uint256\<close> compute, and the round trips between the two and with \<open>uint256\<close>.
\<close>

subsection \<open>Fields of a compact number\<close>

lemma unat_drop_bit: "unat (drop_bit n w) = unat w div 2 ^ n" for w :: u32
proof -
  have "unat w div 2 ^ n < 2 ^ 32" by (rule le_less_trans [OF div_le_dividend unat_u32])
  then show ?thesis
    using unsigned_drop_bit_eq [of n w, where 'a = nat] unat_u32 [of w]
    by (simp add: drop_bit_eq_div [where 'a = nat] take_bit_nat_eq_self)
qed

lemma unat_and_mantissa: "unat (c AND 0x007fffff) = unat c mod 2 ^ 23" for c :: u32
proof -
  have "c AND 0x007fffff = c AND mask 23" by (simp add: mask_eq_exp_minus_1)
  also have "\<dots> = take_bit 23 c" by (simp only: take_bit_eq_mask)
  finally show ?thesis by (simp only: unsigned_take_bit_eq take_bit_eq_mod [where 'a = nat])
qed

lemma and_sign: "c AND 0x00800000 \<noteq> 0 \<longleftrightarrow> odd (unat c div 2 ^ 23)" for c :: u32
proof -
  have "push_bit 23 1 = (0x00800000 :: u32)" by simp
  then have "c AND 0x00800000 \<noteq> 0 \<longleftrightarrow> bit c 23"
    using bit_iff_and_push_bit_not_eq_0 [of c 23] by (simp only:)
  also have "\<dots> \<longleftrightarrow> bit (unat c) 23" by (simp only: bit_unat_u32)
  finally show ?thesis by (simp only: bit_iff_odd)
qed

lemma unat_or_shift:
  fixes x y :: u32
  assumes "unat x < 2 ^ n" "unat y < 2 ^ m" "n + m \<le> 32"
  shows "unat (x OR push_bit n y) = unat x + 2 ^ n * unat y"
proof -
  have low: "\<not> bit (unat x) i" if "n \<le> i" for i
    using assms(1) that by (metis bit_take_bit_iff linorder_not_le take_bit_nat_eq_self)
  have "2 ^ n * unat y < 2 ^ n * 2 ^ m" using assms(2) by simp
  also have "\<dots> \<le> 2 ^ 32" unfolding power_add [symmetric] using assms(3) by (intro power_increasing) simp_all
  finally have "push_bit n (unat y) < 2 ^ 32" by (simp add: push_bit_eq_mult mult.commute)
  then have p: "unat (push_bit n y) = push_bit n (unat y)"
    by (simp add: unsigned_push_bit_eq take_bit_nat_eq_self)
  have "unat (x OR push_bit n y) = unat x OR push_bit n (unat y)"
    by (simp only: unsigned_or_eq p)
  also have "\<dots> = unat x + push_bit n (unat y)"
    by (rule disjunctive_add [symmetric]) (use low in \<open>auto simp: bit_push_bit_iff_nat\<close>)
  finally show ?thesis by (simp add: push_bit_eq_mult mult.commute)
qed

lemma len64: "LENGTH(64) = 64"
  by simp

lemma unat_GetLow64: "2 \<le> length pn \<Longrightarrow> unat (GetLow64 pn) = uval pn mod 2 ^ 64"
proof -
  assume "2 \<le> length pn"
  then obtain p0 p1 r where pn: "pn = p0 # p1 # r" by (cases pn; cases "tl pn") auto
  have "uval pn mod 2 ^ 64 = (unat p0 + 2 ^ 32 * unat p1 + 2 ^ 64 * uval r) mod 2 ^ 64"
    by (simp add: pn algebra_simps)
  also have "\<dots> = unat p0 + 2 ^ 32 * unat p1" using unat_u32 [of p0] unat_u32 [of p1] by simp
  finally have v: "uval pn mod 2 ^ 64 = unat p0 + 2 ^ 32 * unat p1" .
  have low: "\<not> bit (unat p0) i" if "32 \<le> i" for i
    using unat_u32 [of p0] that by (metis bit_take_bit_iff linorder_not_le take_bit_nat_eq_self)
  have p: "unat (push_bit 32 (ucast p1 :: u64)) = push_bit 32 (unat p1)"
  proof -
    have "push_bit 32 (unat p1) < 2 ^ 64" using unat_u32 [of p1] by (simp add: push_bit_eq_mult)
    then show ?thesis unfolding unsigned_push_bit_eq unat_ucast_u64 by (simp only: take_bit_nat_eq_self len64)
  qed
  have "unat (GetLow64 pn) = unat p0 OR push_bit 32 (unat p1)"
    by (simp only: GetLow64_def pn nth_Cons_0 nth_Cons_Suc One_nat_def unsigned_or_eq p unat_ucast_u64)
  also have "\<dots> = unat p0 + push_bit 32 (unat p1)"
    by (rule disjunctive_add [symmetric]) (use low in \<open>auto simp: bit_push_bit_iff_nat\<close>)
  finally show ?thesis unfolding v by (simp add: push_bit_eq_mult mult.commute)
qed

text \<open>The size and the mantissa of a compact number.\<close>

definition compact_size :: "u32 \<Rightarrow> nat" where
  "compact_size c = unat c div 2 ^ 24"

definition compact_mantissa :: "u32 \<Rightarrow> nat" where
  "compact_mantissa c = unat c mod 2 ^ 23"

definition compact_value :: "u32 \<Rightarrow> nat" where
  "compact_value c =
     (if compact_size c \<le> 3 then compact_mantissa c div 256 ^ (3 - compact_size c)
      else compact_mantissa c * 256 ^ (compact_size c - 3))"

lemma pow256: "256 ^ n = (2 :: nat) ^ (8 * n)"
  by (simp add: power_mult)

lemma compact_mantissa_less: "compact_mantissa c < 2 ^ 23"
  by (simp add: compact_mantissa_def)

lemma compact_overflow_iff:
  fixes m n :: nat
  assumes m: "m < 2 ^ 23" and n: "3 < n"
  shows "m * 256 ^ (n - 3) \<ge> 2 ^ 256 \<longleftrightarrow>
    m \<noteq> 0 \<and> (n > 34 \<or> (m > 0xff \<and> n > 33) \<or> (m > 0xffff \<and> n > 32))"
proof -
  have small: "m * 256 ^ (n - 3) < 2 ^ 256" if "m < 2 ^ k" "8 * n + k \<le> 280" for k
  proof -
    have "m * 256 ^ (n - 3) < 2 ^ k * 2 ^ (8 * (n - 3))"
      unfolding pow256 using that by (intro mult_strict_right_mono) simp_all
    also have "\<dots> \<le> 2 ^ 256" unfolding power_add [symmetric] using that n by (intro power_increasing) simp_all
    finally show ?thesis .
  qed
  have large: "m * 256 ^ (n - 3) \<ge> 2 ^ 256" if "m \<ge> 2 ^ k" "8 * n + k \<ge> 280" for k
  proof -
    have "(2 :: nat) ^ 256 \<le> 2 ^ k * 2 ^ (8 * (n - 3))"
      unfolding power_add [symmetric] using that n by (intro power_increasing) simp_all
    also have "\<dots> \<le> m * 256 ^ (n - 3)" unfolding pow256 using that by (intro mult_right_mono) simp_all
    finally show ?thesis .
  qed
  consider "n > 34" | "n = 34" | "n = 33" | "n < 33" by linarith
  then show ?thesis
  proof cases
    case 1
    then show ?thesis using large [of 0] by (cases "m = 0") simp_all
  next
    case 2
    then show ?thesis using large [of 8] small [of 8] by (cases "m > 0xff") simp_all
  next
    case 3
    then show ?thesis using large [of 16] small [of 16] by (cases "m > 0xffff") simp_all
  next
    case 4
    then show ?thesis using small [of 23] m by simp
  qed
qed

text \<open>The word that \<open>SetCompact\<close> stores before it shifts it to the left.\<close>

definition compact_word :: "u32 \<Rightarrow> u32" where
  "compact_word c =
     (if compact_size c \<le> 3 then drop_bit (8 * (3 - compact_size c)) (c AND 0x007fffff) else c AND 0x007fffff)"

lemma unat_compact_word:
  "unat (compact_word c) = (if compact_size c \<le> 3 then compact_value c else compact_mantissa c)"
proof -
  have "unat (c AND 0x007fffff) = compact_mantissa c" by (simp only: unat_and_mantissa compact_mantissa_def)
  then show ?thesis by (simp only: compact_word_def if_distrib [of unat] unat_drop_bit compact_value_def pow256 if_True cong: if_cong)
qed

lemma SetCompact_word:
  "SetCompact c = (let w = compact_word c in
     ((if compact_size c \<le> 3 then uint_of_u64 (ucast w)
       else uint_shl (uint_of_u64 (ucast w)) (8 * (compact_size c - 3))),
      w \<noteq> 0 \<and> c AND 0x00800000 \<noteq> 0,
      w \<noteq> 0 \<and> (compact_size c > 34 \<or> (w > 0xff \<and> compact_size c > 33) \<or> (w > 0xffff \<and> compact_size c > 32))))"
proof -
  have "unat (drop_bit 24 c) = compact_size c" by (simp only: unat_drop_bit compact_size_def)
  then show ?thesis by (simp only: SetCompact_def Let_def compact_word_def)
qed

lemma uval_SetCompact: "uval (fst (SetCompact c)) = compact_value c mod 2 ^ 256"
proof -
  have "unat (compact_word c) < 2 ^ 256" using unat_u32 [of "compact_word c"] by (rule less_trans) simp
  then show ?thesis using unat_compact_word [of c]
    by (cases "compact_size c \<le> 3")
      (simp_all add: SetCompact_word Let_def uval_simps unat_ucast_u64 WIDTH_def compact_value_def [of c] pow256)
qed

lemma SetCompact_flags:
  "fst (snd (SetCompact c)) \<longleftrightarrow> compact_value c \<noteq> 0 \<and> odd (unat c div 2 ^ 23)"
  "snd (snd (SetCompact c)) \<longleftrightarrow> compact_value c \<ge> 2 ^ 256"
proof -
  note w = unat_compact_word [of c] and S = SetCompact_word [of c, unfolded Let_def]
  let ?w = "compact_word c"
  have z: "?w = 0 \<longleftrightarrow> compact_value c = 0"
    using w unfolding unat_eq_0 [symmetric] by (simp add: compact_value_def)
  show "fst (snd (SetCompact c)) \<longleftrightarrow> compact_value c \<noteq> 0 \<and> odd (unat c div 2 ^ 23)"
    unfolding S and_sign z by simp
  show "snd (snd (SetCompact c)) \<longleftrightarrow> compact_value c \<ge> 2 ^ 256"
  proof (cases "compact_size c \<le> 3")
    case True
    have "compact_value c < 2 ^ 256" using True w unat_u32 [of ?w] by (simp add: less_trans)
    then show ?thesis using True by (simp add: S)
  next
    case False
    have o: "?w > 0xff \<longleftrightarrow> compact_mantissa c > 0xff" "?w > 0xffff \<longleftrightarrow> compact_mantissa c > 0xffff"
      using w False by (simp_all add: word_less_nat_alt)
    have v: "compact_value c = compact_mantissa c * 256 ^ (compact_size c - 3)"
      using False by (simp add: compact_value_def)
    have z': "compact_value c = 0 \<longleftrightarrow> compact_mantissa c = 0" unfolding v by simp
    have "3 < compact_size c" using False by simp
    from compact_overflow_iff [OF compact_mantissa_less this] show ?thesis
      unfolding S z z' o v by simp
  qed
qed

subsection \<open>The compact form of a number\<close>

text \<open>The upper three of \<open>n\<close> bytes of \<open>v\<close>, and the number of bytes that leaves the sign bit free.\<close>

definition compact_scale :: "nat \<Rightarrow> nat \<Rightarrow> nat" where
  "compact_scale v n = (if n \<le> 3 then v * 256 ^ (3 - n) else v div 256 ^ (n - 3))"

definition compact_bytes :: "nat \<Rightarrow> nat" where
  "compact_bytes k = (if k = 0 then 0 else k div 8 + 1)"

lemma compact_scale_less: "v < 2 ^ j \<Longrightarrow> 8 * n \<le> j + 24 \<Longrightarrow> compact_scale v n < 2 ^ (j + 24 - 8 * n)"
proof -
  assume v: "v < 2 ^ j" "8 * n \<le> j + 24"
  show ?thesis
  proof (cases "n \<le> 3")
    case True
    have "v * 256 ^ (3 - n) < 2 ^ j * 2 ^ (8 * (3 - n))"
      unfolding pow256 using v by (intro mult_strict_right_mono) simp_all
    also have "\<dots> = 2 ^ (j + 24 - 8 * n)" unfolding power_add [symmetric] using True by (simp add: diff_mult_distrib2)
    finally show ?thesis using True by (simp add: compact_scale_def)
  next
    case False
    have "v div 256 ^ (n - 3) < 2 ^ (j + 24 - 8 * n)"
      unfolding pow256
    proof (rule less_mult_imp_div_less)
      have "(2 :: nat) ^ (j + 24 - 8 * n) * 2 ^ (8 * (n - 3)) = 2 ^ j"
        unfolding power_add [symmetric] using False v(2) by (simp add: diff_mult_distrib2)
      then show "v < 2 ^ (j + 24 - 8 * n) * 2 ^ (8 * (n - 3))" using v by simp
    qed
    then show ?thesis using False by (simp add: compact_scale_def)
  qed
qed

lemma compact_scale_ge: "2 ^ j \<le> v \<Longrightarrow> 8 * n \<le> j + 24 \<Longrightarrow> 2 ^ (j + 24 - 8 * n) \<le> compact_scale v n"
proof -
  assume v: "2 ^ j \<le> v" "8 * n \<le> j + 24"
  show ?thesis
  proof (cases "n \<le> 3")
    case True
    have "(2 :: nat) ^ (j + 24 - 8 * n) = 2 ^ j * 2 ^ (8 * (3 - n))"
      unfolding power_add [symmetric] using True by (simp add: diff_mult_distrib2)
    also have "\<dots> \<le> v * 256 ^ (3 - n)"
      unfolding pow256 using v by (intro mult_right_mono) simp_all
    finally show ?thesis using True by (simp add: compact_scale_def)
  next
    case False
    have "2 ^ (j + 24 - 8 * n) \<le> v div 2 ^ (8 * (n - 3))"
    proof -
      have "(2 :: nat) ^ (j + 24 - 8 * n) * 2 ^ (8 * (n - 3)) = 2 ^ j"
        unfolding power_add [symmetric] using False v(2) by (simp add: diff_mult_distrib2)
      then show ?thesis using v by (simp add: less_eq_div_iff_mult_less_eq)
    qed
    then show ?thesis using False by (simp add: compact_scale_def pow256)
  qed
qed

lemma compact_scale_Suc: "compact_scale v n div 256 = compact_scale v (n + 1)"
proof -
  consider "n \<le> 2" | "n = 3" | "n > 3" by linarith
  then show ?thesis
  proof cases
    case 1
    then obtain d where "3 - n = Suc d" "2 - n = d" by (metis Suc_diff_le numeral_2_eq_2 numeral_3_eq_3)
    then show ?thesis using 1 by (simp add: compact_scale_def)
  next
    case 3
    then have "n - 2 = Suc (n - 3)" by simp
    then show ?thesis using 3 by (simp add: compact_scale_def div_mult2_eq [symmetric] mult.commute)
  qed (simp add: compact_scale_def)
qed

lemma unat_ucast_u32: "unat (w :: u64) < 2 ^ 32 \<Longrightarrow> unat (ucast w :: u32) = unat w"
  by (simp add: unsigned_ucast_eq take_bit_nat_eq_self)

lemma compact_mantissa_word:
  assumes len: "2 \<le> length a" and n: "n = (uint_bits a + 7) div 8"
  defines "m \<equiv> (if n \<le> 3 then ucast (push_bit (8 * (3 - n)) (GetLow64 a))
                 else ucast (GetLow64 (uint_shr a (8 * (n - 3)))) :: u32)"
  shows "unat m = compact_scale (uval a) n \<and> unat m < 2 ^ 24"
proof -
  have k: "uint_bits a \<le> 8 * n" using n by linarith
  then have v: "uval a < 2 ^ (8 * n)" by (intro less_le_trans [OF uint_bits(1) power_increasing]) simp_all
  have s: "compact_scale (uval a) n < 2 ^ 24" using compact_scale_less [OF v, of n] by simp
  have s64: "compact_scale (uval a) n < 2 ^ 64" "compact_scale (uval a) n < 2 ^ 32"
    using s by (rule less_trans, simp)+
  show ?thesis
  proof (cases "n \<le> 3")
    case True
    have "uval a < 2 ^ 64" using v by (rule less_le_trans) (use True in \<open>intro power_increasing; simp\<close>)
    then have g: "unat (GetLow64 a) = uval a" using unat_GetLow64 [OF len] by simp
    have "unat (push_bit (8 * (3 - n)) (GetLow64 a)) = compact_scale (uval a) n"
      unfolding unsigned_push_bit_eq g
      using s64 True by (simp add: take_bit_nat_eq_self push_bit_eq_mult compact_scale_def pow256)
    then show ?thesis using s s64 True by (simp add: m_def unat_ucast_u32)
  next
    case False
    have "unat (GetLow64 (uint_shr a (8 * (n - 3)))) = compact_scale (uval a) n"
      using s64 False len
      by (simp add: unat_GetLow64 uint_shr_nth uval_shr compact_scale_def pow256)
    then show ?thesis using s s64 False by (simp add: m_def unat_ucast_u32)
  qed
qed

lemma and_not_mantissa: "unat c < 2 ^ 23 \<Longrightarrow> c AND NOT 0x007fffff = 0" for c :: u32
proof -
  assume c: "unat c < 2 ^ 23"
  have "c AND 0x007fffff = c"
    by (rule word_unat_eq_iff [THEN iffD2]) (use c in \<open>simp only: unat_and_mantissa mod_less\<close>)
  then have "c AND NOT 0x007fffff = (c AND 0x007fffff) AND NOT 0x007fffff" by simp
  also have "\<dots> = 0" by (simp only: and.assoc bit.conj_cancel_right and_zero_eq)
  finally show ?thesis .
qed

text \<open>The mantissa uses the sign bit exactly when the number fills its bytes.\<close>

lemma compact_normalise:
  fixes a :: base_uint
  defines "v \<equiv> uval a" and "k \<equiv> uint_bits a" and "n \<equiv> (uint_bits a + 7) div 8"
  shows "(2 ^ 23 \<le> compact_scale v n \<longrightarrow> n + 1 = compact_bytes k) \<and>
    (\<not> 2 ^ 23 \<le> compact_scale v n \<longrightarrow> n = compact_bytes k) \<and>
    compact_scale v (compact_bytes k) < 2 ^ 23"
proof (cases "k = 0")
  case True
  then show ?thesis using uint_bits_0 [of a] by (simp add: v_def k_def n_def compact_bytes_def compact_scale_def)
next
  case False
  have v: "2 ^ (k - 1) \<le> v" "v < 2 ^ k" using uint_bits [of a] False by (simp_all add: v_def k_def)
  have k: "k \<le> 8 * n" "8 * n \<le> k + 7" unfolding n_def k_def by linarith+
  show ?thesis
  proof (cases "k = 8 * n")
    case True
    have "2 ^ 23 \<le> compact_scale v n" using compact_scale_ge [OF v(1), of n] True False by simp
    moreover have "compact_scale v (n + 1) < 2 ^ 16" using compact_scale_less [OF v(2), of "n + 1"] True by simp
    ultimately show ?thesis using True False by (simp add: compact_bytes_def)
  next
    case k': False
    have "compact_scale v n < 2 ^ (k + 24 - 8 * n)" using compact_scale_less [OF v(2), of n] k False by simp
    also have "\<dots> \<le> 2 ^ 23" using k k' by (intro power_increasing) simp_all
    finally have "compact_scale v n < 2 ^ 23" .
    moreover have "n = compact_bytes k" using k k' False by (simp add: compact_bytes_def)
    ultimately show ?thesis by simp
  qed
qed

lemma compact_scale_eq_0: "compact_scale (uval a) (compact_bytes (uint_bits a)) = 0 \<longleftrightarrow> uval a = 0"
proof (cases "uint_bits a = 0")
  case True
  then show ?thesis using uint_bits_0 [of a] by (simp add: compact_scale_def)
next
  case False
  let ?n = "compact_bytes (uint_bits a)"
  have "8 * ?n \<le> uint_bits a - 1 + 24" using False by (simp add: compact_bytes_def)
  then have "2 ^ (uint_bits a - 1 + 24 - 8 * ?n) \<le> compact_scale (uval a) ?n"
    using uint_bits(3) [of a] False by (intro compact_scale_ge) simp_all
  then have "compact_scale (uval a) ?n \<noteq> 0" by (intro notI) simp
  then show ?thesis using False uint_bits_0 [of a] by simp
qed

lemma compact_pack:
  fixes m :: u32
  assumes "unat m < 2 ^ 23" "n < 256"
  defines "c \<equiv> m OR push_bit 24 (of_nat n)"
  shows "unat (c OR (if b \<and> c AND 0x007fffff \<noteq> 0 then 0x00800000 else 0)) =
    unat m + 2 ^ 24 * n + (if b \<and> unat m \<noteq> 0 then 2 ^ 23 else 0)"
proof -
  have n: "unat (of_nat n :: u32) = n" using assms(2) by (simp add: unat_of_nat)
  have c: "unat c = unat m + 2 ^ 24 * n"
    unfolding c_def using assms n by (subst unat_or_shift [where m = 8]) simp_all
  have nz: "c AND 0x007fffff \<noteq> 0 \<longleftrightarrow> unat m \<noteq> 0"
  proof -
    have "unat m + 2 ^ 24 * n = unat m + 2 ^ 23 * (2 * n)" by simp
    then have "unat (c AND 0x007fffff) = unat m"
      using assms(1) by (simp only: unat_and_mantissa c mod_mult_self2 mod_less)
    then show ?thesis by (simp only: unat_eq_0 [symmetric])
  qed
  have "unat c div 2 ^ 23 = 2 * n" unfolding c using assms(1) by simp
  then have "\<not> bit c 23" unfolding bit_unat_u32 [symmetric] bit_iff_odd by simp
  from unat_or_bit [OF this] have "unat (c OR 0x00800000) = unat c + 2 ^ 23" by simp
  then show ?thesis unfolding nz using c by simp
qed

lemma compact_bytes_le: "length a = WIDTH \<Longrightarrow> compact_bytes (uint_bits a) \<le> 33"
  using uint_bits(2) [of a] div_le_mono [of "uint_bits a" 256 8] by (simp add: compact_bytes_def WIDTH_def)

lemma GetCompact_eq:
  assumes len: "length a = WIDTH"
  defines "n \<equiv> compact_bytes (uint_bits a)"
  shows "\<exists>c. GetCompact a f = Ok c \<and>
    unat c = compact_scale (uval a) n + 2 ^ 24 * n + (if f \<and> uval a \<noteq> 0 then 2 ^ 23 else 0)"
proof -
  define n0 where "n0 = (uint_bits a + 7) div 8"
  define m0 where "m0 = (if n0 \<le> 3 then ucast (push_bit (8 * (3 - n0)) (GetLow64 a))
                 else ucast (GetLow64 (uint_shr a (8 * (n0 - 3)))) :: u32)"
  define m where "m = (if m0 AND 0x00800000 \<noteq> 0 then drop_bit 8 m0 else m0)"
  have m0: "unat m0 = compact_scale (uval a) n0" "unat m0 < 2 ^ 24"
    using compact_mantissa_word [of a n0] len by (simp_all add: n0_def m0_def WIDTH_def)
  have "m0 AND 0x00800000 \<noteq> 0 \<longleftrightarrow> bit (unat m0) 23" unfolding and_sign bit_iff_odd ..
  also have "\<dots> \<longleftrightarrow> 2 ^ 23 \<le> unat m0" by (rule top_bit) (use m0(2) in simp)
  finally have sign: "m0 AND 0x00800000 \<noteq> 0 \<longleftrightarrow> 2 ^ 23 \<le> compact_scale (uval a) n0" unfolding m0(1) .
  note norm = compact_normalise [of a, folded n0_def n_def]
  have n: "(if m0 AND 0x00800000 \<noteq> 0 then n0 + 1 else n0) = n" using norm unfolding sign by auto
  have um: "unat m = compact_scale (uval a) n"
    using norm by (simp only: m_def sign if_distrib [of unat] unat_drop_bit) (auto simp: m0 compact_scale_Suc)
  have um23: "unat m < 2 ^ 23" using norm unfolding um by blast
  have n256: "n < 256" using compact_bytes_le [OF len] by (simp add: n_def)
  have G: "GetCompact a f = (let c = m OR push_bit 24 (of_nat n)
      in Ok (c OR (if f \<and> c AND 0x007fffff \<noteq> 0 then 0x00800000 else 0)))"
    using and_not_mantissa [OF um23] n256
    unfolding GetCompact_def Let_def n0_def [symmetric] m0_def [symmetric] n [symmetric] m_def
    by (auto simp: outcome_simps)
  show ?thesis
    using compact_pack [OF um23 n256, of f] unfolding G Let_def um
    by (simp add: compact_scale_eq_0 n_def)
qed

lemma compact_fields:
  assumes "unat c = m + 2 ^ 24 * n + (if s then 2 ^ 23 else 0)" "m < 2 ^ 23"
  shows "compact_size c = n" "compact_mantissa c = m" "odd (unat c div 2 ^ 23) \<longleftrightarrow> s"
proof -
  have c: "unat c = m + 2 ^ 23 * (2 * n + of_bool s)" using assms(1) by simp
  have d: "unat c div 2 ^ 23 = 2 * n + of_bool s" unfolding c using assms(2) by simp
  then show "odd (unat c div 2 ^ 23) \<longleftrightarrow> s" by simp
  have "unat c div 2 ^ 24 = unat c div 2 ^ 23 div 2" by (simp add: div_mult2_eq [symmetric])
  also have "\<dots> = n" unfolding d by simp
  finally show "compact_size c = n" by (simp add: compact_size_def)
  show "compact_mantissa c = m" unfolding compact_mantissa_def c using assms(2) by (simp only: mod_mult_self2 mod_less)
qed

text \<open>The value that the compact form keeps: all but the lowest bytes.\<close>

definition compact_floor :: "nat \<Rightarrow> nat \<Rightarrow> nat" where
  "compact_floor v n = (if n \<le> 3 then v else v div 256 ^ (n - 3) * 256 ^ (n - 3))"

lemma compact_value_floor:
  "compact_size c = n \<Longrightarrow> compact_mantissa c = compact_scale v n \<Longrightarrow> compact_value c = compact_floor v n"
  by (simp add: compact_value_def compact_floor_def compact_scale_def)

lemma compact_floor_le: "compact_floor v n \<le> v"
  by (simp add: compact_floor_def)

lemma compact_floor_error:
  "2 ^ (k - 1) \<le> v \<Longrightarrow> 0 < k \<Longrightarrow> (v - compact_floor v (compact_bytes k)) * 2 ^ 15 \<le> v"
proof -
  assume v: "2 ^ (k - 1) \<le> v" and k: "0 < k"
  let ?n = "compact_bytes k"
  show ?thesis
  proof (cases "?n \<le> 3")
    case False
    let ?E = "256 ^ (?n - 3) :: nat"
    have "v - compact_floor v ?n = v mod ?E"
      using False by (simp add: compact_floor_def minus_div_mult_eq_mod)
    also have "\<dots> \<le> ?E" by (simp add: less_imp_le)
    finally have "(v - compact_floor v ?n) * 2 ^ 15 \<le> ?E * 2 ^ 15" by (rule mult_right_mono) simp
    also have "\<dots> = 2 ^ (8 * (?n - 3) + 15)" by (simp only: pow256 power_add)
    also have "\<dots> \<le> 2 ^ (k - 1)" using False k by (intro power_increasing) (simp_all add: compact_bytes_def)
    finally show ?thesis using v by simp
  qed (simp add: compact_floor_def)
qed

lemma uint_bits_unique: "2 ^ (k - 1) \<le> uval b \<Longrightarrow> uval b < 2 ^ k \<Longrightarrow> 0 < k \<Longrightarrow> uint_bits b = k"
proof -
  assume b: "2 ^ (k - 1) \<le> uval b" "uval b < 2 ^ k" and k: "0 < k"
  have "2 ^ (k - 1) < (2 :: nat) ^ uint_bits b" using b(1) uint_bits(1) [of b] by (rule le_less_trans)
  then have 1: "k - 1 < uint_bits b" by simp
  then have "2 ^ (uint_bits b - 1) \<le> uval b" by (intro uint_bits) simp
  then have "2 ^ (uint_bits b - 1) < (2 :: nat) ^ k" using b(2) by (rule le_less_trans)
  then have "uint_bits b - 1 < k" by simp
  then show ?thesis using 1 k by linarith
qed

lemma compact_floor_idem:
  assumes v: "2 ^ (k - 1) \<le> v" "0 < k"
  shows "2 ^ (k - 1) \<le> compact_floor v (compact_bytes k)"
    "compact_scale (compact_floor v (compact_bytes k)) (compact_bytes k) = compact_scale v (compact_bytes k)"
proof -
  let ?n = "compact_bytes k"
  show "2 ^ (k - 1) \<le> compact_floor v ?n"
  proof (cases "?n \<le> 3")
    case False
    define j where "j = k - 1 - 8 * (?n - 3)"
    have "8 * (?n - 3) \<le> k - 1" using v False by (simp add: compact_bytes_def)
    then have j: "(2 :: nat) ^ (k - 1) = 2 ^ j * 256 ^ (?n - 3)" by (simp add: pow256 power_add [symmetric] j_def)
    then have "2 ^ j \<le> v div 256 ^ (?n - 3)" using v by (simp add: less_eq_div_iff_mult_less_eq)
    then show ?thesis using False unfolding j by (simp add: compact_floor_def)
  qed (use v in \<open>simp add: compact_floor_def\<close>)
qed (simp add: compact_floor_def compact_scale_def)

text \<open>
  C19: the compact form of a 256-bit number is its nearest value from below with the precision of
  the mantissa. For every number \<open>a\<close> and sign, \<open>GetCompact\<close> returns (neither of its assertions can
  fail), \<open>SetCompact\<close> reads the result back without overflow and with the same sign (zero has
  none) as a number that is at most \<open>a\<close> and below it by at most \<open>a / 2 ^ 15\<close>, and encoding that
  number again gives the same compact word.
\<close>

theorem compact_roundtrip:
  assumes "length a = WIDTH"
  shows "\<exists>c b. GetCompact a f = Ok c \<and> SetCompact c = (b, f \<and> uval a \<noteq> 0, False) \<and>
    uval b \<le> uval a \<and> (uval a - uval b) * 2 ^ 15 \<le> uval a \<and> GetCompact b f = Ok c"
proof -
  let ?k = "uint_bits a" and ?v = "uval a"
  let ?n = "compact_bytes ?k"
  obtain c where c: "GetCompact a f = Ok c"
    "unat c = compact_scale ?v ?n + 2 ^ 24 * ?n + (if f \<and> ?v \<noteq> 0 then 2 ^ 23 else 0)"
    using GetCompact_eq [OF assms] by blast
  have m: "compact_scale ?v ?n < 2 ^ 23" using compact_normalise [of a] by blast
  note fields = compact_fields [OF c(2) m]
  have val: "compact_value c = compact_floor ?v ?n" by (rule compact_value_floor [OF fields(1,2)])
  obtain b where b: "b = fst (SetCompact c)" by blast
  have less: "compact_floor ?v ?n < 2 ^ 256"
    using compact_floor_le [of ?v ?n] uval_bound [of a] assms by (simp add: WIDTH_def)
  have ub: "uval b = compact_floor ?v ?n" using less by (simp add: b uval_SetCompact val)
  have lb: "length b = WIDTH" by (simp add: b SetCompact_def Let_def uint_shl_nth)
  have again: "uint_bits b = ?k \<and> compact_scale (uval b) ?n = compact_scale ?v ?n \<and>
      (uval b = 0 \<longleftrightarrow> ?v = 0) \<and> (?v - uval b) * 2 ^ 15 \<le> ?v"
  proof (cases "?k = 0")
    case True
    then have "?v = 0" by (simp only: uint_bits_0)
    then have "uval b = 0" by (simp add: ub compact_floor_def)
    then show ?thesis using True \<open>?v = 0\<close> uint_bits_0 [of b] by simp
  next
    case False
    have v: "2 ^ (?k - 1) \<le> ?v" "0 < ?k" using False uint_bits(3) [of a] by simp_all
    have "uint_bits b = ?k"
      by (rule uint_bits_unique)
        (use compact_floor_idem(1) [OF v] v uint_bits(1) [of a] compact_floor_le [of ?v ?n] in \<open>simp_all add: ub\<close>)
    moreover have "?v \<noteq> 0" "uval b \<noteq> 0" using False calculation uint_bits_0 by metis+
    ultimately show ?thesis using compact_floor_idem(2) [OF v] compact_floor_error [OF v] by (simp add: ub)
  qed
  obtain c' where c': "GetCompact b f = Ok c'"
    "unat c' = compact_scale (uval b) ?n + 2 ^ 24 * ?n + (if f \<and> uval b \<noteq> 0 then 2 ^ 23 else 0)"
    using GetCompact_eq [OF lb, of f] again by auto
  have "c' = c" by (rule word_unat_eq_iff [THEN iffD2]) (use c(2) c'(2) again in \<open>simp only:\<close>)
  moreover have "SetCompact c = (b, f \<and> ?v \<noteq> 0, False)"
    using SetCompact_flags [of c] less fields(3) again
    by (simp only: prod_eq_iff b fst_conv snd_conv val ub [symmetric] not_le [symmetric]) auto
  moreover have "uval b \<le> ?v" unfolding ub by (rule compact_floor_le)
  ultimately show ?thesis using c(1) c'(1) again by blast
qed

theorem compact_roundtrip_witness:
  "length (uint_of_u64 0x123456789a) = WIDTH \<and>
   (\<exists>c b. GetCompact (uint_of_u64 0x123456789a) False = Ok c \<and> SetCompact c = (b, False, False) \<and>
      uval b \<le> uval (uint_of_u64 0x123456789a) \<and> GetCompact b False = Ok c)"
  using compact_roundtrip [OF length_of_u64, of "0x123456789a" False] by auto

text \<open>
  What a compact word means. The number \<open>SetCompact\<close> stores is the mantissa shifted by the
  size, modulo \<open>2 ^ 256\<close>; it reports an overflow exactly when that value does not fit in 256 bits,
  and a negative number exactly when the value is not zero and the sign bit is set.
\<close>

theorem SetCompact_value:
  "length (fst (SetCompact c)) = WIDTH \<and>
   uval (fst (SetCompact c)) = compact_value c mod 2 ^ 256 \<and>
   fst (snd (SetCompact c)) = (compact_value c \<noteq> 0 \<and> odd (unat c div 2 ^ 23)) \<and>
   snd (snd (SetCompact c)) = (compact_value c \<ge> 2 ^ 256)"
  using uval_SetCompact [of c] SetCompact_flags [of c]
  by (simp add: SetCompact_def Let_def uint_shl_nth)

end
