(* ===== verification/Block_Index.thy ===== *)
theory Block_Index
  imports Arith_Compact
begin

text \<open>
  The block index and the active chain of \<^verbatim>\<open>src/src/chain.h\<close> and \<^verbatim>\<open>src/src/chain.cpp\<close>. Block
  index entries live in a heap of addresses, since they point to each other: \<open>None\<close> is the null
  pointer, and following a pointer to no entry is \<open>Abort\<close>. A loop that follows pointers until
  some condition holds is a \<open>partial_function\<close>, whose value is \<open>None\<close> where the loop does not end.
\<close>

type_synonym ptr = nat

record CBlockIndex =
  phashBlock :: "uint256 option"
  pprev :: "ptr option"
  pskip :: "ptr option"
  nHeight :: int
  nFile :: int
  nDataPos :: u32
  nUndoPos :: u32
  nChainWork :: arith_uint256
  nTx :: u32
  nChainTx :: u32
  nStatus :: u32
  nVersion :: u32
  hashMerkleRoot :: uint256
  nTime :: u32
  nBits :: u32
  nNonce :: u32
  nSequenceId :: int
  nTimeMax :: u32

type_synonym block_heap = "ptr \<Rightarrow> CBlockIndex option"
type_synonym CChain = "ptr option list"

subsection \<open>Entries\<close>

definition CBlockIndex_SetNull :: CBlockIndex where
  "CBlockIndex_SetNull = \<lparr>phashBlock = None, pprev = None, pskip = None, nHeight = 0, nFile = 0, nDataPos = 0,
     nUndoPos = 0, nChainWork = uint_zero, nTx = 0, nChainTx = 0, nStatus = 0, nVersion = 0,
     hashMerkleRoot = replicate 32 0, nTime = 0, nBits = 0, nNonce = 0, nSequenceId = 0, nTimeMax = 0\<rparr>"

definition deref :: "block_heap \<Rightarrow> ptr \<Rightarrow> CBlockIndex uint_result" where
  "deref h p = (case h p of Some b \<Rightarrow> Ok b | None \<Rightarrow> Abort)"

definition GetBlockHash :: "CBlockIndex \<Rightarrow> uint256 uint_result" where
  "GetBlockHash b = (case phashBlock b of Some hash \<Rightarrow> Ok hash | None \<Rightarrow> Abort)"

definition GetBlockTime :: "CBlockIndex \<Rightarrow> int" where
  "GetBlockTime b = int (unat (nTime b))"

definition GetBlockTimeMax :: "CBlockIndex \<Rightarrow> int" where
  "GetBlockTimeMax b = int (unat (nTimeMax b))"

definition nMedianTimeSpan :: nat where "nMedianTimeSpan = 11"

text \<open>The times \<open>pbegin\<close> .. \<open>pend\<close>, filled from the back.\<close>

fun past_times :: "block_heap \<Rightarrow> nat \<Rightarrow> ptr option \<Rightarrow> int list \<Rightarrow> int list uint_result" where
  "past_times h 0 pindex pmedian = Ok pmedian"
| "past_times h (Suc i) None pmedian = Ok pmedian"
| "past_times h (Suc i) (Some p) pmedian =
     bindO (deref h p) (\<lambda>b. past_times h i (pprev b) (GetBlockTime b # pmedian))"

definition GetMedianTimePast :: "block_heap \<Rightarrow> ptr \<Rightarrow> int uint_result" where
  "GetMedianTimePast h p =
     bindO (past_times h nMedianTimeSpan (Some p) []) (\<lambda>pmedian. Ok (sort pmedian ! (length pmedian div 2)))"

abbreviation BLOCK_VALID_TRANSACTIONS :: u32 where "BLOCK_VALID_TRANSACTIONS \<equiv> 3"
abbreviation BLOCK_VALID_MASK :: u32 where "BLOCK_VALID_MASK \<equiv> 7"
abbreviation BLOCK_FAILED_MASK :: u32 where "BLOCK_FAILED_MASK \<equiv> 96"

definition IsValid :: "CBlockIndex \<Rightarrow> u32 \<Rightarrow> bool uint_result" where
  "IsValid b nUpTo =
     bindO (assertO (nUpTo AND NOT BLOCK_VALID_MASK = 0)) (\<lambda>_.
     if nStatus b AND BLOCK_FAILED_MASK \<noteq> 0 then Ok False
     else Ok (nStatus b AND BLOCK_VALID_MASK \<ge> nUpTo))"

definition RaiseValidity :: "CBlockIndex \<Rightarrow> u32 \<Rightarrow> (CBlockIndex \<times> bool) uint_result" where
  "RaiseValidity b nUpTo =
     bindO (assertO (nUpTo AND NOT BLOCK_VALID_MASK = 0)) (\<lambda>_.
     if nStatus b AND BLOCK_FAILED_MASK \<noteq> 0 then Ok (b, False)
     else if nStatus b AND BLOCK_VALID_MASK < nUpTo
       then Ok (b\<lparr>nStatus := (nStatus b AND NOT BLOCK_VALID_MASK) OR nUpTo\<rparr>, True)
     else Ok (b, False))"

subsection \<open>The skip list\<close>

definition InvertLowestOne :: "nat \<Rightarrow> nat" where
  "InvertLowestOne n = n AND (n - 1)"

definition GetSkipHeight :: "nat \<Rightarrow> nat" where
  "GetSkipHeight height =
     (if height < 2 then 0
      else if odd height then InvertLowestOne (InvertLowestOne (height - 1)) + 1
      else InvertLowestOne height)"

lemma InvertLowestOne_pred: "InvertLowestOne n \<le> n - 1"
  by (simp add: InvertLowestOne_def and_nat_def nat_le_iff AND_upper2)

lemma InvertLowestOne_less: "0 < n \<Longrightarrow> InvertLowestOne n < n"
  using InvertLowestOne_pred [of n] by simp

lemma InvertLowestOne_le: "InvertLowestOne n \<le> n"
  using InvertLowestOne_pred [of n] by simp

lemma GetSkipHeight_less: "0 < height \<Longrightarrow> GetSkipHeight height < height"
proof -
  assume h: "0 < height"
  have "InvertLowestOne (InvertLowestOne (height - 1)) < height - 1" if "height \<ge> 2"
    using InvertLowestOne_less [of "height - 1"] InvertLowestOne_le [of "InvertLowestOne (height - 1)"] that by simp
  then show ?thesis using h InvertLowestOne_less [of height] by (auto simp: GetSkipHeight_def)
qed

text \<open>
  The loop of \<open>GetAncestor\<close>; the guard in front of it makes both heights nonnegative.
\<close>

function GetAncestor_loop :: "block_heap \<Rightarrow> ptr \<Rightarrow> nat \<Rightarrow> nat \<Rightarrow> ptr uint_result" where
  "GetAncestor_loop h pindexWalk heightWalk height =
     (if heightWalk > height then
        let heightSkip = GetSkipHeight heightWalk;
            heightSkipPrev = GetSkipHeight (heightWalk - 1)
        in bindO (deref h pindexWalk) (\<lambda>b.
             if pskip b \<noteq> None \<and>
                (heightSkip = height \<or>
                 (heightSkip > height \<and> \<not> (heightSkipPrev < heightSkip - 2 \<and> heightSkipPrev \<ge> height)))
             then GetAncestor_loop h (the (pskip b)) heightSkip height
             else bindO (assertO (pprev b \<noteq> None)) (\<lambda>_.
               GetAncestor_loop h (the (pprev b)) (heightWalk - 1) height))
      else Ok pindexWalk)"
  by pat_completeness auto
termination
  by (relation "measure (\<lambda>(h, p, w, height). w)") (auto simp: GetSkipHeight_less)

declare GetAncestor_loop.simps [simp del]

definition GetAncestor :: "block_heap \<Rightarrow> ptr \<Rightarrow> int \<Rightarrow> ptr option uint_result" where
  "GetAncestor h p height =
     bindO (deref h p) (\<lambda>b.
     if height > nHeight b \<or> height < 0 then Ok None
     else bindO (GetAncestor_loop h p (nat (nHeight b)) (nat height)) (\<lambda>q. Ok (Some q)))"

definition BuildSkip :: "block_heap \<Rightarrow> ptr \<Rightarrow> block_heap uint_result" where
  "BuildSkip h p =
     bindO (deref h p) (\<lambda>b.
     case pprev b of
       None \<Rightarrow> Ok h
     | Some q \<Rightarrow> bindO (GetAncestor h q (int (GetSkipHeight (nat (nHeight b))))) (\<lambda>s.
         Ok (h(p \<mapsto> b\<lparr>pskip := s\<rparr>))))"

subsection \<open>Work\<close>

definition GetBlockProof :: "CBlockIndex \<Rightarrow> arith_uint256 uint_result" where
  "GetBlockProof b =
     (let (bnTarget, fNegative, fOverflow) = SetCompact (nBits b) in
      if fNegative \<or> fOverflow \<or> EqualTo bnTarget 0 then Ok (uint_of_u64 0)
      else bindO (uint_div (uint_not bnTarget) (uint_add64 bnTarget 1)) (\<lambda>q. Ok (uint_add64 q 1)))"

text \<open>The result is \<open>sign * r\<close> as a signed 64-bit integer.\<close>

definition GetBlockProofEquivalentTime ::
  "CBlockIndex \<Rightarrow> CBlockIndex \<Rightarrow> CBlockIndex \<Rightarrow> int \<Rightarrow> int uint_result" where
  "GetBlockProofEquivalentTime to from tip nPowTargetSpacing =
     (let (r, sign) =
        (if CompareTo (nChainWork to) (nChainWork from) > 0
         then (uint_sub (nChainWork to) (nChainWork from), 1)
         else (uint_sub (nChainWork from) (nChainWork to), -1))
      in bindO (GetBlockProof tip) (\<lambda>proof.
         bindO (uint_div (uint_mul r (uint_of_u64 (of_int nPowTargetSpacing))) proof) (\<lambda>r.
         if uint_bits r > 63 then Ok (sign * (2 ^ 63 - 1))
         else Ok (sint (of_int sign * GetLow64 r)))))"

subsection \<open>The active chain\<close>

definition Genesis :: "CChain \<Rightarrow> ptr option" where
  "Genesis vChain = (if length vChain > 0 then vChain ! 0 else None)"

definition Tip :: "CChain \<Rightarrow> ptr option" where
  "Tip vChain = (if length vChain > 0 then vChain ! (length vChain - 1) else None)"

text \<open>\<open>operator[]\<close>\<close>

definition chain_at :: "CChain \<Rightarrow> int \<Rightarrow> ptr option" where
  "chain_at vChain height =
     (if height < 0 \<or> height \<ge> int (length vChain) then None else vChain ! nat height)"

definition Contains :: "block_heap \<Rightarrow> CChain \<Rightarrow> ptr \<Rightarrow> bool uint_result" where
  "Contains h vChain p = bindO (deref h p) (\<lambda>b. Ok (chain_at vChain (nHeight b) = Some p))"

definition chain_Next :: "block_heap \<Rightarrow> CChain \<Rightarrow> ptr \<Rightarrow> ptr option uint_result" where
  "chain_Next h vChain p =
     bindO (deref h p) (\<lambda>b.
     bindO (Contains h vChain p) (\<lambda>c. Ok (if c then chain_at vChain (nHeight b + 1) else None)))"

definition chain_Height :: "CChain \<Rightarrow> int" where
  "chain_Height vChain = int (length vChain) - 1"

definition resize :: "nat \<Rightarrow> CChain \<Rightarrow> CChain" where
  "resize n vChain = take n vChain @ replicate (n - length vChain) None"

partial_function (option) SetTip_loop :: "block_heap \<Rightarrow> ptr option \<Rightarrow> CChain \<Rightarrow> CChain uint_result option" where
  "SetTip_loop h pindex vChain =
     (case pindex of
        None \<Rightarrow> Some (Ok vChain)
      | Some p \<Rightarrow>
          (case h p of
             None \<Rightarrow> Some Abort
           | Some b \<Rightarrow>
               if nHeight b < 0 \<or> nHeight b \<ge> int (length vChain) then Some Abort
               else if vChain ! nat (nHeight b) \<noteq> Some p
                 then SetTip_loop h (pprev b) (vChain[nat (nHeight b) := Some p])
               else Some (Ok vChain)))"

definition SetTip :: "block_heap \<Rightarrow> CChain \<Rightarrow> ptr option \<Rightarrow> CChain uint_result option" where
  "SetTip h vChain pindex =
     (case pindex of
        None \<Rightarrow> Some (Ok [])
      | Some p \<Rightarrow>
          (case h p of
             None \<Rightarrow> Some Abort
           | Some b \<Rightarrow> SetTip_loop h pindex (resize (nat (nHeight b + 1)) vChain)))"

partial_function (option) FindFork_loop :: "block_heap \<Rightarrow> CChain \<Rightarrow> ptr option \<Rightarrow> ptr option uint_result option" where
  "FindFork_loop h vChain pindex =
     (case pindex of
        None \<Rightarrow> Some (Ok None)
      | Some p \<Rightarrow>
          (case h p of
             None \<Rightarrow> Some Abort
           | Some b \<Rightarrow>
               if chain_at vChain (nHeight b) \<noteq> Some p then FindFork_loop h vChain (pprev b)
               else Some (Ok (Some p))))"

definition FindFork :: "block_heap \<Rightarrow> CChain \<Rightarrow> ptr option \<Rightarrow> ptr option uint_result option" where
  "FindFork h vChain pindex =
     (case pindex of
        None \<Rightarrow> Some (Ok None)
      | Some p \<Rightarrow>
          (case h p of
             None \<Rightarrow> Some Abort
           | Some b \<Rightarrow>
               if nHeight b > chain_Height vChain
               then (case GetAncestor h p (chain_Height vChain) of
                       Ok q \<Rightarrow> FindFork_loop h vChain q
                     | _ \<Rightarrow> Some Abort)
               else FindFork_loop h vChain pindex))"

text \<open>
  The loop of \<open>GetLocator\<close>; \<open>nStep *= 2\<close> is \<open>Abort\<close> where it overflows \<open>int\<close>.
\<close>

partial_function (option) GetLocator_loop ::
  "block_heap \<Rightarrow> CChain \<Rightarrow> ptr option \<Rightarrow> int \<Rightarrow> uint256 list \<Rightarrow> uint256 list uint_result option" where
  "GetLocator_loop h vChain pindex nStep vHave =
     (case pindex of
        None \<Rightarrow> Some (Ok vHave)
      | Some p \<Rightarrow>
          (case h p of
             None \<Rightarrow> Some Abort
           | Some b \<Rightarrow>
               (case phashBlock b of
                  None \<Rightarrow> Some Abort
                | Some hash \<Rightarrow>
                    let vHave = vHave @ [hash] in
                    if nHeight b = 0 then Some (Ok vHave)
                    else
                      let height = max (nHeight b - nStep) 0 in
                      (case (if chain_at vChain (nHeight b) = Some p then Ok (chain_at vChain height)
                             else GetAncestor h p height) of
                         Ok q \<Rightarrow>
                           if length vHave > 10
                           then (if nStep * 2 \<ge> 2 ^ 31 then Some Abort
                                 else GetLocator_loop h vChain q (nStep * 2) vHave)
                           else GetLocator_loop h vChain q nStep vHave
                       | _ \<Rightarrow> Some Abort))))"

definition GetLocator :: "block_heap \<Rightarrow> CChain \<Rightarrow> ptr option \<Rightarrow> uint256 list uint_result option" where
  "GetLocator h vChain pindex =
     GetLocator_loop h vChain (if pindex = None then Tip vChain else pindex) 1 []"

text \<open>
  \<open>FindEarliestAtLeast\<close>: \<open>std::lower_bound\<close> gives the first entry for which the comparison fails,
  on the chain that it partitions.
\<close>

fun FindEarliestAtLeast :: "block_heap \<Rightarrow> CChain \<Rightarrow> int \<Rightarrow> ptr option uint_result" where
  "FindEarliestAtLeast h [] time = Ok None"
| "FindEarliestAtLeast h (pBlock # vChain) time =
     bindO (case pBlock of None \<Rightarrow> Abort | Some p \<Rightarrow> deref h p) (\<lambda>b.
     if GetBlockTimeMax b < time then FindEarliestAtLeast h vChain time else Ok pBlock)"

subsection \<open>Walking back one block at a time\<close>

fun walk :: "block_heap \<Rightarrow> nat \<Rightarrow> ptr \<Rightarrow> ptr option" where
  "walk h 0 p = Some p"
| "walk h (Suc n) p = (case h p of None \<Rightarrow> None | Some b \<Rightarrow> (case pprev b of None \<Rightarrow> None | Some q \<Rightarrow> walk h n q))"

text \<open>
  The entries of an index: heights count the predecessors, and a skip pointer points to the
  ancestor at the skip height.
\<close>

definition entry_ok :: "block_heap \<Rightarrow> ptr \<Rightarrow> CBlockIndex \<Rightarrow> bool" where
  "entry_ok h p b \<longleftrightarrow>
     0 \<le> nHeight b \<and>
     (case pprev b of
        None \<Rightarrow> nHeight b = 0
      | Some q \<Rightarrow> (case h q of None \<Rightarrow> False | Some c \<Rightarrow> nHeight b = nHeight c + 1)) \<and>
     (case pskip b of
        None \<Rightarrow> True
      | Some s \<Rightarrow> walk h (nat (nHeight b) - GetSkipHeight (nat (nHeight b))) p = Some s)"

definition index_ok :: "block_heap \<Rightarrow> bool" where
  "index_ok h \<longleftrightarrow> (\<forall>p b. h p = Some b \<longrightarrow> entry_ok h p b)"

lemma index_okD: "index_ok h \<Longrightarrow> h p = Some b \<Longrightarrow> entry_ok h p b"
  by (simp add: index_ok_def)

lemma entry_height: "entry_ok h p b \<Longrightarrow> 0 \<le> nHeight b"
  by (simp add: entry_ok_def)

lemma entry_prev:
  assumes "index_ok h" "h p = Some b" "0 < nHeight b"
  obtains q c where "pprev b = Some q" "h q = Some c" "nHeight b = nHeight c + 1" "0 \<le> nHeight c"
proof -
  have e: "entry_ok h p b" using assms by (simp add: index_okD)
  then obtain q where q: "pprev b = Some q" using assms(3) by (cases "pprev b") (auto simp: entry_ok_def)
  then obtain c where c: "h q = Some c" "nHeight b = nHeight c + 1"
    using e by (cases "h q") (auto simp: entry_ok_def)
  show ?thesis using that q c entry_height [OF index_okD [OF assms(1) c(1)]] by blast
qed

lemma genesis_prev: "index_ok h \<Longrightarrow> h p = Some b \<Longrightarrow> nHeight b = 0 \<Longrightarrow> pprev b = None"
proof (cases "pprev b")
  case (Some q)
  assume a: "index_ok h" "h p = Some b" "nHeight b = 0"
  then obtain c where "h q = Some c" "nHeight b = nHeight c + 1"
    using index_okD [OF a(1,2)] Some by (cases "h q") (auto simp: entry_ok_def)
  then show ?thesis using entry_height [OF index_okD [OF a(1)]] a(3) by fastforce
qed

lemma walk_add: "walk h (m + n) p = (case walk h m p of None \<Rightarrow> None | Some q \<Rightarrow> walk h n q)"
  by (induction m arbitrary: p) (auto split: option.splits)

lemma walk_height:
  "index_ok h \<Longrightarrow> h p = Some b \<Longrightarrow> int n \<le> nHeight b \<Longrightarrow>
   \<exists>q c. walk h n p = Some q \<and> h q = Some c \<and> nHeight c = nHeight b - int n"
proof (induction n arbitrary: p b)
  case (Suc n)
  obtain q c where q: "pprev b = Some q" "h q = Some c" "nHeight b = nHeight c + 1" "0 \<le> nHeight c"
    using entry_prev [OF Suc.prems(1,2)] Suc.prems(3) by auto
  then show ?case using Suc.IH [OF Suc.prems(1) q(2)] Suc.prems by auto
qed auto

lemma walk_too_far:
  "index_ok h \<Longrightarrow> h p = Some b \<Longrightarrow> nHeight b < int n \<Longrightarrow> walk h n p = None"
proof (induction n arbitrary: p b)
  case 0
  then show ?case using entry_height [OF index_okD [OF 0(1,2)]] by simp
next
  case (Suc n)
  show ?case
  proof (cases "nHeight b = 0")
    case True
    then show ?thesis using genesis_prev [OF Suc.prems(1,2)] Suc.prems by simp
  next
    case False
    then have "0 < nHeight b" using entry_height [OF index_okD [OF Suc.prems(1,2)]] by simp
    then obtain q c where q: "pprev b = Some q" "h q = Some c" "nHeight b = nHeight c + 1" "0 \<le> nHeight c"
      using entry_prev [OF Suc.prems(1,2)] by blast
    then show ?thesis using Suc.IH [OF Suc.prems(1) q(2)] Suc.prems by simp
  qed
qed

definition ancestor :: "block_heap \<Rightarrow> ptr \<Rightarrow> int \<Rightarrow> ptr option" where
  "ancestor h p height =
     (case h p of None \<Rightarrow> None
      | Some b \<Rightarrow> if 0 \<le> height \<and> height \<le> nHeight b then walk h (nat (nHeight b - height)) p else None)"

lemma GetAncestor_loop_walk:
  assumes "index_ok h" "h p = Some b" "nHeight b = int w" "height \<le> w"
  shows "\<exists>q. walk h (w - height) p = Some q \<and> GetAncestor_loop h p w height = Ok q"
  using assms(2-)
proof (induction w arbitrary: p b rule: less_induct)
  case (less w)
  show ?case
  proof (cases "height < w")
    case False
    then show ?thesis using less.prems by (simp add: GetAncestor_loop.simps)
  next
    case True
    let ?s = "GetSkipHeight w"
    let ?cond = "pskip b \<noteq> None \<and> (?s = height \<or>
      (?s > height \<and> \<not> (GetSkipHeight (w - 1) < ?s - 2 \<and> GetSkipHeight (w - 1) \<ge> height)))"
    have s: "?s < w" using True by (intro GetSkipHeight_less) simp
    show ?thesis
    proof (cases ?cond)
      case c: True
      then obtain t where t: "pskip b = Some t" by auto
      have wt: "walk h (w - ?s) p = Some t"
        using index_okD [OF assms(1) less.prems(1)] t less.prems(2) by (simp add: entry_ok_def)
      obtain d where d: "h t = Some d" "nHeight d = int ?s"
        using walk_height [OF assms(1) less.prems(1), of "w - ?s"] wt less.prems(2) s by auto
      obtain q where q: "walk h (?s - height) t = Some q" "GetAncestor_loop h t ?s height = Ok q"
        using less.IH [OF s d] c by auto
      have "w - height = (w - ?s) + (?s - height)" using c s by auto
      then have "walk h (w - height) p = Some q" using walk_add [of h "w - ?s" "?s - height" p] wt q by simp
      moreover have "GetAncestor_loop h p w height = Ok q"
        using c q True less.prems(1) t
        by (subst GetAncestor_loop.simps) (simp add: deref_def Let_def outcome_simps)
      ultimately show ?thesis by blast
    next
      case c: False
      have "0 < nHeight b" using True less.prems by simp
      then obtain r d where r: "pprev b = Some r" "h r = Some d" "nHeight b = nHeight d + 1"
        using entry_prev [OF assms(1) less.prems(1)] by blast
      have w1: "w - 1 < w" "nHeight d = int (w - 1)" "height \<le> w - 1" using r(3) True less.prems(2) by auto
      obtain q where q: "walk h (w - 1 - height) r = Some q" "GetAncestor_loop h r (w - 1) height = Ok q"
        using less.IH [OF w1(1) r(2) w1(2,3)] by blast
      have "w - height = Suc (w - 1 - height)" using True by simp
      then have "walk h (w - height) p = Some q" using less.prems(1) r q by simp
      moreover have "GetAncestor_loop h p w height = Ok q"
        using c q True less.prems(1) r
        by (subst GetAncestor_loop.simps) (auto simp: deref_def Let_def outcome_simps assertO_def)
      ultimately show ?thesis by blast
    qed
  qed
qed

lemma GetAncestor_eq:
  assumes "index_ok h" "h p = Some b"
  shows "GetAncestor h p height = Ok (ancestor h p height)"
proof (cases "0 \<le> height \<and> height \<le> nHeight b")
  case True
  have b: "nHeight b = int (nat (nHeight b))" using True by simp
  have le: "nat height \<le> nat (nHeight b)" using True by (simp add: nat_mono)
  obtain q where "walk h (nat (nHeight b) - nat height) p = Some q"
    "GetAncestor_loop h p (nat (nHeight b)) (nat height) = Ok q"
    using GetAncestor_loop_walk [OF assms b le] by blast
  then show ?thesis using True assms
    by (simp add: GetAncestor_def ancestor_def deref_def outcome_simps nat_diff_distrib)
next
  case False
  then show ?thesis using assms by (auto simp: GetAncestor_def ancestor_def deref_def outcome_simps)
qed

lemma ancestor_Some:
  assumes "index_ok h" "h p = Some b" "0 \<le> i" "i \<le> nHeight b"
  obtains q c where "ancestor h p i = Some q" "h q = Some c" "nHeight c = i"
proof -
  have "int (nat (nHeight b - i)) \<le> nHeight b" using assms by simp
  from walk_height [OF assms(1,2) this] obtain q c where
    "walk h (nat (nHeight b - i)) p = Some q" "h q = Some c" "nHeight c = i" using assms by auto
  then show ?thesis using that assms by (simp add: ancestor_def)
qed

lemma ancestor_self: "h p = Some b \<Longrightarrow> 0 \<le> nHeight b \<Longrightarrow> ancestor h p (nHeight b) = Some p"
  by (simp add: ancestor_def)

lemma ancestor_high: "h p = Some b \<Longrightarrow> nHeight b < i \<Longrightarrow> ancestor h p i = None"
  by (simp add: ancestor_def)

lemma ancestor_trans:
  assumes "index_ok h" "h p = Some b" "ancestor h p k = Some q" "i \<le> k"
  shows "ancestor h q i = ancestor h p i"
proof -
  have k: "0 \<le> k" "k \<le> nHeight b" "walk h (nat (nHeight b - k)) p = Some q"
    using assms(2,3) by (auto simp: ancestor_def split: if_splits)
  obtain c where c: "h q = Some c" "nHeight c = k"
    using ancestor_Some [OF assms(1,2) k(1,2)] assms(3) by auto
  show ?thesis
  proof (cases "0 \<le> i")
    case True
    have "nat (nHeight b - i) = nat (nHeight b - k) + nat (k - i)" using assms(4) k by simp
    then show ?thesis using True k c assms(2,4) by (simp add: ancestor_def walk_add)
  qed (use c assms(2) in \<open>simp add: ancestor_def\<close>)
qed

lemma ancestor_prev:
  assumes "index_ok h" "h p = Some b" "pprev b = Some q" "i < nHeight b"
  shows "ancestor h q i = ancestor h p i"
proof -
  obtain c where c: "h q = Some c" "nHeight b = nHeight c + 1" "0 \<le> nHeight c"
    using entry_prev [OF assms(1,2)] genesis_prev [OF assms(1,2)] assms(3)
      entry_height [OF index_okD [OF assms(1,2)]] by (metis option.distinct(1) option.inject order_le_less)
  have "ancestor h p (nHeight c) = Some q" using assms c by (simp add: ancestor_def)
  then show ?thesis using assms c by (intro ancestor_trans) simp_all
qed

subsection \<open>Setting the tip\<close>

text \<open>The chain that ends in a block, and chains in general.\<close>

definition chain_of :: "block_heap \<Rightarrow> ptr \<Rightarrow> CChain" where
  "chain_of h p = (case h p of None \<Rightarrow> [] | Some b \<Rightarrow> map (\<lambda>i. ancestor h p (int i)) [0..<nat (nHeight b + 1)])"

definition chain_ok :: "block_heap \<Rightarrow> CChain \<Rightarrow> bool" where
  "chain_ok h vChain \<longleftrightarrow> vChain = [] \<or> (\<exists>p. h p \<noteq> None \<and> vChain = chain_of h p)"

text \<open>Up to height \<open>k\<close>, an entry of the list is in its place and its ancestors are below it.\<close>

definition closed_upto :: "block_heap \<Rightarrow> CChain \<Rightarrow> nat \<Rightarrow> bool" where
  "closed_upto h vChain k \<longleftrightarrow>
     (\<forall>i\<le>k. i < length vChain \<longrightarrow> (\<forall>r. vChain ! i = Some r \<longrightarrow>
        (\<forall>j\<le>i. vChain ! j = ancestor h r (int j))))"

lemma closed_resize:
  assumes "index_ok h" "chain_ok h vChain"
  shows "closed_upto h (resize n vChain) k"
proof -
  have "(resize n vChain) ! j = ancestor h r (int j)"
    if i: "i < length (resize n vChain)" "resize n vChain ! i = Some r" "j \<le> i" for i j r
  proof -
    have il: "i < n" "i < length vChain" "vChain ! i = Some r"
      using i by (auto simp: resize_def nth_append split: if_splits)
    then obtain p b where p: "h p = Some b" "vChain = chain_of h p" using assms(2) by (auto simp: chain_ok_def)
    have "ancestor h p (int i) = Some r" using il p by (simp add: chain_of_def)
    from ancestor_trans [OF assms(1) p(1) this, of "int j"] show ?thesis
      using i(3) il p by (simp add: resize_def nth_append chain_of_def)
  qed
  then show ?thesis by (simp add: closed_upto_def)
qed

lemma SetTip_loop_eq:
  assumes "index_ok h" "h q = Some c" "nHeight c = int k" "k < length vc" "closed_upto h vc k"
  shows "SetTip_loop h (Some q) vc =
    Some (Ok (map (\<lambda>i. if i \<le> k then ancestor h q (int i) else vc ! i) [0..<length vc]))"
  using assms(2-)
proof (induction k arbitrary: q c vc)
  case 0
  have a: "ancestor h q 0 = Some q" using ancestor_self [of h q c] 0 by simp
  have p: "pprev c = None" using genesis_prev [OF assms(1) 0(1)] 0(2) by simp
  have n: "SetTip_loop h None vc' = Some (Ok vc')" for vc' by (subst SetTip_loop.simps) simp
  have "(if vc ! 0 \<noteq> Some q then vc[0 := Some q] else vc) =
      map (\<lambda>i. if i \<le> 0 then ancestor h q (int i) else vc ! i) [0..<length vc]"
    using 0 a by (intro nth_equalityI) (auto simp: nth_list_update)
  then show ?case using 0 p by (subst SetTip_loop.simps) (auto simp: n)
next
  case (Suc k)
  have "0 < nHeight c" using Suc.prems(2) by simp
  then obtain r d where r: "pprev c = Some r" "h r = Some d" "nHeight c = nHeight d + 1"
    using entry_prev [OF assms(1) Suc.prems(1)] by blast
  have anc: "ancestor h r (int i) = ancestor h q (int i)" if "i \<le> k" for i
    using ancestor_prev [OF assms(1) Suc.prems(1) r(1)] that Suc.prems(2) by simp
  have self: "ancestor h q (int (Suc k)) = Some q" using ancestor_self [of h q c] Suc.prems(1,2) by simp
  show ?case
  proof (cases "vc ! Suc k = Some q")
    case True
    then have "vc ! i = ancestor h q (int i)" if "i \<le> Suc k" for i
      using Suc.prems(3,4) that by (auto simp: closed_upto_def)
    then have "map (\<lambda>i. if i \<le> Suc k then ancestor h q (int i) else vc ! i) [0..<length vc] = vc"
      by (intro nth_equalityI) simp_all
    moreover have "SetTip_loop h (Some q) vc = Some (Ok vc)"
      using True Suc.prems by (subst SetTip_loop.simps) (simp add: nat_add_distrib)
    ultimately show ?thesis by (simp only:)
  next
    case False
    let ?vc = "vc[Suc k := Some q]"
    have d: "nHeight d = int k" using r(3) Suc.prems(2) by simp
    have "closed_upto h vc k" using Suc.prems(4) unfolding closed_upto_def using le_SucI by blast
    moreover have "?vc ! i = vc ! i" if "i \<le> k" for i using that by simp
    ultimately have "closed_upto h ?vc k"
      unfolding closed_upto_def length_list_update using order_trans by metis
    then have IH: "SetTip_loop h (Some r) ?vc =
        Some (Ok (map (\<lambda>i. if i \<le> k then ancestor h r (int i) else ?vc ! i) [0..<length ?vc]))"
      using Suc.prems(3) by (intro Suc.IH [OF r(2) d]) simp_all
    have "map (\<lambda>i. if i \<le> k then ancestor h r (int i) else ?vc ! i) [0..<length ?vc] =
        map (\<lambda>i. if i \<le> Suc k then ancestor h q (int i) else vc ! i) [0..<length vc]"
      using anc self by (intro map_cong) (auto simp: nth_list_update le_Suc_eq)
    moreover have "SetTip_loop h (Some q) vc = SetTip_loop h (Some r) ?vc"
      using False Suc.prems r by (subst SetTip_loop.simps) (simp add: nat_add_distrib)
    ultimately show ?thesis using IH by (simp only:)
  qed
qed

lemma SetTip_eq:
  assumes "index_ok h" "chain_ok h vChain" "h p = Some b"
  shows "SetTip h vChain (Some p) = Some (Ok (chain_of h p))"
proof -
  obtain k where k: "nHeight b = int k" using entry_height [OF index_okD [OF assms(1,3)]] nonneg_int_cases by blast
  let ?vc = "resize (k + 1) vChain"
  have len: "length ?vc = k + 1" by (simp add: resize_def)
  have "SetTip h vChain (Some p) = SetTip_loop h (Some p) ?vc"
    using assms(3) k by (simp add: SetTip_def nat_add_distrib)
  also have "\<dots> = Some (Ok (map (\<lambda>i. if i \<le> k then ancestor h p (int i) else ?vc ! i) [0..<length ?vc]))"
    using closed_resize [OF assms(1,2)] len k by (intro SetTip_loop_eq [OF assms(1,3)]) simp_all
  also have "map (\<lambda>i. if i \<le> k then ancestor h p (int i) else ?vc ! i) [0..<length ?vc] = chain_of h p"
    using assms(3) k len by (simp add: chain_of_def nat_add_distrib)
  finally show ?thesis .
qed

end
