(* ===== verification/Active_Chain.thy ===== *)
theory Active_Chain
  imports Block_Index
begin

text \<open>
  What the operations of \<open>CBlockIndex\<close> and \<open>CChain\<close> in \<open>Block_Index\<close> compute on a well-formed index:
  ancestors, the active chain, the fork point and the block locator.
\<close>

lemma chain_at_chain_of:
  "h p = Some b \<Longrightarrow> 0 \<le> nHeight b \<Longrightarrow> chain_at (chain_of h p) i = ancestor h p i"
  by (auto simp: chain_at_def chain_of_def ancestor_def)

lemma chain_at_ancestor:
  assumes "index_ok h" "chain_ok h vChain" "chain_at vChain k = Some q" "i \<le> k"
  shows "chain_at vChain i = ancestor h q i"
proof -
  have "vChain \<noteq> []" using assms(3) by (auto simp: chain_at_def split: if_splits)
  then obtain t c where t: "h t = Some c" "vChain = chain_of h t" using assms(2) by (auto simp: chain_ok_def)
  have at: "chain_at vChain j = ancestor h t j" for j
    using chain_at_chain_of [of h t c j] t entry_height [OF index_okD [OF assms(1) t(1)]] by simp
  show ?thesis using ancestor_trans [OF assms(1) t(1), of k q i] assms(3,4) by (simp add: at)
qed

subsection \<open>The fork point\<close>

text \<open>The heights at which the chain and the branch of a block agree.\<close>

definition common :: "block_heap \<Rightarrow> CChain \<Rightarrow> ptr \<Rightarrow> int \<Rightarrow> bool" where
  "common h vChain p i \<longleftrightarrow> chain_at vChain i \<noteq> None \<and> chain_at vChain i = ancestor h p i"

definition is_fork :: "block_heap \<Rightarrow> CChain \<Rightarrow> ptr \<Rightarrow> ptr option \<Rightarrow> bool" where
  "is_fork h vChain p r \<longleftrightarrow>
     (case r of
        None \<Rightarrow> \<forall>i. \<not> common h vChain p i
      | Some q \<Rightarrow> \<exists>m. chain_at vChain m = Some q \<and> (\<forall>i. common h vChain p i \<longleftrightarrow> 0 \<le> i \<and> i \<le> m))"

lemma is_fork_cong: "(\<And>i. common h vChain p i \<longleftrightarrow> common h vChain q i) \<Longrightarrow> is_fork h vChain p r \<longleftrightarrow> is_fork h vChain q r"
proof -
  assume "\<And>i. common h vChain p i \<longleftrightarrow> common h vChain q i"
  then show ?thesis by (cases r) (simp_all add: is_fork_def)
qed

lemma chain_at_neg: "i < 0 \<Longrightarrow> chain_at vChain i = None"
  by (simp add: chain_at_def)

lemma fork_in_chain:
  assumes "index_ok h" "chain_ok h vChain" "h q = Some c" "chain_at vChain (nHeight c) = Some q"
  shows "is_fork h vChain q (Some q)"
proof -
  have "common h vChain q i \<longleftrightarrow> 0 \<le> i \<and> i \<le> nHeight c" for i
  proof (cases "0 \<le> i \<and> i \<le> nHeight c")
    case True
    then show ?thesis
      using ancestor_Some [OF assms(1,3)] chain_at_ancestor [OF assms(1,2,4)]
      by (metis common_def option.distinct(1))
  next
    case False
    then show ?thesis using assms(3) by (auto simp: common_def ancestor_def)
  qed
  then show ?thesis using assms(4) by (auto simp: is_fork_def)
qed

lemma common_prev:
  assumes "index_ok h" "h q = Some c" "pprev c = Some r" "chain_at vChain (nHeight c) \<noteq> Some q"
  shows "common h vChain q i \<longleftrightarrow> common h vChain r i"
proof -
  obtain d where d: "h r = Some d" "nHeight c = nHeight d + 1" "0 \<le> nHeight d"
    using entry_prev [OF assms(1,2)] genesis_prev [OF assms(1,2)] assms(3)
      entry_height [OF index_okD [OF assms(1,2)]] by (metis option.distinct(1) option.inject order_le_less)
  consider "i < nHeight c" | "i = nHeight c" | "nHeight c < i" by linarith
  then show ?thesis
  proof cases
    case 1
    then show ?thesis using ancestor_prev [OF assms(1-3)] by (simp add: common_def)
  next
    case 2
    then show ?thesis using ancestor_self [of h q c] d assms by (auto simp: common_def ancestor_high [of h r d])
  next
    case 3
    then show ?thesis using d assms(2) by (simp add: common_def ancestor_high)
  qed
qed

lemma FindFork_loop_eq:
  assumes "index_ok h" "chain_ok h vChain" "h q = Some c" "nHeight c = int k"
  shows "\<exists>r. FindFork_loop h vChain (Some q) = Some (Ok r) \<and> is_fork h vChain q r"
  using assms(3-)
proof (induction k arbitrary: q c)
  case 0
  have n: "FindFork_loop h vChain None = Some (Ok None)" by (subst FindFork_loop.simps) simp
  have p: "pprev c = None" using genesis_prev [OF assms(1) 0(1)] 0(2) by simp
  show ?case
  proof (cases "chain_at vChain (nHeight c) = Some q")
    case True
    then show ?thesis using 0 fork_in_chain [OF assms(1,2) 0(1)] by (subst FindFork_loop.simps) simp
  next
    case False
    then have "\<not> common h vChain q i" for i
      using 0 chain_at_neg [of i vChain] by (cases "i = 0") (auto simp: common_def ancestor_def)
    then show ?thesis using False 0 p by (subst FindFork_loop.simps) (simp add: n is_fork_def)
  qed
next
  case (Suc k)
  show ?case
  proof (cases "chain_at vChain (nHeight c) = Some q")
    case True
    then show ?thesis using Suc.prems fork_in_chain [OF assms(1,2) Suc.prems(1)]
      by (subst FindFork_loop.simps) simp
  next
    case False
    have "0 < nHeight c" using Suc.prems(2) by simp
    then obtain r d where r: "pprev c = Some r" "h r = Some d" "nHeight c = nHeight d + 1"
      using entry_prev [OF assms(1) Suc.prems(1)] by blast
    have d: "nHeight d = int k" using r(3) Suc.prems(2) by simp
    have "is_fork h vChain r f \<longleftrightarrow> is_fork h vChain q f" for f
      using common_prev [OF assms(1) Suc.prems(1) r(1) False] by (intro is_fork_cong) simp
    then show ?thesis using Suc.IH [OF r(2) d] False Suc.prems(1) r(1)
      by (subst FindFork_loop.simps) simp
  qed
qed

lemma FindFork_eq:
  assumes "index_ok h" "chain_ok h vChain" "h p = Some b"
  shows "\<exists>r. FindFork h vChain (Some p) = Some (Ok r) \<and> is_fork h vChain p r"
proof (cases "nHeight b > chain_Height vChain")
  case False
  obtain k where "nHeight b = int k" using entry_height [OF index_okD [OF assms(1,3)]] nonneg_int_cases by blast
  then show ?thesis using FindFork_loop_eq [OF assms] False assms(3) by (simp add: FindFork_def)
next
  case True
  let ?t = "chain_Height vChain"
  have hi: "chain_at vChain i = None" if "i > ?t" for i using that by (auto simp: chain_at_def chain_Height_def)
  have F: "FindFork h vChain (Some p) = FindFork_loop h vChain (ancestor h p ?t)"
    using True assms(3) GetAncestor_eq [OF assms(1,3), of ?t] by (simp add: FindFork_def)
  show ?thesis
  proof (cases "?t < 0")
    case empty: True
    then have "ancestor h p ?t = None" using assms(3) by (simp add: ancestor_def)
    moreover have "FindFork_loop h vChain None = Some (Ok None)" by (subst FindFork_loop.simps) simp
    moreover have "is_fork h vChain p None"
    proof -
      have "chain_at vChain i = None" for i
        using empty hi [of i] chain_at_neg [of i vChain] by (cases "i < 0") simp_all
      then show ?thesis by (simp add: is_fork_def common_def)
    qed
    ultimately show ?thesis using F by simp
  next
    case False
    then obtain q c where q: "ancestor h p ?t = Some q" "h q = Some c" "nHeight c = ?t"
      using ancestor_Some [OF assms(1,3), of ?t] True by auto
    obtain k where k: "nHeight c = int k" using False q(3) nonneg_int_cases by (metis not_less)
    have "is_fork h vChain q r \<longleftrightarrow> is_fork h vChain p r" for r
      using hi ancestor_trans [OF assms(1,3) q(1)]
      by (intro is_fork_cong) (metis common_def linorder_not_less)
    then show ?thesis using F q FindFork_loop_eq [OF assms(1,2) q(2) k] by simp
  qed
qed

subsection \<open>The block locator\<close>

definition hashes_known :: "block_heap \<Rightarrow> bool" where
  "hashes_known h \<longleftrightarrow> (\<forall>p b. h p = Some b \<longrightarrow> phashBlock b \<noteq> None)"

text \<open>The hash of the ancestor at a height.\<close>

definition ancestor_hash :: "block_heap \<Rightarrow> ptr \<Rightarrow> int \<Rightarrow> uint256" where
  "ancestor_hash h p i = the (phashBlock (the (h (the (ancestor h p i)))))"

lemma ancestor_hash_trans:
  "index_ok h \<Longrightarrow> h p = Some b \<Longrightarrow> ancestor h p k = Some q \<Longrightarrow> i \<le> k \<Longrightarrow> ancestor_hash h q i = ancestor_hash h p i"
  by (simp add: ancestor_hash_def ancestor_trans)

text \<open>
  With \<open>n\<close> hashes pushed, the step is \<open>2 ^ (n - 10)\<close>, and the height and the step together do not
  exceed the height at the start: the step doubles while the height drops by it.
\<close>

lemma GetLocator_loop_eq:
  assumes ok: "index_ok h" "chain_ok h vChain" "hashes_known h" and H: "H < 2 ^ 30"
    and "h q = Some c" "nHeight c = int t" "step = 2 ^ (length vHave - 10)" "t = 0 \<or> int t + step \<le> H + 1"
  shows "\<exists>hts. hts \<noteq> [] \<and> hd hts = int t \<and> last hts = 0 \<and> sorted_wrt (>) hts \<and>
    GetLocator_loop h vChain (Some q) step vHave = Some (Ok (vHave @ map (ancestor_hash h q) hts)) \<and>
    length vHave + length hts \<le> 41 + (if t = 0 then length vHave - 40 else 0)"
  using assms(5-)
proof (induction t arbitrary: q c step vHave rule: less_induct)
  case (less t)
  obtain hash where hash: "phashBlock c = Some hash" using ok(3) less.prems(1) by (auto simp: hashes_known_def)
  have self: "ancestor h q (nHeight c) = Some q" using ancestor_self [of h q c] less.prems by simp
  then have push: "ancestor_hash h q (nHeight c) = hash" using less.prems(1) hash by (simp add: ancestor_hash_def)
  show ?case
  proof (cases "t = 0")
    case True
    then have "GetLocator_loop h vChain (Some q) step vHave = Some (Ok (vHave @ [hash]))"
      using less.prems hash by (subst GetLocator_loop.simps) simp
    then show ?thesis using True push less.prems(2) by (intro exI [of _ "[0]"]) simp
  next
    case False
    have st: "step \<ge> 1" "int t + step \<le> H + 1" using less.prems(3,4) False by simp_all
    define t' where "t' = nat (int t - step)"
    have t': "t' < t" "int t' = max (int t - step) 0" using False st(1) by (auto simp: t'_def)
    obtain r d where r: "ancestor h q (int t') = Some r" "h r = Some d" "nHeight d = int t'"
    proof (rule ancestor_Some [OF ok(1) less.prems(1), of "int t'"])
      show "int t' \<le> nHeight c" using t'(1) less.prems(2) by simp
    qed simp_all
    have next_q: "(if chain_at vChain (nHeight c) = Some q then Ok (chain_at vChain (int t'))
        else GetAncestor h q (int t')) = Ok (Some r)"
      using chain_at_ancestor [OF ok(1,2), of "nHeight c" q "int t'"] GetAncestor_eq [OF ok(1) less.prems(1)]
        r(1) less.prems(2) t'(1) by simp
    define step' where "step' = (if length vHave \<ge> 10 then step * 2 else step)"
    have "step * 2 < 2 ^ 31" using st(2) False H by simp
    then have L: "GetLocator_loop h vChain (Some q) step vHave = GetLocator_loop h vChain (Some r) step' (vHave @ [hash])"
      using less.prems(1,2) hash False
      by (subst GetLocator_loop.simps)
        (simp add: step'_def Let_def t'(2) [symmetric] next_q [unfolded less.prems(2)])
    have s': "step' = 2 ^ (length (vHave @ [hash]) - 10)"
    proof (cases "length vHave \<ge> 10")
      case True
      then obtain n where "length vHave = 10 + n" using le_Suc_ex by blast
      then show ?thesis using less.prems(3) by (simp add: step'_def)
    qed (use less.prems(3) in \<open>simp add: step'_def\<close>)
    have inv: "t' = 0 \<or> int t' + step' \<le> H + 1" using st t' by (auto simp: step'_def)
    obtain hts where hts: "hts \<noteq> []" "hd hts = int t'" "last hts = 0" "sorted_wrt (>) hts"
      "GetLocator_loop h vChain (Some r) step' (vHave @ [hash]) = Some (Ok ((vHave @ [hash]) @ map (ancestor_hash h r) hts))"
      "length (vHave @ [hash]) + length hts \<le> 41 + (if t' = 0 then length (vHave @ [hash]) - 40 else 0)"
      using less.IH [OF t'(1) r(2,3) s' inv] by blast
    have le: "i \<le> int t'" if "i \<in> set hts" for i
      using hts(1,2,4) that by (cases hts) auto
    have "map (ancestor_hash h r) hts = map (ancestor_hash h q) hts"
      using le ancestor_hash_trans [OF ok(1) less.prems(1) r(1)] by (intro map_cong) simp_all
    moreover have "length vHave < 40"
    proof -
      have "(2 :: int) ^ (length vHave - 10) < 2 ^ 30" using st(2) False H less.prems(3) by simp
      then have "length vHave - 10 < 30" by (rule power_less_imp_less_exp [rotated]) simp
      then show ?thesis by simp
    qed
    ultimately show ?thesis using hts L push less.prems(2) t'(1) le
      by (intro exI [of _ "int t # hts"]) (fastforce split: if_splits)
  qed
qed

subsection \<open>Blocks of a concrete index\<close>

text \<open>A chain of three blocks with a fork of one block at height 1.\<close>

definition sample_block :: "nat \<Rightarrow> ptr option \<Rightarrow> int \<Rightarrow> CBlockIndex" where
  "sample_block i prev height = CBlockIndex_SetNull\<lparr>phashBlock := Some (replicate 32 (of_nat i)), pprev := prev, nHeight := height\<rparr>"

definition sample_index :: block_heap where
  "sample_index = [10 \<mapsto> sample_block 0 None 0, 11 \<mapsto> sample_block 1 (Some 10) 1, 12 \<mapsto> sample_block 2 (Some 11) 2,
     13 \<mapsto> sample_block 3 (Some 10) 1]"

lemma sample_index_ok: "index_ok sample_index" "hashes_known sample_index"
  by (auto simp: index_ok_def hashes_known_def entry_ok_def sample_index_def sample_block_def
      CBlockIndex_SetNull_def split: if_splits)

lemma sample_index_simps:
  "sample_index 10 = Some (sample_block 0 None 0)" "sample_index 11 = Some (sample_block 1 (Some 10) 1)"
  "sample_index 12 = Some (sample_block 2 (Some 11) 2)" "sample_index 13 = Some (sample_block 3 (Some 10) 1)"
  "nHeight (sample_block i q k) = k" "pprev (sample_block i q k) = q"
  by (simp_all add: sample_index_def sample_block_def)

lemma sample_chain_ok: "chain_ok sample_index (chain_of sample_index 13)"
  unfolding chain_ok_def by (intro disjI2 exI [of _ 13]) (simp add: sample_index_simps)

lemma sample_walk:
  "walk sample_index 2 12 = Some 10" "walk sample_index (Suc 0) 12 = Some 11" "walk sample_index 0 12 = Some 12"
  by (simp_all add: numeral_2_eq_2 sample_index_simps)

subsection \<open>Properties\<close>

text \<open>
  C20: following skip pointers finds the ancestor that stepping back one block at a time finds. On
  an index whose heights and skip pointers are consistent, \<open>GetAncestor\<close> always returns, never
  follows a bad pointer or fails its assertion, and its result is the block at that height of the
  branch, or null for a height above the block or below zero.
\<close>

theorem GetAncestor_naive:
  assumes "index_ok h" "h p = Some b"
  shows "GetAncestor h p height = Ok (ancestor h p height) \<and>
    (0 \<le> height \<and> height \<le> nHeight b \<longleftrightarrow> ancestor h p height \<noteq> None)"
  using GetAncestor_eq [OF assms] ancestor_Some [OF assms, of height] assms(2)
  by (auto simp: ancestor_def split: if_splits)

theorem GetAncestor_naive_witness:
  "index_ok sample_index \<and> sample_index 12 = Some (sample_block 2 (Some 11) 2) \<and>
   GetAncestor sample_index 12 0 = Ok (Some 10)"
  using GetAncestor_naive [OF sample_index_ok(1) sample_index_simps(3), of 0] sample_index_ok(1)
  by (simp add: sample_index_simps ancestor_def sample_walk)

text \<open>
  C21: the active chain. On a consistent index, \<open>SetTip\<close> turns any chain into exactly the list of the
  ancestors of the new tip, although it stops at the first entry that is already in place; and
  \<open>FindFork\<close> returns the last block that the chain and the branch of a block have in common, the
  two agreeing up to it and nowhere above, or null when they share no block.
\<close>

theorem active_chain:
  assumes "index_ok h" "chain_ok h vChain" "h p = Some b"
  shows "SetTip h vChain (Some p) = Some (Ok (chain_of h p)) \<and> chain_ok h (chain_of h p) \<and>
    (\<exists>r. FindFork h vChain (Some p) = Some (Ok r) \<and> is_fork h vChain p r)"
  using SetTip_eq [OF assms] FindFork_eq [OF assms] assms(3) by (auto simp: chain_ok_def)

theorem active_chain_witness:
  "SetTip sample_index (chain_of sample_index 13) (Some 12) = Some (Ok [Some 10, Some 11, Some 12]) \<and>
   (\<exists>r. FindFork sample_index (chain_of sample_index 13) (Some 12) = Some (Ok r) \<and>
      is_fork sample_index (chain_of sample_index 13) 12 r)"
  using active_chain [OF sample_index_ok(1) sample_chain_ok sample_index_simps(3)]
  by (simp add: chain_of_def [of _ 12] ancestor_def sample_index_simps sample_walk upt_rec)

text \<open>
  C22: the block locator. For a chain on a consistent index of height below \<open>2 ^ 30\<close>, \<open>GetLocator\<close>
  ends without overflowing its step, with at most 41 hashes: those of ancestors of the block at
  strictly decreasing heights, from the block itself to the genesis block.
\<close>

theorem GetLocator_ends:
  assumes "index_ok h" "chain_ok h vChain" "hashes_known h" "h p = Some b" "nHeight b < 2 ^ 30"
  shows "\<exists>hts. GetLocator h vChain (Some p) = Some (Ok (map (ancestor_hash h p) hts)) \<and>
    hts \<noteq> [] \<and> hd hts = nHeight b \<and> last hts = 0 \<and> sorted_wrt (>) hts \<and> length hts \<le> 41"
proof -
  obtain t where t: "nHeight b = int t"
    using entry_height [OF index_okD [OF assms(1,4)]] nonneg_int_cases by blast
  have "\<exists>hts. hts \<noteq> [] \<and> hd hts = int t \<and> last hts = 0 \<and> sorted_wrt (>) hts \<and>
    GetLocator_loop h vChain (Some p) 1 [] = Some (Ok ([] @ map (ancestor_hash h p) hts)) \<and>
    length ([] :: uint256 list) + length hts \<le> 41 + (if t = 0 then length ([] :: uint256 list) - 40 else 0)"
    by (rule GetLocator_loop_eq [OF assms(1-3,5,4) t]) (simp_all add: t)
  then show ?thesis by (fastforce simp: GetLocator_def t split: if_splits)
qed

theorem GetLocator_ends_witness:
  "\<exists>hts. GetLocator sample_index (chain_of sample_index 13) (Some 12) =
      Some (Ok (map (ancestor_hash sample_index 12) hts)) \<and> hd hts = 2 \<and> last hts = 0"
  using GetLocator_ends [OF sample_index_ok(1) sample_chain_ok sample_index_ok(2) sample_index_simps(3)]
  by (auto simp: sample_index_simps)

end
