(* ===== verification/Block_Tree.thy ===== *)
theory Block_Tree
  imports Active_Chain
begin

text \<open>
  The work of a block (\<open>GetBlockProof\<close>) and the growth of the block index: \<open>AddToBlockIndex\<close> of
  \<^verbatim>\<open>src/src/validation.cpp\<close>, with the block header of \<^verbatim>\<open>src/src/primitives/block.h\<close>. The hash of a
  header is computed by the HMQ1725 functions and is a parameter.
\<close>

record CBlockHeader =
  header_nVersion :: u32
  header_hashPrevBlock :: uint256
  header_hashMerkleRoot :: uint256
  header_nTime :: u32
  header_nBits :: u32
  header_nNonce :: u32

text \<open>
  The globals that \<open>AddToBlockIndex\<close> changes; \<open>next_address\<close> stands for the allocator.
\<close>

record block_tree =
  entries :: block_heap
  mapBlockIndex :: "uint256 \<Rightarrow> ptr option"
  pindexBestHeader :: "ptr option"
  setDirtyBlockIndex :: "ptr list"
  next_address :: ptr

abbreviation BLOCK_VALID_TREE :: u32 where "BLOCK_VALID_TREE \<equiv> 2"

definition CBlockIndex_of_header :: "CBlockHeader \<Rightarrow> CBlockIndex" where
  "CBlockIndex_of_header block = CBlockIndex_SetNull\<lparr>nVersion := header_nVersion block,
     hashMerkleRoot := header_hashMerkleRoot block, nTime := header_nTime block,
     nBits := header_nBits block, nNonce := header_nNonce block\<rparr>"

text \<open>Linking a new entry to its predecessor.\<close>

definition link_prev :: "block_heap \<Rightarrow> ptr \<Rightarrow> CBlockIndex \<Rightarrow> ptr option \<Rightarrow> block_heap uint_result" where
  "link_prev h pindexNew b miPrev =
     (case miPrev of
        None \<Rightarrow> Ok h
      | Some q \<Rightarrow>
          bindO (deref h q) (\<lambda>c.
          bindO (assertO (nHeight c + 1 < 2 ^ 31)) (\<lambda>_.
          BuildSkip (h(pindexNew \<mapsto> b\<lparr>pprev := Some q, nHeight := nHeight c + 1\<rparr>)) pindexNew)))"

definition finish_entry :: "block_heap \<Rightarrow> CBlockIndex \<Rightarrow> CBlockIndex uint_result" where
  "finish_entry h b =
     bindO (case pprev b of None \<Rightarrow> Ok (nTime b, uint_of_u64 0)
            | Some q \<Rightarrow> bindO (deref h q) (\<lambda>c. Ok (max (nTimeMax c) (nTime b), nChainWork c))) (\<lambda>(timeMax, work).
     bindO (GetBlockProof b) (\<lambda>proof.
     bindO (RaiseValidity (b\<lparr>nTimeMax := timeMax, nChainWork := uint_add work proof\<rparr>) BLOCK_VALID_TREE) (\<lambda>(b, _).
     Ok b)))"

definition AddToBlockIndex ::
  "(CBlockHeader \<Rightarrow> uint256) \<Rightarrow> block_tree \<Rightarrow> CBlockHeader \<Rightarrow> (block_tree \<times> ptr) uint_result" where
  "AddToBlockIndex GetHash st block =
     (let hash = GetHash block in
      case mapBlockIndex st hash of
        Some p \<Rightarrow> Ok (st, p)
      | None \<Rightarrow>
          let pindexNew = next_address st;
              b = (CBlockIndex_of_header block)\<lparr>nSequenceId := 0, phashBlock := Some hash\<rparr>;
              blockmap = (mapBlockIndex st)(hash \<mapsto> pindexNew);
              h = (entries st)(pindexNew \<mapsto> b)
          in bindO (link_prev h pindexNew b (blockmap (header_hashPrevBlock block))) (\<lambda>h.
             bindO (deref h pindexNew) (\<lambda>b.
             bindO (finish_entry h b) (\<lambda>b.
             bindO (case pindexBestHeader st of
                      None \<Rightarrow> Ok True
                    | Some q \<Rightarrow> bindO (deref h q) (\<lambda>c. Ok (CompareTo (nChainWork c) (nChainWork b) < 0))) (\<lambda>better.
             Ok (st\<lparr>entries := h(pindexNew \<mapsto> b), mapBlockIndex := blockmap,
                    pindexBestHeader := if better then Some pindexNew else pindexBestHeader st,
                    setDirtyBlockIndex := pindexNew # setDirtyBlockIndex st,
                    next_address := pindexNew + 1\<rparr>, pindexNew))))))"

subsection \<open>The work of a block\<close>

definition valid_target :: "u32 \<Rightarrow> bool" where
  "valid_target bits \<longleftrightarrow> 0 < compact_value bits \<and> compact_value bits < 2 ^ 256 \<and> even (unat bits div 2 ^ 23)"

definition block_work :: "u32 \<Rightarrow> nat" where
  "block_work bits = (if valid_target bits then 2 ^ 256 div (compact_value bits + 1) else 0)"

lemma EqualTo_uval: "2 \<le> length pn \<Longrightarrow> EqualTo pn b \<longleftrightarrow> uval pn = unat b"
proof -
  assume "2 \<le> length pn"
  then obtain p0 p1 r where pn: "pn = p0 # p1 # r" by (cases pn; cases "tl pn") auto
  have v: "uval pn = unat p0 + 2 ^ 32 * (unat p1 + 2 ^ 32 * uval r)" by (simp add: pn)
  have hi: "(ucast p1 :: u64) = drop_bit 32 b \<longleftrightarrow> unat p1 = unat b div 2 ^ 32"
    using unat_bound [of b]
    by (simp add: word_unat_eq_iff unat_ucast_u64 unsigned_drop_bit_eq drop_bit_eq_div [where 'a = nat] take_bit_nat_eq_self)
  have "b AND 0xffffffff = take_bit 32 b" by (simp only: take_bit_eq_mask) (simp add: mask_eq_exp_minus_1)
  then have "unat (b AND 0xffffffff) = unat b mod 2 ^ 32"
    by (simp only: unsigned_take_bit_eq take_bit_eq_mod [where 'a = nat])
  then have lo: "(ucast p0 :: u64) = b AND 0xffffffff \<longleftrightarrow> unat p0 = unat b mod 2 ^ 32"
    by (simp only: word_unat_eq_iff unat_ucast_u64)
  have "uval pn = unat b \<longleftrightarrow> uval pn mod 2 ^ 32 = unat b mod 2 ^ 32 \<and> uval pn div 2 ^ 32 = unat b div 2 ^ 32"
    by (metis div_mult_mod_eq)
  also have "\<dots> \<longleftrightarrow> unat p0 = unat b mod 2 ^ 32 \<and> unat p1 + 2 ^ 32 * uval r = unat b div 2 ^ 32"
  proof -
    have "(a + 2 ^ 32 * x) mod 2 ^ 32 = a \<and> (a + 2 ^ 32 * x) div 2 ^ 32 = x" if "a < 2 ^ 32" for a x :: nat
      using that by simp
    from this [OF unat_u32] show ?thesis unfolding v by (simp only: simp_thms)
  qed
  also have "unat p1 + 2 ^ 32 * uval r = unat b div 2 ^ 32 \<longleftrightarrow> unat p1 = unat b div 2 ^ 32 \<and> uval r = 0"
  proof -
    have "unat b div 2 ^ 32 < 2 ^ 32" using unat_bound [of b] by (simp add: div_less_iff_less_mult)
    then show ?thesis by (cases "uval r") auto
  qed
  finally show ?thesis unfolding EqualTo_def hi [symmetric] lo [symmetric] uval_eq_0
    by (auto simp: pn)
qed

lemma compact_value_not_max: "compact_value c < 2 ^ 256 \<Longrightarrow> compact_value c + 1 < 2 ^ 256"
proof -
  assume c: "compact_value c < 2 ^ 256"
  show ?thesis
  proof (cases "compact_size c \<le> 3")
    case True
    then have "compact_value c \<le> compact_mantissa c" by (simp add: compact_value_def)
    then show ?thesis using compact_mantissa_less [of c] by simp
  next
    case False
    then obtain k where "compact_size c - 3 = Suc k" by (cases "compact_size c - 3") simp_all
    then have "even (compact_value c)" using False by (simp add: compact_value_def)
    moreover have "odd (2 ^ 256 - 1 :: nat)" by simp
    ultimately have "compact_value c \<noteq> 2 ^ 256 - 1" by metis
    then show ?thesis using c by linarith
  qed
qed

lemma GetBlockProof_work:
  "\<exists>w. GetBlockProof b = Ok w \<and> length w = WIDTH \<and> uval w = block_work (nBits b)"
proof -
  obtain t neg over where S: "SetCompact (nBits b) = (t, neg, over)" by (cases "SetCompact (nBits b)") auto
  let ?v = "compact_value (nBits b)"
  have len: "length t = WIDTH" using S by (auto simp: SetCompact_def Let_def uint_shl_nth split: if_splits)
  have ut: "uval t = ?v mod 2 ^ 256" using uval_SetCompact [of "nBits b"] S by simp
  have fl: "neg \<longleftrightarrow> ?v \<noteq> 0 \<and> odd (unat (nBits b) div 2 ^ 23)" "over \<longleftrightarrow> ?v \<ge> 2 ^ 256"
    using SetCompact_flags [of "nBits b"] S by simp_all
  have z: "EqualTo t 0 \<longleftrightarrow> uval t = 0" using EqualTo_uval [of t 0] len by (simp add: WIDTH_def)
  show ?thesis
  proof (cases "valid_target (nBits b)")
    case False
    then have "neg \<or> over \<or> EqualTo t 0" using fl z ut by (auto simp: valid_target_def)
    then show ?thesis using S False by (simp add: GetBlockProof_def block_work_def uval_of_u64)
  next
    case True
    then have v: "0 < ?v" "?v < 2 ^ 256" "\<not> neg" "\<not> over" "uval t = ?v"
      using fl ut by (auto simp: valid_target_def)
    have d: "uval (uint_add64 t 1) = ?v + 1"
      using compact_value_not_max [OF v(2)] len v(5)
      by (simp add: uint_add64_def uval_add uval_of_u64 WIDTH_def)
    have n: "uval (uint_not t) = 2 ^ 256 - (?v + 1)"
      using uval_not [of t] len v(5) by (simp add: WIDTH_def)
    obtain q where q: "uint_div (uint_not t) (uint_add64 t 1) = Ok q" "length q = WIDTH"
      "uval q = (2 ^ 256 - (?v + 1)) div (?v + 1)"
      using uval_div [of "uint_not t" "uint_add64 t 1"] d n len by (auto simp: uint_add64_def)
    have "uval q + 1 = 2 ^ 256 div (?v + 1)"
      using le_div_geq [of "?v + 1" "2 ^ 256"] v(2) q(3) by simp
    moreover have "2 ^ 256 div (?v + 1) < 2 ^ 256" using v(1) by (intro div_less_dividend) simp_all
    ultimately have "uval (uint_add64 q 1) = 2 ^ 256 div (?v + 1)"
      using q(2) by (simp add: uint_add64_def uval_add uval_of_u64 WIDTH_def)
    then show ?thesis using S True v z q by (simp add: GetBlockProof_def block_work_def outcome_simps uint_add64_def)
  qed
qed

subsection \<open>Growing the index\<close>

text \<open>What every entry of the index records of its branch, and of the maps.\<close>

definition branch_ok :: "block_heap \<Rightarrow> CBlockIndex \<Rightarrow> bool" where
  "branch_ok h b \<longleftrightarrow>
     length (nChainWork b) = WIDTH \<and>
     (case pprev b of
        None \<Rightarrow> uval (nChainWork b) = block_work (nBits b) \<and> nTimeMax b = nTime b
      | Some q \<Rightarrow> (\<exists>c. h q = Some c \<and>
          uval (nChainWork b) = (uval (nChainWork c) + block_work (nBits b)) mod 2 ^ 256 \<and>
          nTimeMax b = max (nTimeMax c) (nTime b)))"

text \<open>The best header has the most work.\<close>

definition best_ok :: "block_heap \<Rightarrow> ptr option \<Rightarrow> bool" where
  "best_ok h best \<longleftrightarrow>
     (case best of
        None \<Rightarrow> \<forall>p. h p = None
      | Some q \<Rightarrow> (\<exists>c. h q = Some c \<and> (\<forall>p b. h p = Some b \<longrightarrow> uval (nChainWork b) \<le> uval (nChainWork c))))"

definition tree_ok :: "block_tree \<Rightarrow> bool" where
  "tree_ok st \<longleftrightarrow>
     index_ok (entries st) \<and>
     (\<forall>p b. entries st p = Some b \<longrightarrow>
        p < next_address st \<and> branch_ok (entries st) b \<and>
        (\<exists>hash. phashBlock b = Some hash \<and> mapBlockIndex st hash = Some p)) \<and>
     (\<forall>hash p. mapBlockIndex st hash = Some p \<longrightarrow> (\<exists>b. entries st p = Some b \<and> phashBlock b = Some hash)) \<and>
     best_ok (entries st) (pindexBestHeader st)"

lemma walk_extend:
  assumes "index_ok h" "h \<subseteq>\<^sub>m h'"
  shows "h p = Some b \<Longrightarrow> int n \<le> nHeight b \<Longrightarrow> walk h' n p = walk h n p"
proof (induction n arbitrary: p b)
  case (Suc n)
  obtain q c where q: "pprev b = Some q" "h q = Some c" "nHeight b = nHeight c + 1"
    using entry_prev [OF assms(1) Suc.prems(1)] Suc.prems(2) by auto
  have "h' p = Some b" using assms(2) Suc.prems(1) by (auto simp: map_le_def dom_def)
  then show ?case using Suc.IH [OF q(2)] q Suc.prems by simp
qed simp

lemma entry_extend:
  assumes "index_ok h" "h \<subseteq>\<^sub>m h'" "h p = Some b"
  shows "entry_ok h' p b"
proof -
  have e: "entry_ok h p b" by (rule index_okD [OF assms(1,3)])
  have "walk h' n p = walk h n p" if "int n \<le> nHeight b" for n by (rule walk_extend [OF assms that])
  moreover have "int (nat (nHeight b) - k) \<le> nHeight b" for k using entry_height [OF e] by simp
  moreover have "h' q = Some c" if "h q = Some c" for q c using assms(2) that by (auto simp: map_le_def dom_def)
  ultimately show ?thesis using e
    by (auto simp: entry_ok_def split: option.splits)
qed

lemma branch_extend: "h \<subseteq>\<^sub>m h' \<Longrightarrow> branch_ok h b \<Longrightarrow> branch_ok h' b"
  by (fastforce simp: branch_ok_def map_le_def dom_def split: option.splits)

lemma map_le_fresh: "h p = None \<Longrightarrow> h \<subseteq>\<^sub>m h(p \<mapsto> b)"
  by (auto simp: map_le_def)

text \<open>A new entry above an existing block, before and after its skip pointer is set.\<close>

lemma index_ok_new:
  assumes "index_ok h" "h p = None" "h q = Some c" "pprev b = Some q" "nHeight b = nHeight c + 1"
    and "pskip b = None \<or> pskip b = ancestor h q (int (GetSkipHeight (nat (nHeight b))))"
  shows "index_ok (h(p \<mapsto> b))"
proof -
  let ?h = "h(p \<mapsto> b)"
  have le: "h \<subseteq>\<^sub>m ?h" by (rule map_le_fresh [of h p b, OF assms(2)])
  have pq: "q \<noteq> p" using assms(2,3) by auto
  have c: "0 \<le> nHeight c" by (rule entry_height [OF index_okD [OF assms(1,3)]])
  let ?w = "nat (nHeight b)"
  have "walk ?h (?w - GetSkipHeight ?w) p = Some s" if "pskip b = Some s" for s
  proof -
    have w: "?w > 0" using c assms(5) by simp
    then have sk: "GetSkipHeight ?w < ?w" by (rule GetSkipHeight_less)
    have a: "ancestor h q (int (GetSkipHeight ?w)) = Some s" using assms(6) that by simp
    have "?w - GetSkipHeight ?w = Suc (nat (nHeight c - int (GetSkipHeight ?w)))"
      using sk c assms(5) by (simp add: nat_diff_distrib nat_add_distrib)
    moreover have "walk ?h (nat (nHeight c - int (GetSkipHeight ?w))) q = Some s"
      using a assms(3) walk_extend [OF assms(1) le assms(3), of "nat (nHeight c - int (GetSkipHeight ?w))"] c
      by (auto simp: ancestor_def split: if_splits)
    ultimately show ?thesis using assms(4) by simp
  qed
  then have "entry_ok ?h p b" using assms(3-5) c pq by (auto simp: entry_ok_def split: option.splits)
  moreover have "entry_ok ?h r d" if "h r = Some d" for r d by (rule entry_extend [OF assms(1) le that])
  ultimately show ?thesis by (auto simp: index_ok_def)
qed

lemma BuildSkip_new:
  assumes "index_ok h" "h p = None" "h q = Some c" "pprev b = Some q" "nHeight b = nHeight c + 1" "pskip b = None"
  shows "\<exists>s. BuildSkip (h(p \<mapsto> b)) p = Ok (h(p \<mapsto> b\<lparr>pskip := Some s\<rparr>)) \<and> index_ok (h(p \<mapsto> b\<lparr>pskip := Some s\<rparr>))"
proof -
  let ?h = "h(p \<mapsto> b)" and ?k = "int (GetSkipHeight (nat (nHeight b)))"
  have ok: "index_ok ?h" using assms by (intro index_ok_new) auto
  have pq: "q \<noteq> p" using assms(2,3) by auto
  have hq: "?h q = Some c" using assms(3) pq by simp
  have c: "0 \<le> nHeight c" by (rule entry_height [OF index_okD [OF assms(1,3)]])
  have k: "0 \<le> ?k" "?k \<le> nHeight c" using GetSkipHeight_less [of "nat (nHeight b)"] c assms(5) by simp_all
  have same: "ancestor ?h q ?k = ancestor h q ?k"
    using walk_extend [OF assms(1) map_le_fresh [of h p b, OF assms(2)] assms(3), of "nat (nHeight c - ?k)"] k hq assms(3)
    by (simp add: ancestor_def)
  obtain s where s: "ancestor h q ?k = Some s" using ancestor_Some [OF assms(1,3) k] by blast
  have "BuildSkip ?h p = Ok (h(p \<mapsto> b\<lparr>pskip := Some s\<rparr>))"
    using GetAncestor_eq [of ?h q c ?k, OF ok hq] same s assms(4)
    by (simp add: BuildSkip_def deref_def outcome_simps)
  moreover have "index_ok (h(p \<mapsto> b\<lparr>pskip := Some s\<rparr>))"
    using assms s by (intro index_ok_new) auto
  ultimately show ?thesis by blast
qed

text \<open>\<open>finish_entry\<close> and \<open>link_prev\<close> on a new entry.\<close>

lemma finish_entry_ok:
  assumes "case pprev b of None \<Rightarrow> True | Some q \<Rightarrow> \<exists>c. h q = Some c \<and> length (nChainWork c) = WIDTH"
  shows "\<exists>b'. finish_entry h b = Ok b' \<and> branch_ok h b' \<and> pprev b' = pprev b \<and> pskip b' = pskip b \<and>
    nHeight b' = nHeight b \<and> phashBlock b' = phashBlock b \<and> nBits b' = nBits b"
proof -
  obtain w where w: "GetBlockProof b = Ok w" "length w = WIDTH" "uval w = block_work (nBits b)"
    using GetBlockProof_work by blast
  have valid: "BLOCK_VALID_TREE AND NOT BLOCK_VALID_MASK = 0" by simp
  have R: "\<exists>st r. RaiseValidity d BLOCK_VALID_TREE = Ok (d\<lparr>nStatus := st\<rparr>, r)" for d :: CBlockIndex
  proof -
    have "\<exists>st. d = d\<lparr>nStatus := st\<rparr>" by (rule exI [of _ "nStatus d"]) simp
    then show ?thesis unfolding RaiseValidity_def valid by (auto simp: outcome_simps assertO_def)
  qed
  have len: "uval w < 2 ^ 256" using uval_bound [of w] w(2) by (simp add: WIDTH_def)
  show ?thesis
  proof (cases "pprev b")
    case None
    obtain st r where "RaiseValidity (b\<lparr>nTimeMax := nTime b, nChainWork := uint_add (uint_of_u64 0) w\<rparr>) BLOCK_VALID_TREE =
        Ok (b\<lparr>nTimeMax := nTime b, nChainWork := uint_add (uint_of_u64 0) w, nStatus := st\<rparr>, r)"
      using R by fastforce
    then show ?thesis using None w len
      by (simp add: finish_entry_def outcome_simps branch_ok_def uval_add uval_of_u64 WIDTH_def)
  next
    case (Some q)
    then obtain c where c: "h q = Some c" "length (nChainWork c) = WIDTH" using assms by auto
    obtain st r where "RaiseValidity (b\<lparr>nTimeMax := max (nTimeMax c) (nTime b), nChainWork := uint_add (nChainWork c) w\<rparr>) BLOCK_VALID_TREE =
        Ok (b\<lparr>nTimeMax := max (nTimeMax c) (nTime b), nChainWork := uint_add (nChainWork c) w, nStatus := st\<rparr>, r)"
      using R by fastforce
    then show ?thesis using Some w c
      by (simp add: finish_entry_def deref_def outcome_simps branch_ok_def uval_add WIDTH_def)
  qed
qed

lemma link_prev_ok:
  assumes "index_ok h" "h p = None" "pprev b = None" "pskip b = None" "nHeight b = 0"
    and "case m of None \<Rightarrow> True | Some q \<Rightarrow> \<exists>c. h q = Some c \<and> nHeight c + 1 < 2 ^ 31"
  shows "\<exists>b'. link_prev (h(p \<mapsto> b)) p b m = Ok (h(p \<mapsto> b')) \<and> index_ok (h(p \<mapsto> b')) \<and> pprev b' = m \<and>
    phashBlock b' = phashBlock b \<and> nBits b' = nBits b"
proof (cases m)
  case None
  have "entry_ok (h(p \<mapsto> b)) p b" using assms by (simp add: entry_ok_def)
  moreover have "entry_ok (h(p \<mapsto> b)) r d" if "h r = Some d" for r d
    by (rule entry_extend [OF assms(1) map_le_fresh [of h p b, OF assms(2)] that])
  ultimately have "index_ok (h(p \<mapsto> b))" by (auto simp: index_ok_def)
  then show ?thesis using None assms by (intro exI [of _ b]) (simp add: link_prev_def)
next
  case (Some q)
  then obtain c where c: "h q = Some c" "nHeight c + 1 < 2 ^ 31" using assms(6) by auto
  then have "q \<noteq> p" using assms(2) by auto
  let ?b = "b\<lparr>pprev := Some q, nHeight := nHeight c + 1\<rparr>"
  obtain s where "BuildSkip (h(p \<mapsto> ?b)) p = Ok (h(p \<mapsto> ?b\<lparr>pskip := Some s\<rparr>))"
    "index_ok (h(p \<mapsto> ?b\<lparr>pskip := Some s\<rparr>))"
    using BuildSkip_new [of h p q c ?b] assms c by auto
  then show ?thesis using Some c \<open>q \<noteq> p\<close>
    by (intro exI [of _ "?b\<lparr>pskip := Some s\<rparr>"]) (simp add: link_prev_def deref_def outcome_simps assertO_def)
qed

lemma entry_ok_replace:
  assumes "index_ok (h(p \<mapsto> b))" "h p = None" "pprev b' = pprev b" "pskip b' = pskip b" "nHeight b' = nHeight b"
  shows "index_ok (h(p \<mapsto> b'))"
proof -
  have w: "walk (h(p \<mapsto> b')) n r = walk (h(p \<mapsto> b)) n r" for n r
    by (induction n arbitrary: r) (simp_all add: assms(3) split: option.splits)
  have "entry_ok (h(p \<mapsto> b')) r (if r = p then b' else d) \<longleftrightarrow> entry_ok (h(p \<mapsto> b)) r (if r = p then b else d)" for r d
    using assms(3-5) by (auto simp: entry_ok_def w split: option.splits)
  then show ?thesis using assms(1) by (fastforce simp: index_ok_def split: if_splits)
qed

lemma branch_ok_cong: "pprev b \<noteq> Some p \<Longrightarrow> branch_ok (h(p \<mapsto> b1)) b \<longleftrightarrow> branch_ok (h(p \<mapsto> b2)) b"
  by (auto simp: branch_ok_def split: option.splits)

lemma best_ok_new:
  assumes "best_ok h best" "h p = None" "length (nChainWork b) = WIDTH"
    and "\<And>r d. h r = Some d \<Longrightarrow> length (nChainWork d) = WIDTH"
  shows "\<exists>better. (case best of None \<Rightarrow> Ok True
      | Some q \<Rightarrow> bindO (deref (h(p \<mapsto> b1)) q) (\<lambda>c. Ok (CompareTo (nChainWork c) (nChainWork b) < 0))) = (Ok better :: bool uint_result) \<and>
    best_ok (h(p \<mapsto> b)) (if better then Some p else best)"
proof (cases best)
  case None
  then show ?thesis using assms(1) by (auto simp: best_ok_def)
next
  case (Some q)
  then obtain c where c: "h q = Some c" "\<And>r d. h r = Some d \<Longrightarrow> uval (nChainWork d) \<le> uval (nChainWork c)"
    using assms(1) by (auto simp: best_ok_def)
  then have "q \<noteq> p" using assms(2) by auto
  let ?better = "uval (nChainWork c) < uval (nChainWork b)"
  have "CompareTo (nChainWork c) (nChainWork b) < 0 \<longleftrightarrow> ?better"
    using assms(3,4) c by (simp add: CompareTo_uval)
  moreover have "best_ok (h(p \<mapsto> b)) (if ?better then Some p else Some q)"
  proof (cases ?better)
    case True
    then show ?thesis using c(2) by (fastforce simp: best_ok_def)
  next
    case False
    then show ?thesis using c \<open>q \<noteq> p\<close> by (auto simp: best_ok_def)
  qed
  ultimately show ?thesis using Some c(1) \<open>q \<noteq> p\<close>
    by (intro exI [of _ ?better] conjI) (simp_all add: deref_def outcome_simps split: if_splits)
qed

definition height_fits :: "block_tree \<Rightarrow> CBlockHeader \<Rightarrow> bool" where
  "height_fits st block \<longleftrightarrow>
     (case mapBlockIndex st (header_hashPrevBlock block) of
        None \<Rightarrow> True
      | Some q \<Rightarrow> (case entries st q of None \<Rightarrow> True | Some c \<Rightarrow> nHeight c + 1 < 2 ^ 31))"

lemma AddToBlockIndex_new:
  fixes st :: block_tree
  defines "h \<equiv> entries st" and "p \<equiv> next_address st"
  assumes ok: "tree_ok st" and new: "mapBlockIndex st (GetHash block) = None"
    and prev: "GetHash block \<noteq> header_hashPrevBlock block" "height_fits st block"
  shows "\<exists>b best dirty. AddToBlockIndex GetHash st block =
      Ok (st\<lparr>entries := h(p \<mapsto> b), mapBlockIndex := (mapBlockIndex st)(GetHash block \<mapsto> p),
        pindexBestHeader := best, setDirtyBlockIndex := dirty, next_address := p + 1\<rparr>, p) \<and>
    h p = None \<and> index_ok (h(p \<mapsto> b)) \<and> branch_ok (h(p \<mapsto> b)) b \<and> phashBlock b = Some (GetHash block) \<and>
    best_ok (h(p \<mapsto> b)) best"
proof -
  have idx: "index_ok h" and ent: "\<And>r d. h r = Some d \<Longrightarrow> r < p \<and> branch_ok h d"
    and best: "best_ok h (pindexBestHeader st)"
    using ok by (auto simp: tree_ok_def h_def p_def)
  have maps: "\<And>hash r. mapBlockIndex st hash = Some r \<Longrightarrow> \<exists>d. h r = Some d" using ok unfolding tree_ok_def h_def by blast
  have fresh: "h p = None" using ent [of p] by (cases "h p") auto
  have len: "length (nChainWork d) = WIDTH" if "h r = Some d" for r d using ent [OF that] by (simp add: branch_ok_def)
  let ?m = "mapBlockIndex st (header_hashPrevBlock block)"
  let ?b0 = "(CBlockIndex_of_header block)\<lparr>nSequenceId := 0, phashBlock := Some (GetHash block)\<rparr>"
  have m: "case ?m of None \<Rightarrow> True | Some q \<Rightarrow> \<exists>c. h q = Some c \<and> nHeight c + 1 < 2 ^ 31"
    using maps prev(2) by (fastforce simp: height_fits_def h_def split: option.splits)
  obtain b1 where b1: "link_prev (h(p \<mapsto> ?b0)) p ?b0 ?m = Ok (h(p \<mapsto> b1))" "index_ok (h(p \<mapsto> b1))" "pprev b1 = ?m"
    "phashBlock b1 = Some (GetHash block)"
    using link_prev_ok [OF idx fresh _ _ _ m, of ?b0] by (auto simp: CBlockIndex_of_header_def CBlockIndex_SetNull_def)
  have np: "?m \<noteq> Some p" using maps fresh by fastforce
  have "case pprev b1 of None \<Rightarrow> True | Some q \<Rightarrow> \<exists>c. (h(p \<mapsto> b1)) q = Some c \<and> length (nChainWork c) = WIDTH"
    using b1(3) m np len by (auto split: option.splits)
  from finish_entry_ok [OF this] obtain b2 where b2: "finish_entry (h(p \<mapsto> b1)) b1 = Ok b2" "branch_ok (h(p \<mapsto> b1)) b2"
    "pprev b2 = pprev b1" "pskip b2 = pskip b1" "nHeight b2 = nHeight b1" "phashBlock b2 = phashBlock b1" by blast
  have idx2: "index_ok (h(p \<mapsto> b2))" by (rule entry_ok_replace [OF b1(2) fresh b2(3-5)])
  have br2: "branch_ok (h(p \<mapsto> b2)) b2" using b2(2,3) b1(3) np branch_ok_cong by metis
  have len2: "length (nChainWork b2) = WIDTH" using br2 by (simp add: branch_ok_def)
  obtain better where bt: "(case pindexBestHeader st of None \<Rightarrow> Ok True
      | Some q \<Rightarrow> bindO (deref (h(p \<mapsto> b1)) q) (\<lambda>c. Ok (CompareTo (nChainWork c) (nChainWork b2) < 0))) = (Ok better :: bool uint_result)"
    "best_ok (h(p \<mapsto> b2)) (if better then Some p else pindexBestHeader st)"
    using best_ok_new [of h "pindexBestHeader st" p b2 b1, OF best fresh len2] len by blast
  have "deref (h(p \<mapsto> b1)) p = Ok b1" by (simp add: deref_def)
  then have "AddToBlockIndex GetHash st block =
      Ok (st\<lparr>entries := h(p \<mapsto> b2), mapBlockIndex := (mapBlockIndex st)(GetHash block \<mapsto> p),
        pindexBestHeader := if better then Some p else pindexBestHeader st,
        setDirtyBlockIndex := p # setDirtyBlockIndex st, next_address := p + 1\<rparr>, p)"
    using new prev(1) b1(1) b2(1) bt(1)
    by (simp add: AddToBlockIndex_def Let_def h_def [symmetric] p_def [symmetric] outcome_simps)
  moreover have "phashBlock b2 = Some (GetHash block)" using b1(4) b2(6) by simp
  ultimately show ?thesis using fresh idx2 br2 bt(2) by blast
qed


text \<open>An index that holds the genesis block only, and the header of a block after it.\<close>

definition sample_header :: "uint256 \<Rightarrow> CBlockHeader" where
  "sample_header prev = \<lparr>header_nVersion = 4, header_hashPrevBlock = prev, header_hashMerkleRoot = replicate 32 0,
     header_nTime = 1500000000, header_nBits = 0x207fffff, header_nNonce = 0\<rparr>"

definition sample_tree :: block_tree where
  "sample_tree = \<lparr>entries = Map.empty, mapBlockIndex = Map.empty, pindexBestHeader = None, setDirtyBlockIndex = [],
     next_address = 0\<rparr>"

lemma sample_tree_ok: "tree_ok sample_tree" "height_fits sample_tree block"
  by (simp_all add: tree_ok_def sample_tree_def index_ok_def best_ok_def height_fits_def)


text \<open>
  The work of a block. \<open>GetBlockProof\<close> never divides by zero; its result is the quotient of
  \<open>2 ^ 256\<close> by the target plus one, although \<open>2 ^ 256\<close> itself does not fit, and zero for a target
  that is negative, zero or too large.
\<close>

theorem GetBlockProof_value:
  "\<exists>w. GetBlockProof b = Ok w \<and> length w = WIDTH \<and>
    uval w = (if valid_target (nBits b) then 2 ^ 256 div (compact_value (nBits b) + 1) else 0)"
  using GetBlockProof_work [of b] by (simp add: block_work_def)

end
