(* ===== verification/Pow.thy ===== *)
theory Pow
  imports Block_Tree "HOL-Library.Signed_Division"
begin

text \<open>
  Proof of work: the consensus parameters of \<^verbatim>\<open>src/src/consensus/params.h\<close> and the difficulty
  adjustment of \<^verbatim>\<open>src/src/pow.cpp\<close>. \<open>KimotoGravityWell\<close> makes two decisions with floating-point
  numbers; they are arguments of its model, functions of the integers that the code converts to
  \<open>double\<close>.
\<close>

datatype DeploymentPos = DEPLOYMENT_TESTDUMMY | DEPLOYMENT_CSV | DEPLOYMENT_SEGWIT

record BIP9Deployment =
  deployment_bit :: nat
  nStartTime :: int
  nTimeout :: int

record Params =
  hashGenesisBlock :: uint256
  nSubsidyHalvingInterval :: int
  BIP34Height :: int
  BIP34Hash :: uint256
  BIP65Height :: int
  BIP66Height :: int
  nRuleChangeActivationThreshold :: u32
  nMinerConfirmationWindow :: u32
  vDeployments :: "DeploymentPos \<Rightarrow> BIP9Deployment"
  powLimit :: uint256
  fPowAllowMinDifficultyBlocks :: bool
  fPowNoRetargeting :: bool
  nPowTargetSpacing :: int
  nPowTargetTimespan :: int
  nPowKGWHeight :: int
  nPowDGWHeight :: int
  nMinimumChainWork :: uint256
  defaultAssumeValid :: uint256

text \<open>Division of signed integers truncates; division by zero is \<open>Abort\<close>.\<close>

definition quot :: "int \<Rightarrow> int \<Rightarrow> int uint_result" where
  "quot a b = (if b = 0 then Abort else Ok (a sdiv b))"

definition DifficultyAdjustmentInterval :: "Params \<Rightarrow> int uint_result" where
  "DifficultyAdjustmentInterval params = quot (nPowTargetTimespan params) (nPowTargetSpacing params)"

text \<open>
  \<open>SetDifficultyAdjustmentParams\<close> of \<^verbatim>\<open>src/src/chainparams.cpp\<close> changes the parameters of the main
  network at two heights.
\<close>

definition UpdateDifficultyAdjustmentParameters :: "Params \<Rightarrow> int \<Rightarrow> int \<Rightarrow> Params" where
  "UpdateDifficultyAdjustmentParameters consensus spacing timespan =
     consensus\<lparr>nPowTargetSpacing := spacing, nPowTargetTimespan := timespan\<rparr>"

definition SetDifficultyAdjustmentParams :: "Params \<Rightarrow> int \<Rightarrow> Params" where
  "SetDifficultyAdjustmentParams mainParams height =
     (let p = (if height \<ge> 17500 then UpdateDifficultyAdjustmentParameters mainParams (10 * 60) (60 * 60 * 12)
               else mainParams)
      in if height \<ge> 28400 then UpdateDifficultyAdjustmentParameters p (10 * 60) (60 * 50) else p)"

text \<open>
  The parameters of the main network, \<open>CMainParams\<close>. The object is static, so every field is zero
  before the constructor assigns it; \<open>ceil_95\<close> is \<open>std::ceil(n * 0.95)\<close>, which is assigned before
  the window it reads. The hash of the genesis block, computed with HMQ1725, is the one that the
  constructor asserts.
\<close>

definition ceil_95 :: "u32 \<Rightarrow> u32" where
  "ceil_95 n = of_nat ((unat n * 95 + 99) div 100)"

definition zero_params :: Params where
  "zero_params = \<lparr>hashGenesisBlock = replicate 32 0, nSubsidyHalvingInterval = 0, BIP34Height = 0, BIP34Hash = replicate 32 0,
     BIP65Height = 0, BIP66Height = 0, nRuleChangeActivationThreshold = 0, nMinerConfirmationWindow = 0,
     vDeployments = (\<lambda>_. \<lparr>deployment_bit = 0, nStartTime = 0, nTimeout = 0\<rparr>), powLimit = replicate 32 0,
     fPowAllowMinDifficultyBlocks = False, fPowNoRetargeting = False, nPowTargetSpacing = 0,
     nPowTargetTimespan = 0, nPowKGWHeight = 0, nPowDGWHeight = 0,
     nMinimumChainWork = replicate 32 0, defaultAssumeValid = replicate 32 0\<rparr>"

definition main_genesis_hash :: uint256 where
  "main_genesis_hash = [0x80, 0x03, 0xe5, 0x25, 0xd8, 0x5d, 0x37, 0x93, 0x5e, 0xed, 0x29, 0x71, 0x40, 0xb8, 0xeb, 0x27,
     0x19, 0xc5, 0x39, 0x5c, 0xdc, 0xbf, 0xee, 0x0f, 0x65, 0x87, 0xec, 0x30, 0x4e, 0x79, 0x00, 0x00]"

definition CMainParams :: Params where
  "CMainParams =
     (let consensus = zero_params\<lparr>nSubsidyHalvingInterval := 210000, BIP34Height := 256, BIP34Hash := replicate 32 0,
            BIP65Height := 0, BIP66Height := 0, powLimit := replicate 31 0xff @ [0x7f],
            nPowTargetTimespan := 14 * 24 * 60 * 60, nPowTargetSpacing := 10 * 60,
            fPowAllowMinDifficultyBlocks := False, fPowNoRetargeting := False,
            nPowKGWHeight := 28580, nPowDGWHeight := 28580\<rparr>;
          consensus = consensus\<lparr>nRuleChangeActivationThreshold := ceil_95 (nMinerConfirmationWindow consensus)\<rparr>;
          consensus = consensus\<lparr>nMinerConfirmationWindow :=
            of_int (nPowTargetTimespan consensus sdiv nPowTargetSpacing consensus)\<rparr>;
          consensus = consensus\<lparr>nMinimumChainWork := 1 # replicate 31 0,
            defaultAssumeValid := [0x90, 0x6b, 0x22, 0xab, 0x82, 0x6e, 0x43, 0x1b, 0x31, 0xbc, 0x93, 0xdc, 0x31, 0xdb, 0xe1, 0xb4,
              0xea, 0xdf, 0xd7, 0xf8, 0x6b, 0x17, 0x13, 0x00, 0x00, 0x00, 0x00, 0x00, 0x00, 0x00, 0x00, 0x00],
            hashGenesisBlock := main_genesis_hash\<rparr>
      in consensus\<lparr>vDeployments := (\<lambda>pos. case pos of
           DEPLOYMENT_TESTDUMMY \<Rightarrow> \<lparr>deployment_bit = 28, nStartTime = 1199145601, nTimeout = 1230767999\<rparr>
         | DEPLOYMENT_CSV \<Rightarrow> \<lparr>deployment_bit = 0, nStartTime = 0, nTimeout = 0\<rparr>
         | DEPLOYMENT_SEGWIT \<Rightarrow> \<lparr>deployment_bit = 1, nStartTime = 0, nTimeout = 0\<rparr>)\<rparr>)"

subsection \<open>Checking the proof of work\<close>

definition CheckProofOfWork :: "uint256 \<Rightarrow> u32 \<Rightarrow> Params \<Rightarrow> bool" where
  "CheckProofOfWork hash bits params =
     (let (bnTarget, fNegative, fOverflow) = SetCompact bits in
      if fNegative \<or> EqualTo bnTarget 0 \<or> fOverflow \<or> CompareTo bnTarget (UintToArith256 (powLimit params)) > 0
      then False
      else if CompareTo (UintToArith256 hash) bnTarget > 0 then False
      else True)"

subsection \<open>Retargeting\<close>

text \<open>
  The end of every algorithm: \<open>bnNew *= nActualTimespan; bnNew /= nTargetTimespan\<close> and the limit. The
  multiplication is the one with a \<open>uint32_t\<close>, to which the signed time span converts.
\<close>

definition retarget :: "arith_uint256 \<Rightarrow> int \<Rightarrow> int \<Rightarrow> arith_uint256 \<Rightarrow> u32 uint_result" where
  "retarget bnNew nActualTimespan nTargetTimespan bnPowLimit =
     bindO (uint_div (uint_mul32 bnNew (of_int nActualTimespan)) (uint_of_u64 (of_int nTargetTimespan))) (\<lambda>bnNew.
     GetCompact (if CompareTo bnNew bnPowLimit > 0 then bnPowLimit else bnNew) False)"

definition CalculateNextWorkRequired :: "CBlockIndex \<Rightarrow> int \<Rightarrow> Params \<Rightarrow> u32 uint_result" where
  "CalculateNextWorkRequired pindexLast nFirstBlockTime params =
     (if fPowNoRetargeting params then Ok (nBits pindexLast)
      else
        let timespan = nPowTargetTimespan params;
            nActualTimespan = GetBlockTime pindexLast - nFirstBlockTime;
            nActualTimespan = (if nActualTimespan < timespan sdiv 4 then timespan sdiv 4 else nActualTimespan);
            nActualTimespan = (if nActualTimespan > timespan * 4 then timespan * 4 else nActualTimespan)
        in retarget (fst (SetCompact (nBits pindexLast))) nActualTimespan timespan (UintToArith256 (powLimit params)))"

text \<open>The loop of \<open>DarkGravityWave\<close>: the average and the last block it reads.\<close>

definition nPastBlocks :: nat where "nPastBlocks = 24"

fun dgw_loop :: "block_heap \<Rightarrow> nat \<Rightarrow> nat \<Rightarrow> ptr \<Rightarrow> arith_uint256 \<Rightarrow> (arith_uint256 \<times> ptr) uint_result" where
  "dgw_loop h 0 nCountBlocks pindex bnPastTargetAvg = Ok (bnPastTargetAvg, pindex)"
| "dgw_loop h (Suc k) nCountBlocks pindex bnPastTargetAvg =
     bindO (deref h pindex) (\<lambda>b.
     let bnTarget = fst (SetCompact (nBits b)) in
     bindO (if nCountBlocks = 1 then Ok bnTarget
            else uint_div (uint_add (uint_mul32 bnPastTargetAvg (of_nat nCountBlocks)) bnTarget)
                   (uint_of_u64 (of_nat (nCountBlocks + 1)))) (\<lambda>bnPastTargetAvg.
     if nCountBlocks \<noteq> nPastBlocks
     then bindO (assertO (pprev b \<noteq> None)) (\<lambda>_.
       dgw_loop h k (nCountBlocks + 1) (the (pprev b)) bnPastTargetAvg)
     else dgw_loop h k (nCountBlocks + 1) pindex bnPastTargetAvg))"

definition DarkGravityWave :: "block_heap \<Rightarrow> ptr option \<Rightarrow> Params \<Rightarrow> u32 uint_result" where
  "DarkGravityWave h pindexLast params =
     (let bnPowLimit = UintToArith256 (powLimit params) in
      case pindexLast of
        None \<Rightarrow> GetCompact bnPowLimit False
      | Some p \<Rightarrow>
          bindO (deref h p) (\<lambda>last.
          if nHeight last < int nPastBlocks then GetCompact bnPowLimit False
          else bindO (dgw_loop h nPastBlocks 1 p uint_zero) (\<lambda>(bnNew, pindex).
               bindO (deref h pindex) (\<lambda>b.
               let nTargetTimespan = int nPastBlocks * nPowTargetSpacing params;
                   nActualTimespan = GetBlockTime last - GetBlockTime b;
                   nActualTimespan = (if nActualTimespan < nTargetTimespan sdiv 3 then nTargetTimespan sdiv 3 else nActualTimespan);
                   nActualTimespan = (if nActualTimespan > nTargetTimespan * 3 then nTargetTimespan * 3 else nActualTimespan)
               in retarget bnNew nActualTimespan nTargetTimespan bnPowLimit))))"

text \<open>
  \<open>KimotoGravityWell\<close>. \<open>seconds_min\<close> is \<open>nPowTargetTimespan * 0.025\<close> converted to \<open>uint64_t\<close>; \<open>horizon\<close> is
  the test of \<open>PastRateAdjustmentRatio\<close> against the event horizon, which depends on the target and
  actual seconds and on the number of blocks. The loop returns the average and the two numbers of
  seconds.
\<close>

definition kgw_average :: "u32 \<Rightarrow> arith_uint256 \<Rightarrow> arith_uint256 \<Rightarrow> arith_uint256 uint_result" where
  "kgw_average i average prev =
     (if i > 1 then
        if CompareTo average prev \<ge> 0
        then bindO (uint_div (uint_sub average prev) (uint_of_u64 (ucast i))) (\<lambda>q. Ok (uint_add q prev))
        else bindO (uint_div (uint_sub prev average) (uint_of_u64 (ucast i))) (\<lambda>q. Ok (uint_sub prev q))
      else Ok average)"

partial_function (option) kgw_loop ::
  "block_heap \<Rightarrow> (int \<Rightarrow> int \<Rightarrow> u64 \<Rightarrow> bool) \<Rightarrow> int \<Rightarrow> u64 \<Rightarrow> u64 \<Rightarrow> CBlockIndex \<Rightarrow> u32 \<Rightarrow> u64 \<Rightarrow> ptr \<Rightarrow>
   arith_uint256 \<Rightarrow> int \<Rightarrow> int \<Rightarrow> (arith_uint256 \<times> int \<times> int) uint_result option" where
  "kgw_loop h horizon spacing PastBlocksMin PastBlocksMax BlockLastSolved i PastBlocksMass BlockReading prev actual target =
     (case h BlockReading of
        None \<Rightarrow> Some Abort
      | Some b \<Rightarrow>
          if nHeight b > 0 \<and> \<not> (PastBlocksMax > 0 \<and> ucast i > PastBlocksMax) then
            (case kgw_average i (fst (SetCompact (nBits b))) prev of
               Ok average \<Rightarrow>
                 let PastBlocksMass = PastBlocksMass + 1;
                     seconds = GetBlockTime BlockLastSolved - GetBlockTime b;
                     target = sint (of_int spacing * PastBlocksMass);
                     actual = (if seconds < 0 then 0 else seconds)
                 in if PastBlocksMass \<ge> PastBlocksMin \<and> horizon target actual PastBlocksMass
                    then Some (Ok (average, actual, target))
                    else (case pprev b of
                            None \<Rightarrow> Some (Ok (average, actual, target))
                          | Some q \<Rightarrow> kgw_loop h horizon spacing PastBlocksMin PastBlocksMax BlockLastSolved (i + 1) PastBlocksMass q
                                       average actual target)
             | Fail e \<Rightarrow> Some (Fail e)
             | Throw e \<Rightarrow> Some (Throw e)
             | Abort \<Rightarrow> Some Abort)
          else Some (Ok (prev, actual, target)))"

definition kgw_new :: "arith_uint256 \<Rightarrow> (arith_uint256 \<times> int \<times> int) uint_result \<Rightarrow> u32 uint_result" where
  "kgw_new bnPowLimit r =
     bindO r (\<lambda>(bnNew, actual, target).
       if actual \<noteq> 0 \<and> target \<noteq> 0 then retarget bnNew actual target bnPowLimit
       else GetCompact (if CompareTo bnNew bnPowLimit > 0 then bnPowLimit else bnNew) False)"

definition KimotoGravityWell ::
  "(int \<Rightarrow> u64) \<Rightarrow> (int \<Rightarrow> int \<Rightarrow> u64 \<Rightarrow> bool) \<Rightarrow> block_heap \<Rightarrow> ptr option \<Rightarrow> Params \<Rightarrow> u32 uint_result option" where
  "KimotoGravityWell seconds_min horizon h pindexLast params =
     (let bnPowLimit = UintToArith256 (powLimit params);
          spacing = nPowTargetSpacing params;
          PastBlocksMin = seconds_min (nPowTargetTimespan params) div of_int spacing;
          PastBlocksMax = of_int (nPowTargetTimespan params * 7) div of_int spacing
      in if (of_int spacing :: u64) = 0 then Some Abort
         else
           case pindexLast of
             None \<Rightarrow> Some (GetCompact bnPowLimit False)
           | Some p \<Rightarrow>
               (case h p of
                  None \<Rightarrow> Some Abort
                | Some tip \<Rightarrow>
                    if nHeight tip = 0 \<or> of_int (nHeight tip) < PastBlocksMin
                    then Some (GetCompact bnPowLimit False)
                    else map_option (kgw_new bnPowLimit)
                           (kgw_loop h horizon spacing PastBlocksMin PastBlocksMax tip 1 0 p uint_zero 0 0)))"

text \<open>The walk of the special rule for test networks, over blocks with the minimal difficulty.\<close>

partial_function (option) skip_min_difficulty ::
  "block_heap \<Rightarrow> int \<Rightarrow> u32 \<Rightarrow> ptr \<Rightarrow> u32 uint_result option" where
  "skip_min_difficulty h interval nProofOfWorkLimit pindex =
     (case h pindex of
        None \<Rightarrow> Some Abort
      | Some b \<Rightarrow>
          (case pprev b of
             None \<Rightarrow> Some (Ok (nBits b))
           | Some q \<Rightarrow>
               if interval = 0 then Some Abort
               else if nHeight b smod interval \<noteq> 0 \<and> nBits b = nProofOfWorkLimit
               then skip_min_difficulty h interval nProofOfWorkLimit q
               else Some (Ok (nBits b))))"

definition GetNextWorkRequiredBTC :: "block_heap \<Rightarrow> ptr option \<Rightarrow> CBlockHeader \<Rightarrow> Params \<Rightarrow> u32 uint_result option" where
  "GetNextWorkRequiredBTC h pindexLast pblock params =
     (case pindexLast of
        None \<Rightarrow> Some Abort
      | Some p \<Rightarrow>
          (case (h p, GetCompact (UintToArith256 (powLimit params)) False, DifficultyAdjustmentInterval params) of
             (Some tip, Ok nProofOfWorkLimit, Ok interval) \<Rightarrow>
               if interval = 0 then Some Abort
               else if (nHeight tip + 1) smod interval \<noteq> 0 then
                 if fPowAllowMinDifficultyBlocks params then
                   if int (unat (header_nTime pblock)) > GetBlockTime tip + nPowTargetSpacing params * 2
                   then Some (Ok nProofOfWorkLimit)
                   else skip_min_difficulty h interval nProofOfWorkLimit p
                 else Some (Ok (nBits tip))
               else
                 let nHeightFirst = nHeight tip - (interval - 1) in
                 Some (bindO (assertO (nHeightFirst \<ge> 0)) (\<lambda>_.
                       bindO (GetAncestor h p nHeightFirst) (\<lambda>pindexFirst.
                       bindO (assertO (pindexFirst \<noteq> None)) (\<lambda>_.
                       bindO (deref h (the pindexFirst)) (\<lambda>first.
                       CalculateNextWorkRequired tip (GetBlockTime first) params)))))
           | _ \<Rightarrow> Some Abort))"

definition GetNextWorkRequired ::
  "(int \<Rightarrow> u64) \<Rightarrow> (int \<Rightarrow> int \<Rightarrow> u64 \<Rightarrow> bool) \<Rightarrow>
   block_heap \<Rightarrow> ptr option \<Rightarrow> CBlockHeader \<Rightarrow> Params \<Rightarrow> u32 uint_result option" where
  "GetNextWorkRequired seconds_min horizon h pindexLast pblock params =
     (case pindexLast of
        None \<Rightarrow> Some Abort
      | Some p \<Rightarrow>
          (case h p of
             None \<Rightarrow> Some Abort
           | Some tip \<Rightarrow>
               if nHeight tip + 1 \<ge> nPowDGWHeight params then Some (DarkGravityWave h pindexLast params)
               else if nHeight tip + 1 \<ge> nPowKGWHeight params
                 then KimotoGravityWell seconds_min horizon h pindexLast params
               else GetNextWorkRequiredBTC h pindexLast pblock params))"

subsection \<open>The check\<close>

lemma SetCompact_target:
  obtains t neg over where "SetCompact c = (t, neg, over)" "length t = WIDTH" "uval t = compact_value c mod 2 ^ 256"
    "neg \<longleftrightarrow> compact_value c \<noteq> 0 \<and> odd (unat c div 2 ^ 23)" "over \<longleftrightarrow> compact_value c \<ge> 2 ^ 256"
proof -
  obtain t neg over where S: "SetCompact c = (t, neg, over)" by (cases "SetCompact c") auto
  have "length t = WIDTH" using S by (auto simp: SetCompact_def Let_def uint_shl_nth split: if_splits)
  then show ?thesis using that [OF S] uval_SetCompact [of c] SetCompact_flags [of c] S by simp
qed

lemma CheckProofOfWork_eq:
  assumes "length hash = 32" "length (powLimit params) = 32"
  shows "CheckProofOfWork hash bits params \<longleftrightarrow>
    valid_target bits \<and> compact_value bits \<le> le_val (powLimit params) \<and> le_val hash \<le> compact_value bits"
proof -
  obtain t neg over where S: "SetCompact bits = (t, neg, over)" and len: "length t = WIDTH"
    and ut: "uval t = compact_value bits mod 2 ^ 256"
    and fl: "neg \<longleftrightarrow> compact_value bits \<noteq> 0 \<and> odd (unat bits div 2 ^ 23)" "over \<longleftrightarrow> compact_value bits \<ge> 2 ^ 256"
    by (rule SetCompact_target)
  have z: "EqualTo t 0 \<longleftrightarrow> uval t = 0" using EqualTo_uval [of t 0] len by (simp add: WIDTH_def)
  have v: "uval t = compact_value bits" if "\<not> over" using that fl(2) ut by simp
  have c: "CompareTo t (UintToArith256 (powLimit params)) > 0 \<longleftrightarrow> uval t > le_val (powLimit params)"
    "CompareTo (UintToArith256 hash) t > 0 \<longleftrightarrow> le_val hash > uval t"
    using uval_UintToArith256 [OF assms(1)] uval_UintToArith256 [OF assms(2)] len by (auto simp: CompareTo_uval)
  show ?thesis
    using z v fl by (auto simp: CheckProofOfWork_def S c valid_target_def)
qed

subsection \<open>The new target\<close>

lemma unat_of_int: "0 \<le> x \<Longrightarrow> x < 2 ^ LENGTH('a) \<Longrightarrow> unat (of_int x :: 'a::len word) = nat x"
  by (simp add: unat_eq_nat_uint uint_word_of_int)

lemma retarget_eq:
  assumes "length bn = WIDTH" "length lim = WIDTH" "0 \<le> actual" "actual < 2 ^ 32" "0 < target" "target < 2 ^ 64"
  shows "\<exists>a. retarget bn actual target lim = GetCompact a False \<and> length a = WIDTH \<and>
    uval a = min (uval lim) ((uval bn * nat actual) mod 2 ^ 256 div nat target)"
proof -
  have a: "unat (of_int actual :: u32) = nat actual" using assms by (intro unat_of_int) simp_all
  have t: "uval (uint_of_u64 (of_int target)) = nat target"
    using assms unat_of_int [of target, where 'a = 64] by (simp add: uval_of_u64)
  have m: "uval (uint_mul32 bn (of_int actual)) = (uval bn * nat actual) mod 2 ^ 256"
    using assms(1) a by (simp add: uval_mul32 WIDTH_def)
  have len: "length (uint_mul32 bn (of_int actual)) = WIDTH" using assms(1) by (simp add: uint_mul32_def)
  obtain q where q: "uint_div (uint_mul32 bn (of_int actual)) (uint_of_u64 (of_int target)) = Ok q"
    "length q = WIDTH" "uval q = (uval bn * nat actual) mod 2 ^ 256 div nat target"
    using uval_div [of "uint_mul32 bn (of_int actual)" "uint_of_u64 (of_int target)"] len t m assms(5) by auto
  let ?a = "if CompareTo q lim > 0 then lim else q"
  have "uval ?a = min (uval lim) (uval q)" "length ?a = WIDTH"
    using q(2) assms(2) by (auto simp: CompareTo_uval min_def)
  then show ?thesis using q by (intro exI [of _ ?a]) (simp add: retarget_def outcome_simps)
qed

lemma retarget_nonzero:
  assumes "length bn = WIDTH" "length lim = WIDTH" "(of_int target :: u64) \<noteq> 0"
  shows "\<exists>a. retarget bn actual target lim = GetCompact a False \<and> length a = WIDTH \<and> uval a \<le> uval lim"
proof -
  have t: "uval (uint_of_u64 (of_int target)) \<noteq> 0" using assms(3) by (simp add: uval_of_u64 unat_eq_0)
  have "length (uint_mul32 bn (of_int actual)) = WIDTH" using assms(1) by (simp add: uint_mul32_def)
  then obtain q where q: "uint_div (uint_mul32 bn (of_int actual)) (uint_of_u64 (of_int target)) = Ok q" "length q = WIDTH"
    using uval_div [of "uint_mul32 bn (of_int actual)" "uint_of_u64 (of_int target)"] t by auto
  let ?a = "if CompareTo q lim > 0 then lim else q"
  have "uval ?a \<le> uval lim" "length ?a = WIDTH" using q(2) assms(2) by (auto simp: CompareTo_uval)
  then show ?thesis using q by (intro exI [of _ ?a]) (simp add: retarget_def outcome_simps)
qed

text \<open>A compact target within the limit.\<close>

definition within :: "nat \<Rightarrow> u32 \<Rightarrow> bool" where
  "within limit c \<longleftrightarrow> compact_value c \<le> limit \<and> even (unat c div 2 ^ 23)"

lemma GetCompact_within:
  assumes "length a = WIDTH" "uval a \<le> limit"
  shows "\<exists>c. GetCompact a False = Ok c \<and> within limit c"
proof -
  let ?n = "compact_bytes (uint_bits a)"
  obtain c where c: "GetCompact a False = Ok c"
    "unat c = compact_scale (uval a) ?n + 2 ^ 24 * ?n + (if False \<and> uval a \<noteq> 0 then 2 ^ 23 else 0)"
    using GetCompact_eq [OF assms(1), of False] by blast
  have m: "compact_scale (uval a) ?n < 2 ^ 23" using compact_normalise [of a] by blast
  note f = compact_fields [OF c(2) m]
  have "compact_value c \<le> uval a" unfolding compact_value_floor [OF f(1,2)] by (rule compact_floor_le)
  then show ?thesis using c(1) f(3) assms(2) by (simp add: within_def)
qed

lemma retarget_within:
  assumes "length bn = WIDTH" "length lim = WIDTH" "0 \<le> actual" "actual < 2 ^ 32" "0 < target" "target < 2 ^ 64"
  shows "\<exists>c. retarget bn actual target lim = Ok c \<and> within (uval lim) c"
  using retarget_eq [OF assms] GetCompact_within by (metis min.cobounded1)

lemma length_SetCompact [simp]: "length (fst (SetCompact c)) = WIDTH"
  by (simp add: SetCompact_def Let_def uint_shl_nth)

definition clamp :: "int \<Rightarrow> int \<Rightarrow> int \<Rightarrow> int" where
  "clamp lo hi x = (let x = (if x < lo then lo else x) in if x > hi then hi else x)"

lemma clamp_bounds: "lo \<le> hi \<Longrightarrow> lo \<le> clamp lo hi x \<and> clamp lo hi x \<le> hi"
  by (simp add: clamp_def Let_def)

lemma sdiv_pos: "0 \<le> a \<Longrightarrow> 0 < b \<Longrightarrow> a sdiv b = a div b" for a b :: int
  by (cases "a = 0") (simp_all add: signed_divide_int_def sgn_if)

lemma smod_pos: "0 \<le> a \<Longrightarrow> 0 < b \<Longrightarrow> a smod b = a mod b" for a b :: int
  by (cases "a = 0") (simp_all add: signed_modulo_int_def sgn_if)

definition params_ok :: "Params \<Rightarrow> bool" where
  "params_ok params \<longleftrightarrow>
     length (powLimit params) = 32 \<and> 0 < nPowTargetSpacing params \<and>
     nPowTargetSpacing params \<le> nPowTargetTimespan params \<and>
     nPowTargetTimespan params * 7 < 2 ^ 32 \<and> nPowTargetSpacing params * 72 < 2 ^ 32"

abbreviation limit_of :: "Params \<Rightarrow> nat" where
  "limit_of params \<equiv> le_val (powLimit params)"

lemma limit_uval:
  "params_ok params \<Longrightarrow> uval (UintToArith256 (powLimit params)) = limit_of params \<and> length (UintToArith256 (powLimit params)) = WIDTH"
  by (simp add: params_ok_def uval_UintToArith256)

lemma CalculateNextWorkRequired_eq:
  assumes "params_ok params" "\<not> fPowNoRetargeting params"
  defines "T \<equiv> nPowTargetTimespan params"
  shows "\<exists>a. CalculateNextWorkRequired b first params = GetCompact a False \<and> length a = WIDTH \<and>
    uval a = min (limit_of params)
      ((compact_value (nBits b) * nat (clamp (T div 4) (T * 4) (GetBlockTime b - first))) mod 2 ^ 256 div nat T)"
proof -
  let ?x = "clamp (T div 4) (T * 4) (GetBlockTime b - first)"
  have T: "0 < T" "T * 4 < 2 ^ 32" using assms(1) by (simp_all add: params_ok_def T_def)
  have le: "T div 4 \<le> T * 4" using T by simp
  have "0 \<le> T div 4" using T by simp
  then have x: "0 \<le> ?x" "?x < 2 ^ 32"
    using order_trans clamp_bounds [OF le] T(2) by (blast, meson clamp_bounds [OF le] T(2) le_less_trans)
  have sd: "T sdiv 4 = T div 4" using T by (intro sdiv_pos) simp_all
  have C: "CalculateNextWorkRequired b first params =
      retarget (fst (SetCompact (nBits b))) ?x T (UintToArith256 (powLimit params))"
    unfolding CalculateNextWorkRequired_def clamp_def Let_def T_def [symmetric] sd
    using assms(2) by (simp only: if_False)
  note L = limit_uval [OF assms(1)]
  have "\<exists>a. retarget (fst (SetCompact (nBits b))) ?x T (UintToArith256 (powLimit params)) = GetCompact a False \<and>
      length a = WIDTH \<and> uval a = min (uval (UintToArith256 (powLimit params)))
        ((uval (fst (SetCompact (nBits b))) * nat ?x) mod 2 ^ 256 div nat T)"
    using x T L by (intro retarget_eq) simp_all
  then show ?thesis unfolding C uval_SetCompact using L by (simp add: mod_mult_left_eq)
qed

lemma CalculateNextWorkRequired_within:
  assumes "params_ok params" "within (limit_of params) (nBits b)"
  shows "\<exists>c. CalculateNextWorkRequired b first params = Ok c \<and> within (limit_of params) c"
proof (cases "fPowNoRetargeting params")
  case True
  then show ?thesis using assms(2) by (simp add: CalculateNextWorkRequired_def)
next
  case False
  then show ?thesis using CalculateNextWorkRequired_eq [OF assms(1) False] GetCompact_within
    by (metis min.cobounded1)
qed

subsection \<open>Dark gravity wave\<close>

lemma uint_div_small:
  assumes "length a = WIDTH" "0 < x" "x < 2 ^ 64"
  shows "\<exists>q. uint_div a (uint_of_u64 (of_nat x)) = Ok q \<and> length q = WIDTH \<and> uval q = uval a div x"
proof -
  have "unat (of_nat x :: u64) = x" using assms by (simp add: unat_of_nat)
  then have "uval (uint_of_u64 (of_nat x)) = x" by (simp add: uval_of_u64)
  then show ?thesis using uval_div [of a "uint_of_u64 (of_nat x)"] assms by auto
qed

text \<open>
  With \<open>k\<close> blocks left of \<open>nPastBlocks\<close> and enough predecessors, the loop ends \<open>k - 1\<close> blocks back.
\<close>

lemma dgw_loop_ok:
  assumes "index_ok h"
  shows "h p = Some b \<Longrightarrow> int k \<le> nHeight b + 1 \<Longrightarrow> 0 < n \<Longrightarrow> n + k = Suc nPastBlocks \<Longrightarrow> length avg = WIDTH \<Longrightarrow>
    \<exists>avg' q. dgw_loop h k n p avg = Ok (avg', q) \<and> length avg' = WIDTH \<and> walk h (k - 1) p = Some q"
proof (induction k arbitrary: n p b avg)
  case (Suc k)
  let ?t = "fst (SetCompact (nBits b))"
  let ?sum = "uint_add (uint_mul32 avg (of_nat n)) ?t"
  have n: "n \<le> nPastBlocks" using Suc.prems(4) by simp
  have "length ?sum = WIDTH" using Suc.prems(5) by (simp add: uint_mul32_def)
  then obtain q where q: "uint_div ?sum (uint_of_u64 (of_nat (n + 1))) = Ok q" "length q = WIDTH"
    using uint_div_small [of ?sum "n + 1"] n by (auto simp: nPastBlocks_def)
  define avg' where "avg' = (if n = 1 then ?t else q)"
  have avg': "length avg' = WIDTH"
    "(if n = 1 then Ok ?t else uint_div ?sum (uint_of_u64 (of_nat (n + 1)))) = Ok avg'"
    using q by (simp_all add: avg'_def)
  have step: "dgw_loop h (Suc k) n p avg =
      (if n \<noteq> nPastBlocks then bindO (assertO (pprev b \<noteq> None)) (\<lambda>_. dgw_loop h k (n + 1) (the (pprev b)) avg')
       else dgw_loop h k (n + 1) p avg')"
    by (simp only: dgw_loop.simps deref_def Suc.prems(1) option.case bindO.simps Let_def avg'(2))
  show ?case
  proof (cases "n = nPastBlocks")
    case True
    then have "k = 0" using Suc.prems(4) by simp
    then show ?thesis unfolding step using True avg'(1) by simp
  next
    case False
    then have k: "0 < k" using Suc.prems(4) n by simp
    then have "0 < nHeight b" using Suc.prems(2) by simp
    then obtain r c where r: "pprev b = Some r" "h r = Some c" "nHeight b = nHeight c + 1"
      using entry_prev [OF assms Suc.prems(1)] by blast
    obtain avg'' s where "dgw_loop h k (n + 1) r avg' = Ok (avg'', s)" "length avg'' = WIDTH" "walk h (k - 1) r = Some s"
      using Suc.IH [OF r(2), of "n + 1" avg'] Suc.prems r(3) avg'(1) by auto
    moreover have "walk h k p = walk h (k - 1) r" using k Suc.prems(1) r(1) by (cases k) simp_all
    ultimately show ?thesis unfolding step using False r(1) by (simp add: assertO_def)
  qed
qed (simp add: nPastBlocks_def)

lemma DarkGravityWave_within:
  assumes "index_ok h" "params_ok params" "h p = Some b"
  shows "\<exists>c. DarkGravityWave h (Some p) params = Ok c \<and> within (limit_of params) c"
proof (cases "nHeight b < int nPastBlocks")
  case True
  then show ?thesis using GetCompact_within limit_uval [OF assms(2)] assms(3)
    by (simp add: DarkGravityWave_def deref_def outcome_simps Let_def)
next
  case False
  obtain avg q where l: "dgw_loop h nPastBlocks 1 p uint_zero = Ok (avg, q)" "length avg = WIDTH"
    "walk h (nPastBlocks - 1) p = Some q"
    using dgw_loop_ok [OF assms(1,3), of nPastBlocks 1 uint_zero] False by (auto simp: uint_zero_def)
  have "int (nPastBlocks - 1) \<le> nHeight b" using False by (simp add: nPastBlocks_def)
  then obtain c where c: "h q = Some c" using walk_height [OF assms(1,3)] l(3) by fastforce
  let ?T = "int nPastBlocks * nPowTargetSpacing params"
  have T: "0 < ?T" "?T * 3 < 2 ^ 32" using assms(2) by (simp_all add: params_ok_def nPastBlocks_def)
  have sd: "?T sdiv 3 = ?T div 3" using T by (intro sdiv_pos) simp_all
  let ?x = "clamp (?T div 3) (?T * 3) (GetBlockTime b - GetBlockTime c)"
  have le: "?T div 3 \<le> ?T * 3" "0 \<le> ?T div 3" using T by simp_all
  have x: "0 \<le> ?x" "?x < 2 ^ 32"
    using clamp_bounds [OF le(1), of "GetBlockTime b - GetBlockTime c"] le(2) T(2) by linarith+
  have "DarkGravityWave h (Some p) params = retarget avg ?x ?T (UintToArith256 (powLimit params))"
    using l(1) c False assms(3) unfolding clamp_def
    by (simp only: DarkGravityWave_def deref_def bindO.simps Let_def sd option.case if_False prod.case)
  then show ?thesis
    using retarget_within [OF l(2), of "UintToArith256 (powLimit params)" ?x ?T] x T limit_uval [OF assms(2)] by simp
qed

subsection \<open>Kimoto gravity well\<close>

lemma uint_add_length [simp]: "length a = n \<Longrightarrow> length b = n \<Longrightarrow> length (uint_add a b) = n"
  by simp

lemma GetBlockTime_bounds: "0 \<le> GetBlockTime b \<and> GetBlockTime b < 2 ^ 32"
proof -
  have "int (unat (nTime b)) < int (2 ^ 32)" by (simp only: of_nat_less_iff unat_u32)
  then show ?thesis by (simp add: GetBlockTime_def)
qed

lemma kgw_average_ok:
  assumes "length a = WIDTH" "length v = WIDTH" "i \<noteq> 0"
  shows "\<exists>q. kgw_average i a v = Ok q \<and> length q = WIDTH"
proof -
  have "0 < unat i" using assms(3) by (simp add: unat_gt_0)
  then have d: "uval (uint_of_u64 (ucast i)) \<noteq> 0" by (simp add: uval_of_u64 unat_ucast_u64)
  have D: "\<exists>q. uint_div x (uint_of_u64 (ucast i)) = Ok q \<and> length q = WIDTH" if "length x = WIDTH" for x
    using uval_div [of x "uint_of_u64 (ucast i)"] d that by auto
  obtain q r where "uint_div (uint_sub a v) (uint_of_u64 (ucast i)) = Ok q" "length q = WIDTH"
    "uint_div (uint_sub v a) (uint_of_u64 (ucast i)) = Ok r" "length r = WIDTH"
    using D [of "uint_sub a v"] D [of "uint_sub v a"] assms by auto
  then show ?thesis using assms by (auto simp: kgw_average_def outcome_simps)
qed

text \<open>
  The loop ends at the genesis block at the latest: the index of the block and its height add up
  to at most the height of the last block plus one.
\<close>

lemma kgw_loop_ok:
  assumes "index_ok h"
  shows "h p = Some b \<Longrightarrow> nHeight b = int k \<Longrightarrow> unat i + k < 2 ^ 32 \<Longrightarrow> i \<noteq> 0 \<Longrightarrow> length v = WIDTH \<Longrightarrow>
    \<exists>v' a' w. kgw_loop h hz sp mn mx l i m p v a (sint (u :: u64)) = Some (Ok (v', a', sint (w :: u64))) \<and> length v' = WIDTH"
proof (induction k arbitrary: p b i m v a u)
  case 0
  then show ?case by (subst kgw_loop.simps) auto
next
  case (Suc k)
  obtain avg where avg: "kgw_average i (fst (SetCompact (nBits b))) v = Ok avg" "length avg = WIDTH"
    using kgw_average_ok [OF length_SetCompact Suc.prems(5,4)] by blast
  have "0 < nHeight b" using Suc.prems(2) by simp
  then obtain r c where r: "pprev b = Some r" "h r = Some c" "nHeight b = nHeight c + 1"
    using entry_prev [OF assms Suc.prems(1)] by blast
  define a1 where "a1 = (let s = GetBlockTime l - GetBlockTime b in if s < 0 then 0 else s)"
  define m1 u1 where "m1 = m + 1" and "u1 = of_int sp * m1"
  have i: "unat (i + 1) = unat i + 1"
    using Suc.prems(3) by (simp add: unat_word_ariths)
  have c: "nHeight c = int k" "unat (i + 1) + k < 2 ^ 32" using r(3) Suc.prems(2,3) i by simp_all
  have i0: "i + 1 \<noteq> 0" using i by (metis add_is_0 unat_0 zero_neq_one)
  note IH = Suc.IH [OF r(2) c i0 avg(2), of m1 a1 u1]
  have step: "kgw_loop h hz sp mn mx l i m p v a (sint u) =
      (if 0 < mx \<and> mx < ucast i then Some (Ok (v, a, sint u))
       else if mn \<le> m1 \<and> hz (sint u1) a1 m1 then Some (Ok (avg, a1, sint u1))
       else kgw_loop h hz sp mn mx l (i + 1) m1 r avg a1 (sint u1))"
    unfolding a1_def m1_def u1_def Let_def
    by (subst kgw_loop.simps) (simp add: Suc.prems(1,2) avg r(1) Let_def)
  show ?case unfolding step using IH Suc.prems(5) avg(2) by (simp split: if_split) blast
qed

lemma kgw_new_within:
  assumes "length v = WIDTH" "length lim = WIDTH"
  shows "\<exists>c. kgw_new lim (Ok (v, a, sint (w :: u64))) = Ok c \<and> within (uval lim) c"
proof (cases "a \<noteq> 0 \<and> sint w \<noteq> 0")
  case True
  then have "(of_int (sint w) :: u64) \<noteq> 0" by auto
  from retarget_nonzero [OF assms this, of a] obtain x where
    "retarget v a (sint w) lim = GetCompact x False" "length x = WIDTH" "uval x \<le> uval lim" by blast
  then show ?thesis using True GetCompact_within [of x "uval lim"] by (simp add: kgw_new_def)
next
  case False
  let ?a = "if CompareTo v lim > 0 then lim else v"
  have "uval ?a \<le> uval lim" "length ?a = WIDTH" using assms by (auto simp: CompareTo_uval)
  from GetCompact_within [OF this(2,1)] show ?thesis using False by (auto simp: kgw_new_def)
qed

lemma KimotoGravityWell_within:
  assumes "index_ok h" "params_ok params" "h p = Some b" "nHeight b + 1 < 2 ^ 31"
  shows "\<exists>c. KimotoGravityWell smin hz h (Some p) params = Some (Ok c) \<and> within (limit_of params) c"
proof -
  let ?lim = "UintToArith256 (powLimit params)" and ?s = "nPowTargetSpacing params"
  note L = limit_uval [OF assms(2)]
  have s: "0 < ?s" "?s < 2 ^ 32" using assms(2) by (simp_all add: params_ok_def)
  then have "unat (of_int ?s :: u64) = nat ?s" by (intro unat_of_int) simp_all
  then have s0: "(of_int ?s :: u64) \<noteq> 0" using s(1) by auto
  let ?mn = "smin (nPowTargetTimespan params) div of_int ?s"
  show ?thesis
  proof (cases "nHeight b = 0 \<or> of_int (nHeight b) < ?mn")
    case True
    then show ?thesis using s0 assms(3) L GetCompact_within [of ?lim "limit_of params"]
      by (auto simp: KimotoGravityWell_def Let_def)
  next
    case False
    obtain k where k: "nHeight b = int k" using entry_height [OF index_okD [OF assms(1,3)]] nonneg_int_cases by blast
    have i: "unat (1 :: u32) + k < 2 ^ 32" "(1 :: u32) \<noteq> 0" using k assms(4) by simp_all
    have z: "length uint_zero = WIDTH" by (simp add: uint_zero_def)
    obtain v a w where l: "kgw_loop h hz ?s ?mn (of_int (nPowTargetTimespan params * 7) div of_int ?s) b 1 0 p uint_zero 0 (sint (0 :: u64)) =
        Some (Ok (v, a, sint (w :: u64)))" "length v = WIDTH"
      using kgw_loop_ok [OF assms(1,3) k i z] by blast
    obtain c where "kgw_new ?lim (Ok (v, a, sint w)) = Ok c" "within (uval ?lim) c"
      using kgw_new_within [OF l(2), of ?lim a w] L by blast
    then show ?thesis using False s0 assms(3) l(1) L by (simp add: KimotoGravityWell_def Let_def)
  qed
qed

subsection \<open>The original rule\<close>

definition index_within :: "nat \<Rightarrow> block_heap \<Rightarrow> bool" where
  "index_within limit h \<longleftrightarrow> (\<forall>q c. h q = Some c \<longrightarrow> within limit (nBits c))"

lemma index_withinD: "index_within limit h \<Longrightarrow> h q = Some c \<Longrightarrow> within limit (nBits c)"
  by (simp add: index_within_def)

lemma skip_min_difficulty_ok:
  assumes "index_ok h" "interval \<noteq> 0" "index_within limit h"
  shows "h p = Some b \<Longrightarrow> nHeight b = int k \<Longrightarrow>
    \<exists>c. skip_min_difficulty h interval lim p = Some (Ok c) \<and> within limit c"
proof (induction k arbitrary: p b)
  case 0
  have "pprev b = None" using genesis_prev [OF assms(1) 0(1)] 0(2) by simp
  then show ?case using 0 index_withinD [OF assms(3)] by (subst skip_min_difficulty.simps) simp
next
  case (Suc k)
  have "0 < nHeight b" using Suc.prems(2) by simp
  then obtain r c where r: "pprev b = Some r" "h r = Some c" "nHeight b = nHeight c + 1"
    using entry_prev [OF assms(1) Suc.prems(1)] by blast
  show ?case using Suc.IH [OF r(2)] r Suc.prems assms(2) index_withinD [OF assms(3) Suc.prems(1)]
    by (subst skip_min_difficulty.simps) simp
qed

lemma GetNextWorkRequiredBTC_within:
  assumes "index_ok h" "params_ok params" "h p = Some b" "index_within (limit_of params) h"
  shows "\<exists>c. GetNextWorkRequiredBTC h (Some p) block params = Some (Ok c) \<and> within (limit_of params) c"
proof -
  note L = limit_uval [OF assms(2)]
  obtain lim where lim: "GetCompact (UintToArith256 (powLimit params)) False = Ok lim" "within (limit_of params) lim"
    using GetCompact_within [of "UintToArith256 (powLimit params)" "limit_of params"] L by auto
  let ?T = "nPowTargetTimespan params" and ?s = "nPowTargetSpacing params"
  define I where "I = ?T div ?s"
  have s: "0 < ?s" "?s \<le> ?T" using assms(2) by (simp_all add: params_ok_def)
  have d: "?T sdiv ?s = I" unfolding I_def using s by (intro sdiv_pos) simp_all
  have I: "DifficultyAdjustmentInterval params = Ok I" "0 < I"
    unfolding DifficultyAdjustmentInterval_def quot_def d unfolding I_def
    using s by (simp_all add: pos_imp_zdiv_pos_iff)
  have I0: "(I = 0) = False" using I(2) by simp
  obtain k where k: "nHeight b = int k" using entry_height [OF index_okD [OF assms(1,3)]] nonneg_int_cases by blast
  note G = GetNextWorkRequiredBTC_def [of h "Some p" block params, unfolded option.case assms(3) lim(1) I(1)
      prod.case outcome.case I0 if_False]
  show ?thesis
  proof (cases "(nHeight b + 1) smod I \<noteq> 0")
    case True
    have "\<exists>c. skip_min_difficulty h I lim p = Some (Ok c) \<and> within (limit_of params) c"
      by (rule skip_min_difficulty_ok [OF assms(1) _ assms(4) assms(3) k]) (use I(2) in simp)
    moreover have "within (limit_of params) (nBits b)" by (rule index_withinD [OF assms(4,3)])
    ultimately show ?thesis unfolding G using True lim(2) by simp
  next
    case False
    then have "(nHeight b + 1) mod I = 0" using smod_pos [of "nHeight b + 1" I] k I by simp
    then have "I dvd nHeight b + 1" by (simp only: dvd_eq_mod_eq_0)
    then have le: "I \<le> nHeight b + 1" using k by (intro zdvd_imp_le) simp_all
    have "0 \<le> nHeight b - (I - 1)" "nHeight b - (I - 1) \<le> nHeight b" using le I(2) by simp_all
    then obtain q c where q: "ancestor h p (nHeight b - (I - 1)) = Some q" "h q = Some c"
      using ancestor_Some [OF assms(1,3)] by blast
    obtain r where "CalculateNextWorkRequired b (GetBlockTime c) params = Ok r" "within (limit_of params) r"
      using CalculateNextWorkRequired_within [OF assms(2) index_withinD [OF assms(4,3)]] by blast
    then show ?thesis unfolding G Let_def GetAncestor_eq [OF assms(1,3)] q(1) deref_def
      using False le q(2) by (simp add: assertO_def)
  qed
qed

lemma GetNextWorkRequired_within:
  assumes "index_ok h" "params_ok params" "h p = Some b" "nHeight b + 1 < 2 ^ 31" "index_within (limit_of params) h"
  shows "\<exists>c. GetNextWorkRequired seconds_min horizon h (Some p) block params = Some (Ok c) \<and> within (limit_of params) c"
  using DarkGravityWave_within [OF assms(1-3)] KimotoGravityWell_within [OF assms(1-4), of seconds_min horizon]
    GetNextWorkRequiredBTC_within [OF assms(1-3,5), of block] assms(3)
  by (simp add: GetNextWorkRequired_def)

subsection \<open>Properties\<close>

lemma main_params:
  "powLimit CMainParams = replicate 31 0xff @ [0x7f]" "nPowTargetSpacing CMainParams = 600"
  "nPowTargetTimespan CMainParams = 1209600" "\<not> fPowNoRetargeting CMainParams"
  "nRuleChangeActivationThreshold CMainParams = 0" "nMinerConfirmationWindow CMainParams = 2016"
  by (simp_all add: CMainParams_def zero_params_def ceil_95_def Let_def signed_divide_int_def)

lemma le_val_replicate: "le_val (replicate n 0xff) + 1 = 256 ^ n" "le_val (replicate n 0) = 0"
  by (induction n) simp_all

lemma main_params_ok: "params_ok CMainParams" "limit_of CMainParams = 2 ^ 255 - 1"
proof -
  show "params_ok CMainParams" by (simp add: params_ok_def main_params)
  have "le_val (replicate 31 0xff) = 256 ^ 31 - 1" using le_val_replicate(1) [of 31] by linarith
  then show "limit_of CMainParams = 2 ^ 255 - 1" by (simp add: main_params le_val_append)
qed

lemma sample_index_within: "index_within limit sample_index"
  by (auto simp: index_within_def sample_index_def sample_block_def CBlockIndex_SetNull_def within_def
      compact_value_def compact_size_def compact_mantissa_def split: if_splits)

text \<open>
  C24: what \<open>CheckProofOfWork\<close> accepts. For 32-byte hashes, exactly the hashes that, read as little
  endian numbers, do not exceed the target that the compact word stands for, where that target is
  positive, fits in 256 bits and does not exceed the limit of the network.
\<close>

theorem CheckProofOfWork_iff:
  assumes "length hash = 32" "length (powLimit params) = 32"
  shows "CheckProofOfWork hash bits params \<longleftrightarrow>
    valid_target bits \<and> compact_value bits \<le> le_val (powLimit params) \<and> le_val hash \<le> compact_value bits"
  by (rule CheckProofOfWork_eq [OF assms])

theorem CheckProofOfWork_iff_witness:
  "length (replicate 32 (0 :: byte)) = 32 \<and> length (powLimit CMainParams) = 32 \<and>
   CheckProofOfWork (replicate 32 0) 0x1e7fffff CMainParams"
  using CheckProofOfWork_iff [of "replicate 32 0" CMainParams "0x1e7fffff"] main_params_ok(2)
  by (simp add: main_params valid_target_def compact_value_def compact_size_def compact_mantissa_def le_val_replicate)

text \<open>
  C25: the required work. On a consistent index whose targets are within the limit of the network,
  below height \<open>2 ^ 31\<close>, and whatever the floating-point decisions of \<open>KimotoGravityWell\<close> are,
  \<open>GetNextWorkRequired\<close> returns a target: its loops end, no assertion fails, no pointer is null,
  no division is by zero, and the target is within the limit again.
\<close>

theorem GetNextWorkRequired_returns:
  assumes "index_ok h" "params_ok params" "h p = Some b" "nHeight b + 1 < 2 ^ 31" "index_within (limit_of params) h"
  shows "\<exists>c. GetNextWorkRequired seconds_min horizon h (Some p) block params = Some (Ok c) \<and> within (limit_of params) c"
  by (rule GetNextWorkRequired_within [OF assms])

theorem GetNextWorkRequired_returns_witness:
  "\<exists>c. GetNextWorkRequired (\<lambda>_. 0) (\<lambda>_ _ _. False) sample_index (Some 12) (sample_header []) CMainParams = Some (Ok c) \<and>
    within (limit_of CMainParams) c"
  using GetNextWorkRequired_returns [OF sample_index_ok(1) main_params_ok(1) sample_index_simps(3) _ sample_index_within]
  by (simp add: sample_index_simps)



end
