(* ===== verification/Versionbits.thy ===== *)
theory Versionbits
  imports Pow
begin

text \<open>
  The deployment of soft forks with version bits (BIP 9): \<^verbatim>\<open>src/src/versionbits.h\<close>,
  \<^verbatim>\<open>src/src/versionbits.cpp\<close> and \<open>ComputeBlockVersion\<close> of \<^verbatim>\<open>src/src/validation.cpp\<close>. The threshold
  checker is a record of its five virtual functions. The cache maps entries of the block index,
  or null, to states, and every operation returns the cache it leaves.
\<close>

definition VERSIONBITS_TOP_BITS :: u32 where "VERSIONBITS_TOP_BITS = 0x20000000"
definition VERSIONBITS_TOP_MASK :: u32 where "VERSIONBITS_TOP_MASK = 0xE0000000"

datatype ThresholdState =
    THRESHOLD_DEFINED
  | THRESHOLD_STARTED
  | THRESHOLD_LOCKED_IN
  | THRESHOLD_ACTIVE
  | THRESHOLD_FAILED

type_synonym ThresholdConditionCache = "ptr option \<Rightarrow> ThresholdState option"

record AbstractThresholdConditionChecker =
  Condition :: "CBlockIndex \<Rightarrow> bool"
  BeginTime :: int
  EndTime :: int
  Period :: int
  Threshold :: int

text \<open>
  The first loop of \<open>GetStateFor\<close>: the cache, the entry whose state is known, and the entries to
  compute, the last one pushed first.
\<close>

partial_function (option) walk_back ::
  "AbstractThresholdConditionChecker \<Rightarrow> block_heap \<Rightarrow> ThresholdConditionCache \<Rightarrow> ptr option \<Rightarrow> ptr list \<Rightarrow>
   (ThresholdConditionCache \<times> ptr option \<times> ptr list) uint_result option" where
  "walk_back ck h cache pindexPrev vToCompute =
     (if cache pindexPrev \<noteq> None then Some (Ok (cache, pindexPrev, vToCompute))
      else
        case pindexPrev of
          None \<Rightarrow> Some (Ok (cache(pindexPrev \<mapsto> THRESHOLD_DEFINED), pindexPrev, vToCompute))
        | Some p \<Rightarrow>
            (case (h p, GetMedianTimePast h p) of
               (Some b, Ok time) \<Rightarrow>
                 if time < BeginTime ck
                 then Some (Ok (cache(pindexPrev \<mapsto> THRESHOLD_DEFINED), pindexPrev, vToCompute))
                 else (case GetAncestor h p (nHeight b - Period ck) of
                         Ok q \<Rightarrow> walk_back ck h cache q (p # vToCompute)
                       | _ \<Rightarrow> Some Abort)
             | _ \<Rightarrow> Some Abort))"

fun count_loop ::
  "AbstractThresholdConditionChecker \<Rightarrow> block_heap \<Rightarrow> nat \<Rightarrow> ptr option \<Rightarrow> int \<Rightarrow> int uint_result" where
  "count_loop ck h 0 pindexCount count = Ok count"
| "count_loop ck h (Suc i) pindexCount count =
     (case pindexCount of
        None \<Rightarrow> Abort
      | Some p \<Rightarrow>
          bindO (deref h p) (\<lambda>b.
          count_loop ck h i (pprev b) (if Condition ck b then count + 1 else count)))"

text \<open>The \<open>switch\<close> of the second loop.\<close>

definition next_state ::
  "AbstractThresholdConditionChecker \<Rightarrow> block_heap \<Rightarrow> ptr \<Rightarrow> ThresholdState \<Rightarrow> ThresholdState uint_result" where
  "next_state ck h p state =
     (case state of
        THRESHOLD_DEFINED \<Rightarrow>
          bindO (GetMedianTimePast h p) (\<lambda>time.
          if time \<ge> EndTime ck then Ok THRESHOLD_FAILED
          else if time \<ge> BeginTime ck then Ok THRESHOLD_STARTED
          else Ok state)
      | THRESHOLD_STARTED \<Rightarrow>
          bindO (GetMedianTimePast h p) (\<lambda>time.
          if time \<ge> EndTime ck then Ok THRESHOLD_FAILED
          else bindO (count_loop ck h (nat (Period ck)) (Some p) 0) (\<lambda>count.
            if count \<ge> Threshold ck then Ok THRESHOLD_LOCKED_IN else Ok state))
      | THRESHOLD_LOCKED_IN \<Rightarrow> Ok THRESHOLD_ACTIVE
      | THRESHOLD_FAILED \<Rightarrow> Ok state
      | THRESHOLD_ACTIVE \<Rightarrow> Ok state)"

fun walk_forward ::
  "AbstractThresholdConditionChecker \<Rightarrow> block_heap \<Rightarrow> ThresholdConditionCache \<Rightarrow> ThresholdState \<Rightarrow> ptr list \<Rightarrow>
   (ThresholdState \<times> ThresholdConditionCache) uint_result" where
  "walk_forward ck h cache state [] = Ok (state, cache)"
| "walk_forward ck h cache state (p # vToCompute) =
     bindO (next_state ck h p state) (\<lambda>stateNext.
     walk_forward ck h (cache(Some p \<mapsto> stateNext)) stateNext vToCompute)"

text \<open>The last block of the period before the one of the next block.\<close>

definition period_end :: "block_heap \<Rightarrow> int \<Rightarrow> ptr option \<Rightarrow> ptr option uint_result" where
  "period_end h nPeriod pindexPrev =
     (case pindexPrev of
        None \<Rightarrow> Ok None
      | Some p \<Rightarrow>
          bindO (deref h p) (\<lambda>b.
          bindO (assertO (nPeriod \<noteq> 0)) (\<lambda>_.
          GetAncestor h p (nHeight b - (nHeight b + 1) smod nPeriod))))"

definition GetStateFor ::
  "AbstractThresholdConditionChecker \<Rightarrow> block_heap \<Rightarrow> ptr option \<Rightarrow> ThresholdConditionCache \<Rightarrow>
   (ThresholdState \<times> ThresholdConditionCache) uint_result option" where
  "GetStateFor ck h pindexPrev cache =
     (case period_end h (Period ck) pindexPrev of
        Ok q \<Rightarrow>
          map_option (\<lambda>r. bindO r (\<lambda>(cache, pindexPrev, vToCompute).
            bindO (assertO (cache pindexPrev \<noteq> None)) (\<lambda>_.
            walk_forward ck h cache (the (cache pindexPrev)) vToCompute)))
            (walk_back ck h cache q [])
      | _ \<Rightarrow> Some Abort)"

partial_function (option) since_loop ::
  "AbstractThresholdConditionChecker \<Rightarrow> block_heap \<Rightarrow> ThresholdState \<Rightarrow> ptr \<Rightarrow> ThresholdConditionCache \<Rightarrow>
   (int \<times> ThresholdConditionCache) uint_result option" where
  "since_loop ck h initialState pindexPrev cache =
     (case h pindexPrev of
        None \<Rightarrow> Some Abort
      | Some b \<Rightarrow>
          (case GetAncestor h pindexPrev (nHeight b - Period ck) of
             Ok None \<Rightarrow> Some (Ok (nHeight b + 1, cache))
           | Ok (Some q) \<Rightarrow>
               (case GetStateFor ck h (Some q) cache of
                  None \<Rightarrow> None
                | Some (Ok (state, cache)) \<Rightarrow>
                    if state = initialState then since_loop ck h initialState q cache
                    else Some (Ok (nHeight b + 1, cache))
                | Some _ \<Rightarrow> Some Abort)
           | _ \<Rightarrow> Some Abort))"

definition GetStateSinceHeightFor ::
  "AbstractThresholdConditionChecker \<Rightarrow> block_heap \<Rightarrow> ptr option \<Rightarrow> ThresholdConditionCache \<Rightarrow>
   (int \<times> ThresholdConditionCache) uint_result option" where
  "GetStateSinceHeightFor ck h pindexPrev cache =
     (case GetStateFor ck h pindexPrev cache of
        None \<Rightarrow> None
      | Some (Ok (initialState, cache)) \<Rightarrow>
          if initialState = THRESHOLD_DEFINED then Some (Ok (0, cache))
          else (case pindexPrev of
                  None \<Rightarrow> Some Abort
                | Some p \<Rightarrow>
                    (case period_end h (Period ck) (Some p) of
                       Ok (Some q) \<Rightarrow> since_loop ck h initialState q cache
                     | _ \<Rightarrow> Some Abort))
      | Some _ \<Rightarrow> Some Abort)"

subsection \<open>The checker of a deployment\<close>

definition deployment_Mask :: "Params \<Rightarrow> DeploymentPos \<Rightarrow> u32" where
  "deployment_Mask params pos = push_bit (deployment_bit (vDeployments params pos)) 1"

definition VersionBitsConditionChecker :: "Params \<Rightarrow> DeploymentPos \<Rightarrow> AbstractThresholdConditionChecker" where
  "VersionBitsConditionChecker params pos =
     \<lparr>Condition = (\<lambda>b. nVersion b AND VERSIONBITS_TOP_MASK = VERSIONBITS_TOP_BITS \<and>
        nVersion b AND deployment_Mask params pos \<noteq> 0),
      BeginTime = nStartTime (vDeployments params pos), EndTime = nTimeout (vDeployments params pos),
      Period = int (unat (nMinerConfirmationWindow params)),
      Threshold = int (unat (nRuleChangeActivationThreshold params))\<rparr>"

type_synonym VersionBitsCache = "DeploymentPos \<Rightarrow> ThresholdConditionCache"

definition VersionBitsCache_Clear :: VersionBitsCache where
  "VersionBitsCache_Clear = (\<lambda>d. Map.empty)"

definition VersionBitsState ::
  "block_heap \<Rightarrow> ptr option \<Rightarrow> Params \<Rightarrow> DeploymentPos \<Rightarrow> VersionBitsCache \<Rightarrow>
   (ThresholdState \<times> VersionBitsCache) uint_result option" where
  "VersionBitsState h pindexPrev params pos caches =
     map_option (\<lambda>r. bindO r (\<lambda>(state, cache). Ok (state, caches(pos := cache))))
       (GetStateFor (VersionBitsConditionChecker params pos) h pindexPrev (caches pos))"

definition VersionBitsStateSinceHeight ::
  "block_heap \<Rightarrow> ptr option \<Rightarrow> Params \<Rightarrow> DeploymentPos \<Rightarrow> VersionBitsCache \<Rightarrow>
   (int \<times> VersionBitsCache) uint_result option" where
  "VersionBitsStateSinceHeight h pindexPrev params pos caches =
     map_option (\<lambda>r. bindO r (\<lambda>(height, cache). Ok (height, caches(pos := cache))))
       (GetStateSinceHeightFor (VersionBitsConditionChecker params pos) h pindexPrev (caches pos))"

definition VersionBitsMask :: "Params \<Rightarrow> DeploymentPos \<Rightarrow> u32" where
  "VersionBitsMask params pos = deployment_Mask params pos"

fun ComputeBlockVersion_loop ::
  "block_heap \<Rightarrow> ptr option \<Rightarrow> Params \<Rightarrow> DeploymentPos list \<Rightarrow> u32 \<Rightarrow> VersionBitsCache \<Rightarrow>
   (u32 \<times> VersionBitsCache) uint_result option" where
  "ComputeBlockVersion_loop h pindexPrev params [] version caches = Some (Ok (version, caches))"
| "ComputeBlockVersion_loop h pindexPrev params (pos # is) version caches =
     (case VersionBitsState h pindexPrev params pos caches of
        None \<Rightarrow> None
      | Some (Ok (state, caches)) \<Rightarrow>
          ComputeBlockVersion_loop h pindexPrev params is
            (if state = THRESHOLD_LOCKED_IN \<or> state = THRESHOLD_STARTED then version OR VersionBitsMask params pos
             else version) caches
      | Some _ \<Rightarrow> Some Abort)"

definition ComputeBlockVersion ::
  "block_heap \<Rightarrow> ptr option \<Rightarrow> Params \<Rightarrow> VersionBitsCache \<Rightarrow> (u32 \<times> VersionBitsCache) uint_result option" where
  "ComputeBlockVersion h pindexPrev params caches =
     ComputeBlockVersion_loop h pindexPrev params [DEPLOYMENT_TESTDUMMY, DEPLOYMENT_CSV, DEPLOYMENT_SEGWIT]
       VERSIONBITS_TOP_BITS caches"

subsection \<open>Median times\<close>

text \<open>The times of the last \<open>n\<close> blocks of a branch, the latest first.\<close>

fun branch_times :: "block_heap \<Rightarrow> nat \<Rightarrow> ptr \<Rightarrow> int list" where
  "branch_times h 0 p = []"
| "branch_times h (Suc n) p =
     (case h p of None \<Rightarrow> []
      | Some b \<Rightarrow> GetBlockTime b # (case pprev b of None \<Rightarrow> [] | Some q \<Rightarrow> branch_times h n q))"

definition median :: "int list \<Rightarrow> int" where
  "median ts = sort ts ! (length ts div 2)"

definition median_time :: "block_heap \<Rightarrow> ptr \<Rightarrow> int" where
  "median_time h p = median (rev (branch_times h nMedianTimeSpan p))"

lemma past_times_eq:
  "index_ok h \<Longrightarrow> h p = Some b \<Longrightarrow> past_times h n (Some p) acc = Ok (rev (branch_times h n p) @ acc)"
proof (induction n arbitrary: p b acc)
  case (Suc n)
  show ?case
  proof (cases "pprev b")
    case None
    then show ?thesis using Suc.prems by (cases n) (simp_all add: deref_def)
  next
    case (Some q)
    then obtain c where "h q = Some c"
      using index_okD [OF Suc.prems] by (auto simp: entry_ok_def split: option.splits)
    then show ?thesis using Suc Some by (simp add: deref_def)
  qed
qed simp

lemma GetMedianTimePast_eq: "index_ok h \<Longrightarrow> h p = Some b \<Longrightarrow> GetMedianTimePast h p = Ok (median_time h p)"
  by (simp add: GetMedianTimePast_def past_times_eq median_time_def median_def)

lemma sorted_nth_ge:
  fixes ys :: "int list"
  assumes "sorted ys" "k < length ys"
  shows "m \<le> ys ! k \<longleftrightarrow> length ys - k \<le> length (filter (\<lambda>x. m \<le> x) ys)"
proof -
  have split: "length (filter (\<lambda>x. m \<le> x) ys) =
      length (filter (\<lambda>x. m \<le> x) (take k ys)) + length (filter (\<lambda>x. m \<le> x) (drop k ys))"
    by (metis append_take_drop_id filter_append length_append)
  show ?thesis
  proof
    assume m: "m \<le> ys ! k"
    have "m \<le> x" if x: "x \<in> set (drop k ys)" for x
    proof -
      obtain i where i: "i < length ys - k" "x = ys ! (k + i)" using x by (auto simp: in_set_conv_nth)
      then have "ys ! k \<le> ys ! (k + i)" using assms by (intro sorted_nth_mono) simp_all
      then show ?thesis using m i(2) by simp
    qed
    then have "filter (\<lambda>x. m \<le> x) (drop k ys) = drop k ys" by (simp add: filter_id_conv)
    then show "length ys - k \<le> length (filter (\<lambda>x. m \<le> x) ys)" using split by simp
  next
    assume c: "length ys - k \<le> length (filter (\<lambda>x. m \<le> x) ys)"
    show "m \<le> ys ! k"
    proof (rule ccontr)
      assume n: "\<not> m \<le> ys ! k"
      have "\<not> m \<le> x" if x: "x \<in> set (take (Suc k) ys)" for x
      proof -
        obtain i where i: "i < Suc k" "i < length ys" "x = ys ! i" using x by (auto simp: in_set_conv_nth)
        then have "ys ! i \<le> ys ! k" using assms by (intro sorted_nth_mono) simp_all
        then show ?thesis using n i(3) by simp
      qed
      then have "filter (\<lambda>x. m \<le> x) (take (Suc k) ys) = []" by (simp add: filter_empty_conv)
      moreover have "length (filter (\<lambda>x. m \<le> x) ys) =
          length (filter (\<lambda>x. m \<le> x) (take (Suc k) ys)) + length (filter (\<lambda>x. m \<le> x) (drop (Suc k) ys))"
        by (metis append_take_drop_id filter_append length_append)
      moreover have "length (filter (\<lambda>x. m \<le> x) (drop (Suc k) ys)) \<le> length ys - Suc k"
        using length_filter_le [of "\<lambda>x. m \<le> x" "drop (Suc k) ys"] by simp
      ultimately show False using c assms(2) by simp
    qed
  qed
qed

lemma median_ge:
  "ts \<noteq> [] \<Longrightarrow> m \<le> median ts \<longleftrightarrow> length ts - length ts div 2 \<le> length (filter (\<lambda>x. m \<le> x) ts)"
proof -
  assume "ts \<noteq> []"
  then have k: "length ts div 2 < length (sort ts)" by simp
  have "length (filter (\<lambda>x. m \<le> x) (sort ts)) = length (filter (\<lambda>x. m \<le> x) ts)"
    by (metis filter_sort length_sort)
  then show ?thesis using sorted_nth_ge [OF sorted_sort k, of m] by (simp add: median_def)
qed

lemma length_filter_rev: "length (filter P (rev xs)) = length (filter P xs)"
  by (induction xs) simp_all

lemma branch_times_take: "n \<le> m \<Longrightarrow> branch_times h n p = take n (branch_times h m p)"
proof (induction n arbitrary: m p)
  case (Suc n)
  then obtain k where m: "m = Suc k" "n \<le> k" by (cases m) simp_all
  then show ?case using Suc.IH [OF m(2)] by (simp split: option.splits)
qed simp

text \<open>
  If every block is later than the median time of its predecessor, the median time does not
  decrease along a branch.
\<close>

definition times_ok :: "block_heap \<Rightarrow> bool" where
  "times_ok h \<longleftrightarrow> (\<forall>p b q. h p = Some b \<and> pprev b = Some q \<longrightarrow> median_time h q < GetBlockTime b)"

lemma median_time_prev:
  assumes "index_ok h" "times_ok h" "h p = Some b" "pprev b = Some q"
  shows "median_time h q \<le> median_time h p"
proof -
  obtain c where c: "h q = Some c"
    using index_okD [OF assms(1,3)] assms(4) by (auto simp: entry_ok_def split: option.splits)
  define xs where "xs = branch_times h 11 q"
  define m where "m = median (rev xs)"
  define P where "P = (\<lambda>x. m \<le> x)"
  have x11: "branch_times h (Suc 10) q = xs" by (simp add: xs_def)
  have ne: "xs \<noteq> []" unfolding x11 [symmetric] branch_times.simps c by simp
  have len: "length (branch_times h n r) \<le> n" for n r
    by (induction n arbitrary: r) (auto split: option.splits)
  have l11: "length xs \<le> 11" unfolding xs_def by (rule len)
  have mq: "median_time h q = m" by (simp add: median_time_def nMedianTimeSpan_def m_def xs_def)
  have t: "P (GetBlockTime b)" using assms(2-4) mq unfolding times_ok_def P_def by fastforce
  have "branch_times h (Suc 10) p = GetBlockTime b # branch_times h 10 q"
    by (simp only: branch_times.simps assms(3,4) option.case)
  also have "branch_times h 10 q = take 10 xs" unfolding xs_def by (rule branch_times_take) simp
  finally have ts: "branch_times h 11 p = GetBlockTime b # take 10 xs" by simp
  have half: "length xs - length xs div 2 \<le> length (filter P xs)"
    using median_ge [of "rev xs" m] ne unfolding length_filter_rev P_def m_def [symmetric] by simp
  have "length (filter P xs) = length (filter P (take 10 xs)) + length (filter P (drop 10 xs))"
    by (metis append_take_drop_id filter_append length_append)
  moreover have "length (filter P (drop 10 xs)) \<le> length xs - 10"
    using length_filter_le [of P "drop 10 xs"] by simp
  moreover have "length (filter P (GetBlockTime b # take 10 xs)) = Suc (length (filter P (take 10 xs)))"
    using t by simp
  moreover have "length (GetBlockTime b # take 10 xs) = Suc (min (length xs) 10)" by simp
  ultimately have "length (GetBlockTime b # take 10 xs) - length (GetBlockTime b # take 10 xs) div 2 \<le>
      length (filter P (GetBlockTime b # take 10 xs))"
    using half l11 by (cases "length xs \<le> 10") linarith+
  then have "m \<le> median (rev (GetBlockTime b # take 10 xs))"
    using median_ge [of "rev (GetBlockTime b # take 10 xs)" m] unfolding length_filter_rev P_def length_rev by blast
  then show ?thesis unfolding mq by (simp only: median_time_def nMedianTimeSpan_def ts)
qed

subsection \<open>The state machine of BIP 9\<close>

text \<open>The number of signalling blocks among the last \<open>n\<close> of a branch.\<close>

fun signals :: "AbstractThresholdConditionChecker \<Rightarrow> block_heap \<Rightarrow> nat \<Rightarrow> ptr \<Rightarrow> nat" where
  "signals ck h 0 p = 0"
| "signals ck h (Suc n) p =
     (case h p of None \<Rightarrow> 0
      | Some b \<Rightarrow> (if Condition ck b then 1 else 0) + (case pprev b of None \<Rightarrow> 0 | Some q \<Rightarrow> signals ck h n q))"

text \<open>One transition, at the last block \<open>p\<close> of a period.\<close>

inductive bip9_step :: "AbstractThresholdConditionChecker \<Rightarrow> block_heap \<Rightarrow> ptr \<Rightarrow> ThresholdState \<Rightarrow> ThresholdState \<Rightarrow> bool"
  for ck h p where
  timeout: "s \<in> {THRESHOLD_DEFINED, THRESHOLD_STARTED} \<Longrightarrow> EndTime ck \<le> median_time h p \<Longrightarrow>
    bip9_step ck h p s THRESHOLD_FAILED"
| wait: "median_time h p < BeginTime ck \<Longrightarrow> median_time h p < EndTime ck \<Longrightarrow>
    bip9_step ck h p THRESHOLD_DEFINED THRESHOLD_DEFINED"
| start: "BeginTime ck \<le> median_time h p \<Longrightarrow> median_time h p < EndTime ck \<Longrightarrow>
    bip9_step ck h p THRESHOLD_DEFINED THRESHOLD_STARTED"
| lock_in: "median_time h p < EndTime ck \<Longrightarrow> Threshold ck \<le> int (signals ck h (nat (Period ck)) p) \<Longrightarrow>
    bip9_step ck h p THRESHOLD_STARTED THRESHOLD_LOCKED_IN"
| go_on: "median_time h p < EndTime ck \<Longrightarrow> int (signals ck h (nat (Period ck)) p) < Threshold ck \<Longrightarrow>
    bip9_step ck h p THRESHOLD_STARTED THRESHOLD_STARTED"
| activate: "bip9_step ck h p THRESHOLD_LOCKED_IN THRESHOLD_ACTIVE"
| terminal: "s \<in> {THRESHOLD_ACTIVE, THRESHOLD_FAILED} \<Longrightarrow> bip9_step ck h p s s"

inductive_cases bip9_stepE:
  "bip9_step ck h p THRESHOLD_DEFINED s"
  "bip9_step ck h p THRESHOLD_STARTED s"
  "bip9_step ck h p THRESHOLD_LOCKED_IN s"
  "bip9_step ck h p THRESHOLD_ACTIVE s"
  "bip9_step ck h p THRESHOLD_FAILED s"

text \<open>The state of the blocks after the last block of a period, or after null.\<close>

definition boundary :: "AbstractThresholdConditionChecker \<Rightarrow> CBlockIndex \<Rightarrow> bool" where
  "boundary ck b \<longleftrightarrow> (nHeight b + 1) mod Period ck = 0"

inductive bip9 :: "AbstractThresholdConditionChecker \<Rightarrow> block_heap \<Rightarrow> ptr option \<Rightarrow> ThresholdState \<Rightarrow> bool"
  for ck h where
  genesis: "bip9 ck h None THRESHOLD_DEFINED"
| period: "h p = Some b \<Longrightarrow> boundary ck b \<Longrightarrow> bip9 ck h (ancestor h p (nHeight b - Period ck)) s \<Longrightarrow>
    bip9_step ck h p s s' \<Longrightarrow> bip9 ck h (Some p) s'"

lemma bip9_step_det: "bip9_step ck h p s s1 \<Longrightarrow> bip9_step ck h p s s2 \<Longrightarrow> s1 = s2"
  by (cases s) (auto elim!: bip9_stepE)

lemma bip9_det: "bip9 ck h pi s1 \<Longrightarrow> bip9 ck h pi s2 \<Longrightarrow> s1 = s2"
proof (induction arbitrary: s2 rule: bip9.induct)
  case genesis
  then show ?case by (auto elim: bip9.cases)
next
  case (period p b s s')
  from period.prems obtain b' s'' where "h p = Some b'" "bip9 ck h (ancestor h p (nHeight b' - Period ck)) s''"
    "bip9_step ck h p s'' s2" by (auto elim: bip9.cases)
  then show ?case using period bip9_step_det by fastforce
qed

lemma count_loop_eq:
  "index_ok h \<Longrightarrow> h p = Some b \<Longrightarrow> int n \<le> nHeight b + 1 \<Longrightarrow>
   count_loop ck h n (Some p) count = Ok (count + int (signals ck h n p))"
proof (induction n arbitrary: p b count)
  case (Suc n)
  show ?case
  proof (cases n)
    case 0
    then show ?thesis using Suc.prems by (simp add: deref_def split: option.splits)
  next
    case n: (Suc m)
    then have "0 < nHeight b" using Suc.prems(3) by simp
    then obtain q c where q: "pprev b = Some q" "h q = Some c" "nHeight b = nHeight c + 1"
      using entry_prev [OF Suc.prems(1,2)] by blast
    then show ?thesis using Suc.IH [OF Suc.prems(1) q(2)] Suc.prems by (simp add: deref_def)
  qed
qed simp

lemma next_state_step:
  assumes "index_ok h" "h p = Some b" "Period ck \<le> nHeight b + 1" "0 < Period ck"
  shows "\<exists>s'. next_state ck h p s = Ok s' \<and> bip9_step ck h p s s'"
proof -
  have c: "count_loop ck h (nat (Period ck)) (Some p) 0 = Ok (int (signals ck h (nat (Period ck)) p))"
    using count_loop_eq [OF assms(1,2), of "nat (Period ck)" ck 0] assms(3,4) by simp
  show ?thesis
    by (cases s) (auto simp: next_state_def GetMedianTimePast_eq [OF assms(1,2)] c intro: bip9_step.intros)
qed

subsection \<open>The cached computation\<close>

text \<open>What the computation relies on: a consistent index, times that grow, and sensible constants.\<close>

definition deployment_ok :: "AbstractThresholdConditionChecker \<Rightarrow> block_heap \<Rightarrow> bool" where
  "deployment_ok ck h \<longleftrightarrow> index_ok h \<and> times_ok h \<and> 0 < Period ck \<and> BeginTime ck \<le> EndTime ck"

definition cache_ok :: "AbstractThresholdConditionChecker \<Rightarrow> block_heap \<Rightarrow> ThresholdConditionCache \<Rightarrow> bool" where
  "cache_ok ck h cache \<longleftrightarrow> (\<forall>pi s. cache pi = Some s \<longrightarrow> bip9 ck h pi s)"

definition end_ok :: "AbstractThresholdConditionChecker \<Rightarrow> block_heap \<Rightarrow> ptr option \<Rightarrow> bool" where
  "end_ok ck h pi \<longleftrightarrow> (case pi of None \<Rightarrow> True | Some p \<Rightarrow> (case h p of None \<Rightarrow> False | Some b \<Rightarrow> boundary ck b))"

lemma boundary_height:
  assumes "deployment_ok ck h" "h p = Some b" "boundary ck b"
  shows "Period ck \<le> nHeight b + 1"
proof -
  have idx: "index_ok h" using assms(1) by (simp add: deployment_ok_def)
  have "0 \<le> nHeight b" by (rule entry_height [OF index_okD [OF idx assms(2)]])
  moreover have "Period ck dvd nHeight b + 1" using assms(3) by (simp add: boundary_def dvd_eq_mod_eq_0)
  ultimately show ?thesis by (intro zdvd_imp_le) simp_all
qed

lemma end_ok_prev:
  assumes "deployment_ok ck h" "h p = Some b" "boundary ck b"
  shows "end_ok ck h (ancestor h p (nHeight b - Period ck))"
proof (cases "nHeight b - Period ck < 0")
  case True
  then show ?thesis using assms(2) by (simp add: ancestor_def end_ok_def)
next
  case False
  then have "0 \<le> nHeight b - Period ck" "nHeight b - Period ck \<le> nHeight b"
    using assms(1) by (simp_all add: deployment_ok_def)
  then obtain q c where q: "ancestor h p (nHeight b - Period ck) = Some q" "h q = Some c" "nHeight c = nHeight b - Period ck"
    using ancestor_Some [of h p b] assms(1,2) unfolding deployment_ok_def by blast
  have "nHeight c + 1 = nHeight b + 1 - Period ck" using q(3) by simp
  then have "(nHeight c + 1) mod Period ck = (nHeight b + 1) mod Period ck" by (simp only: minus_mod_self2)
  then show ?thesis using assms(3) q by (simp add: end_ok_def boundary_def)
qed

lemma prev_period:
  assumes "deployment_ok ck h" "h p = Some b" "ancestor h p (nHeight b - Period ck) = Some q"
  obtains c where "h q = Some c" "nHeight c = nHeight b - Period ck" "0 \<le> nHeight c" "nHeight c < nHeight b"
proof -
  have i: "0 \<le> nHeight b - Period ck" "nHeight b - Period ck \<le> nHeight b" "0 < Period ck"
    using assms by (auto simp: ancestor_def deployment_ok_def split: if_splits)
  obtain q' c where "ancestor h p (nHeight b - Period ck) = Some q'" "h q' = Some c" "nHeight c = nHeight b - Period ck"
    using ancestor_Some [of h p b, OF _ assms(2) i(1,2)] assms(1) unfolding deployment_ok_def by blast
  then show ?thesis using that assms(3) i by simp
qed

lemma median_time_walk:
  "index_ok h \<Longrightarrow> times_ok h \<Longrightarrow> walk h n p = Some q \<Longrightarrow> median_time h q \<le> median_time h p"
proof (induction n arbitrary: p)
  case (Suc n)
  obtain b r where r: "h p = Some b" "pprev b = Some r" "walk h n r = Some q"
    using Suc.prems(3) by (auto split: option.splits)
  then show ?case using Suc.IH [OF Suc.prems(1,2) r(3)] median_time_prev [OF Suc.prems(1,2) r(1,2)] by simp
qed simp

lemma median_time_ancestor:
  "index_ok h \<Longrightarrow> times_ok h \<Longrightarrow> ancestor h p i = Some q \<Longrightarrow> median_time h q \<le> median_time h p"
  by (auto simp: ancestor_def intro: median_time_walk split: option.splits if_splits)

text \<open>Before the start time every state is \<open>THRESHOLD_DEFINED\<close>.\<close>

lemma bip9_early:
  assumes "deployment_ok ck h"
  shows "h p = Some b \<Longrightarrow> boundary ck b \<Longrightarrow> median_time h p < BeginTime ck \<Longrightarrow> bip9 ck h (Some p) THRESHOLD_DEFINED"
proof (induction "nat (nHeight b)" arbitrary: p b rule: less_induct)
  case less
  let ?q = "ancestor h p (nHeight b - Period ck)"
  have ok: "index_ok h" "times_ok h" "0 < Period ck" "BeginTime ck \<le> EndTime ck"
    using assms by (simp_all add: deployment_ok_def)
  have "bip9 ck h ?q THRESHOLD_DEFINED"
  proof (cases ?q)
    case None
    then show ?thesis by (simp add: bip9.genesis)
  next
    case (Some q)
    then obtain c where c: "h q = Some c" "boundary ck c"
      using end_ok_prev [OF assms less.prems(1,2)] by (auto simp: end_ok_def split: option.splits)
    obtain d where "h q = Some d" "0 \<le> nHeight d" "nHeight d < nHeight b"
      using prev_period [OF assms less.prems(1) Some] by blast
    then have "nat (nHeight c) < nat (nHeight b)" using c(1) by simp
    moreover have "median_time h q < BeginTime ck"
      using median_time_ancestor [OF ok(1,2) Some] less.prems(3) by simp
    ultimately show ?thesis unfolding Some using c by (intro less.hyps) simp_all
  qed
  moreover have "bip9_step ck h p THRESHOLD_DEFINED THRESHOLD_DEFINED"
    using less.prems(3) ok(4) by (intro bip9_step.wait) simp_all
  ultimately show ?case using bip9.period [where h = h and p = p and b = b] less.prems(1,2) by blast
qed

fun linked :: "AbstractThresholdConditionChecker \<Rightarrow> block_heap \<Rightarrow> ptr option \<Rightarrow> ptr list \<Rightarrow> ptr option \<Rightarrow> bool" where
  "linked ck h pi [] q \<longleftrightarrow> pi = q"
| "linked ck h pi (p # v) q \<longleftrightarrow>
     (case h p of None \<Rightarrow> False
      | Some b \<Rightarrow> boundary ck b \<and> ancestor h p (nHeight b - Period ck) = pi) \<and> linked ck h (Some p) v q"

lemma walk_back_ok:
  assumes "deployment_ok ck h" "cache_ok ck h cache"
  shows "end_ok ck h pi \<Longrightarrow> linked ck h pi v q \<Longrightarrow>
    \<exists>cache' pi' v' s. walk_back ck h cache pi v = Some (Ok (cache', pi', v')) \<and> cache_ok ck h cache' \<and>
      cache' pi' = Some s \<and> linked ck h pi' v' q"
proof (induction "case pi of None \<Rightarrow> 0 | Some p \<Rightarrow> nat (nHeight (the (h p)) + 1)" arbitrary: pi v rule: less_induct)
  case less
  have idx: "index_ok h" using assms(1) by (simp add: deployment_ok_def)
  show ?case
  proof (cases "cache pi")
    case (Some s)
    then show ?thesis using less.prems assms(2) by (subst walk_back.simps) auto
  next
    case none: None
    show ?thesis
    proof (cases pi)
      case None
      have "cache_ok ck h (cache(None \<mapsto> THRESHOLD_DEFINED))"
        using assms(2) by (auto simp: cache_ok_def bip9.genesis)
      then show ?thesis using none None less.prems by (subst walk_back.simps) auto
    next
      case (Some p)
      then obtain b where b: "h p = Some b" "boundary ck b"
        using less.prems(1) by (auto simp: end_ok_def split: option.splits)
      note mt = GetMedianTimePast_eq [OF idx b(1)] and ga = GetAncestor_eq [OF idx b(1)]
      show ?thesis
      proof (cases "median_time h p < BeginTime ck")
        case True
        have "cache_ok ck h (cache(Some p \<mapsto> THRESHOLD_DEFINED))"
          using assms(2) bip9_early [OF assms(1) b True] by (auto simp: cache_ok_def)
        then show ?thesis using none Some b True mt less.prems by (subst walk_back.simps) auto
      next
        case False
        let ?q = "ancestor h p (nHeight b - Period ck)"
        have step: "walk_back ck h cache pi v = walk_back ck h cache ?q (p # v)"
          using none Some b(1) False mt ga by (subst walk_back.simps) simp
        have lk: "linked ck h ?q (p # v) q" using b Some less.prems(2) by simp
        have "(case ?q of None \<Rightarrow> 0 | Some r \<Rightarrow> nat (nHeight (the (h r)) + 1)) < nat (nHeight b + 1)"
        proof (cases ?q)
          case None
          then show ?thesis using boundary_height [OF assms(1) b] assms(1) by (simp add: deployment_ok_def)
        next
          case (Some r)
          obtain c where "h r = Some c" "0 \<le> nHeight c" "nHeight c < nHeight b"
            using prev_period [OF assms(1) b(1) Some] by blast
          then show ?thesis using Some by simp
        qed
        then show ?thesis unfolding step
          using less.hyps [OF _ end_ok_prev [OF assms(1) b] lk] Some b(1) by simp
      qed
    qed
  qed
qed

lemma walk_forward_ok:
  assumes "deployment_ok ck h"
  shows "cache_ok ck h cache \<Longrightarrow> bip9 ck h pi s \<Longrightarrow> linked ck h pi v q \<Longrightarrow>
    \<exists>s' cache'. walk_forward ck h cache s v = Ok (s', cache') \<and> cache_ok ck h cache' \<and> bip9 ck h q s'"
proof (induction v arbitrary: cache pi s)
  case (Cons p v)
  have idx: "index_ok h" "0 < Period ck" using assms by (simp_all add: deployment_ok_def)
  obtain b where b: "h p = Some b" "boundary ck b" "ancestor h p (nHeight b - Period ck) = pi" "linked ck h (Some p) v q"
    using Cons.prems(3) by (auto split: option.splits)
  obtain s' where s': "next_state ck h p s = Ok s'" "bip9_step ck h p s s'"
    using next_state_step [OF idx(1) b(1) boundary_height [OF assms b(1,2)] idx(2)] by blast
  have n: "bip9 ck h (Some p) s'" using b Cons.prems(2) s'(2) by (intro bip9.period [where h = h and p = p and b = b]) simp_all
  define cache1 where "cache1 = cache(Some p \<mapsto> s')"
  have "cache_ok ck h cache1" using Cons.prems(1) n by (auto simp: cache_ok_def cache1_def)
  from Cons.IH [OF this n b(4)] show ?case using s'(1) by (simp add: cache1_def [symmetric])
qed simp

text \<open>The last block of the last full period before the next block, or null.\<close>

definition state_end :: "AbstractThresholdConditionChecker \<Rightarrow> block_heap \<Rightarrow> ptr option \<Rightarrow> ptr option" where
  "state_end ck h pindexPrev =
     (case pindexPrev of None \<Rightarrow> None
      | Some p \<Rightarrow> (case h p of None \<Rightarrow> None
          | Some b \<Rightarrow> ancestor h p (nHeight b - (nHeight b + 1) mod Period ck)))"

definition pointer_ok :: "block_heap \<Rightarrow> ptr option \<Rightarrow> bool" where
  "pointer_ok h pindexPrev \<longleftrightarrow> (case pindexPrev of None \<Rightarrow> True | Some p \<Rightarrow> h p \<noteq> None)"

lemma period_end_ok:
  assumes "deployment_ok ck h" "pointer_ok h pi"
  shows "period_end h (Period ck) pi = Ok (state_end ck h pi) \<and> end_ok ck h (state_end ck h pi)"
proof (cases pi)
  case None
  then show ?thesis by (simp add: period_end_def state_end_def end_ok_def)
next
  case (Some p)
  then obtain b where b: "h p = Some b" using assms(2) by (auto simp: pointer_ok_def)
  have idx: "index_ok h" and P: "0 < Period ck" using assms(1) by (simp_all add: deployment_ok_def)
  have n: "0 \<le> nHeight b" by (rule entry_height [OF index_okD [OF idx b]])
  let ?r = "(nHeight b + 1) mod Period ck"
  let ?e = "nHeight b - ?r"
  have r: "0 \<le> ?r" using P by simp
  have e1: "?e + 1 = (nHeight b + 1) div Period ck * Period ck"
    by (simp add: algebra_simps minus_mod_eq_div_mult [symmetric])
  have "period_end h (Period ck) pi = Ok (ancestor h p ?e)"
    using Some b P n smod_pos [of "nHeight b + 1" "Period ck"] GetAncestor_eq [OF idx b, of ?e]
    by (simp add: period_end_def deref_def assertO_def)
  moreover have "end_ok ck h (ancestor h p ?e)"
  proof (cases "0 \<le> ?e")
    case True
    then obtain q c where q: "ancestor h p ?e = Some q" "h q = Some c" "nHeight c = ?e"
      using ancestor_Some [OF idx b True] r by auto
    have "(nHeight c + 1) mod Period ck = 0" unfolding q(3) e1 by simp
    then show ?thesis using q by (simp add: end_ok_def boundary_def)
  qed (simp add: ancestor_def b end_ok_def)
  ultimately show ?thesis using Some b by (simp add: state_end_def)
qed

lemma GetStateFor_ok:
  assumes "deployment_ok ck h" "cache_ok ck h cache" "pointer_ok h pi"
  shows "\<exists>s cache'. GetStateFor ck h pi cache = Some (Ok (s, cache')) \<and> cache_ok ck h cache' \<and>
    bip9 ck h (state_end ck h pi) s"
proof -
  let ?q = "state_end ck h pi"
  have e: "period_end h (Period ck) pi = Ok ?q" "end_ok ck h ?q" using period_end_ok [OF assms(1,3)] by simp_all
  have "linked ck h ?q [] ?q" by simp
  then obtain cache1 pi1 v s where w: "walk_back ck h cache ?q [] = Some (Ok (cache1, pi1, v))" "cache_ok ck h cache1"
    "cache1 pi1 = Some s" "linked ck h pi1 v ?q"
    using walk_back_ok [OF assms(1,2) e(2)] by blast
  have "bip9 ck h pi1 s" using w(2,3) by (simp add: cache_ok_def)
  from walk_forward_ok [OF assms(1) w(2) this w(4)] show ?thesis
    using e(1) w(1,3) by (simp add: GetStateFor_def assertO_def)
qed

subsection \<open>Reachable states\<close>

lemma bip9_timeout: "bip9 ck h (Some p) s \<Longrightarrow> EndTime ck \<le> median_time h p \<Longrightarrow> s \<in> {THRESHOLD_ACTIVE, THRESHOLD_FAILED}"
  by (erule bip9.cases) (auto elim!: bip9_step.cases)

text \<open>A lock-in needs enough signals in a period before the timeout.\<close>

definition locked_at :: "AbstractThresholdConditionChecker \<Rightarrow> block_heap \<Rightarrow> ptr \<Rightarrow> bool" where
  "locked_at ck h q \<longleftrightarrow>
     Threshold ck \<le> int (signals ck h (nat (Period ck)) q) \<and> median_time h q < EndTime ck"

lemma bip9_locked:
  assumes "deployment_ok ck h" "bip9 ck h pi s"
  shows "s \<in> {THRESHOLD_LOCKED_IN, THRESHOLD_ACTIVE} \<Longrightarrow>
    \<exists>p i q. pi = Some p \<and> ancestor h p i = Some q \<and> locked_at ck h q"
  using assms(2)
proof (induction rule: bip9.induct)
  case (period p b s s')
  have idx: "index_ok h" using assms(1) by (simp add: deployment_ok_def)
  have self: "ancestor h p (nHeight b) = Some p"
    using ancestor_self [of h p b] period.hyps(1) entry_height [OF index_okD [OF idx period.hyps(1)]] by simp
  show ?case
  proof (cases "s \<in> {THRESHOLD_LOCKED_IN, THRESHOLD_ACTIVE}")
    case True
    then obtain r i q where r: "ancestor h p (nHeight b - Period ck) = Some r" "ancestor h r i = Some q" "locked_at ck h q"
      using period.IH by blast
    show ?thesis
    proof (cases "i \<le> nHeight b - Period ck")
      case le: True
      then have "ancestor h p i = Some q" using ancestor_trans [OF idx period.hyps(1) r(1) le] r(2) by simp
      then show ?thesis using r(3) by blast
    next
      case False
      obtain c where "h r = Some c" "nHeight c = nHeight b - Period ck"
        using prev_period [OF assms(1) period.hyps(1) r(1)] by blast
      then show ?thesis using r(2) False by (simp add: ancestor_def)
    qed
  next
    case False
    then have "locked_at ck h p"
      using period.hyps(4) period.prems by (auto simp: locked_at_def elim!: bip9_step.cases)
    then show ?thesis using self by blast
  qed
qed simp

subsection \<open>Properties\<close>

lemma median_nonneg: "ts \<noteq> [] \<Longrightarrow> list_all (\<lambda>t. 0 \<le> t) ts \<Longrightarrow> 0 \<le> median ts"
proof -
  assume a: "ts \<noteq> []" "list_all (\<lambda>t. 0 \<le> t) ts"
  then have "median ts \<in> set (sort ts)" unfolding median_def by (intro nth_mem) simp
  then show ?thesis using a(2) by (simp add: list_all_iff)
qed

lemma median_time_nonneg: "h p = Some b \<Longrightarrow> 0 \<le> median_time h p"
proof -
  assume p: "h p = Some b"
  have "list_all (\<lambda>t. 0 \<le> t) (branch_times h n r)" for n r
    by (induction n arbitrary: r) (auto simp: GetBlockTime_def split: option.splits)
  moreover have "branch_times h (Suc 10) p \<noteq> []" unfolding branch_times.simps p by simp
  ultimately show ?thesis unfolding median_time_def nMedianTimeSpan_def
    by (intro median_nonneg) (simp_all add: list_all_rev)
qed

lemma main_checker:
  "Period (VersionBitsConditionChecker CMainParams pos) = 2016"
  "Threshold (VersionBitsConditionChecker CMainParams pos) = 0"
  "BeginTime (VersionBitsConditionChecker CMainParams DEPLOYMENT_CSV) = 0"
  "EndTime (VersionBitsConditionChecker CMainParams DEPLOYMENT_CSV) = 0"
  "BeginTime (VersionBitsConditionChecker CMainParams DEPLOYMENT_SEGWIT) = 0"
  "EndTime (VersionBitsConditionChecker CMainParams DEPLOYMENT_SEGWIT) = 0"
  "BeginTime (VersionBitsConditionChecker CMainParams DEPLOYMENT_TESTDUMMY) = 1199145601"
  "EndTime (VersionBitsConditionChecker CMainParams DEPLOYMENT_TESTDUMMY) = 1230767999"
  by (simp_all add: VersionBitsConditionChecker_def main_params)
    (simp_all add: CMainParams_def Let_def)

text \<open>A chain of \<open>n\<close> blocks, one second apart.\<close>

definition line_block :: "nat \<Rightarrow> CBlockIndex" where
  "line_block p = CBlockIndex_SetNull\<lparr>pprev := if p = 0 then None else Some (p - 1), nHeight := int p, nTime := of_nat (p + 1)\<rparr>"

definition line :: "nat \<Rightarrow> block_heap" where
  "line n p = (if p < n then Some (line_block p) else None)"

lemma line_index_ok: "index_ok (line n)"
  by (auto simp: index_ok_def entry_ok_def line_def line_block_def CBlockIndex_SetNull_def split: if_splits)

lemma line_times:
  assumes "n < 2 ^ 32" "p < n" "t \<in> set (branch_times (line n) k p)"
  shows "t \<le> int p + 1"
  using assms(2,3)
proof (induction k arbitrary: p)
  case (Suc k)
  have b: "line n p = Some (line_block p)" using Suc.prems by (simp add: line_def)
  have t: "GetBlockTime (line_block p) = int p + 1"
  proof -
    have "unat (of_nat (p + 1) :: u32) = p + 1" using assms(1) Suc.prems(1) by (subst unat_of_nat) simp
    then show ?thesis by (simp add: GetBlockTime_def line_block_def)
  qed
  show ?case
  proof (cases p)
    case 0
    then show ?thesis using Suc.prems(2) b t by (simp add: line_block_def)
  next
    case (Suc q)
    then have "pprev (line_block p) = Some q" by (simp add: line_block_def)
    then have "t = int p + 1 \<or> t \<in> set (branch_times (line n) k q)" using Suc.prems(2) b t by simp
    then show ?thesis using Suc.IH [of q] Suc.prems(1) Suc by auto
  qed
qed simp

lemma line_times_ok: "n < 2 ^ 32 \<Longrightarrow> times_ok (line n)"
proof -
  assume n: "n < 2 ^ 32"
  have "median_time (line n) q < GetBlockTime b" if "line n p = Some b" "pprev b = Some q" for p b q
  proof -
    have p: "p < n" "b = line_block p" "p = Suc q" using that by (auto simp: line_def line_block_def split: if_splits)
    have "line n q = Some (line_block q)" using p by (simp add: line_def)
    then have "branch_times (line n) (Suc 10) q \<noteq> []" unfolding branch_times.simps by simp
    then have "median_time (line n) q \<in> set (sort (rev (branch_times (line n) 11 q)))"
      unfolding median_time_def nMedianTimeSpan_def median_def by (intro nth_mem) simp
    then have "median_time (line n) q \<le> int q + 1" using line_times [OF n, of q _ 11] p by simp
    moreover have "unat (of_nat (p + 1) :: u32) = p + 1" using n p by (subst unat_of_nat) simp
    ultimately show ?thesis using p by (simp add: GetBlockTime_def line_block_def)
  qed
  then show ?thesis unfolding times_ok_def by blast
qed

text \<open>
  C27: \<open>GetStateFor\<close> computes the state machine of BIP 9. On a consistent index in which every block is
  later than the median time of its predecessor, with a start time not after the timeout, and
  with any cache that holds states of this machine, it returns, no assertion fails and no null
  pointer is followed; the state is the one that the transitions give from the genesis block on,
  one period after the other, although the code stops at the first period before the start time
  or in the cache, and the cache it leaves holds states of the machine again.
\<close>

theorem GetStateFor_bip9:
  assumes "deployment_ok ck h" "cache_ok ck h cache" "pointer_ok h pindexPrev"
  shows "\<exists>s cache'. GetStateFor ck h pindexPrev cache = Some (Ok (s, cache')) \<and> cache_ok ck h cache' \<and>
    (\<forall>s'. bip9 ck h (state_end ck h pindexPrev) s' \<longleftrightarrow> s' = s)"
  using GetStateFor_ok [OF assms] bip9_det by metis

theorem GetStateFor_bip9_witness:
  "\<exists>s cache'. GetStateFor (VersionBitsConditionChecker CMainParams DEPLOYMENT_CSV) (line 3000) (Some 2500) Map.empty =
    Some (Ok (s, cache'))"
proof -
  have "deployment_ok (VersionBitsConditionChecker CMainParams DEPLOYMENT_CSV) (line 3000)"
    using line_index_ok line_times_ok by (simp add: deployment_ok_def main_checker)
  from GetStateFor_bip9 [OF this, of Map.empty "Some 2500"] show ?thesis
    by (auto simp: cache_ok_def pointer_ok_def line_def)
qed

text \<open>
  C28: every deployment is decided. Once the median time of the last block of a period has reached
  the timeout, \<open>GetStateFor\<close> gives \<open>THRESHOLD_ACTIVE\<close> or \<open>THRESHOLD_FAILED\<close> for the next period; and
  \<open>THRESHOLD_LOCKED_IN\<close> and \<open>THRESHOLD_ACTIVE\<close> are only reached after a period of the same branch that
  ended before the timeout and had at least the threshold of signalling blocks.
\<close>

theorem GetStateFor_decided:
  assumes "deployment_ok ck h" "cache_ok ck h cache" "h p = Some b" "state_end ck h (Some p) = Some q"
  shows "\<exists>s cache'. GetStateFor ck h (Some p) cache = Some (Ok (s, cache')) \<and>
    (EndTime ck \<le> median_time h q \<longrightarrow> s = THRESHOLD_ACTIVE \<or> s = THRESHOLD_FAILED) \<and>
    (s = THRESHOLD_LOCKED_IN \<or> s = THRESHOLD_ACTIVE \<longrightarrow> (\<exists>i r. ancestor h q i = Some r \<and> locked_at ck h r))"
proof -
  have "pointer_ok h (Some p)" using assms(3) by (simp add: pointer_ok_def)
  from GetStateFor_ok [OF assms(1,2) this] obtain s cache' where
    s: "GetStateFor ck h (Some p) cache = Some (Ok (s, cache'))" "bip9 ck h (Some q) s" using assms(4) by auto
  then show ?thesis using bip9_timeout [OF s(2)] bip9_locked [OF assms(1) s(2)] by auto
qed

lemma main_state_end:
  assumes "index_ok h" "h p = Some b" "2015 \<le> nHeight b"
  shows "\<exists>q. state_end (VersionBitsConditionChecker CMainParams pos) h (Some p) = Some q"
proof -
  let ?e = "nHeight b - (nHeight b + 1) mod 2016"
  have "2016 * ((nHeight b + 1) div 2016) + (nHeight b + 1) mod 2016 = nHeight b + 1" by (rule mult_div_mod_eq)
  moreover have "1 \<le> (nHeight b + 1) div 2016" using assms(3) by (simp add: pos_imp_zdiv_pos_iff zdiv_mono1 int_one_le_iff_zero_less)
  ultimately have e: "0 \<le> ?e" "?e \<le> nHeight b" by (linarith, simp)
  then show ?thesis using ancestor_Some [OF assms(1,2) e] assms(2) by (auto simp: state_end_def main_checker)
qed

theorem GetStateFor_decided_witness:
  "\<exists>q s cache'. state_end (VersionBitsConditionChecker CMainParams DEPLOYMENT_CSV) (line 3000) (Some 2500) = Some q \<and>
    GetStateFor (VersionBitsConditionChecker CMainParams DEPLOYMENT_CSV) (line 3000) (Some 2500) Map.empty = Some (Ok (s, cache')) \<and>
    (EndTime (VersionBitsConditionChecker CMainParams DEPLOYMENT_CSV) \<le> median_time (line 3000) q \<longrightarrow>
       s = THRESHOLD_ACTIVE \<or> s = THRESHOLD_FAILED)"
proof -
  let ?ck = "VersionBitsConditionChecker CMainParams DEPLOYMENT_CSV"
  have ok: "deployment_ok ?ck (line 3000)"
    using line_index_ok line_times_ok by (simp add: deployment_ok_def main_checker)
  have b: "line 3000 2500 = Some (line_block 2500)" "2015 \<le> nHeight (line_block 2500)"
    by (simp_all add: line_def line_block_def)
  have c: "cache_ok ?ck (line 3000) Map.empty" by (simp add: cache_ok_def)
  obtain q where q: "state_end ?ck (line 3000) (Some 2500) = Some q"
    using main_state_end [OF line_index_ok b] by blast
  show ?thesis using GetStateFor_decided [OF ok c b(1) q] q by blast
qed

text \<open>
  C29: the deployments of the main network. Its parameters give the deployments of BIP 68, 112 and
  113 and of segregated witness a start time and a timeout of zero, so that from the second
  period on their state is \<open>THRESHOLD_FAILED\<close> on every branch and they can never activate; and the
  activation threshold is zero instead of 95 percent of the window, since it is computed before
  the window is set.
\<close>

theorem main_net_deployments:
  assumes "index_ok h" "times_ok h" "h p = Some b" "2015 \<le> nHeight b" "pos \<noteq> DEPLOYMENT_TESTDUMMY"
    and "cache_ok (VersionBitsConditionChecker CMainParams pos) h (caches pos)"
  shows "(\<exists>caches'. VersionBitsState h (Some p) CMainParams pos caches = Some (Ok (THRESHOLD_FAILED, caches'))) \<and>
    nRuleChangeActivationThreshold CMainParams = 0 \<and> nMinerConfirmationWindow CMainParams = 2016"
proof -
  let ?ck = "VersionBitsConditionChecker CMainParams pos"
  have z: "BeginTime ?ck = 0" "EndTime ?ck = 0" using assms(5) by (cases pos; simp add: main_checker)+
  have ok: "deployment_ok ?ck h" using assms(1,2) z by (simp add: deployment_ok_def main_checker)
  obtain q where q: "state_end ?ck h (Some p) = Some q" using main_state_end [OF assms(1,3,4)] by blast
  have "pointer_ok h (Some p)" using assms(3) by (simp add: pointer_ok_def)
  from GetStateFor_ok [OF ok assms(6) this] obtain s cache' where
    s: "GetStateFor ?ck h (Some p) (caches pos) = Some (Ok (s, cache'))" "bip9 ?ck h (Some q) s" using q by auto
  obtain c where c: "h q = Some c" using s(2) by (auto elim: bip9.cases)
  have dec: "s = THRESHOLD_ACTIVE \<or> s = THRESHOLD_FAILED"
    using bip9_timeout [OF s(2)] median_time_nonneg [of h q c] c z(2) by simp
  have "s \<noteq> THRESHOLD_ACTIVE"
  proof
    assume "s = THRESHOLD_ACTIVE"
    then obtain i r where r: "ancestor h q i = Some r" "median_time h r < 0"
      using bip9_locked [OF ok s(2)] z(2) by (auto simp: locked_at_def)
    have i: "0 \<le> i" "i \<le> nHeight c" using r(1) c by (auto simp: ancestor_def split: if_splits)
    obtain d where "h r = Some d" using ancestor_Some [OF assms(1) c i] r(1) by auto
    from median_time_nonneg [of h r d, OF this] show False using r(2) by simp
  qed
  then show ?thesis using dec s(1) by (simp add: VersionBitsState_def main_params)
qed

theorem main_net_deployments_witness:
  "\<exists>caches'. VersionBitsState (line 3000) (Some 2500) CMainParams DEPLOYMENT_SEGWIT VersionBitsCache_Clear =
    Some (Ok (THRESHOLD_FAILED, caches'))"
proof -
  have b: "line 3000 2500 = Some (line_block 2500)" "2015 \<le> nHeight (line_block 2500)"
    by (simp_all add: line_def line_block_def)
  have "times_ok (line 3000)" by (rule line_times_ok) simp
  moreover have "cache_ok (VersionBitsConditionChecker CMainParams DEPLOYMENT_SEGWIT) (line 3000)
      (VersionBitsCache_Clear DEPLOYMENT_SEGWIT)" by (simp add: cache_ok_def VersionBitsCache_Clear_def)
  ultimately show ?thesis
    using main_net_deployments [OF line_index_ok _ b, of DEPLOYMENT_SEGWIT VersionBitsCache_Clear] by simp
qed

end
