(* ===== verification/Merkle.thy ===== *)
theory Merkle
  imports Hash
begin

text \<open>
  Merkle trees: the constant-space computation of roots and branches in
  \<^verbatim>\<open>src/src/consensus/merkle.cpp\<close>, and the partial trees of \<^verbatim>\<open>src/src/merkleblock.h\<close> and
  \<^verbatim>\<open>src/src/merkleblock.cpp\<close>, whose recursive \<open>CalcHash\<close> is the reference for both.
\<close>

datatype merkle_exn = Merkle_exn

type_synonym 'a merkle_result = "(unit, merkle_exn, 'a) outcome"

definition null_hash :: uint256 where "null_hash = replicate 32 0"

subsection \<open>Partial trees\<close>

text \<open>
  The numbers of transactions, heights and positions of a tree; with fewer than \<open>2 ^ 31\<close>
  transactions none of them overflows its type.
\<close>

definition CalcTreeWidth :: "nat \<Rightarrow> nat \<Rightarrow> nat" where
  "CalcTreeWidth nTransactions height = (nTransactions + 2 ^ height - 1) div 2 ^ height"

fun CalcHash :: "nat \<Rightarrow> nat \<Rightarrow> nat \<Rightarrow> uint256 list \<Rightarrow> uint256" where
  "CalcHash nTransactions 0 pos vTxid = vTxid ! pos"
| "CalcHash nTransactions (Suc height) pos vTxid =
     (let left = CalcHash nTransactions height (pos * 2) vTxid;
          right = (if pos * 2 + 1 < CalcTreeWidth nTransactions height
                   then CalcHash nTransactions height (pos * 2 + 1) vTxid else left)
      in Hash_2 left right)"

text \<open>The loop that computes the height of a tree.\<close>

lemma CalcTreeWidth_gt_1: "CalcTreeWidth n h > 1 \<longleftrightarrow> 2 ^ h < n"
proof -
  have "CalcTreeWidth n h > 1 \<longleftrightarrow> 2 \<le> (n + 2 ^ h - 1) div 2 ^ h"
    unfolding CalcTreeWidth_def by linarith
  also have "\<dots> \<longleftrightarrow> 2 * 2 ^ h \<le> n + 2 ^ h - 1" by (rule less_eq_div_iff_mult_less_eq) simp
  also have "\<dots> \<longleftrightarrow> 2 ^ h < n"
  proof -
    have "(0::nat) < 2 ^ h" by simp
    then show ?thesis by arith
  qed
  finally show ?thesis .
qed

function CalcTreeHeight :: "nat \<Rightarrow> nat \<Rightarrow> nat" where
  "CalcTreeHeight nTransactions height =
     (if CalcTreeWidth nTransactions height > 1 then CalcTreeHeight nTransactions (height + 1) else height)"
  by pat_completeness auto
termination
proof (relation "measure (\<lambda>(n, h). n - h)")
  fix n h
  assume "CalcTreeWidth n h > 1"
  then have "2 ^ h < n" by (simp only: CalcTreeWidth_gt_1)
  moreover have "h < 2 ^ h" by (rule less_exp)
  ultimately have "h < n" by (rule order.strict_trans [rotated])
  then show "((n, h + 1), n, h) \<in> measure (\<lambda>(n, h). n - h)" by simp
qed simp

declare CalcTreeHeight.simps [simp del]

record CPartialMerkleTree =
  nTransactions :: nat
  vBits :: "bool list"
  vHash :: "uint256 list"
  fBad :: bool

definition fParentOfMatch :: "nat \<Rightarrow> nat \<Rightarrow> nat \<Rightarrow> bool list \<Rightarrow> bool" where
  "fParentOfMatch n height pos vMatch =
     list_ex (\<lambda>p. vMatch ! p) [pos * 2 ^ height ..< min ((pos + 1) * 2 ^ height) n]"

text \<open>\<open>TraverseAndBuild\<close> appends to \<open>vBits\<close> and \<open>vHash\<close>.\<close>

fun TraverseAndBuild ::
  "nat \<Rightarrow> nat \<Rightarrow> nat \<Rightarrow> uint256 list \<Rightarrow> bool list \<Rightarrow> bool list \<times> uint256 list \<Rightarrow> bool list \<times> uint256 list" where
  "TraverseAndBuild n 0 pos vTxid vMatch (bits, hashes) =
     (bits @ [fParentOfMatch n 0 pos vMatch], hashes @ [CalcHash n 0 pos vTxid])"
| "TraverseAndBuild n (Suc height) pos vTxid vMatch (bits, hashes) =
     (if \<not> fParentOfMatch n (Suc height) pos vMatch
      then (bits @ [False], hashes @ [CalcHash n (Suc height) pos vTxid])
      else
        let r = TraverseAndBuild n height (pos * 2) vTxid vMatch (bits @ [True], hashes)
        in if pos * 2 + 1 < CalcTreeWidth n height then TraverseAndBuild n height (pos * 2 + 1) vTxid vMatch r else r)"

definition CPartialMerkleTree_build :: "uint256 list \<Rightarrow> bool list \<Rightarrow> CPartialMerkleTree" where
  "CPartialMerkleTree_build vTxid vMatch =
     (let n = length vTxid;
          (bits, hashes) = TraverseAndBuild n (CalcTreeHeight n 0) 0 vTxid vMatch ([], [])
      in \<lparr>nTransactions = n, vBits = bits, vHash = hashes, fBad = False\<rparr>)"

record extract_state =
  nBitsUsed :: nat
  nHashUsed :: nat
  vMatched :: "uint256 list"
  vnIndex :: "nat list"
  bad :: bool

fun TraverseAndExtract ::
  "CPartialMerkleTree \<Rightarrow> nat \<Rightarrow> nat \<Rightarrow> extract_state \<Rightarrow> uint256 \<times> extract_state" where
  "TraverseAndExtract t height pos st =
     (if nBitsUsed st \<ge> length (vBits t) then (null_hash, st\<lparr>bad := True\<rparr>)
      else
        let parent = vBits t ! nBitsUsed st; st = st\<lparr>nBitsUsed := nBitsUsed st + 1\<rparr> in
        if height = 0 \<or> \<not> parent then
          if nHashUsed st \<ge> length (vHash t) then (null_hash, st\<lparr>bad := True\<rparr>)
          else
            let hash = vHash t ! nHashUsed st; st = st\<lparr>nHashUsed := nHashUsed st + 1\<rparr>
            in (hash, if height = 0 \<and> parent
                      then st\<lparr>vMatched := vMatched st @ [hash], vnIndex := vnIndex st @ [pos]\<rparr> else st)
        else
          let (left, st) = TraverseAndExtract t (height - 1) (pos * 2) st in
          if pos * 2 + 1 < CalcTreeWidth (nTransactions t) (height - 1)
          then let (right, st) = TraverseAndExtract t (height - 1) (pos * 2 + 1) st
               in (Hash_2 left right, if right = left then st\<lparr>bad := True\<rparr> else st)
          else (Hash_2 left left, st))"

definition MAX_BLOCK_BASE_SIZE :: nat where "MAX_BLOCK_BASE_SIZE = 1000000"

text \<open>
  \<open>ExtractMatches\<close> returns the root, the cleared and filled \<open>vMatch\<close>, the extended \<open>vnIndex\<close> and
  the tree, whose flag \<open>fBad\<close> the traversal may set.
\<close>

definition ExtractMatches ::
  "CPartialMerkleTree \<Rightarrow> nat list \<Rightarrow> uint256 \<times> uint256 list \<times> nat list \<times> CPartialMerkleTree" where
  "ExtractMatches t index0 =
     (if nTransactions t = 0 then (null_hash, [], index0, t)
      else if nTransactions t > MAX_BLOCK_BASE_SIZE div 60 then (null_hash, [], index0, t)
      else if length (vHash t) > nTransactions t then (null_hash, [], index0, t)
      else if length (vBits t) < length (vHash t) then (null_hash, [], index0, t)
      else
        let (hashMerkleRoot, st) = TraverseAndExtract t (CalcTreeHeight (nTransactions t) 0) 0
              \<lparr>nBitsUsed = 0, nHashUsed = 0, vMatched = [], vnIndex = index0, bad = fBad t\<rparr>;
            root = (if bad st then null_hash
                    else if (nBitsUsed st + 7) div 8 \<noteq> (length (vBits t) + 7) div 8 then null_hash
                    else if nHashUsed st \<noteq> length (vHash t) then null_hash
                    else hashMerkleRoot)
        in (root, vMatched st, vnIndex st, t\<lparr>fBad := bad st\<rparr>))"

subsection \<open>The constant-space computation\<close>

text \<open>The array \<open>inner\<close>, the match level, the branch so far and the mutation flag.\<close>

record merkle_state =
  inner :: "uint256 list"
  matchlevel :: int
  branch :: "uint256 list"
  mutated :: bool

text \<open>The two cases in which a combination step extends the branch.\<close>

definition extend_branch :: "bool \<Rightarrow> nat \<Rightarrow> uint256 \<Rightarrow> bool \<Rightarrow> merkle_state \<Rightarrow> bool \<times> merkle_state" where
  "extend_branch pbranch level h matchh st =
     (if pbranch then
        if matchh then (matchh, st\<lparr>branch := branch st @ [inner st ! level]\<rparr>)
        else if matchlevel st = int level then (True, st\<lparr>branch := branch st @ [h]\<rparr>)
        else (matchh, st)
      else (matchh, st))"

text \<open>
  The loop over the lower zero bits of \<open>count\<close>. Shifting by the width of the word and accessing
  \<open>inner\<close> past its end is \<open>Abort\<close>.
\<close>

function merge_loop ::
  "bool \<Rightarrow> u32 \<Rightarrow> nat \<Rightarrow> uint256 \<Rightarrow> bool \<Rightarrow> merkle_state \<Rightarrow> (nat \<times> uint256 \<times> bool \<times> merkle_state) merkle_result" where
  "merge_loop pbranch count level h matchh st =
     (if level \<ge> 32 then Abort
      else if count AND push_bit level 1 = 0 then
        let (matchh, st) = extend_branch pbranch level h matchh st;
            st = st\<lparr>mutated := mutated st \<or> inner st ! level = h\<rparr>
        in merge_loop pbranch count (level + 1) (Hash_2 (inner st ! level) h) matchh st
      else Ok (level, h, matchh, st))"
  by pat_completeness auto
termination
  by (relation "measure (\<lambda>(pb, c, level, h, m, st). 32 - level)") auto

declare merge_loop.simps [simp del]

fun leaf_loop :: "bool \<Rightarrow> u32 \<Rightarrow> u32 \<Rightarrow> uint256 list \<Rightarrow> merkle_state \<Rightarrow> (u32 \<times> merkle_state) merkle_result" where
  "leaf_loop pbranch branchpos count [] st = Ok (count, st)"
| "leaf_loop pbranch branchpos count (h # leaves) st =
     bindO (merge_loop pbranch (count + 1) 0 h (count = branchpos) st) (\<lambda>(level, h, matchh, st).
     leaf_loop pbranch branchpos (count + 1) leaves
       (st\<lparr>inner := (inner st)[level := h], matchlevel := if matchh then int level else matchlevel st\<rparr>))"

function skip_loop :: "u32 \<Rightarrow> nat \<Rightarrow> nat merkle_result" where
  "skip_loop count level =
     (if level \<ge> 32 then Abort
      else if count AND push_bit level 1 = 0 then skip_loop count (level + 1)
      else Ok level)"
  by pat_completeness auto
termination
  by (relation "measure (\<lambda>(c, level). 32 - level)") auto

declare skip_loop.simps [simp del]

text \<open>The inner loop of the sweep, which does not touch the mutation flag.\<close>

function propagate_loop ::
  "bool \<Rightarrow> u32 \<Rightarrow> nat \<Rightarrow> uint256 \<Rightarrow> bool \<Rightarrow> merkle_state \<Rightarrow> (nat \<times> uint256 \<times> bool \<times> merkle_state) merkle_result" where
  "propagate_loop pbranch count level h matchh st =
     (if level \<ge> 32 then Abort
      else if count AND push_bit level 1 = 0 then
        let (matchh, st) = extend_branch pbranch level h matchh st
        in propagate_loop pbranch count (level + 1) (Hash_2 (inner st ! level) h) matchh st
      else Ok (level, h, matchh, st))"
  by pat_completeness auto
termination
  by (relation "measure (\<lambda>(pb, c, level, h, m, st). 32 - level)") auto

declare propagate_loop.simps [simp del]

text \<open>The sweep; \<open>k\<close> bounds its rounds by the number of levels.\<close>

fun sweep_loop ::
  "nat \<Rightarrow> bool \<Rightarrow> u32 \<Rightarrow> nat \<Rightarrow> uint256 \<Rightarrow> bool \<Rightarrow> merkle_state \<Rightarrow> (uint256 \<times> merkle_state) merkle_result" where
  "sweep_loop k pbranch count level h matchh st =
     (if level \<ge> 32 then Abort
      else if count \<noteq> push_bit level 1 then
        (case k of
           0 \<Rightarrow> Abort
         | Suc k \<Rightarrow>
             let st = (if pbranch \<and> matchh then st\<lparr>branch := branch st @ [h]\<rparr> else st);
                 h = Hash_2 h h;
                 count = count + push_bit level 1
             in bindO (propagate_loop pbranch count (level + 1) h matchh st) (\<lambda>(level, h, matchh, st).
                sweep_loop k pbranch count level h matchh st))
      else Ok (h, st))"

declare sweep_loop.simps [simp del]

definition MerkleComputation ::
  "uint256 list \<Rightarrow> u32 \<Rightarrow> bool \<Rightarrow> (uint256 \<times> bool \<times> uint256 list) merkle_result" where
  "MerkleComputation leaves branchpos pbranch =
     (if length leaves = 0 then Ok (null_hash, False, [])
      else
        bindO (leaf_loop pbranch branchpos 0 leaves
                 \<lparr>inner = replicate 32 null_hash, matchlevel = -1, branch = [], mutated = False\<rparr>) (\<lambda>(count, st).
        bindO (skip_loop count 0) (\<lambda>level.
        bindO (sweep_loop 32 pbranch count level (inner st ! level) (matchlevel st = int level) st) (\<lambda>(h, st').
        Ok (h, mutated st, branch st')))))"

definition ComputeMerkleRoot :: "uint256 list \<Rightarrow> (uint256 \<times> bool) merkle_result" where
  "ComputeMerkleRoot leaves =
     bindO (MerkleComputation leaves (-1) False) (\<lambda>(hash, mutated, _). Ok (hash, mutated))"

definition ComputeMerkleBranch :: "uint256 list \<Rightarrow> u32 \<Rightarrow> uint256 list merkle_result" where
  "ComputeMerkleBranch leaves position =
     bindO (MerkleComputation leaves position True) (\<lambda>(_, _, ret). Ok ret)"

fun ComputeMerkleRootFromBranch :: "uint256 \<Rightarrow> uint256 list \<Rightarrow> u32 \<Rightarrow> uint256" where
  "ComputeMerkleRootFromBranch hash [] nIndex = hash"
| "ComputeMerkleRootFromBranch hash (it # vMerkleBranch) nIndex =
     ComputeMerkleRootFromBranch (if nIndex AND 1 \<noteq> 0 then Hash_2 it hash else Hash_2 hash it)
       vMerkleBranch (drop_bit 1 nIndex)"

end
