(* ===== verification/Merkle_Root.thy ===== *)
theory Merkle_Root
  imports Merkle
begin

text \<open>
  The constant-space computation of \<^verbatim>\<open>consensus/merkle.cpp\<close> computes the tree that \<open>CalcHash\<close> of
  \<^verbatim>\<open>merkleblock.cpp\<close> defines by recursion: the root, the branch of every leaf and the flag for equal
  neighbouring subtrees.
\<close>

subsection \<open>The tree of a list of leaves\<close>

lemma CalcTreeWidth_less: "i < CalcTreeWidth n l \<longleftrightarrow> i * 2 ^ l < n"
proof -
  have "i < CalcTreeWidth n l \<longleftrightarrow> Suc i \<le> (n + 2 ^ l - 1) div 2 ^ l"
    unfolding CalcTreeWidth_def by linarith
  also have "\<dots> \<longleftrightarrow> Suc i * 2 ^ l \<le> n + 2 ^ l - 1" by (rule less_eq_div_iff_mult_less_eq) simp
  also have "\<dots> \<longleftrightarrow> i * 2 ^ l < n"
  proof -
    have "(0::nat) < 2 ^ l" by simp
    then show ?thesis by (simp only: mult_Suc) arith
  qed
  finally show ?thesis .
qed

lemma CalcTreeHeight_eq:
  assumes "h \<le> l" "\<And>l'. l' < l \<Longrightarrow> 2 ^ l' < n" "n \<le> 2 ^ l"
  shows "CalcTreeHeight n h = l"
  using assms(1)
proof (induction "l - h" arbitrary: h)
  case 0
  then have "h = l" by simp
  moreover have "\<not> CalcTreeWidth n l > 1" using assms(3) by (simp only: CalcTreeWidth_gt_1 not_less)
  ultimately show ?case by (simp only: CalcTreeHeight.simps [of n l] if_False)
next
  case (Suc d)
  then have "2 ^ h < n" using assms(2) by simp
  then have "CalcTreeWidth n h > 1" by (simp only: CalcTreeWidth_gt_1)
  then have "CalcTreeHeight n h = CalcTreeHeight n (h + 1)" by (simp only: CalcTreeHeight.simps [of n h] if_True)
  then show ?case using Suc by simp
qed

text \<open>\<open>subtree xs l i\<close> is the node \<open>i\<close> of level \<open>l\<close> of the tree over the leaves \<open>xs\<close>.\<close>

definition subtree :: "uint256 list \<Rightarrow> nat \<Rightarrow> nat \<Rightarrow> uint256" where
  "subtree xs l i = CalcHash (length xs) l i xs"

definition merkle_root :: "uint256 list \<Rightarrow> uint256" where
  "merkle_root xs = subtree xs (CalcTreeHeight (length xs) 0) 0"

definition sibling :: "uint256 list \<Rightarrow> nat \<Rightarrow> nat \<Rightarrow> uint256" where
  "sibling xs pos l =
     (let j = pos div 2 ^ l; s = (if even j then j + 1 else j - 1)
      in subtree xs l (if s * 2 ^ l < length xs then s else j))"

text \<open>Two complete neighbouring subtrees under one parent are equal, among the first \<open>c\<close> leaves.\<close>

definition repeated :: "uint256 list \<Rightarrow> nat \<Rightarrow> bool" where
  "repeated xs c \<longleftrightarrow> (\<exists>l k. (2 * k + 2) * 2 ^ l \<le> c \<and> subtree xs l (2 * k) = subtree xs l (2 * k + 1))"

lemma subtree_0 [simp]: "subtree xs 0 i = xs ! i"
  by (simp add: subtree_def)

lemma subtree_pair:
  assumes "odd j" "j * 2 ^ l < length xs"
  shows "subtree xs (Suc l) (j div 2) = Hash_2 (subtree xs l (j - 1)) (subtree xs l j)"
proof -
  have "j div 2 * 2 = j - 1" using assms(1) by presburger
  moreover have "j div 2 * 2 + 1 = j" using assms(1) by presburger
  ultimately show ?thesis using assms(2) by (simp add: subtree_def Let_def CalcTreeWidth_less)
qed

lemma subtree_single:
  assumes "even j" "\<not> (j + 1) * 2 ^ l < length xs"
  shows "subtree xs (Suc l) (j div 2) = Hash_2 (subtree xs l j) (subtree xs l j)"
  using assms by (simp add: subtree_def Let_def CalcTreeWidth_less)

subsection \<open>Invariants of the loops\<close>

text \<open>
  The leaf \<open>c\<close> is being added to \<open>c\<close> leaves, or \<open>c\<close> is the last leaf; the current subtree is the one of
  its level that holds the leaf \<open>c\<close>.
\<close>

definition inner_ok :: "uint256 list \<Rightarrow> nat \<Rightarrow> nat \<Rightarrow> merkle_state \<Rightarrow> bool" where
  "inner_ok xs c l st \<longleftrightarrow> length (inner st) = 32 \<and>
     (\<forall>m. l \<le> m \<longrightarrow> m < 32 \<longrightarrow> odd (c div 2 ^ m) \<longrightarrow> inner st ! m = subtree xs m (c div 2 ^ m - 1))"

definition held :: "uint256 list \<Rightarrow> nat \<Rightarrow> nat \<Rightarrow> nat \<Rightarrow> merkle_state \<Rightarrow> bool" where
  "held xs pos c l st \<longleftrightarrow> (\<exists>m. l \<le> m \<and> matchlevel st = int m \<and> odd (c div 2 ^ m) \<and>
     pos div 2 ^ m = c div 2 ^ m - 1 \<and> branch st = map (sibling xs pos) [0..<m])"

definition match_ok :: "uint256 list \<Rightarrow> nat \<Rightarrow> nat \<Rightarrow> nat \<Rightarrow> merkle_state \<Rightarrow> bool" where
  "match_ok xs pos c l st \<longleftrightarrow> (if pos < c then held xs pos c l st else matchlevel st = -1 \<and> branch st = [])"

definition match_in :: "uint256 list \<Rightarrow> nat \<Rightarrow> nat \<Rightarrow> nat \<Rightarrow> bool \<Rightarrow> merkle_state \<Rightarrow> bool" where
  "match_in xs pos c l matchh st \<longleftrightarrow>
     (if pos div 2 ^ l = c div 2 ^ l then matchh \<and> branch st = map (sibling xs pos) [0..<l]
      else \<not> matchh \<and> match_ok xs pos c l st)"

definition repeated_upto :: "uint256 list \<Rightarrow> nat \<Rightarrow> nat \<Rightarrow> bool" where
  "repeated_upto xs c l \<longleftrightarrow> repeated xs c \<or>
     (\<exists>l'<l. odd (c div 2 ^ l') \<and> subtree xs l' (c div 2 ^ l' - 1) = subtree xs l' (c div 2 ^ l'))"

lemma div_pow_Suc: "(c::nat) div 2 ^ Suc l = c div 2 ^ l div 2"
  by (simp only: power_Suc2 div_mult2_eq)

lemma div_pow_ge:
  assumes "l \<le> m" "(a::nat) div 2 ^ l = b div 2 ^ l"
  shows "a div 2 ^ m = b div 2 ^ m"
proof -
  have "(2::nat) ^ m = 2 ^ l * 2 ^ (m - l)" using assms(1) by (simp flip: power_add)
  then show ?thesis using assms(2) by (simp only: div_mult2_eq)
qed

lemma held_apart:
  assumes "held xs pos c l st"
  shows "pos div 2 ^ l \<noteq> c div 2 ^ l"
proof
  assume eq: "pos div 2 ^ l = c div 2 ^ l"
  obtain m where m: "l \<le> m" "odd (c div 2 ^ m)" "pos div 2 ^ m = c div 2 ^ m - 1"
    using assms by (auto simp: held_def)
  have "0 < c div 2 ^ m" using odd_pos [OF m(2)] .
  then show False using div_pow_ge [OF m(1) eq] m(3) by simp
qed

lemma count_bit:
  fixes count :: u32
  assumes "unat count = (c div 2 ^ l + 1) * 2 ^ l"
  shows "count AND push_bit l 1 = 0 \<longleftrightarrow> odd (c div 2 ^ l)"
proof -
  have "count AND push_bit l 1 = 0 \<longleftrightarrow> \<not> bit count l" by (simp add: push_bit_of_1 and_exp_eq_0_iff_not_bit)
  also have "\<dots> \<longleftrightarrow> \<not> odd (unat count div 2 ^ l)" by (simp add: bit_unsigned_iff flip: bit_iff_odd)
  finally show ?thesis using assms by simp
qed

lemma count_level:
  fixes count :: u32
  assumes "unat count = (c div 2 ^ l + 1) * 2 ^ l"
  shows "l < 32" and "odd (c div 2 ^ l) \<Longrightarrow> unat count = (c div 2 ^ Suc l + 1) * 2 ^ Suc l"
proof -
  have "2 ^ l \<le> unat count" using assms by simp
  also have "unat count < 2 ^ 32" using unat_bound [of count] by simp
  finally have "(2::nat) ^ l < 2 ^ 32" .
  then show "l < 32" by (rule power_less_imp_less_exp [rotated]) simp
  assume "odd (c div 2 ^ l)"
  then have "c div 2 ^ l + 1 = (c div 2 ^ Suc l + 1) * 2" unfolding div_pow_Suc by (elim oddE) simp
  then show "unat count = (c div 2 ^ Suc l + 1) * 2 ^ Suc l" using assms by simp
qed

subsection \<open>One step up the tree\<close>

lemma match_in_Suc:
  assumes "match_in xs pos c l matchh st" "extend_branch True l (subtree xs l (c div 2 ^ l)) matchh st = (matchh', st')"
    and "odd (c div 2 ^ l)" "inner st ! l = subtree xs l (c div 2 ^ l - 1)" "c < length xs"
  shows "match_in xs pos c (Suc l) matchh' st'"
proof -
  let ?j = "c div 2 ^ l"
  have j: "?j * 2 ^ l < length xs" using assms(5) div_times_less_eq_dividend [of c "2 ^ l"] by linarith
  have lt: "(?j - 1) * 2 ^ l < length xs" using j by (simp add: diff_mult_distrib)
  consider (here) "pos div 2 ^ l = ?j" | (left) "pos div 2 ^ l \<noteq> ?j" "pos < c" "held xs pos c l st" "matchlevel st = int l"
    | (later) "pos div 2 ^ l \<noteq> ?j" "pos < c" "held xs pos c (Suc l) st" "matchlevel st \<noteq> int l"
    | (after) "pos div 2 ^ l \<noteq> ?j" "\<not> pos < c" "matchlevel st = -1" "branch st = []"
    using assms(1) by (auto simp: match_in_def match_ok_def held_def le_eq_less_or_eq [of l] Suc_le_eq split: if_splits)
  then show ?thesis
  proof cases
    case here
    then have "sibling xs pos l = inner st ! l" using assms(3,4) lt by (simp add: sibling_def Let_def)
    then show ?thesis using here assms(1,2) by (auto simp: match_in_def extend_branch_def div_pow_Suc simp del: power_Suc)
  next
    case left
    then have p: "pos div 2 ^ l = ?j - 1" "branch st = map (sibling xs pos) [0..<l]" by (auto simp: held_def)
    have "sibling xs pos l = subtree xs l ?j" using p(1) assms(3) j by (auto simp: sibling_def Let_def elim: oddE)
    moreover have "pos div 2 ^ Suc l = c div 2 ^ Suc l" unfolding div_pow_Suc p(1) using assms(3) by (elim oddE) simp
    ultimately show ?thesis using left assms(1,2) p(2) by (auto simp: match_in_def extend_branch_def)
  next
    case later
    then show ?thesis using assms(1,2) held_apart [OF later(3)]
      by (auto simp: match_in_def match_ok_def extend_branch_def)
  next
    case after
    then have "?j < pos div 2 ^ l" using div_le_mono [of c pos "2 ^ l"] by linarith
    then have "c div 2 ^ Suc l < pos div 2 ^ Suc l" unfolding div_pow_Suc using assms(3) by (elim oddE) simp
    then show ?thesis using after assms(1,2) by (auto simp: match_in_def match_ok_def extend_branch_def)
  qed
qed

lemma extend_branch_state:
  assumes "extend_branch pbranch l h matchh st = (matchh', st')"
  shows "inner st' = inner st" "matchlevel st' = matchlevel st" "mutated st' = mutated st"
  using assms by (auto simp: extend_branch_def split: if_splits)

lemma inner_ok_Suc: "inner_ok xs c l st \<Longrightarrow> inner st' = inner st \<Longrightarrow> inner_ok xs c (Suc l) st'"
  by (simp add: inner_ok_def)


definition merge_ok :: "bool \<Rightarrow> uint256 list \<Rightarrow> nat \<Rightarrow> nat \<Rightarrow> nat \<Rightarrow> bool \<Rightarrow> merkle_state \<Rightarrow> bool" where
  "merge_ok pbranch xs pos c l matchh st \<longleftrightarrow> inner_ok xs c l st \<and> (pbranch \<longrightarrow> match_in xs pos c l matchh st)"

lemma merge_ok_Suc:
  assumes "merge_ok pbranch xs pos c l matchh st" "odd (c div 2 ^ l)" "c < length xs" "l < 32"
    and "extend_branch pbranch l (subtree xs l (c div 2 ^ l)) matchh st = (matchh', st')"
  shows "merge_ok pbranch xs pos c (Suc l) matchh' st'"
    and "Hash_2 (inner st' ! l) (subtree xs l (c div 2 ^ l)) = subtree xs (Suc l) (c div 2 ^ Suc l)"
    and "inner st' ! l = subtree xs l (c div 2 ^ l - 1)"
proof -
  have i: "inner st ! l = subtree xs l (c div 2 ^ l - 1)" using assms(1,2,4) by (simp add: merge_ok_def inner_ok_def)
  then show i': "inner st' ! l = subtree xs l (c div 2 ^ l - 1)" using extend_branch_state [OF assms(5)] by simp
  have "c div 2 ^ l * 2 ^ l < length xs" using assms(3) div_times_less_eq_dividend [of c "2 ^ l"] by linarith
  then show "Hash_2 (inner st' ! l) (subtree xs l (c div 2 ^ l)) = subtree xs (Suc l) (c div 2 ^ Suc l)"
    unfolding div_pow_Suc i' by (rule subtree_pair [OF assms(2), symmetric])
  show "merge_ok pbranch xs pos c (Suc l) matchh' st'"
    using assms(1,5) inner_ok_Suc [OF _ extend_branch_state(1) [OF assms(5)]] match_in_Suc [OF _ _ assms(2) i assms(3)]
    by (auto simp: merge_ok_def)
qed

lemma repeated_upto_Suc:
  "odd (c div 2 ^ l) \<Longrightarrow> repeated_upto xs c (Suc l) \<longleftrightarrow>
     repeated_upto xs c l \<or> subtree xs l (c div 2 ^ l - 1) = subtree xs l (c div 2 ^ l)"
  by (auto simp: repeated_upto_def less_Suc_eq)

lemma merge_ok_mutated [simp]: "merge_ok pbranch xs pos c l matchh (st\<lparr>mutated := b\<rparr>) = merge_ok pbranch xs pos c l matchh st"
  by (simp add: merge_ok_def inner_ok_def match_in_def match_ok_def held_def)

lemma merge_loop_ok:
  assumes "merge_ok pbranch xs pos c l matchh st" "c < length xs" "unat count = (c div 2 ^ l + 1) * 2 ^ l"
    and "mutated st \<longleftrightarrow> repeated_upto xs c l"
  shows "\<exists>m matchh' st'. merge_loop pbranch count l (subtree xs l (c div 2 ^ l)) matchh st =
      Ok (m, subtree xs m (c div 2 ^ m), matchh', st') \<and> merge_ok pbranch xs pos c m matchh' st' \<and>
    unat count = (c div 2 ^ m + 1) * 2 ^ m \<and> even (c div 2 ^ m) \<and> inner st' = inner st \<and>
    matchlevel st' = matchlevel st \<and> (mutated st' \<longleftrightarrow> repeated_upto xs c m)"
  using assms
proof (induction "32 - l" arbitrary: l matchh st)
  case 0
  then show ?case using count_level(1) [OF 0(4)] by simp
next
  case (Suc d)
  have l: "l < 32" using count_level(1) [OF Suc.prems(3)] .
  show ?case
  proof (cases "odd (c div 2 ^ l)")
    case True
    obtain m' st' where e: "extend_branch pbranch l (subtree xs l (c div 2 ^ l)) matchh st = (m', st')" by fastforce
    let ?st = "st'\<lparr>mutated := mutated st' \<or> inner st' ! l = subtree xs l (c div 2 ^ l)\<rparr>"
    note ok = merge_ok_Suc [OF Suc.prems(1) True Suc.prems(2) l e]
    have "mutated ?st \<longleftrightarrow> repeated_upto xs c (Suc l)"
      using ok(3) Suc.prems(4) extend_branch_state [OF e] by (simp add: repeated_upto_Suc [OF True])
    moreover have "merge_loop pbranch count l (subtree xs l (c div 2 ^ l)) matchh st =
      merge_loop pbranch count (Suc l) (subtree xs (Suc l) (c div 2 ^ Suc l)) m' ?st"
      using l e True ok(2) count_bit [OF Suc.prems(3)]
      by (subst merge_loop.simps) (simp add: Let_def del: power_Suc)
    moreover have "merge_ok pbranch xs pos c (Suc l) m' ?st" using ok(1) by simp
    ultimately show ?thesis
      using Suc(1) [of "Suc l" m' ?st] Suc(2) Suc.prems(2) count_level(2) [OF Suc.prems(3) True] extend_branch_state [OF e]
      by (simp del: power_Suc)
  next
    case False
    then have "merge_loop pbranch count l (subtree xs l (c div 2 ^ l)) matchh st = Ok (l, subtree xs l (c div 2 ^ l), matchh, st)"
      using l count_bit [OF Suc.prems(3)] by (subst merge_loop.simps) simp
    then show ?thesis using Suc.prems False by blast
  qed
qed

subsection \<open>All leaves\<close>

lemma even_mult_pow_div:
  assumes "k < m"
  shows "even (q * 2 ^ m div 2 ^ k :: nat)"
proof -
  obtain d where "m = Suc d + k" using assms by (metis less_iff_Suc_add add.commute add_Suc_right)
  then have "q * 2 ^ m = (q * 2 ^ Suc d) * 2 ^ k" by (simp only: power_add mult.assoc)
  then have "q * 2 ^ m div 2 ^ k = q * 2 ^ Suc d" by (metis nonzero_mult_div_cancel_right power_not_zero zero_neq_numeral)
  then show ?thesis by simp
qed

lemma Suc_div_pow:
  assumes "Suc c = (c div 2 ^ m + 1) * 2 ^ m" "even (c div 2 ^ m)"
  shows "Suc c div 2 ^ m = c div 2 ^ m + 1"
    and "m < k \<Longrightarrow> Suc c div 2 ^ k = c div 2 ^ k"
    and "k < m \<Longrightarrow> even (Suc c div 2 ^ k)"
proof -
  show m: "Suc c div 2 ^ m = c div 2 ^ m + 1" by (subst assms(1)) simp
  have "Suc c div 2 ^ Suc m = c div 2 ^ Suc m" unfolding div_pow_Suc m using assms(2) by (elim evenE) simp
  then show "Suc c div 2 ^ k = c div 2 ^ k" if "m < k" using div_pow_ge [of "Suc m" k "Suc c" c] that by (simp del: power_Suc)
  assume "k < m"
  then show "even (Suc c div 2 ^ k)" by (subst assms(1)) (rule even_mult_pow_div)
qed

lemma repeated_Suc:
  assumes "Suc c = (c div 2 ^ m + 1) * 2 ^ m" "even (c div 2 ^ m)"
  shows "repeated xs (Suc c) \<longleftrightarrow> repeated_upto xs c m"
proof
  assume "repeated xs (Suc c)"
  then obtain l k where lk: "(2 * k + 2) * 2 ^ l \<le> Suc c" "subtree xs l (2 * k) = subtree xs l (2 * k + 1)"
    by (auto simp: repeated_def)
  show "repeated_upto xs c m"
  proof (cases "(2 * k + 2) * 2 ^ l \<le> c")
    case True
    then have "repeated xs c" using lk(2) unfolding repeated_def by blast
    then show ?thesis by (simp add: repeated_upto_def)
  next
    case False
    then have eq: "Suc c = (2 * k + 2) * 2 ^ l" using lk(1) by linarith
    then have q: "Suc c div 2 ^ l = 2 * k + 2" by simp
    have "\<not> m < l"
      using even_mult_pow_div [of m l "2 * k + 2", folded eq] Suc_div_pow(1) [OF assms] assms(2) by auto
    moreover have "l \<noteq> m" using q Suc_div_pow(1) [OF assms] assms(2) by auto
    moreover have "c div 2 ^ l = 2 * k + 1"
    proof (rule div_nat_eqI)
      have "Suc c = 2 ^ l * (2 * k + 1) + 2 ^ l" "(0::nat) < 2 ^ l" using eq by (simp_all add: algebra_simps)
      then show "2 ^ l * (2 * k + 1) \<le> c" "c < 2 ^ l * Suc (2 * k + 1)" unfolding mult_Suc_right by linarith+
    qed
    ultimately show ?thesis using lk(2) unfolding repeated_upto_def by (intro disjI2 exI [of _ l]) simp
  qed
next
  assume "repeated_upto xs c m"
  then consider "repeated xs c"
    | l where "l < m" "odd (c div 2 ^ l)" "subtree xs l (c div 2 ^ l - 1) = subtree xs l (c div 2 ^ l)"
    by (auto simp: repeated_upto_def)
  then show "repeated xs (Suc c)"
  proof cases
    case 1
    then show ?thesis unfolding repeated_def by (meson le_SucI)
  next
    case 2
    from 2(2) obtain k where k: "c div 2 ^ l = 2 * k + 1" by (elim oddE)
    have "even (Suc c div 2 ^ l)" using Suc_div_pow(3) [OF assms 2(1)] .
    moreover have "Suc c div 2 ^ l = c div 2 ^ l \<or> Suc c div 2 ^ l = Suc (c div 2 ^ l)" by (simp add: div_Suc)
    ultimately have "Suc c div 2 ^ l = 2 * k + 2" using k by auto
    then have "(2 * k + 2) * 2 ^ l \<le> Suc c" by (metis div_times_less_eq_dividend)
    then show ?thesis using 2(3) k unfolding repeated_def by (intro exI [of _ l] exI [of _ k]) simp
  qed
qed

definition leaves_ok :: "bool \<Rightarrow> uint256 list \<Rightarrow> nat \<Rightarrow> nat \<Rightarrow> merkle_state \<Rightarrow> bool" where
  "leaves_ok pbranch xs pos c st \<longleftrightarrow> inner_ok xs c 0 st \<and> (pbranch \<longrightarrow> match_ok xs pos c 0 st) \<and> (mutated st \<longleftrightarrow> repeated xs c)"

text \<open>Storing the merged subtree at the level of the lowest set bit.\<close>

abbreviation store_leaf :: "nat \<Rightarrow> uint256 \<Rightarrow> bool \<Rightarrow> merkle_state \<Rightarrow> merkle_state" where
  "store_leaf m h matchh st \<equiv> st\<lparr>inner := (inner st)[m := h], matchlevel := if matchh then int m else matchlevel st\<rparr>"

lemma store_leaf_inner:
  assumes "inner_ok xs c 0 st" "Suc c = (c div 2 ^ m + 1) * 2 ^ m" "even (c div 2 ^ m)"
  shows "inner_ok xs (Suc c) 0 (store_leaf m (subtree xs m (c div 2 ^ m)) matchh st)"
  unfolding inner_ok_def
proof (intro conjI allI impI)
  fix k
  assume k: "k < 32" "odd (Suc c div 2 ^ k)"
  note S = Suc_div_pow [OF assms(2,3)]
  from k(2) consider "k = m" | "m < k" "Suc c div 2 ^ k = c div 2 ^ k" using S(2,3) [of k] by (meson linorder_neqE_nat)
  then show "inner (store_leaf m (subtree xs m (c div 2 ^ m)) matchh st) ! k = subtree xs k (Suc c div 2 ^ k - 1)"
  proof cases
    case 1
    then show ?thesis using assms(1) k(1) S(1) by (simp add: inner_ok_def)
  next
    case 2
    then show ?thesis using assms(1) k by (simp add: inner_ok_def)
  qed
qed (use assms(1) in \<open>simp add: inner_ok_def\<close>)

lemma store_leaf_match:
  assumes "match_in xs pos c m matchh st" "Suc c = (c div 2 ^ m + 1) * 2 ^ m" "even (c div 2 ^ m)"
  shows "match_ok xs pos (Suc c) 0 (store_leaf m h matchh st)"
proof -
  note S = Suc_div_pow [OF assms(2,3)]
  consider (here) "pos div 2 ^ m = c div 2 ^ m" | (earlier) "pos div 2 ^ m \<noteq> c div 2 ^ m" "pos < c"
    | (after) "pos div 2 ^ m \<noteq> c div 2 ^ m" "Suc c \<le> pos" by (metis Suc_leI linorder_neqE_nat)
  then show ?thesis
  proof cases
    case here
    have "pos < (pos div 2 ^ m + 1) * 2 ^ m" using mod_less_divisor [of "2 ^ m" pos] div_mult_mod_eq [of pos "2 ^ m"]
      by (simp del: mod_less_divisor)
    then have "pos < Suc c" unfolding here assms(2) [symmetric] .
    then show ?thesis using here assms(1,3) S(1) by (auto simp: match_ok_def held_def match_in_def)
  next
    case earlier
    then obtain k where k: "m \<le> k" "matchlevel st = int k" "odd (c div 2 ^ k)" "pos div 2 ^ k = c div 2 ^ k - 1"
      "branch st = map (sibling xs pos) [0..<k]" "\<not> matchh"
      using assms(1) by (auto simp: match_in_def match_ok_def held_def)
    then have "m < k" using assms(3) le_eq_less_or_eq by blast
    then show ?thesis using k earlier(2) S(2) by (auto simp: match_ok_def held_def)
  next
    case after
    then show ?thesis using assms(1) by (auto simp: match_ok_def match_in_def)
  qed
qed

lemma leaf_loop_ok:
  assumes "leaves_ok pbranch xs (unat branchpos) (unat count) st" "xs = take (unat count) xs @ ys"
    and "unat count + length ys = length xs" "length xs < 2 ^ 32"
  shows "\<exists>st'. leaf_loop pbranch branchpos count ys st = Ok (of_nat (length xs), st') \<and>
    leaves_ok pbranch xs (unat branchpos) (length xs) st'"
  using assms
proof (induction ys arbitrary: count st)
  case Nil
  then have "unat count = length xs" by simp
  then have "of_nat (length xs) = count" by (simp flip: \<open>unat count = length xs\<close>)
  then show ?case using Nil by simp
next
  case (Cons h ys)
  let ?c = "unat count"
  have c: "?c < length xs" using Cons.prems(3) by simp
  then have S: "unat (count + 1) = Suc ?c" using Cons.prems(4) by (simp add: unat_word_ariths)
  have h: "h = xs ! ?c" using Cons.prems(2) c by (metis nth_append_length length_take min.absorb2 less_imp_le)
  have "merge_ok pbranch xs (unat branchpos) ?c 0 (count = branchpos) st"
    using Cons.prems(1) by (auto simp: merge_ok_def leaves_ok_def match_in_def match_ok_def held_def word_unat_eq_iff)
  from merge_loop_ok [OF this c, of "count + 1"] obtain m matchh' st' where
    m: "merge_loop pbranch (count + 1) 0 h (count = branchpos) st = Ok (m, subtree xs m (?c div 2 ^ m), matchh', st')"
    "merge_ok pbranch xs (unat branchpos) ?c m matchh' st'" "Suc ?c = (?c div 2 ^ m + 1) * 2 ^ m" "even (?c div 2 ^ m)"
    "inner st' = inner st" "mutated st' \<longleftrightarrow> repeated_upto xs ?c m"
    using Cons.prems(1) S h by (auto simp: leaves_ok_def repeated_upto_def)
  let ?st = "store_leaf m (subtree xs m (?c div 2 ^ m)) matchh' st'"
  have "inner_ok xs ?c 0 st'" using Cons.prems(1) m(5) by (simp add: leaves_ok_def inner_ok_def)
  then have "leaves_ok pbranch xs (unat branchpos) (unat (count + 1)) ?st"
    using m(2,6) store_leaf_inner [OF _ m(3,4)] store_leaf_match [OF _ m(3,4)] repeated_Suc [OF m(3,4)]
    unfolding leaves_ok_def S by (auto simp: merge_ok_def)
  moreover have "xs = take (unat (count + 1)) xs @ ys"
    using Cons.prems(2) c unfolding S h by (metis Cons_nth_drop_Suc append_eq_conv_conj append_take_drop_id list.inject append_same_eq same_append_eq)
  ultimately show ?case using Cons.IH [of "count + 1" ?st] Cons.prems(3,4) S m(1) by (simp add: outcome_simps)
qed

subsection \<open>The final sweep\<close>

text \<open>The levels below \<open>l\<close> have more than one node.\<close>

definition tall :: "nat \<Rightarrow> nat \<Rightarrow> bool" where
  "tall c l \<longleftrightarrow> (\<forall>l'<l. 2 ^ l' \<le> c)"

lemma tall_Suc: "tall c l \<Longrightarrow> 0 < c div 2 ^ l \<Longrightarrow> tall c (Suc l)"
  by (auto simp: tall_def less_Suc_eq div_greater_zero_iff)

lemma skip_loop_ok:
  assumes "unat count = (c div 2 ^ l + 1) * 2 ^ l" "tall c l"
  shows "\<exists>m. skip_loop count l = Ok m \<and> unat count = (c div 2 ^ m + 1) * 2 ^ m \<and> even (c div 2 ^ m) \<and> tall c m"
  using assms
proof (induction "32 - l" arbitrary: l)
  case 0
  then show ?case using count_level(1) [OF 0(2)] by simp
next
  case (Suc d)
  have l: "l < 32" using count_level(1) [OF Suc.prems(1)] .
  show ?case
  proof (cases "odd (c div 2 ^ l)")
    case True
    then have "skip_loop count l = skip_loop count (Suc l)"
      using l count_bit [OF Suc.prems(1)] by (subst skip_loop.simps) simp
    then show ?thesis
      using Suc(1) [of "Suc l"] Suc(2) count_level(2) [OF Suc.prems(1) True] tall_Suc [OF Suc.prems(2) odd_pos [OF True]]
      by (simp del: power_Suc)
  next
    case False
    then have "skip_loop count l = Ok l" using l count_bit [OF Suc.prems(1)] by (subst skip_loop.simps) simp
    then show ?thesis using Suc.prems False by blast
  qed
qed

lemma propagate_loop_ok:
  assumes "merge_ok pbranch xs pos c l matchh st" "c < length xs" "unat count = (c div 2 ^ l + 1) * 2 ^ l" "tall c l"
  shows "\<exists>m matchh' st'. propagate_loop pbranch count l (subtree xs l (c div 2 ^ l)) matchh st =
      Ok (m, subtree xs m (c div 2 ^ m), matchh', st') \<and> merge_ok pbranch xs pos c m matchh' st' \<and>
    unat count = (c div 2 ^ m + 1) * 2 ^ m \<and> even (c div 2 ^ m) \<and> tall c m \<and> l \<le> m"
  using assms
proof (induction "32 - l" arbitrary: l matchh st)
  case 0
  then show ?case using count_level(1) [OF 0(4)] by simp
next
  case (Suc d)
  have l: "l < 32" using count_level(1) [OF Suc.prems(3)] .
  show ?case
  proof (cases "odd (c div 2 ^ l)")
    case True
    obtain m' st' where e: "extend_branch pbranch l (subtree xs l (c div 2 ^ l)) matchh st = (m', st')" by fastforce
    note ok = merge_ok_Suc [OF Suc.prems(1) True Suc.prems(2) l e]
    have "propagate_loop pbranch count l (subtree xs l (c div 2 ^ l)) matchh st =
      propagate_loop pbranch count (Suc l) (subtree xs (Suc l) (c div 2 ^ Suc l)) m' st'"
      using l e True ok(2) count_bit [OF Suc.prems(3)]
      by (subst propagate_loop.simps) (simp add: Let_def del: power_Suc)
    moreover have "d = 32 - Suc l" using Suc(2) by simp
    note Suc(1) [OF this ok(1) Suc.prems(2) count_level(2) [OF Suc.prems(3) True] tall_Suc [OF Suc.prems(4) odd_pos [OF True]]]
    ultimately show ?thesis by (metis Suc_leD)
  next
    case False
    then have "propagate_loop pbranch count l (subtree xs l (c div 2 ^ l)) matchh st = Ok (l, subtree xs l (c div 2 ^ l), matchh, st)"
      using l count_bit [OF Suc.prems(3)] by (subst propagate_loop.simps) simp
    then show ?thesis using Suc.prems False by blast
  qed
qed

text \<open>A subtree without right neighbour is combined with itself.\<close>

lemma merge_ok_single:
  assumes "merge_ok pbranch xs pos c l matchh st" "even (c div 2 ^ l)" "Suc c = length xs" "pbranch \<longrightarrow> pos \<le> c"
  shows "merge_ok pbranch xs pos c (Suc l) matchh
      (if pbranch \<and> matchh then st\<lparr>branch := branch st @ [subtree xs l (c div 2 ^ l)]\<rparr> else st)"
    and "Hash_2 (subtree xs l (c div 2 ^ l)) (subtree xs l (c div 2 ^ l)) = subtree xs (Suc l) (c div 2 ^ Suc l)"
proof -
  let ?j = "c div 2 ^ l"
  have "c < (?j + 1) * 2 ^ l" using mod_less_divisor [of "2 ^ l" c] div_mult_mod_eq [of c "2 ^ l"]
    by (simp del: mod_less_divisor)
  then have j: "\<not> (?j + 1) * 2 ^ l < length xs" using assms(3) by linarith
  then show "Hash_2 (subtree xs l ?j) (subtree xs l ?j) = subtree xs (Suc l) (c div 2 ^ Suc l)"
    unfolding div_pow_Suc by (rule subtree_single [OF assms(2), symmetric])
  show "merge_ok pbranch xs pos c (Suc l) matchh (if pbranch \<and> matchh then st\<lparr>branch := branch st @ [subtree xs l ?j]\<rparr> else st)"
  proof (cases "pbranch")
    case True
    then have m: "match_in xs pos c l matchh st" "inner_ok xs c l st" using assms(1) by (simp_all add: merge_ok_def)
    show ?thesis
    proof (cases "pos div 2 ^ l = ?j")
      case here: True
      then have "sibling xs pos l = subtree xs l ?j" using assms(2) j by (simp add: sibling_def Let_def)
      then show ?thesis using True here m by (auto simp: merge_ok_def match_in_def inner_ok_def div_pow_Suc simp del: power_Suc)
    next
      case False
      then have "pos < c" using True assms(4) by (metis le_neq_implies_less)
      then have h: "held xs pos c l st" "\<not> matchh" using m(1) False by (simp_all add: match_in_def match_ok_def)
      then have "held xs pos c (Suc l) st" using assms(2) by (auto simp: held_def) (metis Suc_leI le_neq_implies_less)
      then show ?thesis using True h(2) \<open>pos < c\<close> m(2) held_apart [of xs pos c "Suc l" st]
        by (simp add: merge_ok_def match_in_def match_ok_def inner_ok_def del: power_Suc)
    qed
  qed (use assms(1) in \<open>simp add: merge_ok_def inner_ok_def\<close>)
qed

lemma unat_level: "l < 32 \<Longrightarrow> unat (push_bit l 1 :: u32) = 2 ^ l"
  by (simp add: push_bit_of_1 unat_2p)

lemma merkle_height:
  assumes "tall c l" "c div 2 ^ l = 0" "Suc c = n"
  shows "CalcTreeHeight n 0 = l"
proof (rule CalcTreeHeight_eq)
  show "2 ^ l' < n" if "l' < l" for l' using assms(1,3) that by (auto simp: tall_def less_Suc_eq_le)
  have "c < 2 ^ l" using assms(2) by (simp add: div_eq_0_iff)
  then show "n \<le> 2 ^ l" using assms(3) by simp
qed simp

lemma sweep_loop_ok:
  assumes "merge_ok pbranch xs pos c l matchh st" "unat count = (c div 2 ^ l + 1) * 2 ^ l" "even (c div 2 ^ l)" "tall c l"
    and "Suc c = length xs" "length xs \<le> 2 ^ 31" "pbranch \<longrightarrow> pos \<le> c" "32 \<le> k + l"
  shows "\<exists>st'. sweep_loop k pbranch count l (subtree xs l (c div 2 ^ l)) matchh st = Ok (merkle_root xs, st') \<and>
    (pbranch \<longrightarrow> branch st' = map (sibling xs pos) [0..<CalcTreeHeight (length xs) 0])"
  using assms
proof (induction k arbitrary: l matchh st count)
  case 0
  then show ?case using count_level(1) [OF 0(2)] by simp
next
  case (Suc k)
  let ?j = "c div 2 ^ l"
  have l: "l < 32" using count_level(1) [OF Suc.prems(2)] .
  have eq: "count = push_bit l 1 \<longleftrightarrow> ?j = 0" unfolding word_unat_eq_iff unat_level [OF l] Suc.prems(2) by simp
  show ?case
  proof (cases "?j = 0")
    case True
    then have K: "CalcTreeHeight (length xs) 0 = l" using merkle_height Suc.prems(4,5) by blast
    then have "sweep_loop (Suc k) pbranch count l (subtree xs l ?j) matchh st = Ok (merkle_root xs, st)"
      using l True eq by (subst sweep_loop.simps) (simp add: merkle_root_def)
    moreover have "pbranch \<longrightarrow> pos div 2 ^ l = 0" using True Suc.prems(7) by (metis div_le_mono le_zero_eq)
    ultimately show ?thesis using Suc.prems(1) True K by (auto simp: merge_ok_def match_in_def)
  next
    case False
    let ?st = "if pbranch \<and> matchh then st\<lparr>branch := branch st @ [subtree xs l ?j]\<rparr> else st"
    let ?count = "count + push_bit l 1"
    have j: "2 \<le> ?j" using False Suc.prems(3) by (elim evenE) simp
    have c2: "?j + 2 = (c div 2 ^ Suc l + 1) * 2" unfolding div_pow_Suc using Suc.prems(3) by (elim evenE) simp
    have "(?j + 2) * 2 ^ l \<le> 2 * ?j * 2 ^ l" by (rule mult_le_mono1) (use j in simp)
    also have "\<dots> \<le> 2 * c" using div_times_less_eq_dividend [of c "2 ^ l"] by simp
    also have "\<dots> < 2 ^ 32" using Suc.prems(5,6) by simp
    finally have "(?j + 2) * 2 ^ l < 2 ^ 32" .
    moreover have "unat count + 2 ^ l = (?j + 2) * 2 ^ l" unfolding Suc.prems(2) by simp
    moreover have "unat ?count = (unat count + 2 ^ l) mod 2 ^ 32"
      unfolding unat_word_ariths(1) unat_level [OF l] by simp
    ultimately have "unat ?count = (?j + 2) * 2 ^ l" by (simp only: mod_less)
    then have cnt: "unat ?count = (c div 2 ^ Suc l + 1) * 2 ^ Suc l" unfolding c2 by simp
    note ok = merge_ok_single [OF Suc.prems(1,3,5,7)]
    have "c < length xs" using Suc.prems(5) by simp
    from propagate_loop_ok [OF ok(1) this cnt tall_Suc [OF Suc.prems(4)]] obtain m m' st' where
      m: "propagate_loop pbranch ?count (Suc l) (subtree xs (Suc l) (c div 2 ^ Suc l)) matchh ?st =
        Ok (m, subtree xs m (c div 2 ^ m), m', st')" "merge_ok pbranch xs pos c m m' st'"
      "unat ?count = (c div 2 ^ m + 1) * 2 ^ m" "even (c div 2 ^ m)" "tall c m" "Suc l \<le> m" using False by blast
    have "sweep_loop (Suc k) pbranch count l (subtree xs l ?j) matchh st =
      sweep_loop k pbranch ?count m (subtree xs m (c div 2 ^ m)) m' st'"
      using l False eq m(1) ok(2) by (subst sweep_loop.simps) (simp add: Let_def del: power_Suc)
    then show ?thesis using Suc.IH [OF m(2-5) Suc.prems(5-7)] Suc.prems(8) m(6) by simp
  qed
qed

lemma start_sweep:
  assumes "leaves_ok pbranch xs pos (Suc c) st" "Suc c = (c div 2 ^ l + 1) * 2 ^ l" "even (c div 2 ^ l)" "pbranch \<longrightarrow> pos \<le> c"
  shows "merge_ok pbranch xs pos c l (matchlevel st = int l) st"
proof -
  note S = Suc_div_pow [OF assms(2,3)]
  have "inner_ok xs c l st" unfolding inner_ok_def
  proof (intro conjI allI impI)
    fix m
    assume m: "l \<le> m" "m < 32" "odd (c div 2 ^ m)"
    then have "l < m" using assms(3) le_eq_less_or_eq by blast
    then show "inner st ! m = subtree xs m (c div 2 ^ m - 1)"
      using assms(1) m S(2) by (auto simp: leaves_ok_def inner_ok_def)
  qed (use assms(1) in \<open>simp add: leaves_ok_def inner_ok_def\<close>)
  moreover have "match_in xs pos c l (matchlevel st = int l) st" if pb: pbranch
  proof -
    obtain m where m: "matchlevel st = int m" "odd (Suc c div 2 ^ m)" "pos div 2 ^ m = Suc c div 2 ^ m - 1"
      "branch st = map (sibling xs pos) [0..<m]"
      using assms(1,4) pb by (auto simp: leaves_ok_def match_ok_def held_def)
    consider "m = l" | "l < m" using S(3) [of m] m(2) by (meson linorder_neqE_nat)
    then show ?thesis
    proof cases
      case 1
      then show ?thesis using m S(1) by (simp add: match_in_def)
    next
      case 2
      then have h: "held xs pos c l st" using m S(2) by (auto simp: held_def)
      then have "pos < c" using held_apart [OF h] assms(4) pb by (metis le_neq_implies_less)
      then show ?thesis using 2 m(1) h held_apart [OF h] by (simp add: match_in_def match_ok_def)
    qed
  qed
  ultimately show ?thesis by (simp add: merge_ok_def)
qed

lemma MerkleComputation_ok:
  assumes "0 < length xs" "length xs \<le> 2 ^ 31" "pbranch \<longrightarrow> unat branchpos < length xs"
  shows "\<exists>br. MerkleComputation xs branchpos pbranch = Ok (merkle_root xs, repeated xs (length xs), br) \<and>
    (pbranch \<longrightarrow> br = map (sibling xs (unat branchpos)) [0..<CalcTreeHeight (length xs) 0])"
proof -
  let ?st = "\<lparr>inner = replicate 32 null_hash, matchlevel = -1, branch = [], mutated = False\<rparr>"
  have "leaves_ok pbranch xs (unat branchpos) (unat (0::u32)) ?st"
    by (simp add: leaves_ok_def inner_ok_def match_ok_def repeated_def)
  from leaf_loop_ok [OF this, of xs] obtain st where
    leaf: "leaf_loop pbranch branchpos 0 xs ?st = Ok (of_nat (length xs), st)"
    "leaves_ok pbranch xs (unat branchpos) (length xs) st" using assms(2) by auto
  obtain c where c: "Suc c = length xs" using assms(1) by (metis gr0_implies_Suc)
  have cnt: "unat (of_nat (length xs) :: u32) = Suc c" using assms(2) c by (simp add: unsigned_of_nat take_bit_nat_eq_self)
  obtain l where l: "skip_loop (of_nat (length xs)) 0 = Ok l" "Suc c = (c div 2 ^ l + 1) * 2 ^ l" "even (c div 2 ^ l)" "tall c l"
    using skip_loop_ok [of "of_nat (length xs)" c 0] cnt by (auto simp: tall_def)
  have pos: "pbranch \<longrightarrow> unat branchpos \<le> c" using assms(3) c by linarith
  note start = start_sweep [OF leaf(2) [folded c] l(2,3) pos]
  have i: "inner st ! l = subtree xs l (c div 2 ^ l)"
    using leaf(2) count_level(1) [of "of_nat (length xs)" c l] cnt l(2) Suc_div_pow(1) [OF l(2,3)] l(3) c
    by (auto simp: leaves_ok_def inner_ok_def)
  from sweep_loop_ok [OF start _ l(3,4) c assms(2) pos, of "of_nat (length xs)" 32] cnt l(2) obtain st' where
    "sweep_loop 32 pbranch (of_nat (length xs)) l (subtree xs l (c div 2 ^ l)) (matchlevel st = int l) st = Ok (merkle_root xs, st')"
    "pbranch \<longrightarrow> branch st' = map (sibling xs (unat branchpos)) [0..<CalcTreeHeight (length xs) 0]" by auto
  then show ?thesis using leaf l(1) i assms(1) by (auto simp: MerkleComputation_def outcome_simps leaves_ok_def)
qed

subsection \<open>Roots and branches\<close>

text \<open>Two different messages of 64 bytes with the same double SHA-256.\<close>

definition hash_collision :: bool where
  "hash_collision \<longleftrightarrow> (\<exists>m m'. length m = 64 \<and> length m' = 64 \<and> m \<noteq> m' \<and> Hash m = Hash m')"

lemma Hash_2_inj:
  assumes "Hash_2 a b = Hash_2 a' b'" "length a = 32" "length b = 32" "length a' = 32" "length b' = 32"
  shows "(a = a' \<and> b = b') \<or> hash_collision"
proof (cases "a @ b = a' @ b'")
  case True
  then show ?thesis using assms(2,4) by simp
next
  case False
  then have "hash_collision" unfolding hash_collision_def
    using assms by (intro exI [of _ "a @ b"] exI [of _ "a' @ b'"]) (simp add: Hash_2_eq)
  then show ?thesis by simp
qed

lemma length_Hash_2 [simp]: "length (Hash_2 a b) = 32"
  by (simp add: Hash_2_eq)

lemma length_subtree:
  assumes "list_all (\<lambda>x. length x = 32) xs" "i * 2 ^ l < length xs"
  shows "length (subtree xs l i) = 32"
  using assms by (cases l) (simp_all add: subtree_def list_all_length Let_def)

lemma and_1_odd: "(w::u32) AND 1 \<noteq> 0 \<longleftrightarrow> odd (unat w)"
proof -
  have "w AND 1 \<noteq> 0 \<longleftrightarrow> bit w 0" using and_exp_eq_0_iff_not_bit [of w 0] by simp
  also have "\<dots> \<longleftrightarrow> bit (unat w) 0" by (simp only: bit_unsigned_iff) simp
  finally show ?thesis by (simp only: bit_0)
qed

lemma drop_bit_half: "unat (drop_bit 1 (w::u32)) = unat w div 2"
  by (simp add: drop_bit_eq_div unat_div_distrib)

lemma ComputeMerkleRootFromBranch_subtree:
  assumes "unat nIndex = pos div 2 ^ l" "pos < length xs" "l \<le> K"
  shows "ComputeMerkleRootFromBranch (subtree xs l (pos div 2 ^ l)) (map (sibling xs pos) [l..<K]) nIndex =
    subtree xs K (pos div 2 ^ K)"
  using assms
proof (induction "K - l" arbitrary: l nIndex)
  case (Suc d)
  let ?j = "pos div 2 ^ l"
  have j: "?j * 2 ^ l < length xs" using Suc.prems(2) div_times_less_eq_dividend [of pos "2 ^ l"] by linarith
  have odd: "nIndex AND 1 \<noteq> 0 \<longleftrightarrow> odd ?j"
    unfolding Suc.prems(1) [symmetric] by (rule and_1_odd)
  have up: "subtree xs (Suc l) (?j div 2) =
    (if odd ?j then Hash_2 (sibling xs pos l) (subtree xs l ?j) else Hash_2 (subtree xs l ?j) (sibling xs pos l))"
  proof (cases "odd ?j")
    case True
    have "(?j - 1) * 2 ^ l < length xs" using j by (simp add: diff_mult_distrib)
    then show ?thesis using True subtree_pair [OF True j] by (simp add: sibling_def Let_def)
  next
    case False
    show ?thesis
    proof (cases "(?j + 1) * 2 ^ l < length xs")
      case True
      then show ?thesis using False subtree_pair [of "?j + 1" l xs] by (simp add: sibling_def Let_def)
    next
      case ge: False
      then show ?thesis using False subtree_single [of ?j l xs] by (simp add: sibling_def Let_def)
    qed
  qed
  have "[l..<K] = l # [Suc l..<K]" using Suc(2) by (intro upt_conv_Cons) simp
  moreover have "unat (drop_bit 1 nIndex) = pos div 2 ^ Suc l"
    unfolding div_pow_Suc Suc.prems(1) [symmetric] by (rule drop_bit_half)
  moreover have "d = K - Suc l" "Suc l \<le> K" using Suc(2) by linarith+
  ultimately have "ComputeMerkleRootFromBranch (subtree xs (Suc l) (?j div 2)) (map (sibling xs pos) [Suc l..<K]) (drop_bit 1 nIndex) =
    subtree xs K (pos div 2 ^ K)"
    using Suc(1) [of "Suc l" "drop_bit 1 nIndex"] Suc.prems(2) by (simp only: div_pow_Suc)
  then show ?case unfolding \<open>[l..<K] = l # [Suc l..<K]\<close> list.map ComputeMerkleRootFromBranch.simps odd up .
qed simp

lemma branch_inj:
  assumes "length br = length br'" "list_all (\<lambda>x. length x = 32) (h # br)" "list_all (\<lambda>x. length x = 32) (h' # br')"
    and "ComputeMerkleRootFromBranch h br i = ComputeMerkleRootFromBranch h' br' i"
  shows "(h = h' \<and> br = br') \<or> hash_collision"
  using assms
proof (induction br br' arbitrary: h h' i rule: list_induct2)
  case (Cons b br b' br')
  let ?n = "\<lambda>h b. if i AND 1 \<noteq> 0 then Hash_2 b h else Hash_2 h b"
  have "(?n h b = ?n h' b' \<and> br = br') \<or> hash_collision"
    using Cons.IH [of "?n h b" "?n h' b'" "drop_bit 1 i"] Cons.prems by simp
  then show ?case using Hash_2_inj [of b h b' h'] Hash_2_inj [of h b h' b'] Cons.prems(1,2) by (auto split: if_splits)
qed simp

lemma CalcTreeHeight_bounds:
  assumes "0 < n"
  shows "n \<le> 2 ^ CalcTreeHeight n 0"
proof -
  have "\<exists>h. CalcTreeHeight n k = h \<and> n \<le> 2 ^ h" for k
  proof (induction n k rule: CalcTreeHeight.induct)
    case (1 n h)
    show ?case
    proof (cases "CalcTreeWidth n h > 1")
      case True
      then show ?thesis using 1 by (simp only: CalcTreeHeight.simps [of n h] if_True)
    next
      case False
      then have "n \<le> 2 ^ h" by (simp only: CalcTreeWidth_gt_1 not_less)
      then show ?thesis using False by (simp only: CalcTreeHeight.simps [of n h] if_False) simp
    qed
  qed
  then show ?thesis by blast
qed

text \<open>
  C30: the constant-space computation is the recursive tree. For up to \<open>2 ^ 31\<close> leaves
  \<open>ComputeMerkleRoot\<close> never indexes \<open>inner\<close> or shifts out of range and returns the root that
  \<open>CPartialMerkleTree::CalcHash\<close> defines by recursion (zero without leaves); the mutation flag is set
  exactly when two complete neighbouring subtrees under a common parent have the same hash.
\<close>

theorem ComputeMerkleRoot_tree:
  assumes "length leaves \<le> 2 ^ 31"
  shows "ComputeMerkleRoot leaves =
    Ok (if leaves = [] then null_hash else CalcHash (length leaves) (CalcTreeHeight (length leaves) 0) 0 leaves,
        \<exists>l k. (2 * k + 2) * 2 ^ l \<le> length leaves \<and>
          CalcHash (length leaves) l (2 * k) leaves = CalcHash (length leaves) l (2 * k + 1) leaves)"
proof (cases "leaves = []")
  case True
  then show ?thesis by (simp add: ComputeMerkleRoot_def MerkleComputation_def outcome_simps)
next
  case False
  then show ?thesis using MerkleComputation_ok [of leaves False "-1"] assms
    by (auto simp: ComputeMerkleRoot_def outcome_simps merkle_root_def subtree_def repeated_def)
qed

theorem ComputeMerkleRoot_tree_witness:
  "ComputeMerkleRoot [replicate 32 1, replicate 32 2, replicate 32 3] =
    Ok (Hash_2 (Hash_2 (replicate 32 1) (replicate 32 2)) (Hash_2 (replicate 32 3) (replicate 32 3)), False)"
proof -
  let ?xs = "[replicate 32 1, replicate 32 2, replicate 32 3] :: uint256 list"
  have h: "CalcTreeHeight 3 0 = 2" by (simp add: CalcTreeHeight.simps [of 3] CalcTreeWidth_def)
  have "\<not> ((2 * k + 2) * 2 ^ l \<le> 3 \<and> CalcHash 3 l (2 * k) ?xs = CalcHash 3 l (2 * k + 1) ?xs)" for l k :: nat
  proof (cases "l = 0 \<and> k = 0")
    case False
    have "2 * 2 \<le> (2 * k + 2) * 2 ^ l"
    proof (cases k)
      case 0
      then obtain l' where "l = Suc l'" using False by (cases l) auto
      then show ?thesis using 0 one_le_power [of "2::nat" l'] by simp
    next
      case (Suc k')
      have "4 * 1 \<le> (2 * k + 2) * 2 ^ l" by (rule mult_le_mono) (simp_all add: Suc)
      then show ?thesis by simp
    qed
    then show ?thesis by linarith
  qed (simp add: replicate_eq_replicate)
  then have "\<not> (\<exists>l k. (2 * k + 2) * 2 ^ l \<le> 3 \<and> CalcHash 3 l (2 * k) ?xs = CalcHash 3 l (2 * k + 1) ?xs)" by blast
  moreover have "CalcHash 3 (Suc (Suc 0)) 0 ?xs =
      Hash_2 (Hash_2 (replicate 32 1) (replicate 32 2)) (Hash_2 (replicate 32 3) (replicate 32 3))"
    by (simp add: CalcTreeWidth_def Let_def)
  moreover have "length ?xs = 3" by simp
  ultimately show ?thesis using ComputeMerkleRoot_tree [of ?xs] h by (simp add: numeral_2_eq_2 [symmetric])
qed



end
