(* ===== verification/Partial_Merkle.thy ===== *)
theory Partial_Merkle
  imports Merkle_Root Transaction
begin

text \<open>
  The partial trees of \<^verbatim>\<open>merkleblock.cpp\<close>: what a partial tree built from a block reveals, and that a
  partial tree with the root of a block only ever reveals transactions of that block.
\<close>

subsection \<open>Serialisation\<close>

text \<open>The flag bits travel as bytes, the first bit lowest.\<close>

fun pack_bits :: "bool list \<Rightarrow> nat \<Rightarrow> byte list \<Rightarrow> byte list" where
  "pack_bits [] p vBytes = vBytes"
| "pack_bits (b # bits) p vBytes =
     pack_bits bits (p + 1) (vBytes[p div 8 := vBytes ! (p div 8) OR push_bit (p mod 8) (of_bool b)])"

definition unpack_bits :: "byte list \<Rightarrow> bool list" where
  "unpack_bits vBytes = map (\<lambda>p. vBytes ! (p div 8) AND push_bit (p mod 8) 1 \<noteq> 0) [0..<length vBytes * 8]"

definition sizeof_uint256 :: nat where "sizeof_uint256 = 32"

definition CPartialMerkleTree_Serialize :: "CPartialMerkleTree \<Rightarrow> byte list" where
  "CPartialMerkleTree_Serialize t =
     ser_writedata32 (of_nat (nTransactions t)) @ Serialize_vector uint256_Serialize (vHash t) @
     Serialize_bytes (pack_bits (vBits t) 0 (replicate ((length (vBits t) + 7) div 8) 0))"

definition CPartialMerkleTree_Unserialize :: "CPartialMerkleTree unserializer" where
  "CPartialMerkleTree_Unserialize s =
     bindO (ser_readdata32 s) (\<lambda>(n, s).
     bindO (Unserialize_vector sizeof_uint256 uint256_Unserialize s) (\<lambda>(hashes, s).
     bindO (Unserialize_bytes s) (\<lambda>(vBytes, s).
     Ok (\<lparr>nTransactions = unat n, vBits = unpack_bits vBytes, vHash = hashes, fBad = False\<rparr>, s))))"

interpretation hash256: codec uint256_Serialize uint256_Unserialize "\<lambda>h. length h = 32"
  by unfold_locales (simp_all add: uint256_Serialize_def uint256_Unserialize_def codec_simps read_bytes_total)

interpretation hashes256: codec "Serialize_vector uint256_Serialize" "Unserialize_vector sizeof_uint256 uint256_Unserialize"
  "\<lambda>v. length v \<le> MAX_SIZE \<and> list_all (\<lambda>h. length h = 32) v"
  by (rule hash256.vector_codec) (simp_all add: sizeof_uint256_def)

lemma length_pack_bits [simp]: "length (pack_bits bits p vBytes) = length vBytes"
  by (induction bits p vBytes rule: pack_bits.induct) simp_all

lemma bit_pack_bits:
  assumes "i < length vBytes" "j < 8" "p + length bits \<le> length vBytes * 8"
  shows "bit (pack_bits bits p vBytes ! i) j \<longleftrightarrow>
    bit (vBytes ! i) j \<or> (p \<le> 8 * i + j \<and> 8 * i + j < p + length bits \<and> bits ! (8 * i + j - p))"
  using assms(1,3)
proof (induction bits p vBytes rule: pack_bits.induct)
  case (2 b bits p vBytes)
  let ?v = "vBytes[p div 8 := vBytes ! (p div 8) OR push_bit (p mod 8) (of_bool b)]"
  have ij: "p = 8 * i + j \<longleftrightarrow> p div 8 = i \<and> p mod 8 = j" using assms(2) by auto
  have "p div 8 < length vBytes" using 2(3) by (simp add: less_mult_imp_div_less)
  then have v: "bit (?v ! i) j \<longleftrightarrow> bit (vBytes ! i) j \<or> (p = 8 * i + j \<and> b)"
    using assms(2) unfolding ij by (auto simp: nth_list_update bit_simps)
  have n: "(b # bits) ! (8 * i + j - p) = bits ! (8 * i + j - (p + 1))" if "p < 8 * i + j"
    using that by (simp add: nth_Cons')
  show ?case using 2 v n by (auto simp: le_eq_less_or_eq [of p] Suc_le_eq nth_Cons')
qed auto

lemma unpack_pack_bits:
  "unpack_bits (pack_bits bits 0 (replicate ((length bits + 7) div 8) 0)) =
     bits @ replicate ((length bits + 7) div 8 * 8 - length bits) False"
proof (rule nth_equalityI)
  let ?k = "(length bits + 7) div 8"
  have k: "length bits \<le> ?k * 8" by simp
  show "length (unpack_bits (pack_bits bits 0 (replicate ?k 0))) = length (bits @ replicate (?k * 8 - length bits) False)"
    using k by (simp add: unpack_bits_def)
  fix p
  assume p: "p < length (unpack_bits (pack_bits bits 0 (replicate ?k 0)))"
  then have p8: "p < ?k * 8" "p div 8 < ?k" by (simp_all add: unpack_bits_def less_mult_imp_div_less)
  have "unpack_bits (pack_bits bits 0 (replicate ?k 0)) ! p = bit (pack_bits bits 0 (replicate ?k 0) ! (p div 8)) (p mod 8)"
    using p8 by (simp add: unpack_bits_def push_bit_of_1 and_exp_eq_0_iff_not_bit)
  also have "\<dots> \<longleftrightarrow> p < length bits \<and> bits ! p"
    using bit_pack_bits [of "p div 8" "replicate ?k 0" "p mod 8" 0 bits] p8 k by simp
  finally show "unpack_bits (pack_bits bits 0 (replicate ?k 0)) ! p = (bits @ replicate (?k * 8 - length bits) False) ! p"
    using p8 by (auto simp: nth_append)
qed

subsection \<open>Extracting a built tree\<close>

text \<open>The positions below a node that are matched.\<close>

definition matched :: "nat \<Rightarrow> bool list \<Rightarrow> nat \<Rightarrow> nat \<Rightarrow> nat list" where
  "matched n vMatch h pos = filter (\<lambda>p. vMatch ! p) [pos * 2 ^ h ..< min ((pos + 1) * 2 ^ h) n]"

lemma fParentOfMatch_matched: "fParentOfMatch n h pos vMatch \<longleftrightarrow> matched n vMatch h pos \<noteq> []"
  by (simp add: fParentOfMatch_def matched_def list_ex_iff filter_empty_conv)

lemma matched_children:
  assumes "pos * 2 ^ Suc h < n"
  shows "matched n vMatch (Suc h) pos = matched n vMatch h (pos * 2) @
    (if (pos * 2 + 1) * 2 ^ h < n then matched n vMatch h (pos * 2 + 1) else [])"
proof -
  let ?a = "pos * 2 ^ Suc h" and ?b = "(pos * 2 + 1) * 2 ^ h" and ?c = "(pos + 1) * 2 ^ Suc h"
  have eq: "pos * 2 * 2 ^ h = ?a" "(pos * 2 + 1 + 1) * 2 ^ h = ?c" "?a \<le> ?b" "?b \<le> ?c" by (simp_all add: algebra_simps)
  show ?thesis
  proof (cases "?b < n")
    case True
    then have "[?a ..< min ?c n] = [?a ..< ?b] @ [?b ..< min ?c n]"
      using eq(3,4) upt_add_eq_append [of ?a ?b "min ?c n - ?b"] by simp
    then show ?thesis using True unfolding matched_def eq(1,2) by (simp del: power_Suc)
  next
    case False
    then have "min ?c n = min ?b n" using eq(4) by simp
    then show ?thesis using False unfolding matched_def eq(1,2) by (simp del: power_Suc)
  qed
qed

text \<open>The parts of the arrays that \<open>TraverseAndBuild\<close> appends.\<close>

fun node_bits :: "nat \<Rightarrow> bool list \<Rightarrow> nat \<Rightarrow> nat \<Rightarrow> bool list" where
  "node_bits n vMatch 0 pos = [fParentOfMatch n 0 pos vMatch]"
| "node_bits n vMatch (Suc h) pos =
     (if fParentOfMatch n (Suc h) pos vMatch
      then True # node_bits n vMatch h (pos * 2) @
        (if pos * 2 + 1 < CalcTreeWidth n h then node_bits n vMatch h (pos * 2 + 1) else [])
      else [False])"

fun node_hashes :: "uint256 list \<Rightarrow> bool list \<Rightarrow> nat \<Rightarrow> nat \<Rightarrow> uint256 list" where
  "node_hashes xs vMatch 0 pos = [subtree xs 0 pos]"
| "node_hashes xs vMatch (Suc h) pos =
     (if fParentOfMatch (length xs) (Suc h) pos vMatch
      then node_hashes xs vMatch h (pos * 2) @
        (if pos * 2 + 1 < CalcTreeWidth (length xs) h then node_hashes xs vMatch h (pos * 2 + 1) else [])
      else [subtree xs (Suc h) pos])"

lemma TraverseAndBuild_eq:
  "TraverseAndBuild (length xs) h pos xs vMatch (bits, hashes) =
    (bits @ node_bits (length xs) vMatch h pos, hashes @ node_hashes xs vMatch h pos)"
  by (induction h arbitrary: pos bits hashes) (simp_all add: Let_def subtree_def del: CalcHash.simps(2))

lemma node_hashes_bits:
  assumes "pos * 2 ^ h < length xs"
  shows "length (node_hashes xs vMatch h pos) \<le> length (node_bits (length xs) vMatch h pos) \<and>
    pos * 2 ^ h + length (node_hashes xs vMatch h pos) \<le> min ((pos + 1) * 2 ^ h) (length xs)"
  using assms
proof (induction h arbitrary: pos)
  case (Suc h)
  let ?l = "length (node_hashes xs vMatch h (pos * 2))" and ?r = "length (node_hashes xs vMatch h (pos * 2 + 1))"
  have e: "pos * 2 * 2 ^ h = pos * 2 ^ Suc h" "(pos * 2 + 1 + 1) * 2 ^ h = (pos + 1) * 2 ^ Suc h"
    "(pos * 2 + 1) * 2 ^ h \<le> (pos + 1) * 2 ^ Suc h" "pos * 2 ^ Suc h < (pos + 1) * 2 ^ Suc h" by (simp_all add: algebra_simps)
  have l: "?l \<le> length (node_bits (length xs) vMatch h (pos * 2)) \<and>
    pos * 2 ^ Suc h + ?l \<le> min ((pos * 2 + 1) * 2 ^ h) (length xs)"
    using Suc.IH [of "pos * 2"] Suc.prems unfolding e(1) by blast
  have r: "(pos * 2 + 1) * 2 ^ h < length xs \<Longrightarrow> ?r \<le> length (node_bits (length xs) vMatch h (pos * 2 + 1)) \<and>
    (pos * 2 + 1) * 2 ^ h + ?r \<le> min ((pos + 1) * 2 ^ Suc h) (length xs)"
    using Suc.IH [of "pos * 2 + 1"] unfolding e(2) by blast
  show ?case
  proof (cases "fParentOfMatch (length xs) (Suc h) pos vMatch")
    case True
    show ?thesis
    proof (cases "(pos * 2 + 1) * 2 ^ h < length xs")
      case more: True
      have "length (node_hashes xs vMatch (Suc h) pos) = ?l + ?r"
        "length (node_bits (length xs) vMatch (Suc h) pos) = Suc (length (node_bits (length xs) vMatch h (pos * 2)) +
           length (node_bits (length xs) vMatch h (pos * 2 + 1)))"
        using True more by (simp_all add: CalcTreeWidth_less)
      then show ?thesis using l r [OF more] by linarith
    next
      case False
      have "length (node_hashes xs vMatch (Suc h) pos) = ?l"
        "length (node_bits (length xs) vMatch (Suc h) pos) = Suc (length (node_bits (length xs) vMatch h (pos * 2)))"
        using True False by (simp_all add: CalcTreeWidth_less)
      then show ?thesis using l e(3) by linarith
    qed
  next
    case False
    then have "length (node_hashes xs vMatch (Suc h) pos) = 1" "length (node_bits (length xs) vMatch (Suc h) pos) = 1" by simp_all
    then show ?thesis using Suc.prems e(4) by linarith
  qed
qed simp

text \<open>No two different nodes under the same parent have the same hash.\<close>

definition distinct_siblings :: "uint256 list \<Rightarrow> bool" where
  "distinct_siblings xs \<longleftrightarrow> (\<forall>l k. (2 * k + 1) * 2 ^ l < length xs \<longrightarrow> subtree xs l (2 * k) \<noteq> subtree xs l (2 * k + 1))"

declare TraverseAndExtract.simps [simp del]

abbreviation reveal :: "uint256 list \<Rightarrow> bool list \<Rightarrow> nat \<Rightarrow> nat \<Rightarrow> extract_state \<Rightarrow> extract_state" where
  "reveal xs vMatch h pos st \<equiv> st\<lparr>nBitsUsed := nBitsUsed st + length (node_bits (length xs) vMatch h pos),
     nHashUsed := nHashUsed st + length (node_hashes xs vMatch h pos),
     vMatched := vMatched st @ map ((!) xs) (matched (length xs) vMatch h pos),
     vnIndex := vnIndex st @ matched (length xs) vMatch h pos\<rparr>"

lemma drop_Cons:
  assumes "drop i ys = x # zs"
  shows "i < length ys" "ys ! i = x" "drop (i + 1) ys = zs"
proof -
  show "i < length ys" using assms by (metis drop_all list.distinct(1) not_le)
  then have "drop i ys = ys ! i # drop (Suc i) ys" by (rule Cons_nth_drop_Suc [symmetric])
  then show "ys ! i = x" "drop (i + 1) ys = zs" using assms by simp_all
qed

text \<open>How a node consumes its flag, its hash and its children.\<close>

lemma TraverseAndExtract_leaf:
  assumes "drop (nBitsUsed st) (vBits t) = b # bs" "drop (nHashUsed st) (vHash t) = g # gs" "h = 0 \<or> \<not> b"
  shows "TraverseAndExtract t h pos st = (g, let st = st\<lparr>nBitsUsed := nBitsUsed st + 1, nHashUsed := nHashUsed st + 1\<rparr> in
    if h = 0 \<and> b then st\<lparr>vMatched := vMatched st @ [g], vnIndex := vnIndex st @ [pos]\<rparr> else st)"
  using drop_Cons [OF assms(1)] drop_Cons [OF assms(2)] assms(3)
  by (subst TraverseAndExtract.simps) (simp add: Let_def)

lemma TraverseAndExtract_node:
  assumes "drop (nBitsUsed st) (vBits t) = True # bs"
  shows "TraverseAndExtract t (Suc h) pos st =
    (let (left, st) = TraverseAndExtract t h (pos * 2) (st\<lparr>nBitsUsed := nBitsUsed st + 1\<rparr>) in
     if (pos * 2 + 1) * 2 ^ h < nTransactions t
     then let (right, st) = TraverseAndExtract t h (pos * 2 + 1) st
          in (Hash_2 left right, if right = left then st\<lparr>bad := True\<rparr> else st)
     else (Hash_2 left left, st))"
  using drop_Cons [OF assms] by (subst TraverseAndExtract.simps) (simp add: CalcTreeWidth_less Let_def split: prod.split)

lemma TraverseAndExtract_built:
  assumes "distinct_siblings xs" "nTransactions t = length xs" "pos * 2 ^ h < length xs"
    and "drop (nBitsUsed st) (vBits t) = node_bits (length xs) vMatch h pos @ bs"
    and "drop (nHashUsed st) (vHash t) = node_hashes xs vMatch h pos @ gs"
  shows "TraverseAndExtract t h pos st = (subtree xs h pos, reveal xs vMatch h pos st)"
  using assms(3-5)
proof (induction h arbitrary: pos st bs gs)
  case 0
  then show ?case using TraverseAndExtract_leaf [of st t "fParentOfMatch (length xs) 0 pos vMatch" bs "xs ! pos" gs 0 pos]
    by (auto simp: Let_def fParentOfMatch_def matched_def min_def)
next
  case (Suc h)
  let ?n = "length xs" and ?L = "reveal xs vMatch h (pos * 2) (st\<lparr>nBitsUsed := nBitsUsed st + 1\<rparr>)"
  have e: "pos * 2 * 2 ^ h = pos * 2 ^ Suc h" "(pos + pos) * 2 ^ h = pos * 2 ^ Suc h" by simp_all
  show ?case
  proof (cases "fParentOfMatch ?n (Suc h) pos vMatch")
    case False
    then have "matched ?n vMatch (Suc h) pos = []" by (simp only: fParentOfMatch_matched not_not)
    then show ?thesis using TraverseAndExtract_leaf [of st t False bs "subtree xs (Suc h) pos" gs "Suc h" pos] Suc.prems False
      by (simp add: Let_def)
  next
    case True
    let ?more = "(pos * 2 + 1) * 2 ^ h < ?n"
    let ?bs = "(if ?more then node_bits ?n vMatch h (pos * 2 + 1) else []) @ bs"
    let ?gs = "(if ?more then node_hashes xs vMatch h (pos * 2 + 1) else []) @ gs"
    have b: "drop (nBitsUsed st) (vBits t) = True # node_bits ?n vMatch h (pos * 2) @ ?bs"
      and g: "drop (nHashUsed st) (vHash t) = node_hashes xs vMatch h (pos * 2) @ ?gs"
      using Suc.prems(2,3) True by (simp_all add: CalcTreeWidth_less)
    have L: "TraverseAndExtract t h (pos * 2) (st\<lparr>nBitsUsed := nBitsUsed st + 1\<rparr>) = (subtree xs h (pos * 2), ?L)"
      by (rule Suc.IH [of _ _ ?bs ?gs]) (use e(1) Suc.prems(1) in metis, use drop_Cons(3) [OF b] g in simp_all)
    note m = matched_children [OF Suc.prems(1), of vMatch]
    show ?thesis
    proof (cases ?more)
      case more: True
      have bL: "drop (nBitsUsed ?L) (vBits t) = node_bits ?n vMatch h (pos * 2 + 1) @ bs"
        using arg_cong [OF drop_Cons(3) [OF b], of "drop (length (node_bits ?n vMatch h (pos * 2)))"] more by (simp add: add.commute)
      have gL: "drop (nHashUsed ?L) (vHash t) = node_hashes xs vMatch h (pos * 2 + 1) @ gs"
        using arg_cong [OF g, of "drop (length (node_hashes xs vMatch h (pos * 2)))"] more by (simp add: add.commute)
      note R = Suc.IH [OF more bL gL]
      have "subtree xs h (2 * pos) \<noteq> subtree xs h (2 * pos + 1)"
        using assms(1) more unfolding distinct_siblings_def by (metis mult.commute)
      then show ?thesis
        using subtree_pair [of "pos * 2 + 1" h xs] TraverseAndExtract_node [OF b, of h pos] L R assms(2) more True m
        by (simp add: CalcTreeWidth_less mult.commute [of 2])
    next
      case False
      then show ?thesis using subtree_single [of "pos * 2" h xs] TraverseAndExtract_node [OF b, of h pos] L assms(2) True m
        by (simp add: CalcTreeWidth_less)
    qed
  qed
qed

lemma ExtractMatches_built:
  assumes "distinct_siblings xs" "0 < length xs" "length xs \<le> MAX_BLOCK_BASE_SIZE div 60"
    and "nTransactions t = length xs" "vHash t = node_hashes xs vMatch (CalcTreeHeight (length xs) 0) 0"
    and "vBits t = node_bits (length xs) vMatch (CalcTreeHeight (length xs) 0) 0 @ fill"
    and "(length (node_bits (length xs) vMatch (CalcTreeHeight (length xs) 0) 0) + 7) div 8 = (length (vBits t) + 7) div 8"
    and "\<not> fBad t"
  shows "ExtractMatches t index0 =
    (merkle_root xs, map ((!) xs) (filter ((!) vMatch) [0..<length xs]), index0 @ filter ((!) vMatch) [0..<length xs], t)"
proof -
  let ?K = "CalcTreeHeight (length xs) 0"
  let ?st = "\<lparr>nBitsUsed = 0, nHashUsed = 0, vMatched = [], vnIndex = index0, bad = False\<rparr>"
  have m: "matched (length xs) vMatch ?K 0 = filter ((!) vMatch) [0..<length xs]"
    using CalcTreeHeight_bounds [OF assms(2)] by (simp add: matched_def min_absorb2)
  have "TraverseAndExtract t ?K 0 ?st = (merkle_root xs, reveal xs vMatch ?K 0 ?st)"
    unfolding merkle_root_def
    by (rule TraverseAndExtract_built [OF assms(1,4), of 0 ?K ?st vMatch fill "[]"]) (use assms(2,5,6) in simp_all)
  moreover have "length (vHash t) \<le> nTransactions t" "length (vHash t) \<le> length (vBits t)"
    using node_hashes_bits [of 0 ?K xs vMatch] assms(2,4-6) by simp_all
  ultimately show ?thesis using assms(2-5,7,8) by (simp add: ExtractMatches_def m)
qed

subsection \<open>What a partial tree can reveal\<close>

lemma TraverseAndExtract_bad: "bad st \<Longrightarrow> bad (snd (TraverseAndExtract t h pos st))"
proof (induction t h pos st rule: TraverseAndExtract.induct)
  case (1 t h pos st)
  then show ?case by (subst TraverseAndExtract.simps) (auto simp: Let_def split: prod.split)
qed

lemma length_TraverseAndExtract:
  "list_all (\<lambda>x. length x = 32) (vHash t) \<Longrightarrow> length (fst (TraverseAndExtract t h pos st)) = 32"
  by (subst TraverseAndExtract.simps) (auto simp: Let_def null_hash_def list_all_length split: prod.split)

definition revealed :: "uint256 list \<Rightarrow> nat \<Rightarrow> nat \<Rightarrow> extract_state \<Rightarrow> extract_state \<Rightarrow> bool" where
  "revealed xs i j st st' \<longleftrightarrow> (\<exists>ps. vMatched st' = vMatched st @ map ((!) xs) ps \<and> vnIndex st' = vnIndex st @ ps \<and>
     sorted_wrt (<) ps \<and> (\<forall>p\<in>set ps. i \<le> p \<and> p < j))"

lemma revealed_trans:
  assumes "revealed xs i j st st'" "revealed xs j k st' st''" "i \<le> j" "j \<le> k"
  shows "revealed xs i k st st''"
proof -
  from assms(1) obtain ps where ps: "vMatched st' = vMatched st @ map ((!) xs) ps" "vnIndex st' = vnIndex st @ ps"
    "sorted_wrt (<) ps" "\<forall>p\<in>set ps. i \<le> p \<and> p < j" by (auto simp: revealed_def)
  from assms(2) obtain qs where qs: "vMatched st'' = vMatched st' @ map ((!) xs) qs" "vnIndex st'' = vnIndex st' @ qs"
    "sorted_wrt (<) qs" "\<forall>p\<in>set qs. j \<le> p \<and> p < k" by (auto simp: revealed_def)
  have "sorted_wrt (<) (ps @ qs)" using ps(3,4) qs(3,4) by (auto simp: sorted_wrt_append dest: less_le_trans)
  then show ?thesis using ps qs assms(3,4) unfolding revealed_def by (intro exI [of _ "ps @ qs"]) force
qed

lemma revealed_mono: "revealed xs i j st st' \<Longrightarrow> j \<le> k \<Longrightarrow> revealed xs i k st st'"
  unfolding revealed_def by (meson less_le_trans)

lemma revealed_bits [simp]: "revealed xs i j (st\<lparr>nBitsUsed := x\<rparr>) st' = revealed xs i j st st'"
  by (simp add: revealed_def)

lemma Hash_2_subtree:
  assumes "list_all (\<lambda>x. length x = 32) xs" "length left = 32" "length right = 32" "pos * 2 * 2 ^ h < length xs"
    and "Hash_2 left right = subtree xs (Suc h) pos"
  shows "(left = subtree xs h (pos * 2) \<and>
    ((pos * 2 + 1) * 2 ^ h < length xs \<longrightarrow> right = subtree xs h (pos * 2 + 1))) \<or> hash_collision"
proof (cases "(pos * 2 + 1) * 2 ^ h < length xs")
  case True
  then show ?thesis using Hash_2_inj [of left right "subtree xs h (pos * 2)" "subtree xs h (pos * 2 + 1)"] assms
      subtree_pair [of "pos * 2 + 1" h xs] by (auto simp: length_subtree)
next
  case False
  then show ?thesis using Hash_2_inj [of left right "subtree xs h (pos * 2)" "subtree xs h (pos * 2)"] assms
      subtree_single [of "pos * 2" h xs] by (auto simp: length_subtree)
qed

lemma TraverseAndExtract_sound:
  assumes "list_all (\<lambda>x. length x = 32) xs" "list_all (\<lambda>x. length x = 32) (vHash t)" "nTransactions t = length xs"
    and "pos * 2 ^ h < length xs" "TraverseAndExtract t h pos st = (subtree xs h pos, st')" "\<not> bad st'"
  shows "revealed xs (pos * 2 ^ h) (min ((pos + 1) * 2 ^ h) (length xs)) st st' \<or> hash_collision"
  using assms(4-6)
proof (induction h arbitrary: pos st st')
  case 0
  then show ?case
    by (subst (asm) TraverseAndExtract.simps) (auto simp: Let_def revealed_def sorted_wrt1 split: if_splits)
next
  case (Suc h)
  let ?i = "pos * 2 ^ Suc h" and ?m = "(pos * 2 + 1) * 2 ^ h" and ?j = "min ((pos + 1) * 2 ^ Suc h) (length xs)"
  have e: "pos * 2 * 2 ^ h = ?i" "(pos * 2 + 1 + 1) * 2 ^ h = (pos + 1) * 2 ^ Suc h" "?i \<le> ?m" "?m \<le> (pos + 1) * 2 ^ Suc h"
    by (simp_all add: algebra_simps)
  have lt: "nBitsUsed st < length (vBits t)" using Suc.prems(2,3)
    by (subst (asm) TraverseAndExtract.simps) (auto split: if_splits)
  show ?case
  proof (cases "vBits t ! nBitsUsed st")
    case False
    then have "revealed xs ?i ?j st st'" using Suc.prems(2,3) lt
      by (subst (asm) TraverseAndExtract.simps) (auto simp: Let_def revealed_def split: if_splits)
    then show ?thesis by blast
  next
    case True
    then have b: "drop (nBitsUsed st) (vBits t) = True # drop (Suc (nBitsUsed st)) (vBits t)" using Cons_nth_drop_Suc [OF lt] by simp
    obtain left st1 where L: "TraverseAndExtract t h (pos * 2) (st\<lparr>nBitsUsed := nBitsUsed st + 1\<rparr>) = (left, st1)" by fastforce
    have ll: "length left = 32" using length_TraverseAndExtract [OF assms(2)] L by (metis fst_conv)
    have i: "pos * 2 * 2 ^ h < length xs" using Suc.prems(1) e(1) by metis
    show ?thesis
    proof (cases "?m < length xs")
      case more: True
      obtain right st2 where R: "TraverseAndExtract t h (pos * 2 + 1) st1 = (right, st2)" by fastforce
      have lr: "length right = 32" using length_TraverseAndExtract [OF assms(2)] R by (metis fst_conv)
      have H: "Hash_2 left right = subtree xs (Suc h) pos" "st' = st2"
        using TraverseAndExtract_node [OF b, of h pos] L R more assms(3) Suc.prems(2,3) by (auto split: if_splits)
      then have "\<not> bad st1" using TraverseAndExtract_bad [of st1 t h "pos * 2 + 1"] R Suc.prems(3) by auto
      then show ?thesis using Hash_2_subtree [OF assms(1) ll lr i H(1)] Suc.IH [OF i, of "st\<lparr>nBitsUsed := nBitsUsed st + 1\<rparr>" st1] Suc.IH [OF more, of st1 st2]
          L R more H(2) Suc.prems(3) revealed_trans [of xs ?i ?m st st1 ?j st2] e by (auto simp del: power_Suc mult_Suc)
    next
      case False
      then have H: "Hash_2 left left = subtree xs (Suc h) pos" "st' = st1"
        using TraverseAndExtract_node [OF b, of h pos] L assms(3) Suc.prems(2) by auto
      have "min ?m (length xs) = ?j" using False e(4) by simp
      then show ?thesis using Hash_2_subtree [OF assms(1) ll ll i H(1)] Suc.IH [OF i, of "st\<lparr>nBitsUsed := nBitsUsed st + 1\<rparr>" st1]
          L H(2) Suc.prems(3) e by (auto simp del: power_Suc mult_Suc)
    qed
  qed
qed

subsection \<open>Properties\<close>

lemma CalcTreeHeight_le: "n \<le> 2 ^ k \<Longrightarrow> h \<le> k \<Longrightarrow> CalcTreeHeight n h \<le> k"
proof (induction n h rule: CalcTreeHeight.induct)
  case (1 n h)
  show ?case
  proof (cases "CalcTreeWidth n h > 1")
    case True
    then have "2 ^ h < n" by (simp only: CalcTreeWidth_gt_1)
    then have "h + 1 \<le> k" using 1(2,3) by (metis Suc_eq_plus1 Suc_leI le_neq_implies_less not_le)
    then show ?thesis using 1 True by (simp only: CalcTreeHeight.simps [of n h] if_True)
  next
    case False
    then show ?thesis using 1(3) by (simp only: CalcTreeHeight.simps [of n h] if_False)
  qed
qed

lemma length_node_bits: "length (node_bits n vMatch h pos) < 2 ^ Suc h"
proof (induction h arbitrary: pos)
  case (Suc h)
  have "length (node_bits n vMatch (Suc h) pos) \<le>
    1 + length (node_bits n vMatch h (pos * 2)) + length (node_bits n vMatch h (pos * 2 + 1))" by simp
  then show ?case using Suc [of "pos * 2"] Suc [of "pos * 2 + 1"] by simp
qed simp

lemma node_hashes_32:
  assumes "list_all (\<lambda>x. length x = 32) xs" "pos * 2 ^ h < length xs"
  shows "list_all (\<lambda>x. length x = 32) (node_hashes xs vMatch h pos)"
  using assms(2)
proof (induction h arbitrary: pos)
  case (Suc h)
  have "pos * 2 * 2 ^ h < length xs" using Suc.prems by (simp add: mult.assoc)
  then show ?case using Suc.IH [of "pos * 2"] Suc.IH [of "pos * 2 + 1"] length_subtree [OF assms(1) Suc.prems]
    by (simp add: CalcTreeWidth_less)
qed (use assms(1) in \<open>simp add: list_all_length\<close>)

lemma build_eq:
  "CPartialMerkleTree_build xs vMatch =
    \<lparr>nTransactions = length xs, vBits = node_bits (length xs) vMatch (CalcTreeHeight (length xs) 0) 0,
     vHash = node_hashes xs vMatch (CalcTreeHeight (length xs) 0) 0, fBad = False\<rparr>"
  by (simp add: CPartialMerkleTree_build_def TraverseAndBuild_eq Let_def)

lemma build_roundtrip:
  assumes "0 < length xs" "length xs \<le> MAX_BLOCK_BASE_SIZE div 60" "list_all (\<lambda>x. length x = 32) xs"
  shows "CPartialMerkleTree_Unserialize (CPartialMerkleTree_Serialize (CPartialMerkleTree_build xs vMatch) @ rest) =
    Ok (let t = CPartialMerkleTree_build xs vMatch
        in t\<lparr>vBits := vBits t @ replicate ((length (vBits t) + 7) div 8 * 8 - length (vBits t)) False\<rparr>, rest)"
proof -
  let ?K = "CalcTreeHeight (length xs) 0"
  let ?bits = "node_bits (length xs) vMatch ?K 0" and ?hashes = "node_hashes xs vMatch ?K 0"
  have n: "length xs \<le> 16666" using assms(2) by (simp add: MAX_BLOCK_BASE_SIZE_def)
  have "length ?hashes \<le> length xs" using node_hashes_bits [of 0 ?K xs vMatch] assms(1) by simp
  then have h: "length ?hashes \<le> MAX_SIZE \<and> list_all (\<lambda>h. length h = 32) ?hashes"
    using n node_hashes_32 [OF assms(3), of 0 ?K vMatch] assms(1) by (simp add: MAX_SIZE_def)
  have "?K \<le> 15" using n by (intro CalcTreeHeight_le) simp_all
  then have "(2::nat) ^ Suc ?K \<le> 2 ^ 16" by (intro power_increasing) simp_all
  then have "length ?bits < 65536" using length_node_bits [of "length xs" vMatch ?K 0] by simp
  then have b: "length (pack_bits ?bits 0 (replicate ((length ?bits + 7) div 8) 0)) \<le> MAX_SIZE" by (simp add: MAX_SIZE_def)
  have u: "unat (of_nat (length xs) :: u32) = length xs" using n by (simp add: unat_of_nat)
  show ?thesis
    unfolding build_eq CPartialMerkleTree_Serialize_def CPartialMerkleTree_Unserialize_def
    by (simp add: ser32.roundtrip hashes256.roundtrip [OF h] bytes.roundtrip [OF b] outcome_simps unpack_pack_bits u Let_def)
qed

text \<open>
  C32: a partial tree reveals what was selected. For a block of up to \<open>MAX_BLOCK_BASE_SIZE / 60\<close>
  transactions without equal sibling nodes, the partial tree built for any selection survives
  its serialisation, and \<open>ExtractMatches\<close> of the tree that arrives returns the root of the block and
  exactly the selected transaction ids with their positions, in order.
\<close>

theorem partial_tree_roundtrip:
  assumes "vTxid \<noteq> []" "length vTxid \<le> MAX_BLOCK_BASE_SIZE div 60" "list_all (\<lambda>x. length x = 32) vTxid" "distinct_siblings vTxid"
  shows "\<exists>t. CPartialMerkleTree_Unserialize (CPartialMerkleTree_Serialize (CPartialMerkleTree_build vTxid vMatch) @ rest) = Ok (t, rest) \<and>
    (let selected = filter ((!) vMatch) [0..<length vTxid] in
     ExtractMatches t [] = (CalcHash (length vTxid) (CalcTreeHeight (length vTxid) 0) 0 vTxid, map ((!) vTxid) selected, selected, t))"
proof -
  let ?t = "CPartialMerkleTree_build vTxid vMatch"
  let ?t' = "?t\<lparr>vBits := vBits ?t @ replicate ((length (vBits ?t) + 7) div 8 * 8 - length (vBits ?t)) False\<rparr>"
  have n: "0 < length vTxid" using assms(1) by simp
  have "ExtractMatches ?t' [] = (merkle_root vTxid, map ((!) vTxid) (filter ((!) vMatch) [0..<length vTxid]),
    [] @ filter ((!) vMatch) [0..<length vTxid], ?t')"
    by (rule ExtractMatches_built [OF assms(4) n assms(2)]) (simp_all add: build_eq)
  then show ?thesis using build_roundtrip [OF n assms(2,3), of vMatch rest] by (auto simp: Let_def merkle_root_def subtree_def)
qed

theorem partial_tree_roundtrip_witness:
  "\<exists>t. CPartialMerkleTree_Unserialize (CPartialMerkleTree_Serialize
      (CPartialMerkleTree_build [replicate 32 1, replicate 32 2] [False, True])) = Ok (t, []) \<and>
    ExtractMatches t [] = (Hash_2 (replicate 32 1) (replicate 32 2), [replicate 32 2], [1], t)"
proof -
  let ?xs = "[replicate 32 1, replicate 32 2] :: uint256 list"
  have h: "CalcTreeHeight 2 0 = Suc 0" by (simp add: CalcTreeHeight.simps [of 2] CalcTreeWidth_def)
  have d: "distinct_siblings ?xs" unfolding distinct_siblings_def
  proof (intro allI impI)
    fix l k
    assume "(2 * k + 1) * 2 ^ l < length ?xs"
    then have lk: "(2 * k + 1) * 2 ^ l < 2" by simp
    have "2 * k + 1 < 2" by (rule le_less_trans [OF _ lk]) (use mult_le_mono2 [of 1 "2 ^ l" "2 * k + 1"] in simp)
    then have "k = 0" by simp
    moreover have "l = 0" using lk \<open>k = 0\<close> by (cases l) simp_all
    ultimately show "subtree ?xs l (2 * k) \<noteq> subtree ?xs l (2 * k + 1)" by (simp add: replicate_eq_replicate)
  qed
  have r: "CalcHash 2 (Suc 0) 0 ?xs = Hash_2 (replicate 32 1) (replicate 32 2)" by (simp add: CalcTreeWidth_def Let_def)
  have s: "filter ((!) [False, True]) [0..<2] = [1]" by (simp add: upt_rec)
  have "?xs \<noteq> []" "length ?xs \<le> MAX_BLOCK_BASE_SIZE div 60" "list_all (\<lambda>x. length x = 32) ?xs"
    by (simp_all add: MAX_BLOCK_BASE_SIZE_def)
  from partial_tree_roundtrip [OF this d, of "[False, True]" "[]"] show ?thesis
    by (simp add: Let_def s h r numeral_2_eq_2 [symmetric] del: One_nat_def CalcHash.simps)
qed



end
