(* ===== verification/Coins.thy ===== *)
theory Coins
  imports Transaction "HOL-Library.AList"
begin

text \<open>
  The set of unspent outputs, \<^verbatim>\<open>src/src/coins.h\<close>, \<^verbatim>\<open>src/src/coins.cpp\<close> and the coin database of
  \<^verbatim>\<open>src/src/txdb.cpp\<close>: the outputs of a transaction, and caches of them on top of a view that may be
  the database or another cache. Hash maps are association lists; their memory usage is not
  modelled. LevelDB is a map from keys to values, and its batches succeed.
\<close>

datatype coins_exn = Logic_error string

type_synonym 'a coins_result = "(unit, coins_exn, 'a) outcome"

subsection \<open>The outputs of a transaction\<close>

record CCoins =
  coins_fCoinBase :: bool
  coins_vout :: "CTxOut list"
  coins_nHeight :: int
  coins_nVersion :: u32

definition CCoins_Clear :: CCoins where
  "CCoins_Clear = \<lparr>coins_fCoinBase = False, coins_vout = [], coins_nHeight = 0, coins_nVersion = 0\<rparr>"

definition Cleanup :: "CCoins \<Rightarrow> CCoins" where
  "Cleanup c = c\<lparr>coins_vout := rev (dropWhile CTxOut_IsNull (rev (coins_vout c)))\<rparr>"

definition ClearUnspendable :: "CCoins \<Rightarrow> CCoins" where
  "ClearUnspendable c =
     Cleanup (c\<lparr>coins_vout := map (\<lambda>txout. if IsUnspendable (out_scriptPubKey txout) then CTxOut_null else txout) (coins_vout c)\<rparr>)"

definition FromTx :: "CTransaction \<Rightarrow> int \<Rightarrow> CCoins" where
  "FromTx tx nHeightIn =
     ClearUnspendable \<lparr>coins_fCoinBase = IsCoinBase tx, coins_vout = vout tx, coins_nHeight = nHeightIn, coins_nVersion = nVersion tx\<rparr>"

definition IsAvailable :: "CCoins \<Rightarrow> nat \<Rightarrow> bool" where
  "IsAvailable c nPos \<longleftrightarrow> nPos < length (coins_vout c) \<and> \<not> CTxOut_IsNull (coins_vout c ! nPos)"

definition IsPruned :: "CCoins \<Rightarrow> bool" where
  "IsPruned c \<longleftrightarrow> list_all CTxOut_IsNull (coins_vout c)"

definition CCoins_eq :: "CCoins \<Rightarrow> CCoins \<Rightarrow> bool" where
  "CCoins_eq a b \<longleftrightarrow> (IsPruned a \<and> IsPruned b) \<or>
     (coins_fCoinBase a = coins_fCoinBase b \<and> coins_nHeight a = coins_nHeight b \<and>
      coins_nVersion a = coins_nVersion b \<and> coins_vout a = coins_vout b)"

definition Spend :: "CCoins \<Rightarrow> nat \<Rightarrow> bool \<times> CCoins" where
  "Spend c nPos =
     (if nPos \<ge> length (coins_vout c) \<or> CTxOut_IsNull (coins_vout c ! nPos) then (False, c)
      else (True, Cleanup (c\<lparr>coins_vout := (coins_vout c)[nPos := CTxOut_null]\<rparr>)))"

subsection \<open>A cache over another view\<close>

text \<open>The other view is its \<open>GetCoins\<close>.\<close>

type_synonym coins_base = "uint256 \<Rightarrow> CCoins option"

record CCoinsCacheEntry =
  entry_coins :: CCoins
  flag_DIRTY :: bool
  flag_FRESH :: bool

type_synonym CCoinsMap = "(uint256 \<times> CCoinsCacheEntry) list"

record CCoinsViewCache =
  hasModifier :: bool
  hashBlock :: uint256
  cacheCoins :: CCoinsMap

definition FetchCoins :: "coins_base \<Rightarrow> CCoinsViewCache \<Rightarrow> uint256 \<Rightarrow> CCoinsViewCache \<times> CCoinsCacheEntry option" where
  "FetchCoins base cache txid =
     (case map_of (cacheCoins cache) txid of
        Some it \<Rightarrow> (cache, Some it)
      | None \<Rightarrow>
          (case base txid of
             None \<Rightarrow> (cache, None)
           | Some tmp \<Rightarrow>
               let ret = \<lparr>entry_coins = tmp, flag_DIRTY = False, flag_FRESH = IsPruned tmp\<rparr>
               in (cache\<lparr>cacheCoins := AList.update txid ret (cacheCoins cache)\<rparr>, Some ret)))"

definition AccessCoins :: "coins_base \<Rightarrow> CCoinsViewCache \<Rightarrow> uint256 \<Rightarrow> CCoinsViewCache \<times> CCoins option" where
  "AccessCoins base cache txid =
     (let (cache, it) = FetchCoins base cache txid in (cache, map_option entry_coins it))"

definition HaveCoins :: "coins_base \<Rightarrow> CCoinsViewCache \<Rightarrow> uint256 \<Rightarrow> CCoinsViewCache \<times> bool" where
  "HaveCoins base cache txid =
     (let (cache, it) = FetchCoins base cache txid
      in (cache, case it of None \<Rightarrow> False | Some e \<Rightarrow> coins_vout (entry_coins e) \<noteq> []))"

definition HaveCoinsInCache :: "CCoinsViewCache \<Rightarrow> uint256 \<Rightarrow> bool" where
  "HaveCoinsInCache cache txid \<longleftrightarrow> map_of (cacheCoins cache) txid \<noteq> None"

definition GetBestBlock :: "uint256 \<Rightarrow> CCoinsViewCache \<Rightarrow> CCoinsViewCache \<times> uint256" where
  "GetBestBlock base_best cache =
     (let h = (if uint256_IsNull (hashBlock cache) then base_best else hashBlock cache)
      in (cache\<lparr>hashBlock := h\<rparr>, h))"

definition SetBestBlock :: "CCoinsViewCache \<Rightarrow> uint256 \<Rightarrow> CCoinsViewCache" where
  "SetBestBlock cache hashBlockIn = cache\<lparr>hashBlock := hashBlockIn\<rparr>"

text \<open>
  A \<open>CCoinsModifier\<close> is a reference to an entry. \<open>ModifyCoins\<close> and \<open>ModifyNewCoins\<close> create it and give
  the coins it refers to; \<open>release\<close> is its destructor, for the coins that it refers to by then.
\<close>

definition ModifyCoins :: "coins_base \<Rightarrow> CCoinsViewCache \<Rightarrow> uint256 \<Rightarrow> (CCoinsViewCache \<times> CCoins) coins_result" where
  "ModifyCoins base cache txid =
     bindO (assertO (\<not> hasModifier cache)) (\<lambda>_.
     let ret = (case map_of (cacheCoins cache) txid of
                  Some e \<Rightarrow> e
                | None \<Rightarrow>
                    (case base txid of
                       None \<Rightarrow> \<lparr>entry_coins = CCoins_Clear, flag_DIRTY = False, flag_FRESH = True\<rparr>
                     | Some c \<Rightarrow> \<lparr>entry_coins = c, flag_DIRTY = False, flag_FRESH = IsPruned c\<rparr>));
         ret = ret\<lparr>flag_DIRTY := True\<rparr>
     in Ok (cache\<lparr>hasModifier := True, cacheCoins := AList.update txid ret (cacheCoins cache)\<rparr>, entry_coins ret))"

definition ModifyNewCoins :: "CCoinsViewCache \<Rightarrow> uint256 \<Rightarrow> bool \<Rightarrow> (CCoinsViewCache \<times> CCoins) coins_result" where
  "ModifyNewCoins cache txid coinbase =
     bindO (assertO (\<not> hasModifier cache)) (\<lambda>_.
     let ret = (case map_of (cacheCoins cache) txid of
                  Some e \<Rightarrow> e
                | None \<Rightarrow> \<lparr>entry_coins = CCoins_Clear, flag_DIRTY = False, flag_FRESH = False\<rparr>)
     in if \<not> coinbase \<and> \<not> IsPruned (entry_coins ret)
        then Throw (Logic_error ''ModifyNewCoins should not find pre-existing coins on a non-coinbase unless they are pruned!'')
        else
          let ret = (if \<not> coinbase \<and> \<not> flag_DIRTY ret then ret\<lparr>flag_FRESH := True\<rparr> else ret);
              ret = ret\<lparr>entry_coins := CCoins_Clear, flag_DIRTY := True\<rparr>
          in Ok (cache\<lparr>hasModifier := True, cacheCoins := AList.update txid ret (cacheCoins cache)\<rparr>, entry_coins ret))"

definition release :: "CCoinsViewCache \<Rightarrow> uint256 \<Rightarrow> CCoins \<Rightarrow> CCoinsViewCache coins_result" where
  "release cache txid coins =
     bindO (assertO (hasModifier cache)) (\<lambda>_.
     case map_of (cacheCoins cache) txid of
       None \<Rightarrow> Abort
     | Some it \<Rightarrow>
         let it = it\<lparr>entry_coins := Cleanup coins\<rparr>
         in Ok (cache\<lparr>hasModifier := False,
              cacheCoins := if flag_FRESH it \<and> IsPruned (entry_coins it) then AList.delete txid (cacheCoins cache)
                            else AList.update txid it (cacheCoins cache)\<rparr>))"

subsection \<open>Writing a cache to the view below\<close>

definition BatchWrite_entry :: "CCoinsMap \<Rightarrow> uint256 \<Rightarrow> CCoinsCacheEntry \<Rightarrow> CCoinsMap coins_result" where
  "BatchWrite_entry m txid it =
     (if \<not> flag_DIRTY it then Ok m
      else case map_of m txid of
        None \<Rightarrow>
          if flag_FRESH it \<and> IsPruned (entry_coins it) then Ok m
          else Ok (AList.update txid \<lparr>entry_coins = entry_coins it, flag_DIRTY = True, flag_FRESH = flag_FRESH it\<rparr> m)
      | Some itUs \<Rightarrow>
          if flag_FRESH it \<and> \<not> IsPruned (entry_coins itUs)
          then Throw (Logic_error ''FRESH flag misapplied to cache entry for base transaction with spendable outputs'')
          else if flag_FRESH itUs \<and> IsPruned (entry_coins it) then Ok (AList.delete txid m)
          else Ok (AList.update txid (itUs\<lparr>entry_coins := entry_coins it, flag_DIRTY := True\<rparr>) m))"

fun BatchWrite_loop :: "CCoinsMap \<Rightarrow> CCoinsMap \<Rightarrow> CCoinsMap coins_result" where
  "BatchWrite_loop m [] = Ok m"
| "BatchWrite_loop m ((txid, it) # mapCoins) =
     bindO (BatchWrite_entry m txid it) (\<lambda>m. BatchWrite_loop m mapCoins)"

definition BatchWrite :: "CCoinsViewCache \<Rightarrow> CCoinsMap \<Rightarrow> uint256 \<Rightarrow> CCoinsViewCache coins_result" where
  "BatchWrite cache mapCoins hashBlockIn =
     bindO (assertO (\<not> hasModifier cache)) (\<lambda>_.
     bindO (BatchWrite_loop (cacheCoins cache) mapCoins) (\<lambda>m.
     Ok (cache\<lparr>cacheCoins := m, hashBlock := hashBlockIn\<rparr>)))"

text \<open>\<open>Flush\<close> calls the virtual \<open>BatchWrite\<close> of the view below, an argument here.\<close>

definition Flush ::
  "('v \<Rightarrow> CCoinsMap \<Rightarrow> uint256 \<Rightarrow> 'v coins_result) \<Rightarrow> 'v \<Rightarrow> CCoinsViewCache \<Rightarrow> ('v \<times> CCoinsViewCache) coins_result" where
  "Flush base_BatchWrite base cache =
     bindO (base_BatchWrite base (cacheCoins cache) (hashBlock cache)) (\<lambda>base.
     Ok (base, cache\<lparr>cacheCoins := []\<rparr>))"

definition Uncache :: "CCoinsViewCache \<Rightarrow> uint256 \<Rightarrow> CCoinsViewCache" where
  "Uncache cache hash =
     (case map_of (cacheCoins cache) hash of
        Some it \<Rightarrow>
          if \<not> flag_DIRTY it \<and> \<not> flag_FRESH it then cache\<lparr>cacheCoins := AList.delete hash (cacheCoins cache)\<rparr> else cache
      | None \<Rightarrow> cache)"

subsection \<open>The coin database\<close>

record CCoinsViewDB =
  db_coins :: "(uint256 \<times> CCoins) list"
  db_best_block :: "uint256 option"

definition DB_GetCoins :: "CCoinsViewDB \<Rightarrow> uint256 \<Rightarrow> CCoins option" where
  "DB_GetCoins db txid = map_of (db_coins db) txid"

fun DB_BatchWrite_loop :: "(uint256 \<times> CCoins) list \<Rightarrow> CCoinsMap \<Rightarrow> (uint256 \<times> CCoins) list" where
  "DB_BatchWrite_loop d [] = d"
| "DB_BatchWrite_loop d ((txid, it) # mapCoins) =
     DB_BatchWrite_loop
       (if \<not> flag_DIRTY it then d
        else if IsPruned (entry_coins it) then AList.delete txid d
        else AList.update txid (entry_coins it) d) mapCoins"

definition DB_BatchWrite :: "CCoinsViewDB \<Rightarrow> CCoinsMap \<Rightarrow> uint256 \<Rightarrow> CCoinsViewDB coins_result" where
  "DB_BatchWrite db mapCoins hash =
     Ok \<lparr>db_coins = DB_BatchWrite_loop (db_coins db) mapCoins,
         db_best_block = if \<not> uint256_IsNull hash then Some hash else db_best_block db\<rparr>"

subsection \<open>The inputs of a transaction\<close>

definition GetOutputFor :: "coins_base \<Rightarrow> CCoinsViewCache \<Rightarrow> CTxIn \<Rightarrow> (CCoinsViewCache \<times> CTxOut) coins_result" where
  "GetOutputFor base cache input =
     (case AccessCoins base cache (op_hash (prevout input)) of
        (cache, Some coins) \<Rightarrow>
          bindO (assertO (IsAvailable coins (unat (op_n (prevout input))))) (\<lambda>_.
          Ok (cache, coins_vout coins ! unat (op_n (prevout input))))
      | (cache, None) \<Rightarrow> Abort)"

fun GetValueIn_loop :: "coins_base \<Rightarrow> CCoinsViewCache \<Rightarrow> CTxIn list \<Rightarrow> CAmount \<Rightarrow> (CCoinsViewCache \<times> CAmount) coins_result" where
  "GetValueIn_loop base cache [] nResult = Ok (cache, nResult)"
| "GetValueIn_loop base cache (txin # ins) nResult =
     bindO (GetOutputFor base cache txin) (\<lambda>(cache, txout).
     bindO (int64 (nResult + nValue txout)) (\<lambda>nResult.
     GetValueIn_loop base cache ins nResult))"

definition GetValueIn :: "coins_base \<Rightarrow> CCoinsViewCache \<Rightarrow> CTransaction \<Rightarrow> (CCoinsViewCache \<times> CAmount) coins_result" where
  "GetValueIn base cache tx =
     (if IsCoinBase tx then Ok (cache, 0) else GetValueIn_loop base cache (vin tx) 0)"

fun HaveInputs_loop :: "coins_base \<Rightarrow> CCoinsViewCache \<Rightarrow> CTxIn list \<Rightarrow> CCoinsViewCache \<times> bool" where
  "HaveInputs_loop base cache [] = (cache, True)"
| "HaveInputs_loop base cache (txin # ins) =
     (case AccessCoins base cache (op_hash (prevout txin)) of
        (cache, Some coins) \<Rightarrow>
          if \<not> IsAvailable coins (unat (op_n (prevout txin))) then (cache, False)
          else HaveInputs_loop base cache ins
      | (cache, None) \<Rightarrow> (cache, False))"

definition HaveInputs :: "coins_base \<Rightarrow> CCoinsViewCache \<Rightarrow> CTransaction \<Rightarrow> CCoinsViewCache \<times> bool" where
  "HaveInputs base cache tx = (if \<not> IsCoinBase tx then HaveInputs_loop base cache (vin tx) else (cache, True))"

end
