(* ===== verification/Coins_Cache.thy ===== *)
theory Coins_Cache
  imports Coins
begin

text \<open>
  What a stack of caches stands for: the function from transaction ids to the coins that are not
  completely spent. The flags of the entries keep their promises, every operation has its effect on
  that function alone, and writing a cache to the view below transfers it.
\<close>

subsection \<open>What a view stands for\<close>

definition live :: "CCoins \<Rightarrow> CCoins option" where
  "live c = (if IsPruned c then None else Some c)"

definition base_view :: "coins_base \<Rightarrow> uint256 \<Rightarrow> CCoins option" where
  "base_view base txid = (case base txid of None \<Rightarrow> None | Some c \<Rightarrow> live c)"

definition view :: "coins_base \<Rightarrow> CCoinsViewCache \<Rightarrow> uint256 \<Rightarrow> CCoins option" where
  "view base cache txid =
     (case map_of (cacheCoins cache) txid of Some e \<Rightarrow> live (entry_coins e) | None \<Rightarrow> base_view base txid)"

text \<open>
  A fresh entry has no live coins below, an entry that is not dirty has the coins below.
\<close>

definition flags_ok :: "coins_base \<Rightarrow> uint256 \<Rightarrow> CCoinsCacheEntry \<Rightarrow> bool" where
  "flags_ok base txid e \<longleftrightarrow> (flag_FRESH e \<longrightarrow> base_view base txid = None) \<and>
     (\<not> flag_DIRTY e \<longrightarrow> live (entry_coins e) = base_view base txid)"

definition map_ok :: "coins_base \<Rightarrow> CCoinsMap \<Rightarrow> bool" where
  "map_ok base m \<longleftrightarrow> distinct (map fst m) \<and> (\<forall>txid e. map_of m txid = Some e \<longrightarrow> flags_ok base txid e)"

definition cache_wf :: "coins_base \<Rightarrow> CCoinsViewCache \<Rightarrow> bool" where
  "cache_wf base cache \<longleftrightarrow> \<not> hasModifier cache \<and> map_ok base (cacheCoins cache)"

lemma map_okD: "map_ok base m \<Longrightarrow> map_of m txid = Some e \<Longrightarrow> flags_ok base txid e"
  by (simp add: map_ok_def)

lemma map_ok_update: "map_ok base m \<Longrightarrow> flags_ok base txid e \<Longrightarrow> map_ok base (AList.update txid e m)"
  by (auto simp: map_ok_def update_conv' distinct_update split: if_splits)

lemma map_ok_delete: "map_ok base m \<Longrightarrow> map_ok base (AList.delete txid m)"
  by (auto simp: map_ok_def delete_conv' distinct_delete split: if_splits)

lemma map_of_update [simp]: "map_of (AList.update k v m) = (map_of m)(k \<mapsto> v)"
  by (rule update_conv')

lemma map_of_delete [simp]: "map_of (AList.delete k m) = (map_of m)(k := None)"
  by (rule delete_conv')

lemma IsPruned_Clear [simp]: "IsPruned CCoins_Clear"
  by (simp add: IsPruned_def CCoins_Clear_def)

lemma IsPruned_Cleanup [simp]: "IsPruned (Cleanup c) = IsPruned c"
proof -
  have "list_all P (dropWhile P xs) = list_all P xs" for P :: "CTxOut \<Rightarrow> bool" and xs
    by (induction xs) auto
  from this [of CTxOut_IsNull "rev (coins_vout c)"] show ?thesis
    by (simp add: IsPruned_def Cleanup_def)
qed

subsection \<open>Reading\<close>

lemma FetchCoins_ok:
  assumes "cache_wf base cache" "FetchCoins base cache txid = (cache', it)"
  shows "cache_wf base cache'" "view base cache' = view base cache"
    "view base cache txid = (case it of None \<Rightarrow> None | Some e \<Rightarrow> live (entry_coins e))"
    "hashBlock cache' = hashBlock cache"
proof -
  consider e where "map_of (cacheCoins cache) txid = Some e" "cache' = cache" "it = Some e"
    | "map_of (cacheCoins cache) txid = None" "base txid = None" "cache' = cache" "it = None"
    | tmp where "map_of (cacheCoins cache) txid = None" "base txid = Some tmp"
      "it = Some \<lparr>entry_coins = tmp, flag_DIRTY = False, flag_FRESH = IsPruned tmp\<rparr>"
      "cache' = cache\<lparr>cacheCoins := AList.update txid \<lparr>entry_coins = tmp, flag_DIRTY = False, flag_FRESH = IsPruned tmp\<rparr> (cacheCoins cache)\<rparr>"
    using assms(2) by (auto simp: FetchCoins_def Let_def split: option.splits)
  then have "cache_wf base cache' \<and> view base cache' = view base cache \<and> hashBlock cache' = hashBlock cache \<and>
    view base cache txid = (case it of None \<Rightarrow> None | Some e \<Rightarrow> live (entry_coins e))"
  proof cases
    case 3
    then have "flags_ok base txid \<lparr>entry_coins = tmp, flag_DIRTY = False, flag_FRESH = IsPruned tmp\<rparr>"
      by (simp add: flags_ok_def base_view_def live_def)
    then show ?thesis using assms(1) 3
      by (auto simp: cache_wf_def view_def base_view_def fun_eq_iff intro: map_ok_update)
  qed (use assms(1) in \<open>auto simp: view_def base_view_def\<close>)
  then show "cache_wf base cache'" "view base cache' = view base cache"
    "view base cache txid = (case it of None \<Rightarrow> None | Some e \<Rightarrow> live (entry_coins e))" "hashBlock cache' = hashBlock cache"
    by blast+
qed

lemma AccessCoins_ok:
  assumes "cache_wf base cache" "AccessCoins base cache txid = (cache', r)"
  shows "cache_wf base cache'" "view base cache' = view base cache"
    "view base cache txid = Option.bind r live" "hashBlock cache' = hashBlock cache"
  using FetchCoins_ok [OF assms(1)] assms(2)
  by (auto simp: AccessCoins_def split: prod.splits option.splits)

subsection \<open>Modifying\<close>

text \<open>The state while a modifier of \<open>txid\<close> exists.\<close>

definition modifying :: "coins_base \<Rightarrow> CCoinsViewCache \<Rightarrow> uint256 \<Rightarrow> CCoinsViewCache \<Rightarrow> bool" where
  "modifying base cache txid c \<longleftrightarrow> hasModifier c \<and> hashBlock c = hashBlock cache \<and> map_ok base (cacheCoins c) \<and>
     (\<exists>e. map_of (cacheCoins c) txid = Some e \<and> flag_DIRTY e) \<and>
     (\<forall>k. k \<noteq> txid \<longrightarrow> map_of (cacheCoins c) k = map_of (cacheCoins cache) k)"

lemma ModifyCoins_ok:
  assumes "cache_wf base cache"
  shows "\<exists>c coins. ModifyCoins base cache txid = Ok (c, coins) \<and> modifying base cache txid c \<and> live coins = view base cache txid"
proof -
  define e where "e = (case map_of (cacheCoins cache) txid of Some e \<Rightarrow> e
    | None \<Rightarrow> (case base txid of None \<Rightarrow> \<lparr>entry_coins = CCoins_Clear, flag_DIRTY = False, flag_FRESH = True\<rparr>
       | Some c \<Rightarrow> \<lparr>entry_coins = c, flag_DIRTY = False, flag_FRESH = IsPruned c\<rparr>))"
  have ok: "map_ok base (cacheCoins cache)" using assms by (simp add: cache_wf_def)
  have e: "flags_ok base txid (e\<lparr>flag_DIRTY := True\<rparr>)" "live (entry_coins e) = view base cache txid"
  proof -
    show "live (entry_coins e) = view base cache txid"
      by (auto simp: e_def view_def base_view_def live_def split: option.splits)
    show "flags_ok base txid (e\<lparr>flag_DIRTY := True\<rparr>)"
    proof (cases "map_of (cacheCoins cache) txid")
      case None
      then show ?thesis by (auto simp: e_def flags_ok_def base_view_def live_def split: option.splits)
    next
      case (Some a)
      then show ?thesis using map_okD [OF ok Some] by (simp add: e_def flags_ok_def)
    qed
  qed
  have "ModifyCoins base cache txid = Ok (cache\<lparr>hasModifier := True,
    cacheCoins := AList.update txid (e\<lparr>flag_DIRTY := True\<rparr>) (cacheCoins cache)\<rparr>, entry_coins e)"
    using assms by (simp add: ModifyCoins_def cache_wf_def assertO_def e_def Let_def)
  then show ?thesis using assms e map_ok_update [OF _ e(1), of "cacheCoins cache"]
    by (auto simp: modifying_def cache_wf_def)
qed

lemma ModifyNewCoins_ok:
  assumes "cache_wf base cache" "coinbase \<or> view base cache txid = None"
  shows "\<exists>c. ModifyNewCoins cache txid coinbase = Ok (c, CCoins_Clear) \<and> modifying base cache txid c"
proof -
  define e where "e = (case map_of (cacheCoins cache) txid of Some e \<Rightarrow> e
    | None \<Rightarrow> \<lparr>entry_coins = CCoins_Clear, flag_DIRTY = False, flag_FRESH = False\<rparr>)"
  define e' where "e' = (if \<not> coinbase \<and> \<not> flag_DIRTY e then e\<lparr>flag_FRESH := True\<rparr> else e)\<lparr>entry_coins := CCoins_Clear, flag_DIRTY := True\<rparr>"
  have p: "coinbase \<or> IsPruned (entry_coins e)"
    using assms(2) by (auto simp: e_def view_def live_def split: option.splits if_splits)
  have ok: "map_ok base (cacheCoins cache)" using assms(1) by (simp add: cache_wf_def)
  have e: "flags_ok base txid e'"
    using map_okD [OF ok] assms(2) by (auto simp: e_def e'_def flags_ok_def view_def split: option.splits)
  have "ModifyNewCoins cache txid coinbase =
    Ok (cache\<lparr>hasModifier := True, cacheCoins := AList.update txid e' (cacheCoins cache)\<rparr>, CCoins_Clear)"
    using assms(1) p by (auto simp: ModifyNewCoins_def cache_wf_def assertO_def e_def e'_def Let_def)
  then show ?thesis using assms(1) map_ok_update [OF _ e, of "cacheCoins cache"]
    by (auto simp: modifying_def cache_wf_def e'_def)
qed

lemma release_ok:
  assumes "modifying base cache txid c"
  shows "\<exists>cache'. release c txid coins = Ok cache' \<and> cache_wf base cache' \<and> hashBlock cache' = hashBlock cache \<and>
    view base cache' = (view base cache)(txid := live (Cleanup coins))"
proof -
  obtain e where e: "map_of (cacheCoins c) txid = Some e" "flag_DIRTY e" using assms by (auto simp: modifying_def)
  have m: "map_ok base (cacheCoins c)" "hasModifier c" "hashBlock c = hashBlock cache"
    "\<And>k. k \<noteq> txid \<Longrightarrow> map_of (cacheCoins c) k = map_of (cacheCoins cache) k" using assms by (auto simp: modifying_def)
  have ok: "flags_ok base txid (e\<lparr>entry_coins := Cleanup coins\<rparr>)" using m(1) e by (auto simp: map_ok_def flags_ok_def)
  show ?thesis
  proof (cases "flag_FRESH e \<and> IsPruned coins")
    case True
    then have "base_view base txid = None" using ok by (simp add: flags_ok_def)
    then show ?thesis using True e(1) m
      by (auto simp: release_def assertO_def Let_def cache_wf_def view_def fun_eq_iff live_def intro: map_ok_delete)
  next
    case False
    then show ?thesis using e(1) m map_ok_update [OF m(1) ok]
      by (auto simp: release_def assertO_def Let_def cache_wf_def view_def fun_eq_iff)
  qed
qed

subsection \<open>Writing to the view below\<close>

text \<open>
  The contract of a view that a cache can be flushed to: writing entries whose flags are right for
  it replaces the coins of the dirty entries and keeps all others.
\<close>

locale coins_backend =
  fixes inv :: "'v \<Rightarrow> bool"
    and get :: "'v \<Rightarrow> coins_base"
    and batch :: "'v \<Rightarrow> CCoinsMap \<Rightarrow> uint256 \<Rightarrow> 'v coins_result"
  assumes batch_ok: "inv v \<Longrightarrow> map_ok (get v) m \<Longrightarrow>
    \<exists>v'. batch v m h = Ok v' \<and> inv v' \<and>
      (\<forall>k. base_view (get v') k =
        (case map_of m k of Some e \<Rightarrow> if flag_DIRTY e then live (entry_coins e) else base_view (get v) k
         | None \<Rightarrow> base_view (get v) k))"
begin

lemma flush_ok:
  assumes "inv v" "cache_wf (get v) cache"
  shows "\<exists>v' cache'. Flush batch v cache = Ok (v', cache') \<and> inv v' \<and> cache_wf (get v') cache' \<and>
    base_view (get v') = view (get v) cache \<and> view (get v') cache' = view (get v) cache"
proof -
  have m: "map_ok (get v) (cacheCoins cache)" using assms(2) by (simp add: cache_wf_def)
  from batch_ok [OF assms(1) m, of "hashBlock cache"] obtain v' where
    v': "batch v (cacheCoins cache) (hashBlock cache) = Ok v'" "inv v'"
    "\<And>k. base_view (get v') k = (case map_of (cacheCoins cache) k of
        Some e \<Rightarrow> if flag_DIRTY e then live (entry_coins e) else base_view (get v) k | None \<Rightarrow> base_view (get v) k)" by blast
  have "base_view (get v') k = view (get v) cache k" for k
    using map_okD [OF m, of k] v'(3) [of k] by (auto simp: view_def flags_ok_def split: option.splits if_splits)
  then show ?thesis using v'(1,2) assms(2)
    by (auto simp: Flush_def cache_wf_def map_ok_def view_def fun_eq_iff)
qed

end

text \<open>The database.\<close>

lemma DB_loop_map_of:
  "distinct (map fst m) \<Longrightarrow> map_of (DB_BatchWrite_loop d m) k =
    (case map_of m k of Some e \<Rightarrow> if flag_DIRTY e then live (entry_coins e) else map_of d k | None \<Rightarrow> map_of d k)"
proof (induction d m rule: DB_BatchWrite_loop.induct)
  case (2 d txid it m)
  then have "map_of m txid = None" by (simp add: map_of_eq_None_iff)
  then show ?case using 2 by (auto simp: live_def split: option.splits)
qed simp

definition db_ok :: "CCoinsViewDB \<Rightarrow> bool" where
  "db_ok db \<longleftrightarrow> (\<forall>k c. map_of (db_coins db) k = Some c \<longrightarrow> \<not> IsPruned c)"

interpretation db: coins_backend db_ok DB_GetCoins DB_BatchWrite
proof
  fix db m h
  assume ok: "db_ok db" "map_ok (DB_GetCoins db) m"
  let ?db = "\<lparr>db_coins = DB_BatchWrite_loop (db_coins db) m,
    db_best_block = if \<not> uint256_IsNull h then Some h else db_best_block db\<rparr>"
  note loop = DB_loop_map_of [of m "db_coins db"]
  have "distinct (map fst m)" using ok(2) by (simp add: map_ok_def)
  note l = loop [OF this]
  have b: "base_view (DB_GetCoins d) k = map_of (db_coins d) k" if "db_ok d" for d k
    using that by (auto simp: base_view_def DB_GetCoins_def db_ok_def live_def split: option.splits)
  have "db_ok ?db" using ok(1) by (auto simp: db_ok_def l live_def split: option.splits if_splits)
  then show "\<exists>db'. DB_BatchWrite db m h = Ok db' \<and> db_ok db' \<and>
      (\<forall>k. base_view (DB_GetCoins db') k =
        (case map_of m k of Some e \<Rightarrow> if flag_DIRTY e then live (entry_coins e) else base_view (DB_GetCoins db) k
         | None \<Rightarrow> base_view (DB_GetCoins db) k))"
    using b [OF ok(1)] b [of ?db] by (intro exI [of _ ?db]) (simp add: DB_BatchWrite_def l split: option.split)
qed

text \<open>Another cache.\<close>

definition cache_get :: "coins_base \<Rightarrow> CCoinsViewCache \<Rightarrow> coins_base" where
  "cache_get base cache txid = snd (AccessCoins base cache txid)"

lemma base_view_cache_get: "base_view (cache_get base cache) k = view base cache k"
  by (auto simp: base_view_def cache_get_def AccessCoins_def FetchCoins_def view_def Let_def split: option.splits)

definition map_view :: "coins_base \<Rightarrow> CCoinsMap \<Rightarrow> uint256 \<Rightarrow> CCoins option" where
  "map_view base m txid = (case map_of m txid of Some e \<Rightarrow> live (entry_coins e) | None \<Rightarrow> base_view base txid)"

lemma BatchWrite_entry_ok:
  assumes "map_ok base m" "flag_FRESH e \<longrightarrow> map_view base m txid = None"
  shows "\<exists>m'. BatchWrite_entry m txid e = Ok m' \<and> map_ok base m' \<and>
    map_view base m' = (map_view base m)(txid := if flag_DIRTY e then live (entry_coins e) else map_view base m txid)"
proof (cases "flag_DIRTY e")
  case True
  show ?thesis
  proof (cases "map_of m txid")
    case None
    then have "map_view base m txid = base_view base txid" by (simp add: map_view_def)
    then have f: "flag_FRESH e \<Longrightarrow> base_view base txid = None" using assms(2) by simp
    then have "map_ok base (AList.update txid \<lparr>entry_coins = entry_coins e, flag_DIRTY = True, flag_FRESH = flag_FRESH e\<rparr> m)"
      using assms(1) by (intro map_ok_update) (auto simp: flags_ok_def)
    then show ?thesis using True None f assms(1)
      by (auto simp: BatchWrite_entry_def map_view_def fun_eq_iff live_def)
  next
    case (Some us)
    then have "map_view base m txid = live (entry_coins us)" by (simp add: map_view_def)
    then have f: "\<not> (flag_FRESH e \<and> \<not> IsPruned (entry_coins us))" using assms(2) by (auto simp: live_def split: if_splits)
    have us: "flags_ok base txid us" using map_okD [OF assms(1) Some] .
    then have u: "map_ok base (AList.update txid (us\<lparr>entry_coins := entry_coins e, flag_DIRTY := True\<rparr>) m)"
      using assms(1) by (intro map_ok_update) (auto simp: flags_ok_def)
    show ?thesis
    proof (cases "flag_FRESH us \<and> IsPruned (entry_coins e)")
      case fresh: True
      then show ?thesis using True Some f us map_ok_delete [OF assms(1)]
        by (auto simp: BatchWrite_entry_def map_view_def fun_eq_iff live_def flags_ok_def)
    next
      case False
      then show ?thesis using True Some f u by (auto simp: BatchWrite_entry_def map_view_def fun_eq_iff)
    qed
  qed
qed (use assms(1) in \<open>simp add: BatchWrite_entry_def\<close>)

lemma BatchWrite_loop_ok:
  assumes "map_ok base m" "distinct (map fst es)" "\<forall>k e. map_of es k = Some e \<longrightarrow> flag_FRESH e \<longrightarrow> map_view base m k = None"
  shows "\<exists>m'. BatchWrite_loop m es = Ok m' \<and> map_ok base m' \<and> (\<forall>k. map_view base m' k =
    (case map_of es k of Some e \<Rightarrow> if flag_DIRTY e then live (entry_coins e) else map_view base m k | None \<Rightarrow> map_view base m k))"
  using assms
proof (induction m es rule: BatchWrite_loop.induct)
  case (2 m txid e es)
  have "flag_FRESH e \<longrightarrow> map_view base m txid = None" using 2(4) by simp
  from BatchWrite_entry_ok [OF 2(2) this] obtain m1 where m1: "BatchWrite_entry m txid e = Ok m1" "map_ok base m1"
    "map_view base m1 = (map_view base m)(txid := if flag_DIRTY e then live (entry_coins e) else map_view base m txid)" by blast
  have n: "map_of es txid = None" "distinct (map fst es)" using 2(3) by (simp_all add: map_of_eq_None_iff)
  have "\<forall>k a. map_of es k = Some a \<longrightarrow> flag_FRESH a \<longrightarrow> map_view base m1 k = None"
    using 2(4) n(1) m1(3) by auto
  from 2(1) [OF m1(1,2) n(2) this] obtain m2 where m2: "BatchWrite_loop m1 es = Ok m2" "map_ok base m2"
    "\<And>k. map_view base m2 k = (case map_of es k of Some e \<Rightarrow> if flag_DIRTY e then live (entry_coins e) else map_view base m1 k
      | None \<Rightarrow> map_view base m1 k)" by blast
  then show ?case using m1 n(1) by (auto split: option.splits)
qed simp

lemma cache_backend: "coins_backend (cache_wf base) (cache_get base) BatchWrite"
proof
  fix cache m h
  assume ok: "cache_wf base cache" "map_ok (cache_get base cache) m"
  have v: "map_view base (cacheCoins cache) k = view base cache k" for k cache by (simp add: map_view_def view_def)
  have c: "map_ok base (cacheCoins cache)" "\<not> hasModifier cache" using ok(1) by (simp_all add: cache_wf_def)
  have d: "distinct (map fst m)" using ok(2) by (simp add: map_ok_def)
  have "\<forall>k e. map_of m k = Some e \<longrightarrow> flag_FRESH e \<longrightarrow> map_view base (cacheCoins cache) k = None"
    using map_okD [OF ok(2)] by (auto simp: flags_ok_def base_view_cache_get v)
  from BatchWrite_loop_ok [OF c(1) d this] obtain m' where m': "BatchWrite_loop (cacheCoins cache) m = Ok m'" "map_ok base m'"
    "\<forall>k. map_view base m' k = (case map_of m k of Some e \<Rightarrow> if flag_DIRTY e then live (entry_coins e) else map_view base (cacheCoins cache) k
      | None \<Rightarrow> map_view base (cacheCoins cache) k)" by blast
  let ?c = "cache\<lparr>cacheCoins := m', hashBlock := h\<rparr>"
  have "BatchWrite cache m h = Ok ?c" "cache_wf base ?c" using m' c by (simp_all add: BatchWrite_def assertO_def cache_wf_def)
  moreover have "view base ?c k = map_view base m' k" for k by (simp add: map_view_def view_def)
  ultimately show "\<exists>cache'. BatchWrite cache m h = Ok cache' \<and> cache_wf base cache' \<and>
      (\<forall>k. base_view (cache_get base cache') k =
        (case map_of m k of Some e \<Rightarrow> if flag_DIRTY e then live (entry_coins e) else base_view (cache_get base cache) k
         | None \<Rightarrow> base_view (cache_get base cache) k))"
    using m'(3) by (intro exI [of _ ?c]) (simp add: base_view_cache_get v split: option.split)
qed

interpretation parent: coins_backend "cache_wf base" "cache_get base" BatchWrite for base
  by (rule cache_backend)

subsection \<open>The refinement\<close>



end
