(* ===== verification/Coins_Undo.thy ===== *)
theory Coins_Undo
  imports Coins_Cache
begin

text \<open>
  Applying transactions to the unspent outputs and taking them back: \<open>UpdateCoins\<close>, \<open>ApplyTxInUndo\<close> and
  \<open>DisconnectBlock\<close> of \<^verbatim>\<open>src/src/validation.cpp\<close> with the undo data of \<^verbatim>\<open>src/src/undo.h\<close>. Reading the undo data
  of a block from disk is an argument.
\<close>

record CTxInUndo =
  undo_txout :: CTxOut
  undo_fCoinBase :: bool
  undo_nHeight :: int
  undo_nVersion :: u32

type_synonym CTxUndo = "CTxInUndo list"

subsection \<open>Spending and creating\<close>

definition spend_input :: "coins_base \<Rightarrow> CCoinsViewCache \<Rightarrow> CTxIn \<Rightarrow> (CCoinsViewCache \<times> CTxInUndo) coins_result" where
  "spend_input base cache txin =
     bindO (ModifyCoins base cache (op_hash (prevout txin))) (\<lambda>(cache, coins).
     let nPos = unat (op_n (prevout txin)) in
     bindO (assertO (\<not> (nPos \<ge> length (coins_vout coins) \<or> CTxOut_IsNull (coins_vout coins ! nPos)))) (\<lambda>_.
     let undo = \<lparr>undo_txout = coins_vout coins ! nPos, undo_fCoinBase = False, undo_nHeight = 0, undo_nVersion = 0\<rparr>;
         (_, coins) = Spend coins nPos;
         undo = (if length (coins_vout coins) = 0
                 then undo\<lparr>undo_nHeight := coins_nHeight coins, undo_fCoinBase := coins_fCoinBase coins, undo_nVersion := coins_nVersion coins\<rparr>
                 else undo)
     in bindO (release cache (op_hash (prevout txin)) coins) (\<lambda>cache. Ok (cache, undo))))"

fun spend_inputs :: "coins_base \<Rightarrow> CCoinsViewCache \<Rightarrow> CTxIn list \<Rightarrow> (CCoinsViewCache \<times> CTxUndo) coins_result" where
  "spend_inputs base cache [] = Ok (cache, [])"
| "spend_inputs base cache (txin # ins) =
     bindO (spend_input base cache txin) (\<lambda>(cache, undo).
     bindO (spend_inputs base cache ins) (\<lambda>(cache, undos).
     Ok (cache, undo # undos)))"

definition UpdateCoins :: "coins_base \<Rightarrow> CCoinsViewCache \<Rightarrow> CTransaction \<Rightarrow> int \<Rightarrow> (CCoinsViewCache \<times> CTxUndo) coins_result" where
  "UpdateCoins base cache tx nHeight =
     bindO (if \<not> IsCoinBase tx then spend_inputs base cache (vin tx) else Ok (cache, [])) (\<lambda>(cache, txundo).
     bindO (ModifyNewCoins cache (CTransaction_GetHash tx) (IsCoinBase tx)) (\<lambda>(cache, _).
     bindO (release cache (CTransaction_GetHash tx) (FromTx tx nHeight)) (\<lambda>cache.
     Ok (cache, txundo))))"

subsection \<open>Undoing\<close>

definition ApplyTxInUndo :: "coins_base \<Rightarrow> CTxInUndo \<Rightarrow> CCoinsViewCache \<Rightarrow> COutPoint \<Rightarrow> (CCoinsViewCache \<times> bool) coins_result" where
  "ApplyTxInUndo base undo cache out =
     bindO (ModifyCoins base cache (op_hash out)) (\<lambda>(cache, coins).
     let (coins, fClean) =
           (if undo_nHeight undo \<noteq> 0
            then (CCoins_Clear\<lparr>coins_fCoinBase := undo_fCoinBase undo, coins_nHeight := undo_nHeight undo, coins_nVersion := undo_nVersion undo\<rparr>,
                  IsPruned coins)
            else (coins, \<not> IsPruned coins));
         fClean = (fClean \<and> \<not> IsAvailable coins (unat (op_n out)));
         outs = coins_vout coins;
         outs = (if length outs < unat (op_n out + 1) then outs @ replicate (unat (op_n out + 1) - length outs) CTxOut_null else outs)
     in bindO (assertO (unat (op_n out) < length outs)) (\<lambda>_.
        bindO (release cache (op_hash out) (coins\<lparr>coins_vout := outs[unat (op_n out) := undo_txout undo]\<rparr>)) (\<lambda>cache.
        Ok (cache, fClean))))"

definition remove_outputs :: "coins_base \<Rightarrow> CCoinsViewCache \<Rightarrow> CTransaction \<Rightarrow> int \<Rightarrow> (CCoinsViewCache \<times> bool) coins_result" where
  "remove_outputs base cache tx nHeight =
     (let hash = CTransaction_GetHash tx in
      bindO (ModifyCoins base cache hash) (\<lambda>(cache, outs).
      let outs = ClearUnspendable outs;
          outsBlock = FromTx tx nHeight;
          outs = (if sint (coins_nVersion outsBlock) < 0 then outs\<lparr>coins_nVersion := coins_nVersion outsBlock\<rparr> else outs);
          fClean = CCoins_eq outs outsBlock
      in bindO (release cache hash CCoins_Clear) (\<lambda>cache. Ok (cache, fClean))))"

text \<open>The inputs are restored from the last to the first; the argument lists are in that order.\<close>

fun restore_inputs :: "coins_base \<Rightarrow> CCoinsViewCache \<Rightarrow> (CTxIn \<times> CTxInUndo) list \<Rightarrow> bool \<Rightarrow> (CCoinsViewCache \<times> bool) coins_result" where
  "restore_inputs base cache [] fClean = Ok (cache, fClean)"
| "restore_inputs base cache ((txin, undo) # ins) fClean =
     bindO (ApplyTxInUndo base undo cache (prevout txin)) (\<lambda>(cache, ok).
     restore_inputs base cache ins (fClean \<and> ok))"

text \<open>
  The loop over the transactions, last first. The coinbase, with index zero, has no undo data; a
  transaction with undo data of another size makes \<open>DisconnectBlock\<close> return \<open>false\<close>.
\<close>

fun disconnect_loop ::
  "coins_base \<Rightarrow> CCoinsViewCache \<Rightarrow> (CTransaction \<times> CTxUndo option) list \<Rightarrow> int \<Rightarrow> bool \<Rightarrow> (CCoinsViewCache \<times> bool) coins_result" where
  "disconnect_loop base cache [] nHeight fClean = Ok (cache, fClean)"
| "disconnect_loop base cache ((tx, txundo) # txs) nHeight fClean =
     bindO (remove_outputs base cache tx nHeight) (\<lambda>(cache, ok).
     case txundo of
       None \<Rightarrow> disconnect_loop base cache txs nHeight (fClean \<and> ok)
     | Some undos \<Rightarrow>
         if length undos \<noteq> length (vin tx) then Fail ()
         else bindO (restore_inputs base cache (rev (zip (vin tx) undos)) (fClean \<and> ok)) (\<lambda>(cache, fClean).
           disconnect_loop base cache txs nHeight fClean))"

definition DisconnectBlock ::
  "CTxUndo list option \<Rightarrow> uint256 \<Rightarrow> coins_base \<Rightarrow> CCoinsViewCache \<Rightarrow> CTransaction list \<Rightarrow> uint256 \<Rightarrow> uint256 \<Rightarrow> int \<Rightarrow>
   (CCoinsViewCache \<times> bool) coins_result" where
  "DisconnectBlock UndoRead base_best base cache vtx hash prev_hash nHeight =
     (let (cache, best) = GetBestBlock base_best cache in
      bindO (assertO (hash = best)) (\<lambda>_.
      case UndoRead of
        None \<Rightarrow> Fail ()
      | Some vtxundo \<Rightarrow>
          if length vtxundo + 1 \<noteq> length vtx then Fail ()
          else bindO (disconnect_loop base cache (rev (zip vtx (None # map Some vtxundo))) nHeight True) (\<lambda>(cache, fClean).
            Ok (SetBestBlock cache prev_hash, fClean))))"

subsection \<open>Well-formed coins\<close>

text \<open>
  The last output is unspent, spent outputs are null, and the height is not that of the genesis
  block, whose outputs are never added.
\<close>

definition coins_wf :: "CCoins \<Rightarrow> bool" where
  "coins_wf c \<longleftrightarrow> coins_vout c \<noteq> [] \<and> \<not> CTxOut_IsNull (last (coins_vout c)) \<and>
     (\<forall>o'\<in>set (coins_vout c). CTxOut_IsNull o' \<longrightarrow> o' = CTxOut_null) \<and> coins_nHeight c > 0 \<and>
     length (coins_vout c) < 2 ^ 32"

definition view_wf :: "(uint256 \<Rightarrow> CCoins option) \<Rightarrow> bool" where
  "view_wf V \<longleftrightarrow> (\<forall>k c. V k = Some c \<longrightarrow> coins_wf c)"

abbreviation trim :: "CTxOut list \<Rightarrow> CTxOut list" where
  "trim xs \<equiv> rev (dropWhile CTxOut_IsNull (rev xs))"

lemma CTxOut_null_IsNull [simp]: "CTxOut_IsNull CTxOut_null"
  by (simp add: CTxOut_IsNull_def CTxOut_null_def)

lemma trim_prefix: "\<exists>ys. xs = trim xs @ ys \<and> (\<forall>y\<in>set ys. CTxOut_IsNull y)"
proof (intro exI conjI)
  show "xs = trim xs @ rev (takeWhile CTxOut_IsNull (rev xs))"
    by (metis rev_append rev_rev_ident takeWhile_dropWhile_id)
  show "\<forall>y\<in>set (rev (takeWhile CTxOut_IsNull (rev xs))). CTxOut_IsNull y" by (auto dest: set_takeWhileD)
qed

lemma trim_id: "xs \<noteq> [] \<Longrightarrow> \<not> CTxOut_IsNull (last xs) \<Longrightarrow> trim xs = xs"
  by (cases xs rule: rev_cases) simp_all

lemma trim_last: "trim xs \<noteq> [] \<Longrightarrow> \<not> CTxOut_IsNull (last (trim xs))"
  by (simp add: last_rev hd_dropWhile)

lemma trim_Nil_iff: "trim xs = [] \<longleftrightarrow> list_all CTxOut_IsNull xs"
  by (simp add: list_all_iff)

lemma Cleanup_Cleanup [simp]: "Cleanup (Cleanup c) = Cleanup c"
proof -
  have "dropWhile P (dropWhile P xs) = dropWhile P xs" for P :: "CTxOut \<Rightarrow> bool" and xs by (induction xs) auto
  then show ?thesis by (simp add: Cleanup_def)
qed

lemma Cleanup_wf: "coins_wf c \<Longrightarrow> Cleanup c = c"
  by (simp add: Cleanup_def coins_wf_def trim_id)

text \<open>Restoring an output that was spent.\<close>

lemma restore_vout:
  assumes "n < length xs" "\<not> CTxOut_IsNull (last xs)" "\<forall>o'\<in>set xs. CTxOut_IsNull o' \<longrightarrow> o' = CTxOut_null"
  defines "ys \<equiv> trim (xs[n := CTxOut_null])"
  shows "(if length ys < n + 1 then ys @ replicate (n + 1 - length ys) CTxOut_null else ys)[n := xs ! n] = xs"
    and "\<not> (n < length ys \<and> \<not> CTxOut_IsNull (ys ! n))"
proof -
  have ne: "xs \<noteq> []" using assms(1) by auto
  have "(if length ys < n + 1 then ys @ replicate (n + 1 - length ys) CTxOut_null else ys)[n := xs ! n] = xs \<and>
    \<not> (n < length ys \<and> \<not> CTxOut_IsNull (ys ! n))"
  proof (cases "n = length xs - 1")
    case True
    obtain zs where zs: "butlast xs = trim (butlast xs) @ zs" "\<forall>z\<in>set zs. CTxOut_IsNull z" using trim_prefix by blast
    have x: "xs = butlast xs @ [xs ! n]" using ne True by (metis append_butlast_last_id last_conv_nth)
    have "xs[n := CTxOut_null] = butlast xs @ [CTxOut_null]" using True ne by (subst x) (simp add: list_update_append)
    then have ys: "ys = trim (butlast xs)" by (simp add: ys_def)
    have "zs = replicate (length zs) CTxOut_null"
      using zs assms(3) by (intro replicate_eqI) (metis Un_iff in_set_butlastD set_append)+
    moreover have n: "n = length ys + length zs" using True ys zs(1) by (metis length_append length_butlast)
    ultimately have "xs = ys @ replicate (length zs) CTxOut_null @ [xs ! n]" using x zs(1) ys by (metis append_assoc)
    then have e: "(ys @ replicate (length zs) CTxOut_null @ [CTxOut_null])[n := xs ! n] = xs"
      using n by (metis append_assoc length_append length_replicate list_update_length)
    moreover have "replicate (n + 1 - length ys) CTxOut_null = replicate (length zs) CTxOut_null @ [CTxOut_null]"
      using n by (simp add: replicate_append_same)
    ultimately show ?thesis using n by simp
  next
    case False
    then have "last (xs[n := CTxOut_null]) = last xs" using ne assms(1) by (simp add: last_list_update)
    then have "ys = xs[n := CTxOut_null]" using ne assms(2) unfolding ys_def by (intro trim_id) simp_all
    then show ?thesis using assms(1) by simp
  qed
  then show "(if length ys < n + 1 then ys @ replicate (n + 1 - length ys) CTxOut_null else ys)[n := xs ! n] = xs"
    "\<not> (n < length ys \<and> \<not> CTxOut_IsNull (ys ! n))" by blast+
qed

subsection \<open>One input\<close>

lemma modify_scope:
  assumes "cache_wf base cache"
  obtains c coins where "ModifyCoins base cache k = Ok (c, coins)" "live coins = view base cache k"
    "\<forall>coins'. \<exists>cache'. release c k coins' = Ok cache' \<and> cache_wf base cache' \<and> hashBlock cache' = hashBlock cache \<and>
       view base cache' = (view base cache)(k := live (Cleanup coins'))"
  using ModifyCoins_ok [OF assms, of k] release_ok by metis

definition spent :: "CCoins \<Rightarrow> nat \<Rightarrow> CCoins" where
  "spent c n = Cleanup (c\<lparr>coins_vout := (coins_vout c)[n := CTxOut_null]\<rparr>)"

definition undo_of :: "CCoins \<Rightarrow> nat \<Rightarrow> CTxInUndo" where
  "undo_of c n =
     (if IsPruned (spent c n)
      then \<lparr>undo_txout = coins_vout c ! n, undo_fCoinBase = coins_fCoinBase c, undo_nHeight = coins_nHeight c, undo_nVersion = coins_nVersion c\<rparr>
      else \<lparr>undo_txout = coins_vout c ! n, undo_fCoinBase = False, undo_nHeight = 0, undo_nVersion = 0\<rparr>)"

lemma spent_fields [simp]:
  "coins_fCoinBase (spent c n) = coins_fCoinBase c" "coins_nHeight (spent c n) = coins_nHeight c"
  "coins_nVersion (spent c n) = coins_nVersion c" "coins_vout (spent c n) = trim ((coins_vout c)[n := CTxOut_null])"
  by (simp_all add: spent_def Cleanup_def)

lemma spent_pruned: "coins_vout (spent c n) = [] \<longleftrightarrow> IsPruned (spent c n)"
  unfolding spent_def IsPruned_Cleanup by (simp add: Cleanup_def IsPruned_def list_all_iff)

lemma live_spent_wf: "coins_wf c \<Longrightarrow> live (spent c n) = Some c' \<Longrightarrow> coins_wf c'"
proof -
  assume c: "coins_wf c" and l: "live (spent c n) = Some c'"
  then have "c' = spent c n" "\<not> IsPruned (spent c n)" by (simp_all add: live_def split: if_splits)
  then have c': "c' = spent c n" "coins_vout (spent c n) \<noteq> []" using spent_pruned by blast+
  let ?xs = "(coins_vout c)[n := CTxOut_null]"
  have "set (trim ?xs) \<subseteq> insert CTxOut_null (set (coins_vout c))"
    by (auto dest!: set_dropWhileD) (meson insertE set_update_subset_insert subset_iff)
  moreover have "length (trim ?xs) \<le> length (coins_vout c)" using length_dropWhile_le [of CTxOut_IsNull "rev ?xs"] by simp
  moreover have "\<not> CTxOut_IsNull (last (trim ?xs))" using c'(2) by (intro trim_last) simp
  ultimately show ?thesis using c c' unfolding coins_wf_def by (auto simp del: last_rev rev_is_Nil_conv)
qed

lemma spend_input_ok:
  assumes "cache_wf base cache" "view base cache (op_hash (prevout txin)) = vc"
  shows "case vc of
      Some c \<Rightarrow> if IsAvailable c (unat (op_n (prevout txin)))
        then \<exists>cache'. spend_input base cache txin = Ok (cache', undo_of c (unat (op_n (prevout txin)))) \<and> cache_wf base cache' \<and>
          hashBlock cache' = hashBlock cache \<and>
          view base cache' = (view base cache)(op_hash (prevout txin) := live (spent c (unat (op_n (prevout txin)))))
        else spend_input base cache txin = Abort
    | None \<Rightarrow> spend_input base cache txin = Abort"
proof -
  let ?h = "op_hash (prevout txin)" and ?n = "unat (op_n (prevout txin))"
  obtain c coins where m: "ModifyCoins base cache ?h = Ok (c, coins)" "live coins = vc"
    "\<forall>coins'. \<exists>cache'. release c ?h coins' = Ok cache' \<and> cache_wf base cache' \<and> hashBlock cache' = hashBlock cache \<and>
       view base cache' = (view base cache)(?h := live (Cleanup coins'))"
    using modify_scope [OF assms(1)] assms(2) by metis
  have na: "\<not> IsAvailable coins ?n \<Longrightarrow> spend_input base cache txin = Abort"
    using m(1) by (auto simp: spend_input_def IsAvailable_def assertO_def Let_def)
  show ?thesis
  proof (cases vc)
    case None
    then have "IsPruned coins" using m(2) by (simp add: live_def split: if_splits)
    then have "\<not> IsAvailable coins ?n" by (auto simp: IsPruned_def IsAvailable_def list_all_length)
    then show ?thesis using None na by simp
  next
    case (Some d)
    then have d: "coins = d" using m(2) by (simp add: live_def split: if_splits)
    show ?thesis
    proof (cases "IsAvailable d ?n")
      case True
      then have a: "\<not> (?n \<ge> length (coins_vout d) \<or> CTxOut_IsNull (coins_vout d ! ?n))" by (simp add: IsAvailable_def)
      then have "Spend d ?n = (True, spent d ?n)" by (simp add: Spend_def spent_def)
      then have "spend_input base cache txin = bindO (release c ?h (spent d ?n)) (\<lambda>cache. Ok (cache, undo_of d ?n))"
        using m(1) a d by (simp add: spend_input_def assertO_def Let_def undo_of_def spent_pruned [symmetric])
      moreover obtain cache' where "release c ?h (spent d ?n) = Ok cache'" "cache_wf base cache'" "hashBlock cache' = hashBlock cache"
        "view base cache' = (view base cache)(?h := live (Cleanup (spent d ?n)))" using m(3) by blast
      moreover have "Cleanup (spent d ?n) = spent d ?n" by (simp add: spent_def)
      ultimately show ?thesis using Some True by simp
    next
      case False
      then show ?thesis using Some na d by simp
    qed
  qed
qed

lemma ApplyTxInUndo_ok:
  assumes "cache_wf base cache" "coins_wf c" "IsAvailable c (unat (op_n out))"
    and "view base cache (op_hash out) = live (spent c (unat (op_n out)))"
  shows "\<exists>cache'. ApplyTxInUndo base (undo_of c (unat (op_n out))) cache out = Ok (cache', True) \<and> cache_wf base cache' \<and>
    hashBlock cache' = hashBlock cache \<and> view base cache' = (view base cache)(op_hash out := Some c)"
proof -
  let ?h = "op_hash out" and ?n = "unat (op_n out)"
  let ?ys = "trim ((coins_vout c)[?n := CTxOut_null])"
  obtain m coins where m: "ModifyCoins base cache ?h = Ok (m, coins)" "live coins = live (spent c ?n)"
    "\<forall>coins'. \<exists>cache'. release m ?h coins' = Ok cache' \<and> cache_wf base cache' \<and> hashBlock cache' = hashBlock cache \<and>
       view base cache' = (view base cache)(?h := live (Cleanup coins'))"
    using modify_scope [OF assms(1)] assms(4) by metis
  have n: "?n < length (coins_vout c)" "\<not> CTxOut_IsNull (coins_vout c ! ?n)" using assms(3) by (auto simp: IsAvailable_def)
  have w: "\<not> CTxOut_IsNull (last (coins_vout c))" "\<forall>o'\<in>set (coins_vout c). CTxOut_IsNull o' \<longrightarrow> o' = CTxOut_null" "coins_nHeight c > 0"
    "length (coins_vout c) < 2 ^ 32" using assms(2) by (auto simp: coins_wf_def)
  note r = restore_vout [OF n(1) w(1,2)]
  have n1: "unat (op_n out + 1) = ?n + 1" using n(1) w(4) by (simp add: unat_word_ariths)
  have "ApplyTxInUndo base (undo_of c ?n) cache out = bindO (release m ?h c) (\<lambda>cache. Ok (cache, True))"
  proof (cases "IsPruned (spent c ?n)")
    case True
    then have y: "?ys = []" using spent_pruned [of c ?n] by simp
    have p: "IsPruned coins" using m(2) True by (simp add: live_def split: if_splits)
    have "(replicate (?n + 1) CTxOut_null)[?n := coins_vout c ! ?n] = coins_vout c" using r(1) unfolding y by simp
    note e = this
    have rc: "\<lparr>coins_fCoinBase = coins_fCoinBase c, coins_vout = coins_vout c, coins_nHeight = coins_nHeight c,
      coins_nVersion = coins_nVersion c\<rparr> = c" by (cases c) simp
    show ?thesis using e m(1) True p n1 w(3)
      by (simp add: ApplyTxInUndo_def undo_of_def Let_def assertO_def CCoins_Clear_def IsAvailable_def del: replicate_Suc)
        (simp only: rc)
  next
    case False
    then have p: "coins = spent c ?n" using m(2) by (simp add: live_def split: if_splits)
    define ys where "ys = ?ys"
    have v: "coins_vout (spent c ?n) = ys" by (simp add: ys_def)
    have a: "\<not> IsAvailable (spent c ?n) ?n" using r(2) by (simp add: IsAvailable_def)
    have o: "(if length ys < ?n + 1 then ys @ replicate (?n + 1 - length ys) CTxOut_null else ys)[?n := coins_vout c ! ?n] = coins_vout c"
      unfolding ys_def by (rule r(1))
    have c: "(spent c ?n)\<lparr>coins_vout := coins_vout c\<rparr> = c" by (simp add: spent_def Cleanup_def)
    show ?thesis
    proof (cases "length ys < ?n + 1")
      case True
      then show ?thesis using m(1) False p n1 a o
        by (simp add: ApplyTxInUndo_def undo_of_def Let_def assertO_def v del: spent_fields(4)) (simp only: c)
    next
      case ge: False
      then show ?thesis using m(1) False p n1 a o
        by (simp add: ApplyTxInUndo_def undo_of_def Let_def assertO_def v del: spent_fields(4)) (simp only: c)
    qed
  qed
  moreover obtain cache' where "release m ?h c = Ok cache'" "cache_wf base cache'" "hashBlock cache' = hashBlock cache"
    "view base cache' = (view base cache)(?h := live (Cleanup c))" using m(3) by blast
  moreover have "live (Cleanup c) = Some c"
    using n by (auto simp: Cleanup_wf [OF assms(2)] live_def IsPruned_def list_all_length)
  ultimately show ?thesis by simp
qed

subsection \<open>All inputs\<close>

text \<open>Spending on the map that a cache stands for; \<open>None\<close> when an output is missing.\<close>

fun view_spend ::
  "(uint256 \<Rightarrow> CCoins option) \<Rightarrow> CTxIn list \<Rightarrow> ((uint256 \<Rightarrow> CCoins option) \<times> CTxUndo) option" where
  "view_spend V [] = Some (V, [])"
| "view_spend V (txin # ins) =
     (case V (op_hash (prevout txin)) of
        None \<Rightarrow> None
      | Some c \<Rightarrow>
          if IsAvailable c (unat (op_n (prevout txin)))
          then (case view_spend (V(op_hash (prevout txin) := live (spent c (unat (op_n (prevout txin)))))) ins of
                  None \<Rightarrow> None
                | Some (V', undos) \<Rightarrow> Some (V', undo_of c (unat (op_n (prevout txin))) # undos))
          else None)"

lemma spend_inputs_ok:
  assumes "cache_wf base cache"
  shows "case view_spend (view base cache) ins of
      None \<Rightarrow> spend_inputs base cache ins = Abort
    | Some (V', undos) \<Rightarrow> \<exists>cache'. spend_inputs base cache ins = Ok (cache', undos) \<and> cache_wf base cache' \<and>
        hashBlock cache' = hashBlock cache \<and> view base cache' = V'"
  using assms
proof (induction ins arbitrary: cache)
  case (Cons txin ins)
  let ?h = "op_hash (prevout txin)" and ?n = "unat (op_n (prevout txin))"
  show ?case
  proof (cases "\<exists>c. view base cache ?h = Some c \<and> IsAvailable c ?n")
    case True
    then obtain c where c: "view base cache ?h = Some c" "IsAvailable c ?n" by blast
    from spend_input_ok [OF Cons.prems c(1)] c(2) obtain cache1 where c1: "spend_input base cache txin = Ok (cache1, undo_of c ?n)"
      "cache_wf base cache1" "hashBlock cache1 = hashBlock cache" "view base cache1 = (view base cache)(?h := live (spent c ?n))" by auto
    define V1 where "V1 = (view base cache)(?h := live (spent c ?n))"
    have "view base cache1 = V1" using c1(4) by (simp add: V1_def)
    then show ?thesis using Cons.IH [OF c1(2)] c c1(1,3) by (auto simp flip: V1_def split: option.splits)
  next
    case False
    then have "spend_input base cache txin = Abort" using spend_input_ok [OF Cons.prems, of txin] by (auto split: option.splits)
    then show ?thesis using False by (auto split: option.splits)
  qed
qed simp

lemma view_wf_spent: "view_wf V \<Longrightarrow> V k = Some c \<Longrightarrow> view_wf (V(k := live (spent c n)))"
  using live_spent_wf [of c n] by (simp add: view_wf_def)

lemma view_spend_wf: "view_wf V \<Longrightarrow> view_spend V ins = Some (V', undos) \<Longrightarrow> view_wf V'"
proof (induction ins arbitrary: V V' undos)
  case (Cons txin ins)
  then obtain c us where c: "V (op_hash (prevout txin)) = Some c"
    "view_spend (V(op_hash (prevout txin) := live (spent c (unat (op_n (prevout txin)))))) ins = Some (V', us)"
    by (auto split: option.splits if_splits)
  from Cons.IH [OF view_wf_spent [OF Cons.prems(1) c(1)] c(2)] show ?case .
qed simp

lemma length_view_spend: "view_spend V ins = Some (V', undos) \<Longrightarrow> length undos = length ins"
  by (induction ins arbitrary: V V' undos) (auto split: option.splits if_splits)

lemma restore_inputs_append:
  "restore_inputs base cache (xs @ ys) b = bindO (restore_inputs base cache xs b) (\<lambda>(cache, b). restore_inputs base cache ys b)"
proof (induction xs arbitrary: cache b)
  case (Cons x xs)
  show ?case
    by (cases x, cases "ApplyTxInUndo base (snd x) cache (prevout (fst x))") (auto simp: Cons split: prod.splits)
qed simp

lemma restore_inputs_ok:
  assumes "view_wf V" "view_spend V ins = Some (V', undos)" "cache_wf base cache" "view base cache = V'"
  shows "\<exists>cache'. restore_inputs base cache (rev (zip ins undos)) b = Ok (cache', b) \<and> cache_wf base cache' \<and>
    hashBlock cache' = hashBlock cache \<and> view base cache' = V"
  using assms
proof (induction ins arbitrary: V V' undos cache)
  case (Cons txin ins)
  let ?h = "op_hash (prevout txin)" and ?n = "unat (op_n (prevout txin))"
  obtain c us where c: "V ?h = Some c" "IsAvailable c ?n" "view_spend (V(?h := live (spent c ?n))) ins = Some (V', us)"
    "undos = undo_of c ?n # us" using Cons.prems(2) by (auto split: option.splits if_splits)
  have wf: "coins_wf c" using Cons.prems(1) c(1) by (simp add: view_wf_def)
  from Cons.IH [OF view_wf_spent [OF Cons.prems(1) c(1)] c(3) Cons.prems(3,4)] obtain cache1 where
    c1: "restore_inputs base cache (rev (zip ins us)) b = Ok (cache1, b)" "cache_wf base cache1" "hashBlock cache1 = hashBlock cache"
    "view base cache1 = V(?h := live (spent c ?n))" by blast
  from ApplyTxInUndo_ok [OF c1(2) wf c(2)] c1(4) obtain cache2 where
    c2: "ApplyTxInUndo base (undo_of c ?n) cache1 (prevout txin) = Ok (cache2, True)" "cache_wf base cache2" "hashBlock cache2 = hashBlock cache1"
    "view base cache2 = (view base cache1)(?h := Some c)" by auto
  have "view base cache2 = V" using c2(4) c1(4) c(1) by (simp add: fun_upd_idem)
  then show ?case using c1 c2 c(4) by (simp add: restore_inputs_append)
qed simp

subsection \<open>A transaction\<close>

lemma Cleanup_FromTx [simp]: "Cleanup (FromTx tx h) = FromTx tx h"
  by (simp add: FromTx_def ClearUnspendable_def)

definition view_update :: "(uint256 \<Rightarrow> CCoins option) \<Rightarrow> CTransaction \<Rightarrow> int \<Rightarrow> ((uint256 \<Rightarrow> CCoins option) \<times> CTxUndo) option" where
  "view_update V tx h =
     (case (if IsCoinBase tx then Some (V, []) else view_spend V (vin tx)) of
        None \<Rightarrow> None
      | Some (V', undos) \<Rightarrow> Some (V'(CTransaction_GetHash tx := live (FromTx tx h)), undos))"

lemma view_update_cases:
  assumes "view_update V tx h = Some (V', undos)"
  obtains V1 where "(if IsCoinBase tx then Some (V, []) else view_spend V (vin tx)) = Some (V1, undos)"
    "V' = V1(CTransaction_GetHash tx := live (FromTx tx h))"
  using assms by (auto simp: view_update_def split: option.splits)

lemma view_spend_None: "view_spend V ins = Some (V', undos) \<Longrightarrow> V k = None \<Longrightarrow> V' k = None"
proof (induction ins arbitrary: V V' undos)
  case (Cons txin ins)
  let ?h = "op_hash (prevout txin)" and ?n = "unat (op_n (prevout txin))"
  obtain c us where c: "V ?h = Some c" "view_spend (V(?h := live (spent c ?n))) ins = Some (V', us)"
    using Cons.prems(1) by (auto split: option.splits if_splits)
  have "k \<noteq> ?h" using c(1) Cons.prems(2) by auto
  then show ?case using Cons.IH [OF c(2)] Cons.prems(2) by simp
qed simp

lemma UpdateCoins_ok:
  assumes "cache_wf base cache" "IsCoinBase tx \<or> view base cache (CTransaction_GetHash tx) = None"
  shows "case view_update (view base cache) tx h of
      None \<Rightarrow> UpdateCoins base cache tx h = Abort
    | Some (V', undos) \<Rightarrow> \<exists>cache'. UpdateCoins base cache tx h = Ok (cache', undos) \<and> cache_wf base cache' \<and>
        hashBlock cache' = hashBlock cache \<and> view base cache' = V'"
proof -
  let ?id = "CTransaction_GetHash tx" and ?r = "if IsCoinBase tx then Some (view base cache, []) else view_spend (view base cache) (vin tx)"
  let ?m = "if \<not> IsCoinBase tx then spend_inputs base cache (vin tx) else Ok (cache, [])"
  have m: "case ?r of None \<Rightarrow> ?m = Abort | Some (V', undos) \<Rightarrow> \<exists>cache'. ?m = Ok (cache', undos) \<and> cache_wf base cache' \<and>
    hashBlock cache' = hashBlock cache \<and> view base cache' = V'"
    using spend_inputs_ok [OF assms(1), of "vin tx"] assms(1) by (auto split: option.splits)
  show ?thesis
  proof (cases ?r)
    case None
    then show ?thesis using m by (simp add: view_update_def UpdateCoins_def)
  next
    case (Some p)
    then obtain V1 undos where r: "?r = Some (V1, undos)" by (cases p) auto
    with m obtain cache1 where c1: "?m = Ok (cache1, undos)" "cache_wf base cache1" "hashBlock cache1 = hashBlock cache" "view base cache1 = V1" by auto
    have "IsCoinBase tx \<or> view base cache1 ?id = None"
      using assms(2) r c1(4) view_spend_None [of "view base cache" "vin tx" V1 undos ?id] by (auto split: if_splits)
    from ModifyNewCoins_ok [OF c1(2) this] obtain c2 where
      c2: "ModifyNewCoins cache1 ?id (IsCoinBase tx) = Ok (c2, CCoins_Clear)" "modifying base cache1 ?id c2" by blast
    from release_ok [OF c2(2), of "FromTx tx h"] obtain c3 where
      "release c2 ?id (FromTx tx h) = Ok c3" "cache_wf base c3" "hashBlock c3 = hashBlock cache1"
      "view base c3 = (view base cache1)(?id := live (FromTx tx h))" by auto
    then show ?thesis using c1 c2(1) r by (auto simp: view_update_def UpdateCoins_def)
  qed
qed

definition wipe :: "CTxOut \<Rightarrow> CTxOut" where
  "wipe txout = (if IsUnspendable (out_scriptPubKey txout) then CTxOut_null else txout)"

lemma wipe_wipe [simp]: "wipe (wipe txout) = wipe txout"
  by (simp add: wipe_def IsUnspendable_def CTxOut_null_def)

lemma ClearUnspendable_wipe: "ClearUnspendable c = Cleanup (c\<lparr>coins_vout := map wipe (coins_vout c)\<rparr>)"
  unfolding ClearUnspendable_def wipe_def by (rule refl)

lemma set_trim: "set (trim xs) \<subseteq> set xs"
  by (auto dest: set_dropWhileD)

lemma coins_vout_FromTx: "coins_vout (FromTx tx h) = trim (map wipe (vout tx))"
  by (simp add: FromTx_def ClearUnspendable_wipe Cleanup_def)

lemma ClearUnspendable_FromTx: "ClearUnspendable (FromTx tx h) = FromTx tx h"
proof -
  have "map wipe (coins_vout (FromTx tx h)) = coins_vout (FromTx tx h)"
    unfolding coins_vout_FromTx using set_trim [of "map wipe (vout tx)"] by (intro map_idI) auto
  then show ?thesis unfolding ClearUnspendable_wipe by simp
qed

lemma IsPruned_ClearUnspendable: "IsPruned c \<Longrightarrow> IsPruned (ClearUnspendable c)"
  unfolding ClearUnspendable_wipe IsPruned_Cleanup by (auto simp: IsPruned_def list_all_iff wipe_def)

lemma remove_outputs_ok:
  assumes "cache_wf base cache" "view base cache (CTransaction_GetHash tx) = live (FromTx tx h)"
  shows "\<exists>cache'. remove_outputs base cache tx h = Ok (cache', True) \<and> cache_wf base cache' \<and>
    hashBlock cache' = hashBlock cache \<and> view base cache' = (view base cache)(CTransaction_GetHash tx := None)"
proof -
  let ?id = "CTransaction_GetHash tx" and ?b = "FromTx tx h"
  obtain c coins where m: "ModifyCoins base cache ?id = Ok (c, coins)" "live coins = live ?b"
    "\<forall>coins'. \<exists>cache'. release c ?id coins' = Ok cache' \<and> cache_wf base cache' \<and> hashBlock cache' = hashBlock cache \<and>
       view base cache' = (view base cache)(?id := live (Cleanup coins'))"
    using modify_scope [OF assms(1)] assms(2) by metis
  let ?o = "ClearUnspendable coins"
  let ?outs = "if sint (coins_nVersion ?b) < 0 then ?o\<lparr>coins_nVersion := coins_nVersion ?b\<rparr> else ?o"
  have "CCoins_eq ?outs ?b"
  proof (cases "IsPruned ?b")
    case True
    then have "IsPruned coins" using m(2) by (simp add: live_def split: if_splits)
    then have "IsPruned ?o" by (rule IsPruned_ClearUnspendable)
    then show ?thesis using True by (simp add: CCoins_eq_def IsPruned_def)
  next
    case False
    then have "coins = ?b" using m(2) by (simp add: live_def split: if_splits)
    then show ?thesis by (simp add: CCoins_eq_def ClearUnspendable_FromTx)
  qed
  moreover obtain cache' where "release c ?id CCoins_Clear = Ok cache'" "cache_wf base cache'" "hashBlock cache' = hashBlock cache"
    "view base cache' = (view base cache)(?id := live (Cleanup CCoins_Clear))" using m(3) by blast
  moreover have "live (Cleanup CCoins_Clear) = None" by (simp add: live_def)
  ultimately show ?thesis using m(1) by (simp add: remove_outputs_def Let_def)
qed

text \<open>Outputs that \<open>CheckTransaction\<close> accepts.\<close>

definition outputs_ok :: "CTransaction \<Rightarrow> bool" where
  "outputs_ok tx \<longleftrightarrow> list_all (\<lambda>txout. 0 \<le> nValue txout) (vout tx) \<and> length (vout tx) < 2 ^ 32"

lemma FromTx_wf:
  assumes "outputs_ok tx" "0 < h" "live (FromTx tx h) = Some c"
  shows "coins_wf c"
proof -
  let ?xs = "map wipe (vout tx)"
  have c: "c = FromTx tx h" "\<not> IsPruned (FromTx tx h)" using assms(3) by (auto simp: live_def split: if_splits)
  then have v: "coins_vout c = trim ?xs" "coins_nHeight c = h"
    using coins_vout_FromTx [of tx h] by (simp, simp add: FromTx_def ClearUnspendable_def Cleanup_def)
  have "\<forall>o'\<in>set ?xs. CTxOut_IsNull o' \<longrightarrow> o' = CTxOut_null"
    using assms(1) by (auto simp: outputs_ok_def list_all_iff CTxOut_IsNull_def wipe_def)
  then have "\<forall>o'\<in>set (trim ?xs). CTxOut_IsNull o' \<longrightarrow> o' = CTxOut_null" using set_trim [of ?xs] by blast
  moreover have "trim ?xs \<noteq> []" using c v(1) by (metis IsPruned_def list.pred_inject(1))
  moreover have "length (trim ?xs) < 2 ^ 32"
    using assms(1) length_dropWhile_le [of CTxOut_IsNull "rev ?xs"] by (simp add: outputs_ok_def)
  ultimately show ?thesis using trim_last [of ?xs] assms(2) v by (simp add: coins_wf_def)
qed

lemma view_update_wf:
  assumes "view_wf V" "view_update V tx h = Some (V', undos)" "outputs_ok tx" "0 < h"
  shows "view_wf V'"
proof -
  obtain V1 where V1: "(if IsCoinBase tx then Some (V, []) else view_spend V (vin tx)) = Some (V1, undos)"
    "V' = V1(CTransaction_GetHash tx := live (FromTx tx h))" using view_update_cases [OF assms(2)] by blast
  have "view_wf V1" using V1(1) assms(1) view_spend_wf by (auto split: if_splits)
  then show ?thesis using V1(2) FromTx_wf [OF assms(3,4)] by (auto simp: view_wf_def)
qed

subsection \<open>A block\<close>

lemma SetBestBlock_ok [simp]: "cache_wf base (SetBestBlock cache h) = cache_wf base cache" "view base (SetBestBlock cache h) = view base cache"
  by (simp_all add: SetBestBlock_def cache_wf_def view_def fun_eq_iff)

text \<open>
  The transactions of a block are applied in order, with the undo data of each; the id of a
  transaction has no unspent outputs when its outputs are added.
\<close>

fun connected ::
  "(uint256 \<Rightarrow> CCoins option) \<Rightarrow> CTransaction list \<Rightarrow> int \<Rightarrow> (uint256 \<Rightarrow> CCoins option) \<Rightarrow> CTxUndo list \<Rightarrow> bool" where
  "connected V [] h V' undos \<longleftrightarrow> V' = V \<and> undos = []"
| "connected V (tx # txs) h V' undos \<longleftrightarrow>
     (\<exists>V1 u us. undos = u # us \<and> (if IsCoinBase tx then Some (V, u) else view_spend V (vin tx)) = Some (V1, u) \<and>
        V1 (CTransaction_GetHash tx) = None \<and> outputs_ok tx \<and>
        connected (V1(CTransaction_GetHash tx := live (FromTx tx h))) txs h V' us)"

lemma disconnect_loop_append:
  "disconnect_loop base cache (xs @ ys) h b =
     bindO (disconnect_loop base cache xs h b) (\<lambda>(cache, b). disconnect_loop base cache ys h b)"
proof (induction xs arbitrary: cache b)
  case (Cons x xs)
  obtain tx u where x: "x = (tx, u)" by (cases x)
  have a: "bindO (bindO m f) g = bindO m (\<lambda>x. bindO (f x) g)" for m and f :: "'x \<Rightarrow> 'y coins_result" and g :: "'y \<Rightarrow> 'z coins_result"
    by (cases m) auto
  show ?case unfolding x by (cases "remove_outputs base cache tx h"; cases u) (simp_all add: Cons a case_prod_unfold)
qed simp

lemma disconnect_tx_ok:
  assumes "view_wf V" "(if IsCoinBase tx then Some (V, undos) else view_spend V (vin tx)) = Some (V1, undos)" "V1 (CTransaction_GetHash tx) = None"
    and "cache_wf base cache" "view base cache = V1(CTransaction_GetHash tx := live (FromTx tx h))"
    and "u = (if IsCoinBase tx then None else Some undos)"
  shows "\<exists>cache'. disconnect_loop base cache [(tx, u)] h True = Ok (cache', True) \<and> cache_wf base cache' \<and>
    hashBlock cache' = hashBlock cache \<and> view base cache' = V"
proof -
  from remove_outputs_ok [OF assms(4), of tx h] assms(5) obtain c1 where
    c1: "remove_outputs base cache tx h = Ok (c1, True)" "cache_wf base c1" "hashBlock c1 = hashBlock cache" "view base c1 = V1"
    using assms(3) by (auto simp: fun_upd_idem)
  show ?thesis
  proof (cases "IsCoinBase tx")
    case True
    then show ?thesis using c1 assms(2,6) by auto
  next
    case False
    then have s: "view_spend V (vin tx) = Some (V1, undos)" using assms(2) by simp
    from restore_inputs_ok [OF assms(1) s c1(2,4), of True] show ?thesis
      using c1 False assms(6) length_view_spend [OF s] by auto
  qed
qed

lemma connected_wf:
  assumes "view_wf V" "(if IsCoinBase tx then Some (V, undos) else view_spend V (vin tx)) = Some (V1, undos)" "outputs_ok tx" "0 < h"
  shows "view_wf (V1(CTransaction_GetHash tx := live (FromTx tx h)))"
proof -
  have "view_wf V1" using assms(1,2) view_spend_wf by (auto split: if_splits)
  then show ?thesis using FromTx_wf [OF assms(3,4)] by (auto simp: view_wf_def)
qed

lemma length_connected: "connected V txs h V' undos \<Longrightarrow> length undos = length txs"
  by (induction txs arbitrary: V undos) auto

lemma disconnect_txs_ok:
  assumes "connected V txs h V' undos" "view_wf V" "0 < h" "list_all (\<lambda>tx. \<not> IsCoinBase tx) txs"
    and "cache_wf base cache" "view base cache = V'"
  shows "\<exists>cache'. disconnect_loop base cache (rev (zip txs (map Some undos))) h True = Ok (cache', True) \<and> cache_wf base cache' \<and>
    hashBlock cache' = hashBlock cache \<and> view base cache' = V"
  using assms
proof (induction txs arbitrary: V undos)
  case (Cons tx txs)
  let ?id = "CTransaction_GetHash tx"
  obtain V1 u us where u: "undos = u # us" "(if IsCoinBase tx then Some (V, u) else view_spend V (vin tx)) = Some (V1, u)"
    "V1 ?id = None" "outputs_ok tx" "connected (V1(?id := live (FromTx tx h))) txs h V' us" using Cons.prems(1) by auto
  define V2 where "V2 = V1(?id := live (FromTx tx h))"
  have V2: "connected V2 txs h V' us" "view_wf V2" using u(5) connected_wf [OF Cons.prems(2) u(2,4) Cons.prems(3)] by (simp_all add: V2_def)
  have cs: "list_all (\<lambda>tx. \<not> IsCoinBase tx) txs" "\<not> IsCoinBase tx" using Cons.prems(4) by simp_all
  from Cons.IH [OF V2 Cons.prems(3) cs(1) Cons.prems(5,6)] obtain c2 where
    c2: "disconnect_loop base cache (rev (zip txs (map Some us))) h True = Ok (c2, True)" "cache_wf base c2"
    "hashBlock c2 = hashBlock cache" "view base c2 = V2" by blast
  from disconnect_tx_ok [OF Cons.prems(2) u(2,3) c2(2), of h "Some u"] cs(2) c2(4) obtain c3 where
    "disconnect_loop base c2 [(tx, Some u)] h True = Ok (c3, True)" "cache_wf base c3" "hashBlock c3 = hashBlock c2" "view base c3 = V"
    by (auto simp: V2_def)
  then show ?case using c2 u(1) by (simp add: disconnect_loop_append del: disconnect_loop.simps)
qed simp

text \<open>
  Disconnecting a block with the undo data of its transactions leaves the unspent outputs of before,
  and reports a clean result.
\<close>

lemma DisconnectBlock_connected:
  assumes "connected V (coinbase # txs) h V' (u # us)" "view_wf V" "0 < h" "IsCoinBase coinbase" "list_all (\<lambda>tx. \<not> IsCoinBase tx) txs"
    and "cache_wf base cache" "view base cache = V'" "hashBlock cache = hash" "\<not> uint256_IsNull hash"
  shows "\<exists>cache'. DisconnectBlock (Some us) base_best base cache (coinbase # txs) hash prev_hash h = Ok (cache', True) \<and>
    cache_wf base cache' \<and> view base cache' = V \<and> hashBlock cache' = prev_hash"
proof -
  let ?id = "CTransaction_GetHash coinbase"
  define V2 where "V2 = V(?id := live (FromTx coinbase h))"
  have i: "V ?id = None" "outputs_ok coinbase" "connected V2 txs h V' us" using assms(1,4) by (auto simp: V2_def)
  have e: "(if IsCoinBase coinbase then Some (V, u) else view_spend V (vin coinbase)) = Some (V, u)" using assms(4) by simp
  have "view_wf V2" using connected_wf [OF assms(2) e i(2) assms(3)] by (simp add: V2_def)
  from disconnect_txs_ok [OF i(3) this assms(3,5,6,7)] obtain c3 where
    c3: "disconnect_loop base cache (rev (zip txs (map Some us))) h True = Ok (c3, True)" "cache_wf base c3" "view base c3 = V2" by blast
  from disconnect_tx_ok [OF assms(2) e i(1) c3(2), of h None] assms(4) c3(3) obtain c4 where
    c4: "disconnect_loop base c3 [(coinbase, None)] h True = Ok (c4, True)" "cache_wf base c4" "view base c4 = V" by (auto simp: V2_def)
  have "GetBestBlock base_best cache = (cache, hash)" using assms(8,9) by (auto simp: GetBestBlock_def)
  then have "DisconnectBlock (Some us) base_best base cache (coinbase # txs) hash prev_hash h = Ok (SetBestBlock c4 prev_hash, True)"
    using length_connected [OF i(3)] c3(1) c4(1) by (simp add: DisconnectBlock_def assertO_def disconnect_loop_append del: disconnect_loop.simps)
  then show ?thesis using c4(2,3) by (auto simp: SetBestBlock_def [THEN arg_cong [where f = hashBlock]])
qed

text \<open>A coin of value 5, a coinbase without spendable outputs and a transaction that spends the coin.\<close>

definition sample_coins :: coins_base where
  "sample_coins = [[7] \<mapsto> \<lparr>coins_fCoinBase = True, coins_vout = [CTxOut_null, \<lparr>nValue = 5, out_scriptPubKey = []\<rparr>], coins_nHeight = 3, coins_nVersion = 1\<rparr>]"

definition sample_cache :: CCoinsViewCache where
  "sample_cache = \<lparr>hasModifier = False, hashBlock = [], cacheCoins = []\<rparr>"

definition sample_coinbase :: CTransaction where
  "sample_coinbase = \<lparr>nVersion = 1, vin = [\<lparr>prevout = COutPoint_null, in_scriptSig = [], nSequence = 0, scriptWitness = []\<rparr>],
     vout = [\<lparr>nValue = 0, out_scriptPubKey = [of_nat OP_RETURN]\<rparr>], nLockTime = 0\<rparr>"

definition sample_spend :: CTransaction where
  "sample_spend = \<lparr>nVersion = 1, vin = [\<lparr>prevout = \<lparr>op_hash = [7], op_n = 1\<rparr>, in_scriptSig = [], nSequence = 0, scriptWitness = []\<rparr>],
     vout = [\<lparr>nValue = 4, out_scriptPubKey = []\<rparr>], nLockTime = 0\<rparr>"

lemma length_GetHash [simp]: "length (CTransaction_GetHash tx) = 32"
  by (simp add: CTransaction_GetHash_def SerializeHash_eq)

lemma sample_ok:
  "cache_wf sample_coins sample_cache" "view_wf (view sample_coins sample_cache)" "IsCoinBase sample_coinbase" "\<not> IsCoinBase sample_spend"
proof -
  have v: "view sample_coins sample_cache = sample_coins"
    by (auto simp: fun_eq_iff view_def sample_cache_def base_view_def sample_coins_def live_def IsPruned_def CTxOut_IsNull_def)
  show "cache_wf sample_coins sample_cache" by (simp add: cache_wf_def map_ok_def sample_cache_def)
  show "view_wf (view sample_coins sample_cache)"
    unfolding v by (auto simp: view_wf_def sample_coins_def coins_wf_def CTxOut_IsNull_def split: if_splits)
  show "IsCoinBase sample_coinbase"
    by (simp add: IsCoinBase_def sample_coinbase_def COutPoint_IsNull_def COutPoint_null_def uint256_IsNull_def list_all_length)
  show "\<not> IsCoinBase sample_spend" by (simp add: IsCoinBase_def sample_spend_def COutPoint_IsNull_def uint256_IsNull_def)
qed

end
