(* ===== verification/Tx_Checks.thy ===== *)
theory Tx_Checks
  imports Coins_Undo Verify_Script Interpreter_Softfork Versionbits Merkle
begin

unbundle bit_operations_syntax

text \<open>
  The checks of a transaction in \<^verbatim>\<open>src/src/validation.cpp\<close>: lock times, relative lock times, signature
  operations, \<open>CheckTransaction\<close>, \<open>CheckTxInputs\<close> and \<open>CheckInputs\<close>. A rejection carries the misbehaviour
  score and the reason of the \<open>CValidationState\<close>; a caller discards the coin cache of a rejected
  transaction, so the cache is a result of accepted ones only.
\<close>

datatype reject = DoS nat string | Invalid string

datatype val_exn = Coins_exn coins_exn | Tx_exn tx_exn | Uint_exn uint_exn | Merkle_error merkle_exn | Script_exn script_exn

type_synonym 'a val_result = "(reject, val_exn, 'a) outcome"

text \<open>Calls of functions of other components, none of which returns \<open>false\<close> where it is called.\<close>

definition call :: "('x \<Rightarrow> val_exn) \<Rightarrow> ('e, 'x, 'a) outcome \<Rightarrow> 'a val_result" where
  "call f r = (case r of Ok a \<Rightarrow> Ok a | Fail e \<Rightarrow> Abort | Throw x \<Rightarrow> Throw (f x) | Abort \<Rightarrow> Abort)"

definition reject_if :: "bool \<Rightarrow> reject \<Rightarrow> unit val_result" where
  "reject_if c r = (if c then Fail r else Ok ())"

lemma call_simps [simp]: "call f (Ok a) = Ok a" "call f (Throw x) = Throw (f x)" "call f Abort = Abort"
  by (simp_all add: call_def)

lemma call_eq [outcome_simps]: "call f r = Ok a \<longleftrightarrow> r = Ok a" "call f r \<noteq> Fail e" "call f r = Abort \<longleftrightarrow> r = Abort \<or> (\<exists>e. r = Fail e)"
  by (cases r; simp add: call_def)+

lemma reject_if_eq [outcome_simps]:
  "reject_if c r = Ok u \<longleftrightarrow> \<not> c" "reject_if c r = Fail r' \<longleftrightarrow> c \<and> r' = r" "reject_if c r \<noteq> Abort" "reject_if c r \<noteq> Throw x"
  by (auto simp: reject_if_def)

subsection \<open>Lock times\<close>

definition IsFinalTx :: "CTransaction \<Rightarrow> int \<Rightarrow> int \<Rightarrow> bool" where
  "IsFinalTx tx nBlockHeight nBlockTime =
     (if nLockTime tx = 0 then True
      else if uint (nLockTime tx) < (if uint (nLockTime tx) < int LOCKTIME_THRESHOLD then nBlockHeight else nBlockTime) then True
      else list_all (\<lambda>txin. nSequence txin = SEQUENCE_FINAL) (vin tx))"

abbreviation (input) LOCKTIME_VERIFY_SEQUENCE :: u32 where "LOCKTIME_VERIFY_SEQUENCE \<equiv> 1"
abbreviation (input) LOCKTIME_MEDIAN_TIME_PAST :: u32 where "LOCKTIME_MEDIAN_TIME_PAST \<equiv> 2"

text \<open>The loop over the inputs with the heights of their coins; the changed heights are returned.\<close>

fun sequence_loop ::
  "block_heap \<Rightarrow> ptr \<Rightarrow> (CTxIn \<times> int) list \<Rightarrow> int \<Rightarrow> int \<Rightarrow> ((int \<times> int) \<times> int list) uint_result" where
  "sequence_loop h block [] nMinHeight nMinTime = Ok ((nMinHeight, nMinTime), [])"
| "sequence_loop h block ((txin, nCoinHeight) # ins) nMinHeight nMinTime =
     (if nSequence txin AND of_nat SEQUENCE_LOCKTIME_DISABLE_FLAG \<noteq> 0 then
        bindO (sequence_loop h block ins nMinHeight nMinTime) (\<lambda>(r, prevHeights). Ok (r, 0 # prevHeights))
      else if nSequence txin AND SEQUENCE_LOCKTIME_TYPE_FLAG \<noteq> 0 then
        bindO (GetAncestor h block (max (nCoinHeight - 1) 0)) (\<lambda>a.
        case a of
          None \<Rightarrow> Abort
        | Some q \<Rightarrow>
            bindO (GetMedianTimePast h q) (\<lambda>nCoinTime.
            bindO (int64 (nCoinTime + uint (push_bit SEQUENCE_LOCKTIME_GRANULARITY (nSequence txin AND SEQUENCE_LOCKTIME_MASK)) - 1)) (\<lambda>t.
            bindO (sequence_loop h block ins nMinHeight (max nMinTime t)) (\<lambda>(r, prevHeights). Ok (r, nCoinHeight # prevHeights)))))
      else
        let t = nCoinHeight + uint (nSequence txin AND SEQUENCE_LOCKTIME_MASK) in
        bindO (assertO (t < 2 ^ 31)) (\<lambda>_.
        bindO (sequence_loop h block ins (max nMinHeight (t - 1)) nMinTime) (\<lambda>(r, prevHeights). Ok (r, nCoinHeight # prevHeights))))"

definition CalculateSequenceLocks ::
  "block_heap \<Rightarrow> CTransaction \<Rightarrow> u32 \<Rightarrow> int list \<Rightarrow> ptr \<Rightarrow> ((int \<times> int) \<times> int list) uint_result" where
  "CalculateSequenceLocks h tx flags prevHeights block =
     bindO (assertO (length prevHeights = length (vin tx))) (\<lambda>_.
     if \<not> (CMutableTransaction.nVersion tx \<ge> 2 \<and> has_flag flags LOCKTIME_VERIFY_SEQUENCE) then Ok ((-1, -1), prevHeights)
     else sequence_loop h block (zip (vin tx) prevHeights) (-1) (-1))"

definition EvaluateSequenceLocks :: "block_heap \<Rightarrow> ptr \<Rightarrow> int \<times> int \<Rightarrow> bool uint_result" where
  "EvaluateSequenceLocks h block lockPair =
     bindO (deref h block) (\<lambda>b.
     case pprev b of
       None \<Rightarrow> Abort
     | Some prev \<Rightarrow>
         bindO (GetMedianTimePast h prev) (\<lambda>nBlockTime.
         Ok (\<not> (fst lockPair \<ge> nHeight b \<or> snd lockPair \<ge> nBlockTime))))"

definition SequenceLocks :: "block_heap \<Rightarrow> CTransaction \<Rightarrow> u32 \<Rightarrow> int list \<Rightarrow> ptr \<Rightarrow> bool uint_result" where
  "SequenceLocks h tx flags prevHeights block =
     bindO (CalculateSequenceLocks h tx flags prevHeights block) (\<lambda>(lockPair, _). EvaluateSequenceLocks h block lockPair)"

subsection \<open>Signature operations\<close>

definition GetLegacySigOpCount :: "CTransaction \<Rightarrow> u32" where
  "GetLegacySigOpCount tx =
     (\<Sum>txin\<leftarrow>vin tx. of_nat (GetSigOpCount (in_scriptSig txin) False)) +
     (\<Sum>txout\<leftarrow>vout tx. of_nat (GetSigOpCount (out_scriptPubKey txout) False))"

fun p2sh_sigops :: "coins_base \<Rightarrow> CCoinsViewCache \<Rightarrow> CTxIn list \<Rightarrow> u32 \<Rightarrow> (CCoinsViewCache \<times> u32) coins_result" where
  "p2sh_sigops base inputs [] nSigOps = Ok (inputs, nSigOps)"
| "p2sh_sigops base inputs (txin # ins) nSigOps =
     bindO (GetOutputFor base inputs txin) (\<lambda>(inputs, txout).
     p2sh_sigops base inputs ins
       (if IsPayToScriptHash (out_scriptPubKey txout)
        then nSigOps + of_nat (GetSigOpCount_P2SH (out_scriptPubKey txout) (in_scriptSig txin)) else nSigOps))"

definition GetP2SHSigOpCount :: "coins_base \<Rightarrow> CCoinsViewCache \<Rightarrow> CTransaction \<Rightarrow> (CCoinsViewCache \<times> u32) coins_result" where
  "GetP2SHSigOpCount base inputs tx = (if IsCoinBase tx then Ok (inputs, 0) else p2sh_sigops base inputs (vin tx) 0)"

fun witness_sigops :: "coins_base \<Rightarrow> CCoinsViewCache \<Rightarrow> u32 \<Rightarrow> CTxIn list \<Rightarrow> int \<Rightarrow> (CCoinsViewCache \<times> int) val_result" where
  "witness_sigops base inputs flags [] nSigOps = Ok (inputs, nSigOps)"
| "witness_sigops base inputs flags (txin # ins) nSigOps =
     bindO (call Coins_exn (GetOutputFor base inputs txin)) (\<lambda>(inputs, txout).
     bindO (call Script_exn (CountWitnessSigOps (in_scriptSig txin) (out_scriptPubKey txout) (Some (scriptWitness txin)) flags)) (\<lambda>n.
     bindO (int64 (nSigOps + int n)) (\<lambda>nSigOps.
     witness_sigops base inputs flags ins nSigOps)))"

definition GetTransactionSigOpCost :: "coins_base \<Rightarrow> CCoinsViewCache \<Rightarrow> CTransaction \<Rightarrow> u32 \<Rightarrow> (CCoinsViewCache \<times> int) val_result" where
  "GetTransactionSigOpCost base inputs tx flags =
     (let nSigOps = uint (GetLegacySigOpCount tx * of_nat WITNESS_SCALE_FACTOR) in
      if IsCoinBase tx then Ok (inputs, nSigOps)
      else
        bindO (if has_flag flags SCRIPT_VERIFY_P2SH
               then bindO (call Coins_exn (GetP2SHSigOpCount base inputs tx)) (\<lambda>(inputs, n).
                 bindO (int64 (nSigOps + uint (n * of_nat WITNESS_SCALE_FACTOR))) (\<lambda>nSigOps. Ok (inputs, nSigOps)))
               else Ok (inputs, nSigOps)) (\<lambda>(inputs, nSigOps).
        witness_sigops base inputs flags (vin tx) nSigOps))"

subsection \<open>Checks without context\<close>

text \<open>
  The rule for the second output of a coinbase depends on the script of the developer's address,
  which \<open>CBitcoinAddress\<close> decodes, on the height of the active chain, and on a comparison of
  \<open>vout[1].nValue\<close> with \<open>vout[0].nValue / (4 + 1e-5)\<close> as floating-point numbers.
\<close>

record developer_rule =
  developerCScript :: CScript
  active_height :: int
  fund_too_small :: "CAmount \<Rightarrow> CAmount \<Rightarrow> bool"

fun check_values :: "CTxOut list \<Rightarrow> CAmount \<Rightarrow> unit val_result" where
  "check_values [] nValueOut = Ok ()"
| "check_values (txout # outs) nValueOut =
     bindO (reject_if (nValue txout < 0) (DoS 100 ''bad-txns-vout-negative'')) (\<lambda>_.
     bindO (reject_if (nValue txout > MAX_MONEY) (DoS 100 ''bad-txns-vout-toolarge'')) (\<lambda>_.
     bindO (int64 (nValueOut + nValue txout)) (\<lambda>nValueOut.
     bindO (reject_if (\<not> MoneyRange nValueOut) (DoS 100 ''bad-txns-txouttotal-toolarge'')) (\<lambda>_.
     check_values outs nValueOut))))"

definition check_coinbase :: "developer_rule \<Rightarrow> CTransaction \<Rightarrow> unit val_result" where
  "check_coinbase dev tx =
     bindO (reject_if (length (in_scriptSig (vin tx ! 0)) < 2 \<or> length (in_scriptSig (vin tx ! 0)) > 100) (DoS 100 ''bad-cb-length'')) (\<lambda>_.
     if active_height dev \<ge> 17000 then
       bindO (reject_if (length (vout tx) < 2) (DoS 100 ''bad-txns-vout-sizeinvalid'')) (\<lambda>_.
       bindO (reject_if (out_scriptPubKey (vout tx ! 1) \<noteq> developerCScript dev) (DoS 100 ''bad-txns-vout-fundoutputinvalid'')) (\<lambda>_.
       reject_if (fund_too_small dev (nValue (vout tx ! 1)) (nValue (vout tx ! 0))) (DoS 100 ''bad-txns-vout-fundoutputtoosmall'')))
     else Ok ())"

definition CheckTransaction :: "developer_rule \<Rightarrow> CTransaction \<Rightarrow> bool \<Rightarrow> unit val_result" where
  "CheckTransaction dev tx fCheckDuplicateInputs =
     bindO (reject_if (vin tx = []) (DoS 10 ''bad-txns-vin-empty'')) (\<lambda>_.
     bindO (reject_if (vout tx = []) (DoS 10 ''bad-txns-vout-empty'')) (\<lambda>_.
     bindO (reject_if (length (SerializeTransaction False tx) > MAX_BLOCK_BASE_SIZE) (DoS 100 ''bad-txns-oversize'')) (\<lambda>_.
     bindO (check_values (vout tx) 0) (\<lambda>_.
     bindO (reject_if (fCheckDuplicateInputs \<and> \<not> distinct (map prevout (vin tx))) (DoS 100 ''bad-txns-inputs-duplicate'')) (\<lambda>_.
     if IsCoinBase tx then check_coinbase dev tx
     else reject_if (list_ex (\<lambda>txin. COutPoint_IsNull (prevout txin)) (vin tx)) (DoS 10 ''bad-txns-prevout-null''))))))"

subsection \<open>Checks of the inputs\<close>

definition COINBASE_MATURITY :: int where "COINBASE_MATURITY = 100"

fun input_values ::
  "coins_base \<Rightarrow> CCoinsViewCache \<Rightarrow> int \<Rightarrow> CTxIn list \<Rightarrow> CAmount \<Rightarrow> (CCoinsViewCache \<times> CAmount) val_result" where
  "input_values base inputs nSpendHeight [] nValueIn = Ok (inputs, nValueIn)"
| "input_values base inputs nSpendHeight (txin # ins) nValueIn =
     (let n = unat (op_n (prevout txin)) in
      case AccessCoins base inputs (op_hash (prevout txin)) of
        (inputs, None) \<Rightarrow> Abort
      | (inputs, Some coins) \<Rightarrow>
          bindO (reject_if (coins_fCoinBase coins \<and> nSpendHeight - coins_nHeight coins < COINBASE_MATURITY)
                  (Invalid ''bad-txns-premature-spend-of-coinbase'')) (\<lambda>_.
          bindO (assertO (n < length (coins_vout coins))) (\<lambda>_.
          bindO (int64 (nValueIn + nValue (coins_vout coins ! n))) (\<lambda>nValueIn.
          bindO (reject_if (\<not> MoneyRange (nValue (coins_vout coins ! n)) \<or> \<not> MoneyRange nValueIn)
                  (DoS 100 ''bad-txns-inputvalues-outofrange'')) (\<lambda>_.
          input_values base inputs nSpendHeight ins nValueIn)))))"

definition CheckTxInputs :: "coins_base \<Rightarrow> CCoinsViewCache \<Rightarrow> CTransaction \<Rightarrow> int \<Rightarrow> CCoinsViewCache val_result" where
  "CheckTxInputs base inputs tx nSpendHeight =
     (let (inputs, have_inputs) = HaveInputs base inputs tx in
      bindO (reject_if (\<not> have_inputs) (Invalid '''')) (\<lambda>_.
      bindO (input_values base inputs nSpendHeight (vin tx) 0) (\<lambda>(inputs, nValueIn).
      bindO (call Tx_exn (GetValueOut tx)) (\<lambda>nValueOut.
      bindO (reject_if (nValueIn < nValueOut) (DoS 100 ''bad-txns-in-belowout'')) (\<lambda>_.
      bindO (int64 (nValueIn - nValueOut)) (\<lambda>nTxFee.
      bindO (reject_if (nTxFee < 0) (DoS 100 ''bad-txns-fee-negative'')) (\<lambda>_.
      bindO (reject_if (\<not> MoneyRange nTxFee) (DoS 100 ''bad-txns-fee-outofrange'')) (\<lambda>_.
      Ok inputs))))))))"

text \<open>
  \<open>CScriptCheck\<close> and the loop of \<open>CheckInputs\<close> when the scripts are run at once, with \<open>pvChecks\<close> null.
  With worker threads the same checks are made later, and a failure rejects the block. The
  signature cache is left out: it only remembers signatures that \<open>Verify\<close> accepted.
\<close>

record signature_env =
  sig_CheckLowS :: "valtype \<Rightarrow> bool"
  sig_Verify :: "CPubKey \<Rightarrow> uint256 \<Rightarrow> valtype \<Rightarrow> bool"

definition CScriptCheck :: "signature_env \<Rightarrow> CCoins \<Rightarrow> CTransaction \<Rightarrow> nat \<Rightarrow> u32 \<Rightarrow> unit script_result" where
  "CScriptCheck sigs txFrom txTo nIn nFlags =
     (let txin = vin txTo ! nIn;
          n = unat (op_n (prevout txin)) in
      bindO (assertO (n < length (coins_vout txFrom))) (\<lambda>_.
      VerifyScript (sig_CheckLowS sigs) (in_scriptSig txin) (out_scriptPubKey (coins_vout txFrom ! n)) (Some (scriptWitness txin)) nFlags
        (TransactionSignatureChecker (sig_Verify sigs) txTo nIn (nValue (coins_vout txFrom ! n)) (Some (PrecomputedTransactionData_of txTo)))))"

definition script_verdict :: "signature_env \<Rightarrow> CCoins \<Rightarrow> CTransaction \<Rightarrow> nat \<Rightarrow> u32 \<Rightarrow> unit val_result" where
  "script_verdict sigs coins tx i flags =
     (case CScriptCheck sigs coins tx i flags of
        Fail e \<Rightarrow>
          (let mandatory = DoS 100 (''mandatory-script-verify-flag-failed ('' @ ScriptErrorString e @ '')'') in
           if has_flag flags STANDARD_NOT_MANDATORY_VERIFY_FLAGS then
             (case CScriptCheck sigs coins tx i (flags AND NOT STANDARD_NOT_MANDATORY_VERIFY_FLAGS) of
                Ok _ \<Rightarrow> Fail (Invalid (''non-mandatory-script-verify-flag ('' @ ScriptErrorString e @ '')''))
              | Fail _ \<Rightarrow> Fail mandatory
              | Throw x \<Rightarrow> Throw (Script_exn x)
              | Abort \<Rightarrow> Abort)
           else Fail mandatory)
      | r \<Rightarrow> call Script_exn r)"

fun script_loop :: "signature_env \<Rightarrow> coins_base \<Rightarrow> CCoinsViewCache \<Rightarrow> CTransaction \<Rightarrow> u32 \<Rightarrow> nat list \<Rightarrow> CCoinsViewCache val_result" where
  "script_loop sigs base inputs tx flags [] = Ok inputs"
| "script_loop sigs base inputs tx flags (i # is) =
     (case AccessCoins base inputs (op_hash (prevout (vin tx ! i))) of
        (inputs, None) \<Rightarrow> Abort
      | (inputs, Some coins) \<Rightarrow>
          bindO (script_verdict sigs coins tx i flags) (\<lambda>_. script_loop sigs base inputs tx flags is))"

definition GetSpendHeight :: "block_tree \<Rightarrow> uint256 \<Rightarrow> CCoinsViewCache \<Rightarrow> (CCoinsViewCache \<times> int) uint_result" where
  "GetSpendHeight st base_best inputs =
     (let (inputs, best) = GetBestBlock base_best inputs in
      case mapBlockIndex st best of
        None \<Rightarrow> Abort
      | Some p \<Rightarrow> bindO (deref (entries st) p) (\<lambda>pindexPrev. Ok (inputs, nHeight pindexPrev + 1)))"

definition CheckInputs ::
  "signature_env \<Rightarrow> block_tree \<Rightarrow> uint256 \<Rightarrow> coins_base \<Rightarrow> CCoinsViewCache \<Rightarrow> CTransaction \<Rightarrow> bool \<Rightarrow> u32 \<Rightarrow> CCoinsViewCache val_result" where
  "CheckInputs sigs st base_best base inputs tx fScriptChecks flags =
     (if IsCoinBase tx then Ok inputs
      else
        bindO (call Uint_exn (GetSpendHeight st base_best inputs)) (\<lambda>(inputs, nSpendHeight).
        bindO (CheckTxInputs base inputs tx nSpendHeight) (\<lambda>inputs.
        if fScriptChecks then script_loop sigs base inputs tx flags [0..<length (vin tx)] else Ok inputs)))"

end
