(* ===== verification/Tx_Inputs.thy ===== *)
theory Tx_Inputs
  imports Tx_Checks
begin

text \<open>
  What the checks of the inputs of a transaction decide, in terms of the map of unspent outputs that a
  coin cache stands for. Reading through a cache changes the cache but not this map.
\<close>

subsection \<open>Reading through a cache\<close>

text \<open>
  Transactions whose unspent outputs are visible in the cache itself: there, \<open>ModifyNewCoins\<close> notices
  an existing transaction.
\<close>

definition cached :: "coins_base \<Rightarrow> CCoinsViewCache \<Rightarrow> uint256 \<Rightarrow> bool" where
  "cached base cache k \<longleftrightarrow> base_view base k = None \<or> map_of (cacheCoins cache) k \<noteq> None"

definition reads :: "coins_base \<Rightarrow> CCoinsViewCache \<Rightarrow> CCoinsViewCache \<Rightarrow> bool" where
  "reads base cache cache' \<longleftrightarrow> cache_wf base cache' \<and> view base cache' = view base cache \<and>
     (\<not> uint256_IsNull (hashBlock cache) \<longrightarrow> hashBlock cache' = hashBlock cache) \<and> (\<forall>k. cached base cache k \<longrightarrow> cached base cache' k)"

lemma reads_refl: "cache_wf base cache \<Longrightarrow> reads base cache cache"
  by (simp add: reads_def)

lemma reads_trans [trans]: "reads base c1 c2 \<Longrightarrow> reads base c2 c3 \<Longrightarrow> reads base c1 c3"
  by (auto simp: reads_def)

lemma readsD: "reads base c1 c2 \<Longrightarrow> cache_wf base c2" "reads base c1 c2 \<Longrightarrow> view base c2 = view base c1"
  "reads base c1 c2 \<Longrightarrow> \<not> uint256_IsNull (hashBlock c1) \<Longrightarrow> hashBlock c2 = hashBlock c1" "reads base c1 c2 \<Longrightarrow> cached base c1 k \<Longrightarrow> cached base c2 k"
  by (simp_all add: reads_def)

lemma AccessCoins_reads:
  assumes "cache_wf base cache"
  obtains cache' r where "AccessCoins base cache txid = (cache', r)" "reads base cache cache'" "view base cache txid = Option.bind r live"
    "cached base cache' txid"
proof -
  obtain cache' r where a: "AccessCoins base cache txid = (cache', r)" by (cases "AccessCoins base cache txid")
  have "(\<forall>k. cached base cache k \<longrightarrow> cached base cache' k) \<and> cached base cache' txid"
    using a by (auto simp: AccessCoins_def FetchCoins_def cached_def base_view_def Let_def split: option.splits if_splits)
  then have "reads base cache cache'" "cached base cache' txid" using AccessCoins_ok [OF assms a] by (auto simp: reads_def)
  then show thesis using that a AccessCoins_ok(3) [OF assms a] by blast
qed

lemma live_SomeD: "live c = Some c' \<Longrightarrow> c' = c" "live c = Some c' \<Longrightarrow> \<not> IsPruned c"
  by (auto simp: live_def split: if_splits)

lemma IsAvailable_live: "IsAvailable c n \<Longrightarrow> live c = Some c"
  by (auto simp: live_def IsPruned_def IsAvailable_def list_all_length)

text \<open>The unspent output an input refers to.\<close>

definition output_of :: "(uint256 \<Rightarrow> CCoins option) \<Rightarrow> COutPoint \<Rightarrow> CTxOut option" where
  "output_of V out =
     (case V (op_hash out) of
        None \<Rightarrow> None
      | Some c \<Rightarrow> if IsAvailable c (unat (op_n out)) then Some (coins_vout c ! unat (op_n out)) else None)"

abbreviation available :: "(uint256 \<Rightarrow> CCoins option) \<Rightarrow> CTxIn \<Rightarrow> bool" where
  "available V txin \<equiv> output_of V (prevout txin) \<noteq> None"

definition value_of :: "(uint256 \<Rightarrow> CCoins option) \<Rightarrow> COutPoint \<Rightarrow> CAmount" where
  "value_of V out = (case output_of V out of None \<Rightarrow> 0 | Some txout \<Rightarrow> nValue txout)"

abbreviation value_in :: "(uint256 \<Rightarrow> CCoins option) \<Rightarrow> CTxIn list \<Rightarrow> CAmount" where
  "value_in V ins \<equiv> (\<Sum>txin\<leftarrow>ins. value_of V (prevout txin))"

lemma bind_live: "Option.bind r live = Some c \<longleftrightarrow> r = Some c \<and> \<not> IsPruned c"
  by (cases r) (auto simp: live_def)

lemma available_access:
  assumes "view base cache (op_hash out) = Option.bind r live"
  shows "output_of (view base cache) out \<noteq> None \<longleftrightarrow> (\<exists>coins. r = Some coins \<and> IsAvailable coins (unat (op_n out)))"
  using assms by (cases r) (auto simp: output_of_def live_def IsPruned_def IsAvailable_def list_all_length)

lemma output_access:
  assumes "view base cache (op_hash out) = Option.bind (Some coins) live" "IsAvailable coins (unat (op_n out))"
  shows "output_of (view base cache) out = Some (coins_vout coins ! unat (op_n out))"
  using assms by (simp add: output_of_def IsAvailable_live)

lemma HaveInputs_loop_reads:
  "cache_wf base cache \<Longrightarrow> \<exists>cache'. HaveInputs_loop base cache ins = (cache', list_all (available (view base cache)) ins) \<and> reads base cache cache'"
proof (induction ins arbitrary: cache)
  case (Cons txin ins)
  from AccessCoins_reads [OF Cons.prems] obtain c r where
    a: "AccessCoins base cache (op_hash (prevout txin)) = (c, r)" "reads base cache c" "view base cache (op_hash (prevout txin)) = Option.bind r live"
    by blast
  have av: "available (view base cache) txin \<longleftrightarrow> (\<exists>coins. r = Some coins \<and> IsAvailable coins (unat (op_n (prevout txin))))"
    by (rule available_access [OF a(3)])
  from Cons.IH [OF readsD(1) [OF a(2)]] obtain c' where
    "HaveInputs_loop base c ins = (c', list_all (available (view base cache)) ins)" "reads base c c'"
    using readsD(2) [OF a(2)] by auto
  then show ?case using a(1,2) av by (cases r) (auto intro: reads_trans)
qed (auto intro: reads_refl)

lemma HaveInputs_reads:
  assumes "cache_wf base cache"
  obtains cache' where "HaveInputs base cache tx = (cache', IsCoinBase tx \<or> list_all (available (view base cache)) (vin tx))" "reads base cache cache'"
  using HaveInputs_loop_reads [OF assms, of "vin tx"] reads_refl [OF assms]
  by (cases "IsCoinBase tx") (auto simp: HaveInputs_def)

lemma GetOutputFor_reads:
  assumes "cache_wf base cache" "output_of (view base cache) (prevout txin) = Some txout"
  obtains cache' where "GetOutputFor base cache txin = Ok (cache', txout)" "reads base cache cache'"
proof -
  from AccessCoins_reads [OF assms(1)] obtain c r where
    a: "AccessCoins base cache (op_hash (prevout txin)) = (c, r)" "reads base cache c" "view base cache (op_hash (prevout txin)) = Option.bind r live"
    by blast
  from available_access [OF a(3)] assms(2) obtain coins where r: "r = Some coins" "IsAvailable coins (unat (op_n (prevout txin)))" by auto
  then have "txout = coins_vout coins ! unat (op_n (prevout txin))" using output_access [of base cache "prevout txin" coins] a(3) assms(2) by simp
  then show thesis using a(1,2) r by (intro that) (simp_all add: GetOutputFor_def assertO_def)
qed


lemma GetOutputFor_Ok:
  assumes "cache_wf base cache" "GetOutputFor base cache txin = Ok (cache', txout)"
  shows "reads base cache cache'" "output_of (view base cache) (prevout txin) = Some txout"
proof -
  have "output_of (view base cache) (prevout txin) \<noteq> None"
  proof
    assume n: "output_of (view base cache) (prevout txin) = None"
    from AccessCoins_reads [OF assms(1)] obtain c r where
      a: "AccessCoins base cache (op_hash (prevout txin)) = (c, r)" "view base cache (op_hash (prevout txin)) = Option.bind r live" by blast
    then have "GetOutputFor base cache txin = Abort"
      using available_access [OF a(2)] n by (cases r) (auto simp: GetOutputFor_def assertO_def)
    then show False using assms(2) by simp
  qed
  then obtain o' where o: "output_of (view base cache) (prevout txin) = Some o'" by blast
  from GetOutputFor_reads [OF assms(1) o] assms(2) show "reads base cache cache'" "output_of (view base cache) (prevout txin) = Some txout"
    using o by auto
qed

lemma GetValueIn_loop_Ok:
  "cache_wf base cache \<Longrightarrow> GetValueIn_loop base cache ins acc = Ok (cache', v) \<Longrightarrow> reads base cache cache' \<and> v = acc + value_in (view base cache) ins"
proof (induction ins arbitrary: cache acc)
  case (Cons txin ins)
  then obtain c txout where a: "GetOutputFor base cache txin = Ok (c, txout)" "GetValueIn_loop base c ins (acc + nValue txout) = Ok (cache', v)"
    by (auto simp: outcome_simps int64_def split: if_splits)
  note g = GetOutputFor_Ok [OF Cons.prems(1) a(1)]
  show ?case using Cons.IH [OF readsD(1) [OF g(1)] a(2)] readsD(2) [OF g(1)] g(2) reads_trans [OF g(1)] by (simp add: value_of_def)
qed (auto intro: reads_refl)

lemma p2sh_sigops_Ok:
  "cache_wf base cache \<Longrightarrow> p2sh_sigops base cache ins acc = Ok (cache', n) \<Longrightarrow> reads base cache cache'"
proof (induction ins arbitrary: cache acc)
  case (Cons txin ins)
  then obtain c txout acc' where a: "GetOutputFor base cache txin = Ok (c, txout)" "p2sh_sigops base c ins acc' = Ok (cache', n)"
    by (auto simp: outcome_simps)
  note g = GetOutputFor_Ok [OF Cons.prems(1) a(1)]
  show ?case using Cons.IH [OF readsD(1) [OF g(1)] a(2)] g(1) reads_trans by blast
qed (auto intro: reads_refl)

lemma witness_sigops_Ok:
  "cache_wf base cache \<Longrightarrow> witness_sigops base cache flags ins acc = Ok (cache', n) \<Longrightarrow> reads base cache cache'"
proof (induction ins arbitrary: cache acc)
  case (Cons txin ins)
  then obtain c txout acc' where a: "GetOutputFor base cache txin = Ok (c, txout)" "witness_sigops base c flags ins acc' = Ok (cache', n)"
    by (auto simp: outcome_simps)
  note g = GetOutputFor_Ok [OF Cons.prems(1) a(1)]
  show ?case using Cons.IH [OF readsD(1) [OF g(1)] a(2)] g(1) reads_trans by blast
qed (auto intro: reads_refl)

lemma GetTransactionSigOpCost_Ok:
  assumes "cache_wf base cache" "GetTransactionSigOpCost base cache tx flags = Ok (cache', n)"
  shows "reads base cache cache'"
proof (cases "IsCoinBase tx")
  case True
  then show ?thesis using assms by (simp add: GetTransactionSigOpCost_def reads_refl)
next
  case False
  then obtain c k where w: "witness_sigops base c flags (vin tx) k = Ok (cache', n)"
    and c: "c = cache \<or> (\<exists>m. p2sh_sigops base cache (vin tx) 0 = Ok (c, m))"
    using assms(2) by (auto simp: GetTransactionSigOpCost_def GetP2SHSigOpCount_def Let_def outcome_simps split: if_splits)
  have "reads base cache c" using c assms(1) p2sh_sigops_Ok reads_refl by blast
  then show ?thesis using witness_sigops_Ok [OF readsD(1) w] reads_trans by blast
qed

text \<open>The coins an input spends are old enough.\<close>

definition mature :: "(uint256 \<Rightarrow> CCoins option) \<Rightarrow> int \<Rightarrow> CTxIn \<Rightarrow> bool" where
  "mature V h txin \<longleftrightarrow> (\<forall>c. V (op_hash (prevout txin)) = Some c \<longrightarrow> coins_fCoinBase c \<longrightarrow> h - coins_nHeight c \<ge> COINBASE_MATURITY)"

text \<open>The input loop accepts exactly mature coins with values in range, whose sum stays in range.\<close>

lemma input_values_step:
  assumes "cache_wf base cache" "output_of (view base cache) (prevout txin) = Some txout"
  obtains c where "reads base cache c"
    "input_values base cache h (txin # ins) acc =
       (if \<not> mature (view base cache) h txin then Fail (Invalid ''bad-txns-premature-spend-of-coinbase'')
        else bindO (int64 (acc + nValue txout)) (\<lambda>v.
          if \<not> MoneyRange (nValue txout) \<or> \<not> MoneyRange v then Fail (DoS 100 ''bad-txns-inputvalues-outofrange'')
          else input_values base c h ins v))"
proof -
  let ?o = "prevout txin"
  from AccessCoins_reads [OF assms(1)] obtain c r where
    a: "AccessCoins base cache (op_hash ?o) = (c, r)" "reads base cache c" "view base cache (op_hash ?o) = Option.bind r live" by blast
  from available_access [OF a(3)] assms(2) obtain coins where r: "r = Some coins" "IsAvailable coins (unat (op_n ?o))" by auto
  have t: "txout = coins_vout coins ! unat (op_n ?o)" using output_access [of base cache ?o coins] a(3) assms(2) r by simp
  have "view base cache (op_hash ?o) = Some coins" using a(3) r IsAvailable_live by simp
  then have m: "mature (view base cache) h txin \<longleftrightarrow> \<not> (coins_fCoinBase coins \<and> h - coins_nHeight coins < COINBASE_MATURITY)"
    by (auto simp: mature_def)
  have n: "unat (op_n ?o) < length (coins_vout coins)" using r(2) by (simp add: IsAvailable_def)
  show thesis
    by (rule that [OF a(2)]) (auto simp: a(1) r(1) m t n Let_def reject_if_def assertO_def intro: bindO_cong)
qed


lemma MoneyRange_int64: "MoneyRange a \<Longrightarrow> MoneyRange b \<Longrightarrow> int64 (a + b) = Ok (a + b)" "MoneyRange a \<Longrightarrow> MoneyRange b \<Longrightarrow> int64 (a - b) = Ok (a - b)"
  by (simp_all add: MoneyRange_def int64_def MAX_MONEY_def COIN_def int_limits)

text \<open>The values of the unspent outputs are in range.\<close>

definition coins_typed :: "CCoins \<Rightarrow> bool" where
  "coins_typed c \<longleftrightarrow> coins_wf c \<and> (\<forall>txout\<in>set (coins_vout c). CTxOut_IsNull txout \<or> MoneyRange (nValue txout))"

definition view_typed :: "(uint256 \<Rightarrow> CCoins option) \<Rightarrow> bool" where
  "view_typed V \<longleftrightarrow> (\<forall>k c. V k = Some c \<longrightarrow> coins_typed c)"

lemma value_of_range: "view_typed V \<Longrightarrow> MoneyRange (value_of V out)"
  by (auto simp: view_typed_def coins_typed_def value_of_def output_of_def IsAvailable_def MoneyRange_def MAX_MONEY_def COIN_def
      dest!: nth_mem split: option.splits)

lemma value_of_output: "output_of V out = Some txout \<Longrightarrow> value_of V out = nValue txout"
  by (simp add: value_of_def)

lemma value_in_nonneg: "\<forall>txin\<in>set ins. MoneyRange (value_of V (prevout txin)) \<Longrightarrow> 0 \<le> value_in V ins"
  by (induction ins) (auto simp: MoneyRange_def)

lemma input_values_Ok:
  assumes "cache_wf base cache" "list_all (available (view base cache)) ins" "MoneyRange acc"
  shows "input_values base cache h ins acc = Ok (cache', v) \<Longrightarrow> reads base cache cache'"
    "(\<exists>cache'. input_values base cache h ins acc = Ok (cache', v)) \<longleftrightarrow>
      list_all (mature (view base cache) h) ins \<and> (\<forall>txin\<in>set ins. MoneyRange (value_of (view base cache) (prevout txin))) \<and>
      v = acc + value_in (view base cache) ins \<and> MoneyRange v"
proof -
  have "(\<forall>cache' v. input_values base cache h ins acc = Ok (cache', v) \<longrightarrow> reads base cache cache') \<and>
    (\<forall>v. (\<exists>cache'. input_values base cache h ins acc = Ok (cache', v)) \<longleftrightarrow>
      list_all (mature (view base cache) h) ins \<and> (\<forall>txin\<in>set ins. MoneyRange (value_of (view base cache) (prevout txin))) \<and>
      v = acc + value_in (view base cache) ins \<and> MoneyRange v)"
    using assms
  proof (induction ins arbitrary: cache acc)
    case Nil
    then show ?case by (auto intro: reads_refl)
  next
    case (Cons txin ins)
    let ?V = "view base cache"
    obtain txout where o: "output_of ?V (prevout txin) = Some txout" using Cons.prems(2) by auto
    note v = value_of_output [OF o]
    from input_values_step [OF Cons.prems(1) o, of h ins acc] obtain c where c: "reads base cache c"
      "input_values base cache h (txin # ins) acc =
       (if \<not> mature ?V h txin then Fail (Invalid ''bad-txns-premature-spend-of-coinbase'')
        else bindO (int64 (acc + nValue txout)) (\<lambda>v.
          if \<not> MoneyRange (nValue txout) \<or> \<not> MoneyRange v then Fail (DoS 100 ''bad-txns-inputvalues-outofrange'')
          else input_values base c h ins v))" by blast
    show ?case
    proof (cases "mature ?V h txin \<and> MoneyRange (nValue txout) \<and> MoneyRange (acc + nValue txout)")
      case True
      then have e: "input_values base cache h (txin # ins) acc = input_values base c h ins (acc + nValue txout)"
        unfolding c(2) using Cons.prems(3) by (simp add: MoneyRange_int64(1))
      have "cache_wf base c" "view base c = ?V" using readsD [OF c(1)] by simp_all
      then have IH: "(\<forall>cache' v. input_values base c h ins (acc + nValue txout) = Ok (cache', v) \<longrightarrow> reads base c cache') \<and>
        (\<forall>v. (\<exists>cache'. input_values base c h ins (acc + nValue txout) = Ok (cache', v)) \<longleftrightarrow>
          list_all (mature ?V h) ins \<and> (\<forall>txin\<in>set ins. MoneyRange (value_of ?V (prevout txin))) \<and>
          v = acc + nValue txout + value_in ?V ins \<and> MoneyRange v)"
        using Cons.IH [of c "acc + nValue txout"] Cons.prems(2) True by simp
      have "\<forall>cache' v. input_values base cache h (txin # ins) acc = Ok (cache', v) \<longrightarrow> reads base cache cache'"
        using IH c(1) reads_trans unfolding e by blast
      moreover have "\<forall>v. (\<exists>cache'. input_values base cache h (txin # ins) acc = Ok (cache', v)) \<longleftrightarrow>
          list_all (mature ?V h) (txin # ins) \<and> (\<forall>txin\<in>set (txin # ins). MoneyRange (value_of ?V (prevout txin))) \<and>
          v = acc + value_in ?V (txin # ins) \<and> MoneyRange v"
        unfolding e using IH True v by (simp add: add.assoc)
      ultimately show ?thesis by blast
    next
      case False
      have "input_values base cache h (txin # ins) acc \<noteq> Ok r" for r
        unfolding c(2) using False by (auto simp: outcome_simps int64_def)
      moreover have "\<not> (list_all (mature ?V h) (txin # ins) \<and> (\<forall>txin\<in>set (txin # ins). MoneyRange (value_of ?V (prevout txin))) \<and>
          MoneyRange (acc + value_in ?V (txin # ins)))"
        using False v Cons.prems(3) value_in_nonneg [of ins ?V] by (auto simp: MoneyRange_def)
      ultimately show ?thesis by blast
    qed
  qed
  then show "input_values base cache h ins acc = Ok (cache', v) \<Longrightarrow> reads base cache cache'"
    "(\<exists>cache'. input_values base cache h ins acc = Ok (cache', v)) \<longleftrightarrow>
      list_all (mature (view base cache) h) ins \<and> (\<forall>txin\<in>set ins. MoneyRange (value_of (view base cache) (prevout txin))) \<and>
      v = acc + value_in (view base cache) ins \<and> MoneyRange v"
    by blast+
qed

lemma input_values_no_abort:
  assumes "cache_wf base cache" "list_all (available (view base cache)) ins" "MoneyRange acc" "view_typed (view base cache)"
  shows "input_values base cache h ins acc \<noteq> Abort" "input_values base cache h ins acc \<noteq> Throw x"
proof -
  have "input_values base cache h ins acc \<noteq> Abort \<and> (\<forall>x. input_values base cache h ins acc \<noteq> Throw x)"
    using assms
  proof (induction ins arbitrary: cache acc)
    case (Cons txin ins)
    let ?V = "view base cache"
    obtain txout where o: "output_of ?V (prevout txin) = Some txout" using Cons.prems(2) by auto
    have r: "MoneyRange (nValue txout)" using value_of_range [OF Cons.prems(4), of "prevout txin"] value_of_output [OF o] by simp
    from input_values_step [OF Cons.prems(1) o, of h ins acc] obtain c where c: "reads base cache c"
      "input_values base cache h (txin # ins) acc =
       (if \<not> mature ?V h txin then Fail (Invalid ''bad-txns-premature-spend-of-coinbase'')
        else bindO (int64 (acc + nValue txout)) (\<lambda>v.
          if \<not> MoneyRange (nValue txout) \<or> \<not> MoneyRange v then Fail (DoS 100 ''bad-txns-inputvalues-outofrange'')
          else input_values base c h ins v))" by blast
    have "MoneyRange v \<Longrightarrow> input_values base c h ins v \<noteq> Abort \<and> (\<forall>x. input_values base c h ins v \<noteq> Throw x)" for v
      using Cons.IH [of c v] Cons.prems readsD [OF c(1)] by simp
    then show ?case unfolding c(2) MoneyRange_int64(1) [OF Cons.prems(3) r] by simp
  qed simp
  then show "input_values base cache h ins acc \<noteq> Abort" "input_values base cache h ins acc \<noteq> Throw x" by blast+
qed


subsection \<open>Checks without context\<close>

abbreviation value_out :: "CTransaction \<Rightarrow> CAmount" where
  "value_out tx \<equiv> sum_list (map nValue (vout tx))"

lemma check_values_Ok:
  "MoneyRange acc \<Longrightarrow> check_values outs acc = Ok () \<longleftrightarrow>
     list_all (\<lambda>txout. MoneyRange (nValue txout)) outs \<and> MoneyRange (acc + sum_list (map nValue outs))"
proof (induction outs arbitrary: acc)
  case (Cons txout outs)
  show ?case
  proof (cases "MoneyRange (nValue txout) \<and> MoneyRange (acc + nValue txout)")
    case True
    then have "check_values (txout # outs) acc = check_values outs (acc + nValue txout)"
      using Cons.prems by (simp add: MoneyRange_int64(1), simp add: reject_if_def MoneyRange_def)
    then show ?thesis using Cons.IH [of "acc + nValue txout"] True by (simp add: add.assoc)
  next
    case False
    have "check_values (txout # outs) acc \<noteq> Ok ()" using False by (auto simp: outcome_simps int64_def MoneyRange_def split: if_splits)
    moreover have "list_all (\<lambda>txout. MoneyRange (nValue txout)) outs \<Longrightarrow> 0 \<le> sum_list (map nValue outs)"
      by (induction outs) (auto simp: MoneyRange_def)
    ultimately show ?thesis using False Cons.prems by (auto simp: MoneyRange_def)
  qed
qed simp

lemma check_values_no_abort: "MoneyRange acc \<Longrightarrow> check_values outs acc \<noteq> Abort \<and> check_values outs acc \<noteq> Throw x"
proof (induction outs arbitrary: acc)
  case (Cons txout outs)
  have "0 \<le> nValue txout \<Longrightarrow> nValue txout \<le> MAX_MONEY \<Longrightarrow> int64 (acc + nValue txout) = (Ok (acc + nValue txout) :: int val_result)"
    using MoneyRange_int64(1) [OF Cons.prems, of "nValue txout"] by (simp add: MoneyRange_def)
  then show ?case using Cons.IH by (auto simp: outcome_simps)
qed simp

lemma MoneyRange_0 [simp]: "MoneyRange 0"
  by (simp add: MoneyRange_def MAX_MONEY_def COIN_def)

lemma CheckTransaction_Ok:
  assumes "CheckTransaction dev tx dup = Ok ()"
  shows "vin tx \<noteq> []" "vout tx \<noteq> []" "length (SerializeTransaction False tx) \<le> MAX_BLOCK_BASE_SIZE"
    "list_all (\<lambda>txout. MoneyRange (nValue txout)) (vout tx)" "value_out tx \<le> MAX_MONEY" "dup \<Longrightarrow> distinct (map prevout (vin tx))"
    "\<not> IsCoinBase tx \<Longrightarrow> list_all (\<lambda>txin. \<not> COutPoint_IsNull (prevout txin)) (vin tx)"
  using assms check_values_Ok [OF MoneyRange_0, of "vout tx"]
  by (auto simp: CheckTransaction_def outcome_simps list_all_iff list_ex_iff MoneyRange_def split: if_splits)

lemma CheckTransaction_no_abort: "CheckTransaction dev tx dup \<noteq> Abort"
  using check_values_no_abort [of 0 "vout tx"] by (auto simp: CheckTransaction_def check_coinbase_def outcome_simps split: if_splits)

lemma GetValueOut_Ok: "GetValueOut tx = Ok v \<longleftrightarrow> list_all (\<lambda>txout. MoneyRange (nValue txout)) (vout tx) \<and> v = value_out tx \<and> v \<le> MAX_MONEY"
  using GetValueOut_loop_Ok [of 0 "vout tx" v] by (simp add: GetValueOut_def)

lemma value_out_nonneg: "list_all (\<lambda>txout. MoneyRange (nValue txout)) (vout tx) \<Longrightarrow> 0 \<le> value_out tx"
  by (induction "vout tx" arbitrary: tx rule: list.induct) (auto simp: MoneyRange_def list_all_iff intro!: sum_list_nonneg)

subsection \<open>Checks of the inputs\<close>

definition inputs_ok :: "(uint256 \<Rightarrow> CCoins option) \<Rightarrow> CTransaction \<Rightarrow> int \<Rightarrow> bool" where
  "inputs_ok V tx h \<longleftrightarrow> list_all (available V) (vin tx) \<and> list_all (mature V h) (vin tx) \<and>
     (\<forall>txin\<in>set (vin tx). MoneyRange (value_of V (prevout txin))) \<and> value_out tx \<le> value_in V (vin tx) \<and> value_in V (vin tx) \<le> MAX_MONEY"

lemma CheckTxInputs_Ok:
  assumes "cache_wf base cache" "\<not> IsCoinBase tx" "CheckTxInputs base cache tx h = Ok cache'"
  shows "reads base cache cache'" "inputs_ok (view base cache) tx h"
proof -
  from HaveInputs_reads [OF assms(1), of tx] assms(2) obtain c where
    c: "HaveInputs base cache tx = (c, list_all (available (view base cache)) (vin tx))" "reads base cache c" by auto
  obtain v where av: "list_all (available (view base cache)) (vin tx)" "input_values base c h (vin tx) 0 = Ok (cache', v)" "value_out tx \<le> v"
    using assms(3) c(1) by (auto simp: CheckTxInputs_def outcome_simps int64_def GetValueOut_Ok list_all_iff split: if_splits)
  note V = readsD(2) [OF c(2)]
  have av': "list_all (available (view base c)) (vin tx)" using av(1) V by simp
  note i = input_values_Ok [OF readsD(1) [OF c(2)] av' MoneyRange_0, of h]
  show "reads base cache cache'" using reads_trans [OF c(2) i(1) [OF av(2)]] .
  show "inputs_ok (view base cache) tx h" using i(2) [of v] av V by (auto simp: inputs_ok_def MoneyRange_def)
qed

lemma CheckTxInputs_complete:
  assumes "cache_wf base cache" "\<not> IsCoinBase tx" "list_all (\<lambda>txout. MoneyRange (nValue txout)) (vout tx)" "inputs_ok (view base cache) tx h"
  shows "\<exists>cache'. CheckTxInputs base cache tx h = Ok cache'"
proof -
  let ?V = "view base cache"
  from HaveInputs_reads [OF assms(1), of tx] assms(2,4) obtain c where
    c: "HaveInputs base cache tx = (c, True)" "reads base cache c" by (auto simp: inputs_ok_def)
  note V = readsD(2) [OF c(2)]
  have av: "list_all (available (view base c)) (vin tx)" using assms(4) V by (simp add: inputs_ok_def)
  have r: "MoneyRange (value_in ?V (vin tx))" using assms(4) value_in_nonneg [of "vin tx" ?V] by (auto simp: inputs_ok_def MoneyRange_def)
  then obtain cache' where i: "input_values base c h (vin tx) 0 = Ok (cache', value_in ?V (vin tx))"
    using input_values_Ok(2) [OF readsD(1) [OF c(2)] av MoneyRange_0, of h "value_in ?V (vin tx)"] assms(4) V by (auto simp: inputs_ok_def)
  have o: "MoneyRange (value_out tx)" "GetValueOut tx = Ok (value_out tx)"
    using assms(3,4) value_out_nonneg [OF assms(3)] by (auto simp: inputs_ok_def MoneyRange_def GetValueOut_Ok)
  have "CheckTxInputs base cache tx h = Ok cache'"
    using c(1) i o(2) assms(4) r o(1)
    by (simp add: CheckTxInputs_def MoneyRange_int64(2), simp add: reject_if_def inputs_ok_def MoneyRange_def)
  then show ?thesis by blast
qed

lemma CheckTxInputs_no_abort:
  assumes "cache_wf base cache" "\<not> IsCoinBase tx" "view_typed (view base cache)" "CheckTransaction dev tx dup = Ok ()"
  shows "CheckTxInputs base cache tx h \<noteq> Abort" "CheckTxInputs base cache tx h \<noteq> Throw x"
proof -
  from HaveInputs_reads [OF assms(1), of tx] assms(2) obtain c where
    c: "HaveInputs base cache tx = (c, list_all (available (view base cache)) (vin tx))" "reads base cache c" by auto
  note t = CheckTransaction_Ok [OF assms(4)]
  have o: "MoneyRange (value_out tx)" "GetValueOut tx = Ok (value_out tx)"
    using t(4,5) value_out_nonneg [OF t(4)] by (auto simp: MoneyRange_def GetValueOut_Ok)
  have "CheckTxInputs base cache tx h \<noteq> Abort \<and> CheckTxInputs base cache tx h \<noteq> Throw x"
  proof (cases "list_all (available (view base cache)) (vin tx)")
    case True
    then have av: "list_all (available (view base c)) (vin tx)" using readsD(2) [OF c(2)] by simp
    have ty: "view_typed (view base c)" using assms(3) readsD(2) [OF c(2)] by simp
    note n = input_values_no_abort [OF readsD(1) [OF c(2)] av MoneyRange_0 ty, of h]
    have "MoneyRange v" if "input_values base c h (vin tx) 0 = Ok (c', v)" for c' v
      using input_values_Ok(2) [OF readsD(1) [OF c(2)] av MoneyRange_0, of h v] that by blast
    then show ?thesis using c(1) True n o by (auto simp: CheckTxInputs_def outcome_simps MoneyRange_int64(2))
  next
    case False
    then show ?thesis using c(1) by (simp add: CheckTxInputs_def reject_if_def)
  qed
  then show "CheckTxInputs base cache tx h \<noteq> Abort" "CheckTxInputs base cache tx h \<noteq> Throw x" by blast+
qed


text \<open>
  C38: for a transaction that passed \<open>CheckTransaction\<close>, on a view whose coins have values in range,
  \<open>CheckTxInputs\<close> accepts exactly when every input refers to an unspent output, every coinbase
  output it spends is 100 blocks old, the inputs are worth at most \<open>MAX_MONEY\<close> together and at
  least as much as the outputs. It never fails an assertion, overflows or throws, reads only
  outputs that exist, and leaves the coins as they are.
\<close>

theorem CheckTxInputs_iff:
  assumes "cache_wf base cache" "view_typed (view base cache)" "\<not> IsCoinBase tx" "CheckTransaction dev tx dup = Ok ()"
  shows "((\<exists>cache'. CheckTxInputs base cache tx nSpendHeight = Ok cache' \<and> view base cache' = view base cache \<and> cache_wf base cache') \<longleftrightarrow>
      list_all (available (view base cache)) (vin tx) \<and> list_all (mature (view base cache) nSpendHeight) (vin tx) \<and>
      value_out tx \<le> value_in (view base cache) (vin tx) \<and> value_in (view base cache) (vin tx) \<le> MAX_MONEY) \<and>
    CheckTxInputs base cache tx nSpendHeight \<noteq> Abort \<and> CheckTxInputs base cache tx nSpendHeight \<noteq> Throw x"
proof -
  note t = CheckTransaction_Ok [OF assms(4)]
  have "inputs_ok (view base cache) tx nSpendHeight \<longleftrightarrow> list_all (available (view base cache)) (vin tx) \<and> list_all (mature (view base cache) nSpendHeight) (vin tx) \<and>
      value_out tx \<le> value_in (view base cache) (vin tx) \<and> value_in (view base cache) (vin tx) \<le> MAX_MONEY"
    using value_of_range [OF assms(2)] by (auto simp: inputs_ok_def)
  then show ?thesis
    using CheckTxInputs_Ok [OF assms(1,3)] CheckTxInputs_complete [OF assms(1,3) t(4), of nSpendHeight] readsD
      CheckTxInputs_no_abort [OF assms(1,3,2,4)] by blast
qed

lemma sample_view: "view sample_coins sample_cache = sample_coins"
  by (auto simp: fun_eq_iff view_def sample_cache_def base_view_def sample_coins_def live_def IsPruned_def CTxOut_IsNull_def)

lemma sample_typed: "view_typed sample_coins"
  by (auto simp: view_typed_def coins_typed_def sample_coins_def coins_wf_def MoneyRange_def MAX_MONEY_def COIN_def CTxOut_IsNull_def CTxOut_null_def split: if_splits)

lemma sample_typed': "view_typed (view sample_coins sample_cache)"
  by (simp only: sample_view sample_typed)

definition sample_rule :: developer_rule where
  "sample_rule = \<lparr>developerCScript = [], active_height = 0, fund_too_small = (\<lambda>_ _. False)\<rparr>"

lemma sample_spend_checked: "CheckTransaction sample_rule sample_spend True = Ok ()"
proof -
  have "length (SerializeTransaction False sample_spend) \<le> MAX_BLOCK_BASE_SIZE"
    by (simp add: sample_spend_def SerializeTransaction_def MAX_BLOCK_BASE_SIZE_def Serialize_vector_def CTxIn_Serialize_def CTxOut_Serialize_def
      COutPoint_Serialize_def uint256_Serialize_def ser_writedata32_def ser_writedata64_def ser_writedata8_def Serialize_bytes_def WriteCompactSize_def HasWitness_def)
  moreover have "check_values (vout sample_spend) 0 = Ok ()"
    using check_values_Ok [OF MoneyRange_0, of "vout sample_spend"] by (simp add: sample_spend_def MoneyRange_def MAX_MONEY_def COIN_def)
  ultimately show ?thesis using sample_ok(4)
    by (simp add: CheckTransaction_def reject_if_def, simp add: sample_spend_def COutPoint_IsNull_def uint256_IsNull_def)
qed

theorem CheckTxInputs_iff_witness:
  "(\<exists>cache'. CheckTxInputs sample_coins sample_cache sample_spend 103 = Ok cache' \<and> view sample_coins cache' = sample_coins) \<and>
   \<not> (\<exists>cache'. CheckTxInputs sample_coins sample_cache sample_spend 102 = Ok cache' \<and> view sample_coins cache' = sample_coins \<and> cache_wf sample_coins cache')"
proof -
  note w = CheckTxInputs_iff [OF sample_ok(1) sample_typed' sample_ok(4) sample_spend_checked, unfolded sample_view]
  have v: "value_out sample_spend = 4" "MAX_MONEY \<ge> 5" by (simp_all add: sample_spend_def MAX_MONEY_def COIN_def)
  obtain txin where i: "vin sample_spend = [txin]" "op_hash (prevout txin) = [7]" "op_n (prevout txin) = 1" by (simp add: sample_spend_def)
  then have "mature sample_coins 103 txin" "\<not> mature sample_coins 102 txin" "value_of sample_coins (prevout txin) = 5" "available sample_coins txin"
    by (simp_all add: mature_def sample_coins_def COINBASE_MATURITY_def value_of_def output_of_def IsAvailable_def CTxOut_IsNull_def)
  then show ?thesis using w [of 103 undefined] w [of 102 undefined] i(1) v by auto
qed

end
