(* ===== verification/Block_Checks.thy ===== *)
theory Block_Checks
  imports Tx_Inputs
begin

unbundle bit_operations_syntax

text \<open>
  Blocks: the subsidy, the checks of headers and blocks, and \<open>ConnectBlock\<close>, from
  \<^verbatim>\<open>src/src/validation.cpp\<close>, with \<^verbatim>\<open>src/src/primitives/block.h\<close>. The hash of a header is a parameter.
  A result \<open>None\<close> would be a loop of the difficulty or deployment code that does not end.
\<close>

record CBlock =
  block_header :: CBlockHeader
  vtx :: "CTransaction list"
  fChecked :: bool

definition CBlockHeader_Serialize :: "CBlockHeader \<Rightarrow> byte list" where
  "CBlockHeader_Serialize block =
     ser_writedata32 (header_nVersion block) @ uint256_Serialize (header_hashPrevBlock block) @
     uint256_Serialize (header_hashMerkleRoot block) @ ser_writedata32 (header_nTime block) @
     ser_writedata32 (header_nBits block) @ ser_writedata32 (header_nNonce block)"

definition CBlock_Serialize :: "bool \<Rightarrow> CBlock \<Rightarrow> byte list" where
  "CBlock_Serialize fAllowWitness block =
     CBlockHeader_Serialize (block_header block) @ Serialize_vector (SerializeTransaction fAllowWitness) (vtx block)"

definition GetBlockWeight :: "CBlock \<Rightarrow> nat" where
  "GetBlockWeight block =
     length (CBlock_Serialize False block) * (WITNESS_SCALE_FACTOR - 1) + length (CBlock_Serialize True block)"

definition BlockMerkleRoot :: "CBlock \<Rightarrow> (uint256 \<times> bool) merkle_result" where
  "BlockMerkleRoot block = ComputeMerkleRoot (map CTransaction_GetHash (vtx block))"

definition BlockWitnessMerkleRoot :: "CBlock \<Rightarrow> (uint256 \<times> bool) merkle_result" where
  "BlockWitnessMerkleRoot block =
     bindO (assertO (vtx block \<noteq> [])) (\<lambda>_. ComputeMerkleRoot (null_hash # map GetWitnessHash (tl (vtx block))))"

subsection \<open>The subsidy\<close>

definition GetBlockSubsidy :: "int \<Rightarrow> Params \<Rightarrow> CAmount uint_result" where
  "GetBlockSubsidy height consensusParams =
     bindO (quot height (nSubsidyHalvingInterval consensusParams)) (\<lambda>halvings.
     if halvings \<ge> 64 then Ok 0
     else if height < 51 then Ok (105000 * COIN)
     else if height \<ge> 23750 \<and> height < 23755 then Ok (105000 * COIN)
     else bindO (assertO (halvings \<ge> 0)) (\<lambda>_. Ok (drop_bit (nat halvings) (50 * COIN))))"

subsection \<open>Checks without context\<close>

abbreviation (input) MAX_BLOCK_SIGOPS_COST :: int where "MAX_BLOCK_SIGOPS_COST \<equiv> 80000"
abbreviation (input) MAX_BLOCK_WEIGHT :: nat where "MAX_BLOCK_WEIGHT \<equiv> 4000000"

definition CheckBlockHeader :: "(CBlockHeader \<Rightarrow> uint256) \<Rightarrow> CBlockHeader \<Rightarrow> Params \<Rightarrow> bool \<Rightarrow> unit val_result" where
  "CheckBlockHeader GetHash block consensusParams fCheckPOW =
     reject_if (fCheckPOW \<and> \<not> CheckProofOfWork (GetHash block) (header_nBits block) consensusParams) (DoS 50 ''high-hash'')"

fun check_transactions :: "developer_rule \<Rightarrow> CTransaction list \<Rightarrow> unit val_result" where
  "check_transactions dev [] = Ok ()"
| "check_transactions dev (tx # txs) = bindO (CheckTransaction dev tx False) (\<lambda>_. check_transactions dev txs)"

definition CheckBlock ::
  "(CBlockHeader \<Rightarrow> uint256) \<Rightarrow> developer_rule \<Rightarrow> CBlock \<Rightarrow> Params \<Rightarrow> bool \<Rightarrow> bool \<Rightarrow> CBlock val_result" where
  "CheckBlock GetHash dev block consensusParams fCheckPOW fCheckMerkleRoot =
     (if fChecked block then Ok block
      else
        bindO (CheckBlockHeader GetHash (block_header block) consensusParams fCheckPOW) (\<lambda>_.
        bindO (if fCheckMerkleRoot
               then bindO (call Merkle_error (BlockMerkleRoot block)) (\<lambda>(hashMerkleRoot2, mutated).
                 bindO (reject_if (header_hashMerkleRoot (block_header block) \<noteq> hashMerkleRoot2) (DoS 100 ''bad-txnmrklroot'')) (\<lambda>_.
                 reject_if mutated (DoS 100 ''bad-txns-duplicate'')))
               else Ok ()) (\<lambda>_.
        bindO (reject_if (vtx block = [] \<or> length (vtx block) > MAX_BLOCK_BASE_SIZE \<or>
                 length (CBlock_Serialize False block) > MAX_BLOCK_BASE_SIZE) (DoS 100 ''bad-blk-length'')) (\<lambda>_.
        bindO (reject_if (vtx block = [] \<or> \<not> IsCoinBase (hd (vtx block))) (DoS 100 ''bad-cb-missing'')) (\<lambda>_.
        bindO (reject_if (list_ex IsCoinBase (tl (vtx block))) (DoS 100 ''bad-cb-multiple'')) (\<lambda>_.
        bindO (check_transactions dev (vtx block)) (\<lambda>_.
        bindO (reject_if (uint ((\<Sum>tx\<leftarrow>vtx block. GetLegacySigOpCount tx) * of_nat WITNESS_SCALE_FACTOR) > MAX_BLOCK_SIGOPS_COST)
                 (DoS 100 ''bad-blk-sigops'')) (\<lambda>_.
        Ok (if fCheckPOW \<and> fCheckMerkleRoot then block\<lparr>fChecked := True\<rparr> else block)))))))))"

subsection \<open>Checks in the context of the previous block\<close>

text \<open>Calls of code with loops that might not end.\<close>

definition call_loop :: "'a uint_result option \<Rightarrow> ('a \<Rightarrow> 'b val_result option) \<Rightarrow> 'b val_result option" where
  "call_loop m f = (case m of None \<Rightarrow> None | Some r \<Rightarrow>
     (case call Uint_exn r of Ok a \<Rightarrow> f a | Fail e \<Rightarrow> Some (Fail e) | Throw x \<Rightarrow> Some (Throw x) | Abort \<Rightarrow> Some Abort))"

text \<open>
  \<open>SetDifficultyAdjustmentParams\<close> changes the parameters of the main network, which the caller passed
  by reference; the parameters after the call are returned.
\<close>

definition height_after :: "block_heap \<Rightarrow> ptr option \<Rightarrow> int uint_result" where
  "height_after h pindexPrev = (case pindexPrev of None \<Rightarrow> Ok 0 | Some p \<Rightarrow> bindO (deref h p) (\<lambda>b. Ok (nHeight b + 1)))"

definition exempt_height :: "int \<Rightarrow> bool" where
  "exempt_height height \<longleftrightarrow> height = 17500 \<or> (23740 \<le> height \<and> height \<le> 24100) \<or> height = 23765 \<or>
     (28400 \<le> height \<and> height \<le> 28405) \<or> (28578 \<le> height \<and> height \<le> 28593)"

definition header_rules :: "block_heap \<Rightarrow> CBlockHeader \<Rightarrow> Params \<Rightarrow> ptr option \<Rightarrow> int \<Rightarrow> int \<Rightarrow> u32 \<Rightarrow> unit val_result" where
  "header_rules h block consensusParams pindexPrev nAdjustedTime height required =
     bindO (reject_if (header_nBits block \<noteq> required) (DoS 100 ''bad-diffbits'')) (\<lambda>_.
     case pindexPrev of
       None \<Rightarrow> Abort
     | Some prev \<Rightarrow>
         bindO (call Uint_exn (GetMedianTimePast h prev)) (\<lambda>median.
         bindO (reject_if (uint (header_nTime block) \<le> median) (Invalid ''time-too-old'')) (\<lambda>_.
         bindO (reject_if (uint (header_nTime block) > nAdjustedTime + 2 * 60 * 60) (Invalid ''time-too-new'')) (\<lambda>_.
         reject_if ((sint (header_nVersion block) < 2 \<and> height \<ge> BIP34Height consensusParams) \<or>
             (sint (header_nVersion block) < 3 \<and> height \<ge> BIP66Height consensusParams) \<or>
             (sint (header_nVersion block) < 4 \<and> height \<ge> BIP65Height consensusParams)) (Invalid ''bad-version'')))))"

definition ContextualCheckBlockHeader ::
  "(int \<Rightarrow> u64) \<Rightarrow> (int \<Rightarrow> int \<Rightarrow> u64 \<Rightarrow> bool) \<Rightarrow> block_heap \<Rightarrow> CBlockHeader \<Rightarrow> Params \<Rightarrow> ptr option \<Rightarrow> int \<Rightarrow> Params val_result option" where
  "ContextualCheckBlockHeader seconds_min horizon h block consensusParams pindexPrev nAdjustedTime =
     call_loop (Some (height_after h pindexPrev)) (\<lambda>height.
     if exempt_height height then Some (Ok consensusParams)
     else
       let consensusParams = SetDifficultyAdjustmentParams consensusParams height in
       call_loop (GetNextWorkRequired seconds_min horizon h pindexPrev block consensusParams) (\<lambda>required.
       Some (bindO (header_rules h block consensusParams pindexPrev nAdjustedTime height required) (\<lambda>_. Ok consensusParams))))"

text \<open>The last output of the coinbase that commits to the witnesses, as an index.\<close>

definition is_commitment :: "CScript \<Rightarrow> bool" where
  "is_commitment s \<longleftrightarrow> length s \<ge> 38 \<and> s ! 0 = of_nat OP_RETURN \<and> s ! 1 = 0x24 \<and> s ! 2 = 0xaa \<and> s ! 3 = 0x21 \<and> s ! 4 = 0xa9 \<and> s ! 5 = 0xed"

definition GetWitnessCommitmentIndex :: "CBlock \<Rightarrow> int" where
  "GetWitnessCommitmentIndex block =
     (case vtx block of
        [] \<Rightarrow> -1
      | coinbase # _ \<Rightarrow>
          fold (\<lambda>i commitpos. if is_commitment (out_scriptPubKey (vout coinbase ! i)) then int i else commitpos)
            [0..<length (vout coinbase)] (-1))"

definition IsWitnessEnabled :: "block_heap \<Rightarrow> ptr option \<Rightarrow> Params \<Rightarrow> VersionBitsCache \<Rightarrow> (bool \<times> VersionBitsCache) uint_result option" where
  "IsWitnessEnabled h pindexPrev params versionbitscache =
     map_option (\<lambda>r. bindO r (\<lambda>(state, caches). Ok (state = THRESHOLD_ACTIVE, caches)))
       (VersionBitsState h pindexPrev params DEPLOYMENT_SEGWIT versionbitscache)"

text \<open>The commitment, checked when the witness rules are active; the result tells whether there was one.\<close>

definition check_commitment :: "CBlock \<Rightarrow> bool val_result" where
  "check_commitment block =
     (let commitpos = GetWitnessCommitmentIndex block in
      if commitpos = -1 then Ok False
      else
        bindO (call Merkle_error (BlockWitnessMerkleRoot block)) (\<lambda>(hashWitness, malleated).
        bindO (assertO (vin (hd (vtx block)) \<noteq> [])) (\<lambda>_.
        let stk = scriptWitness (vin (hd (vtx block)) ! 0) in
        bindO (reject_if (length stk \<noteq> 1 \<or> length (stk ! 0) \<noteq> 32) (DoS 100 ''bad-witness-nonce-size'')) (\<lambda>_.
        bindO (reject_if (Hash (hashWitness @ stk ! 0) \<noteq> take 32 (drop 6 (out_scriptPubKey (vout (hd (vtx block)) ! nat commitpos))))
                 (DoS 100 ''bad-witness-merkle-match'')) (\<lambda>_.
        Ok True)))))"

definition block_rules :: "CBlock \<Rightarrow> Params \<Rightarrow> int \<Rightarrow> int \<Rightarrow> bool \<Rightarrow> unit val_result" where
  "block_rules block consensusParams height nLockTimeCutoff segwit =
     bindO (reject_if (\<not> list_all (\<lambda>tx. IsFinalTx tx height nLockTimeCutoff) (vtx block)) (DoS 10 ''bad-txns-nonfinal'')) (\<lambda>_.
     bindO (if height \<ge> BIP34Height consensusParams
            then bindO (assertO (vtx block \<noteq> [] \<and> vin (hd (vtx block)) \<noteq> [])) (\<lambda>_.
              let expect = push_int64 [] height; script = in_scriptSig (vin (hd (vtx block)) ! 0) in
              reject_if (length script < length expect \<or> take (length expect) script \<noteq> expect) (DoS 100 ''bad-cb-height''))
            else Ok ()) (\<lambda>_.
     bindO (if segwit then check_commitment block else Ok False) (\<lambda>fHaveWitness.
     bindO (reject_if (\<not> fHaveWitness \<and> list_ex HasWitness (vtx block)) (DoS 100 ''unexpected-witness'')) (\<lambda>_.
     reject_if (GetBlockWeight block > MAX_BLOCK_WEIGHT) (DoS 100 ''bad-blk-weight'')))))"

definition ContextualCheckBlock ::
  "block_heap \<Rightarrow> CBlock \<Rightarrow> Params \<Rightarrow> ptr option \<Rightarrow> VersionBitsCache \<Rightarrow> VersionBitsCache val_result option" where
  "ContextualCheckBlock h block consensusParams pindexPrev versionbitscache =
     call_loop (Some (height_after h pindexPrev)) (\<lambda>height.
     if 23740 \<le> height \<and> height \<le> 24100
     then Some (bindO (reject_if (uint (header_nTime (block_header block)) < 1522307758) (DoS 100 ''old-blocks'')) (\<lambda>_. Ok versionbitscache))
     else
       call_loop (VersionBitsState h pindexPrev consensusParams DEPLOYMENT_CSV versionbitscache) (\<lambda>(csv, caches).
       call_loop (Some (if csv = THRESHOLD_ACTIVE
                        then (case pindexPrev of None \<Rightarrow> Abort | Some prev \<Rightarrow> GetMedianTimePast h prev)
                        else Ok (uint (header_nTime (block_header block))))) (\<lambda>nLockTimeCutoff.
       call_loop (IsWitnessEnabled h pindexPrev consensusParams caches) (\<lambda>(segwit, caches).
       Some (bindO (block_rules block consensusParams height nLockTimeCutoff segwit) (\<lambda>_. Ok caches))))))"

subsection \<open>Connecting a block\<close>

definition bip30_historic :: "CBlockIndex \<Rightarrow> bool uint_result" where
  "bip30_historic pindex =
     (if nHeight pindex = 91842 then
        bindO (GetBlockHash pindex) (\<lambda>hash. Ok (hash = [0xec, 0xca, 0xe0, 0x00, 0xe3, 0xc8, 0xe4, 0xe0, 0x93, 0x93, 0x63, 0x60, 0x43, 0x1f, 0x3b, 0x76,
          0x03, 0xc5, 0x63, 0xc1, 0xff, 0x61, 0x81, 0x39, 0x0a, 0x4d, 0x0a, 0x00, 0x00, 0x00, 0x00, 0x00]))
      else if nHeight pindex = 91880 then
        bindO (GetBlockHash pindex) (\<lambda>hash. Ok (hash = [0x21, 0xd7, 0x7c, 0xcb, 0x4c, 0x08, 0x38, 0x6a, 0x04, 0xac, 0x01, 0x96, 0xae, 0x10, 0xf6, 0xa1,
          0xd2, 0xc2, 0xa3, 0x77, 0x55, 0x8c, 0xa1, 0x90, 0xf1, 0x43, 0x07, 0x00, 0x00, 0x00, 0x00, 0x00]))
      else Ok False)"

definition fEnforceBIP30 :: "block_heap \<Rightarrow> Params \<Rightarrow> CBlockIndex \<Rightarrow> bool uint_result" where
  "fEnforceBIP30 h params pindex =
     bindO (if phashBlock pindex = None then Ok True else bindO (bip30_historic pindex) (\<lambda>e. Ok (\<not> e))) (\<lambda>enforce.
     case pprev pindex of
       None \<Rightarrow> Abort
     | Some prev \<Rightarrow>
         bindO (GetAncestor h prev (BIP34Height params)) (\<lambda>a.
         case a of
           None \<Rightarrow> Ok enforce
         | Some q \<Rightarrow>
             if \<not> enforce then Ok False
             else bindO (deref h q) (\<lambda>b. bindO (GetBlockHash b) (\<lambda>hash. Ok (hash \<noteq> BIP34Hash params)))))"

fun bip30_loop :: "coins_base \<Rightarrow> CCoinsViewCache \<Rightarrow> CTransaction list \<Rightarrow> CCoinsViewCache val_result" where
  "bip30_loop base view_cache [] = Ok view_cache"
| "bip30_loop base view_cache (tx # txs) =
     (case AccessCoins base view_cache (CTransaction_GetHash tx) of
        (view_cache, coins) \<Rightarrow>
          bindO (reject_if (case coins of None \<Rightarrow> False | Some c \<Rightarrow> \<not> IsPruned c) (DoS 100 ''bad-txns-BIP30'')) (\<lambda>_.
          bip30_loop base view_cache txs))"

text \<open>The script and lock time rules in force.\<close>

definition connect_flags ::
  "block_heap \<Rightarrow> Params \<Rightarrow> CBlockIndex \<Rightarrow> VersionBitsCache \<Rightarrow> (u32 \<times> u32 \<times> VersionBitsCache) val_result option" where
  "connect_flags h params pindex versionbitscache =
     (let flags = (if GetBlockTime pindex \<ge> 1333238400 then SCRIPT_VERIFY_P2SH else SCRIPT_VERIFY_NONE);
          flags = (if nHeight pindex \<ge> BIP66Height params then flags OR SCRIPT_VERIFY_DERSIG else flags);
          flags = (if nHeight pindex \<ge> BIP65Height params then flags OR SCRIPT_VERIFY_CHECKLOCKTIMEVERIFY else flags)
      in call_loop (VersionBitsState h (pprev pindex) params DEPLOYMENT_CSV versionbitscache) (\<lambda>(csv, caches).
         let flags = (if csv = THRESHOLD_ACTIVE then flags OR SCRIPT_VERIFY_CHECKSEQUENCEVERIFY else flags);
             nLockTimeFlags = (if csv = THRESHOLD_ACTIVE then LOCKTIME_VERIFY_SEQUENCE else 0)
         in call_loop (IsWitnessEnabled h (pprev pindex) params caches) (\<lambda>(segwit, caches).
            Some (Ok (if segwit then flags OR SCRIPT_VERIFY_WITNESS OR SCRIPT_VERIFY_NULLDUMMY else flags, nLockTimeFlags, caches)))))"

text \<open>Whether the scripts are run: not for old ancestors of a block assumed valid.\<close>

definition connect_scripts :: "block_tree \<Rightarrow> Params \<Rightarrow> uint256 \<Rightarrow> ptr \<Rightarrow> CBlockIndex \<Rightarrow> bool uint_result" where
  "connect_scripts st params hashAssumeValid p pindex =
     (if uint256_IsNull hashAssumeValid then Ok True
      else case mapBlockIndex st hashAssumeValid of
        None \<Rightarrow> Ok True
      | Some it \<Rightarrow>
          bindO (GetAncestor (entries st) it (nHeight pindex)) (\<lambda>a.
          if a \<noteq> Some p then Ok True
          else case pindexBestHeader st of
            None \<Rightarrow> Abort
          | Some best \<Rightarrow>
              bindO (GetAncestor (entries st) best (nHeight pindex)) (\<lambda>a.
              bindO (deref (entries st) best) (\<lambda>header.
              if a \<noteq> Some p \<or> CompareTo (nChainWork header) (UintToArith256 (nMinimumChainWork params)) < 0 then Ok True
              else bindO (GetBlockProofEquivalentTime header pindex header (nPowTargetSpacing params)) (\<lambda>t.
                Ok (t \<le> 60 * 60 * 24 * 7 * 2))))))"

fun prev_heights :: "coins_base \<Rightarrow> CCoinsViewCache \<Rightarrow> CTxIn list \<Rightarrow> (CCoinsViewCache \<times> int list) val_result" where
  "prev_heights base view_cache [] = Ok (view_cache, [])"
| "prev_heights base view_cache (txin # ins) =
     (case AccessCoins base view_cache (op_hash (prevout txin)) of
        (view_cache, None) \<Rightarrow> Abort
      | (view_cache, Some coins) \<Rightarrow>
          bindO (prev_heights base view_cache ins) (\<lambda>(view_cache, heights). Ok (view_cache, coins_nHeight coins # heights)))"

text \<open>
  What one transaction needs: the verification functions, the block index, the best block of the
  view below, and the rules of the block.
\<close>

record connect_env =
  env_sigs :: signature_env
  env_tree :: block_tree
  env_base_best :: uint256
  env_base :: coins_base
  env_index :: ptr
  env_height :: int
  env_script_flags :: u32
  env_lock_flags :: u32
  env_scripts :: bool

definition check_locks :: "connect_env \<Rightarrow> CCoinsViewCache \<Rightarrow> CTransaction \<Rightarrow> CCoinsViewCache val_result" where
  "check_locks ce view_cache tx =
     (if IsCoinBase tx then Ok view_cache
      else
        let (view_cache, have_inputs) = HaveInputs (env_base ce) view_cache tx in
        bindO (reject_if (\<not> have_inputs) (DoS 100 ''bad-txns-inputs-missingorspent'')) (\<lambda>_.
        bindO (prev_heights (env_base ce) view_cache (vin tx)) (\<lambda>(view_cache, prevheights).
        bindO (call Uint_exn (SequenceLocks (entries (env_tree ce)) tx (env_lock_flags ce) prevheights (env_index ce))) (\<lambda>ok.
        bindO (reject_if (\<not> ok) (DoS 100 ''bad-txns-nonfinal'')) (\<lambda>_.
        Ok view_cache)))))"

definition check_fees :: "connect_env \<Rightarrow> CCoinsViewCache \<Rightarrow> CTransaction \<Rightarrow> CAmount \<Rightarrow> (CCoinsViewCache \<times> CAmount) val_result" where
  "check_fees ce view_cache tx nFees =
     (if IsCoinBase tx then Ok (view_cache, nFees)
      else
        bindO (call Coins_exn (GetValueIn (env_base ce) view_cache tx)) (\<lambda>(view_cache, nValueIn).
        bindO (call Tx_exn (GetValueOut tx)) (\<lambda>nValueOut.
        bindO (int64 (nValueIn - nValueOut)) (\<lambda>fee.
        bindO (int64 (nFees + fee)) (\<lambda>nFees.
        bindO (CheckInputs (env_sigs ce) (env_tree ce) (env_base_best ce) (env_base ce) view_cache tx (env_scripts ce) (env_script_flags ce)) (\<lambda>view_cache.
        Ok (view_cache, nFees)))))))"

text \<open>The loop of \<open>ConnectBlock\<close>, with the fees and the cost of the signature operations so far.\<close>

fun connect_loop ::
  "connect_env \<Rightarrow> CCoinsViewCache \<Rightarrow> CAmount \<Rightarrow> int \<Rightarrow> CTransaction list \<Rightarrow> (CCoinsViewCache \<times> CAmount \<times> CTxUndo list) val_result" where
  "connect_loop ce view_cache nFees nSigOpsCost [] = Ok (view_cache, nFees, [])"
| "connect_loop ce view_cache nFees nSigOpsCost (tx # txs) =
     bindO (check_locks ce view_cache tx) (\<lambda>view_cache.
     bindO (GetTransactionSigOpCost (env_base ce) view_cache tx (env_script_flags ce)) (\<lambda>(view_cache, cost).
     bindO (int64 (nSigOpsCost + cost)) (\<lambda>nSigOpsCost.
     bindO (reject_if (nSigOpsCost > MAX_BLOCK_SIGOPS_COST) (DoS 100 ''bad-blk-sigops'')) (\<lambda>_.
     bindO (check_fees ce view_cache tx nFees) (\<lambda>(view_cache, nFees).
     bindO (call Coins_exn (UpdateCoins (env_base ce) view_cache tx (env_height ce))) (\<lambda>(view_cache, undo).
     bindO (connect_loop ce view_cache nFees nSigOpsCost txs) (\<lambda>(view_cache, nFees, undos).
     Ok (view_cache, nFees, undo # undos))))))))"

text \<open>
  The transactions and the reward. The undo data of the coinbase is dropped; the rest is the
  \<open>CBlockUndo\<close> that goes to disk.
\<close>

definition connect_transactions ::
  "connect_env \<Rightarrow> CCoinsViewCache \<Rightarrow> CTransaction list \<Rightarrow> Params \<Rightarrow> (CCoinsViewCache \<times> CTxUndo list) val_result" where
  "connect_transactions ce view_cache txs params =
     bindO (connect_loop ce view_cache 0 0 txs) (\<lambda>(view_cache, nFees, undos).
     bindO (call Uint_exn (GetBlockSubsidy (env_height ce) params)) (\<lambda>subsidy.
     bindO (int64 (nFees + subsidy)) (\<lambda>blockReward.
     bindO (assertO (txs \<noteq> [])) (\<lambda>_.
     bindO (call Tx_exn (GetValueOut (hd txs))) (\<lambda>nValueOut.
     bindO (reject_if (nValueOut > blockReward) (DoS 100 ''bad-cb-amount'')) (\<lambda>_.
     Ok (view_cache, tl undos)))))))"

text \<open>
  \<open>ConnectBlock\<close>. Writing the undo data and the transaction index to disk and marking the block
  index entry are left out.
\<close>

definition ConnectBlock ::
  "signature_env \<Rightarrow> (CBlockHeader \<Rightarrow> uint256) \<Rightarrow> developer_rule \<Rightarrow> uint256 \<Rightarrow> block_tree \<Rightarrow> Params \<Rightarrow> VersionBitsCache \<Rightarrow>
   CBlock \<Rightarrow> ptr \<Rightarrow> uint256 \<Rightarrow> coins_base \<Rightarrow> CCoinsViewCache \<Rightarrow> bool \<Rightarrow>
   (CCoinsViewCache \<times> CTxUndo list \<times> VersionBitsCache) val_result option" where
  "ConnectBlock sigs GetHash dev hashAssumeValid st params caches block p base_best base view_cache fJustCheck =
     call_loop (Some (deref (entries st) p)) (\<lambda>pindex.
     case CheckBlock GetHash dev block params (\<not> fJustCheck) (\<not> fJustCheck) of
       Fail e \<Rightarrow> Some (Fail e)
     | Throw x \<Rightarrow> Some (Throw x)
     | Abort \<Rightarrow> Some Abort
     | Ok block \<Rightarrow>
         call_loop (Some (case pprev pindex of None \<Rightarrow> Ok null_hash
                          | Some q \<Rightarrow> bindO (deref (entries st) q) GetBlockHash)) (\<lambda>hashPrevBlock.
         let (view_cache, best) = GetBestBlock base_best view_cache in
         if hashPrevBlock \<noteq> best then Some Abort
         else if GetHash (block_header block) = hashGenesisBlock params then
           call_loop (Some (GetBlockHash pindex)) (\<lambda>hash.
           Some (Ok (if fJustCheck then view_cache else SetBestBlock view_cache hash, [], caches)))
         else
           call_loop (Some (connect_scripts st params hashAssumeValid p pindex)) (\<lambda>fScriptChecks.
           call_loop (Some (fEnforceBIP30 (entries st) params pindex)) (\<lambda>enforce.
           case connect_flags (entries st) params pindex caches of
             None \<Rightarrow> None
           | Some r \<Rightarrow>
               Some (bindO (if enforce then bip30_loop base view_cache (vtx block) else Ok view_cache) (\<lambda>view_cache.
               bindO r (\<lambda>(flags, nLockTimeFlags, caches).
               bindO (connect_transactions \<lparr>env_sigs = sigs, env_tree = st, env_base_best = base_best, env_base = base, env_index = p,
                   env_height = nHeight pindex, env_script_flags = flags, env_lock_flags = nLockTimeFlags, env_scripts = fScriptChecks\<rparr>
                 view_cache (vtx block) params) (\<lambda>(view_cache, blockundo).
               if fJustCheck then Ok (view_cache, blockundo, caches)
               else
                 bindO (call Uint_exn (GetBlockHash pindex)) (\<lambda>hash.
                 Ok (SetBestBlock view_cache hash, blockundo, caches))))))))))"

end
