(* ===== verification/Supply.thy ===== *)
theory Supply
  imports Block_Checks
begin

text \<open>
  The money in the set of unspent outputs, and how spending and creating outputs change it.
\<close>

definition out_value :: "CTxOut \<Rightarrow> CAmount" where
  "out_value txout = (if CTxOut_IsNull txout then 0 else nValue txout)"

definition coins_value :: "CCoins \<Rightarrow> CAmount" where
  "coins_value c = sum_list (map out_value (coins_vout c))"

definition money :: "(uint256 \<Rightarrow> CCoins option) \<Rightarrow> CAmount" where
  "money V = (\<Sum>k\<in>dom V. coins_value (the (V k)))"

abbreviation live_value :: "CCoins option \<Rightarrow> CAmount" where
  "live_value x \<equiv> (case x of None \<Rightarrow> 0 | Some c \<Rightarrow> coins_value c)"

lemma money_upd:
  assumes "finite (dom V)"
  shows "money (V(k := x)) = money V - live_value (V k) + live_value x"
proof -
  have "money W = live_value (W k) + (\<Sum>j\<in>dom W - {k}. coins_value (the (W j)))" if "finite (dom W)" for W
    using that by (cases "W k") (auto simp: money_def sum.remove [of "dom W" k] domIff intro!: sum.cong)
  from this [OF assms] this [of "V(k := x)"] assms
  have "money V = live_value (V k) + (\<Sum>j\<in>dom V - {k}. coins_value (the (V j)))"
    "money (V(k := x)) = live_value x + (\<Sum>j\<in>dom (V(k := x)) - {k}. coins_value (the ((V(k := x)) j)))" by simp_all
  moreover have "(\<Sum>j\<in>dom (V(k := x)) - {k}. coins_value (the ((V(k := x)) j))) = (\<Sum>j\<in>dom V - {k}. coins_value (the (V j)))"
    by (rule sum.cong) (auto split: if_splits)
  ultimately show ?thesis by simp
qed

lemma finite_dom_upd: "finite (dom V) \<Longrightarrow> finite (dom (V(k := x)))"
  by (cases x) auto

lemma out_value_trim: "sum_list (map out_value (trim xs)) = sum_list (map out_value xs)"
proof -
  obtain ys where ys: "xs = trim xs @ ys" "\<forall>y\<in>set ys. CTxOut_IsNull y" using trim_prefix by blast
  have "sum_list (map out_value ys) = 0" using ys(2) by (induction ys) (auto simp: out_value_def)
  then show ?thesis by (subst (2) ys(1)) simp
qed

lemma sum_list_0_map: "\<forall>x\<in>set xs. f x = (0::int) \<Longrightarrow> sum_list (map f xs) = 0"
  by (induction xs) auto

lemma live_value_live: "live_value (live c) = coins_value c"
proof (cases "IsPruned c")
  case True
  then have "\<forall>o'\<in>set (coins_vout c). out_value o' = 0" by (auto simp: IsPruned_def list_all_iff out_value_def)
  then have "sum_list (map out_value (coins_vout c)) = 0" by (intro sum_list_0_map)
  then have "coins_value c = 0" by (simp add: coins_value_def)
  then show ?thesis using True by (simp add: live_def)
qed (simp add: live_def)

lemma sum_list_update_int: "n < length xs \<Longrightarrow> sum_list (xs[n := x]) = sum_list xs + x - xs ! n" for xs :: "int list"
  by (induction xs arbitrary: n) (auto split: nat.splits)

lemma coins_value_spent:
  assumes "IsAvailable c n"
  shows "coins_value (spent c n) = coins_value c - nValue (coins_vout c ! n)"
proof -
  let ?xs = "coins_vout c"
  have n: "n < length ?xs" "out_value (?xs ! n) = nValue (?xs ! n)" using assms by (auto simp: IsAvailable_def out_value_def)
  have "sum_list (map out_value (?xs[n := CTxOut_null])) = sum_list ((map out_value ?xs)[n := 0])"
    by (simp add: map_update out_value_def)
  also have "\<dots> = sum_list (map out_value ?xs) + 0 - map out_value ?xs ! n" using n(1) by (subst sum_list_update_int) auto
  finally show ?thesis using n by (simp only: coins_value_def spent_fields out_value_trim) simp
qed

lemma money_spent:
  assumes "finite (dom V)" "V k = Some c" "IsAvailable c n"
  shows "money (V(k := live (spent c n))) = money V - nValue (coins_vout c ! n)"
  using money_upd [OF assms(1), of k] assms(2) coins_value_spent [OF assms(3)] by (simp add: live_value_live)

subsection \<open>Spending the inputs of a transaction\<close>

text \<open>Spending one output leaves the others as they are.\<close>

lemma nth_trim: "n < length (trim xs) \<Longrightarrow> trim xs ! n = xs ! n"
  using trim_prefix [of xs] by (metis nth_append)

lemma length_trim: "length (trim xs) \<le> length xs"
  using length_dropWhile_le [of CTxOut_IsNull "rev xs"] by simp

lemma available_spent:
  assumes "IsAvailable (spent c n) m"
  shows "IsAvailable c m" "coins_vout (spent c n) ! m = coins_vout c ! m" "m \<noteq> n"
proof -
  let ?xs = "(coins_vout c)[n := CTxOut_null]"
  have m: "m < length (trim ?xs)" "\<not> CTxOut_IsNull (trim ?xs ! m)" using assms by (simp_all add: IsAvailable_def)
  then have m': "m < length (coins_vout c)" "\<not> CTxOut_IsNull (?xs ! m)" using nth_trim [of m ?xs] length_trim [of ?xs] by simp_all
  then show mn: "m \<noteq> n" using CTxOut_null_IsNull by auto
  show "IsAvailable c m" using m' mn by (simp add: IsAvailable_def)
  show "coins_vout (spent c n) ! m = coins_vout c ! m" using nth_trim [OF m(1)] mn by simp
qed

lemma output_of_spent:
  assumes "V (op_hash out) = Some c" "output_of (V(op_hash out := live (spent c (unat (op_n out))))) out' = Some txout"
  shows "output_of V out' = Some txout" "out' \<noteq> out"
proof -
  let ?n = "unat (op_n out)"
  have "output_of V out' = Some txout \<and> out' \<noteq> out"
  proof (cases "op_hash out' = op_hash out")
    case True
    then have "IsAvailable (spent c ?n) (unat (op_n out'))" "txout = coins_vout (spent c ?n) ! unat (op_n out')"
      using assms(2) by (auto simp: output_of_def live_def split: if_splits option.splits)
    then show ?thesis using available_spent [of c ?n "unat (op_n out')"] assms(1) True by (auto simp: output_of_def)
  qed (use assms in \<open>auto simp: output_of_def\<close>)
  then show "output_of V out' = Some txout" "out' \<noteq> out" by auto
qed

lemma view_spend_outputs:
  assumes "view_spend V ins = Some (V', undos)"
  shows "list_all (available V) ins" "distinct (map prevout ins)" "output_of V' out = Some txout \<Longrightarrow> output_of V out = Some txout"
proof -
  have "list_all (available V) ins \<and> distinct (map prevout ins) \<and> (\<forall>out txout. output_of V' out = Some txout \<longrightarrow> output_of V out = Some txout)"
    using assms
  proof (induction ins arbitrary: V undos)
    case (Cons txin ins)
    let ?o = "prevout txin"
    obtain c us where c: "V (op_hash ?o) = Some c" "IsAvailable c (unat (op_n ?o))"
      "view_spend (V(op_hash ?o := live (spent c (unat (op_n ?o))))) ins = Some (V', us)"
      using Cons.prems by (auto split: option.splits if_splits)
    define V1 where "V1 = V(op_hash ?o := live (spent c (unat (op_n ?o))))"
    have "available V txin" using c(1,2) by (simp add: output_of_def)
    moreover have "output_of V1 out' = Some txout \<Longrightarrow> output_of V out' = Some txout \<and> out' \<noteq> ?o" for out' txout
      using output_of_spent [of V ?o c] c(1) unfolding V1_def by blast
    ultimately show ?case using Cons.IH [OF c(3)] unfolding list_all_iff V1_def [symmetric] by fastforce
  qed simp
  then show "list_all (available V) ins" "distinct (map prevout ins)" "output_of V' out = Some txout \<Longrightarrow> output_of V out = Some txout" by auto
qed

lemma view_spend_money:
  assumes "view_spend V ins = Some (V', undos)" "finite (dom V)"
  shows "money V' = money V - value_in V ins" "finite (dom V')"
proof -
  have "money V' = money V - value_in V ins \<and> finite (dom V')"
    using assms
  proof (induction ins arbitrary: V undos)
    case (Cons txin ins)
    let ?o = "prevout txin"
    obtain c us where c: "V (op_hash ?o) = Some c" "IsAvailable c (unat (op_n ?o))"
      "view_spend (V(op_hash ?o := live (spent c (unat (op_n ?o))))) ins = Some (V', us)"
      using Cons.prems(1) by (auto split: option.splits if_splits)
    define V1 where "V1 = V(op_hash ?o := live (spent c (unat (op_n ?o))))"
    have s: "view_spend V1 ins = Some (V', us)" using c(3) by (simp add: V1_def)
    have f: "finite (dom V1)" using Cons.prems(2) unfolding V1_def by (rule finite_dom_upd)
    have "value_of V1 (prevout i) = value_of V (prevout i)" if pb: "i \<in> set ins" for i
    proof -
      obtain txout where "output_of V1 (prevout i) = Some txout" using view_spend_outputs(1) [OF s] pb by (auto simp: list_all_iff)
      then show ?thesis using output_of_spent(1) [of V ?o c "prevout i" txout] c(1) by (simp add: V1_def value_of_def)
    qed
    then have "value_in V1 ins = value_in V ins" by (intro arg_cong [where f = sum_list] map_cong) auto
    moreover have "money V1 = money V - value_of V ?o"
      unfolding V1_def using money_spent [OF Cons.prems(2) c(1,2)] c(1,2) by (simp add: value_of_def output_of_def)
    ultimately show ?case using Cons.IH [OF s f] by simp
  qed simp
  then show "money V' = money V - value_in V ins" "finite (dom V')" by auto
qed


subsection \<open>Creating outputs\<close>

lemma coins_value_FromTx:
  assumes "list_all (\<lambda>txout. MoneyRange (nValue txout)) (vout tx)"
  shows "coins_value (FromTx tx h) \<le> value_out tx"
proof -
  have "coins_value (FromTx tx h) = sum_list (map out_value (map wipe (vout tx)))"
    by (simp only: coins_value_def coins_vout_FromTx out_value_trim)
  also have "\<dots> \<le> value_out tx"
    using assms by (auto simp: o_def out_value_def wipe_def CTxOut_IsNull_def CTxOut_null_def MoneyRange_def list_all_iff intro!: sum_list_mono)
  finally show ?thesis .
qed

lemma length_vout_Serialize: "length (vout tx) \<le> length (SerializeTransaction False tx)"
proof -
  have "length xs \<le> length (concat (map CTxOut_Serialize xs))" for xs
  proof (induction xs)
    case (Cons a xs)
    have "1 \<le> length (CTxOut_Serialize a)" by (simp add: CTxOut_Serialize_def ser_writedata64_def)
    then show ?case using Cons by simp
  qed simp
  from this [of "vout tx"] show ?thesis by (simp add: SerializeTransaction_def Serialize_vector_def)
qed

lemma checked_outputs_ok: "CheckTransaction dev tx dup = Ok () \<Longrightarrow> outputs_ok tx"
  using CheckTransaction_Ok(3,4) [of dev tx dup] length_vout_Serialize [of tx]
  by (auto simp: outputs_ok_def MAX_BLOCK_BASE_SIZE_def list_all_iff MoneyRange_def)

subsection \<open>Typed coins stay typed\<close>

lemma set_trim_update: "set (trim (xs[n := CTxOut_null])) \<subseteq> insert CTxOut_null (set xs)"
  using set_trim set_update_subset_insert by (metis subset_trans)

lemma coins_typed_spent:
  assumes "coins_typed c" "live (spent c n) = Some c'"
  shows "coins_typed c'"
proof -
  have "c' = spent c n" using assms(2) by (rule live_SomeD)
  moreover have "coins_wf c'" using live_spent_wf assms by (auto simp: coins_typed_def)
  ultimately show ?thesis using assms(1) set_trim_update [of "coins_vout c" n]
    by (auto simp: coins_typed_def simp del: set_rev dest!: subsetD)
qed

lemma view_spend_typed: "view_typed V \<Longrightarrow> view_spend V ins = Some (V', undos) \<Longrightarrow> view_typed V'"
proof (induction ins arbitrary: V undos)
  case (Cons txin ins)
  let ?h = "op_hash (prevout txin)" and ?n = "unat (op_n (prevout txin))"
  obtain c us where c: "V ?h = Some c" "view_spend (V(?h := live (spent c ?n))) ins = Some (V', us)"
    using Cons.prems(2) by (auto split: option.splits if_splits)
  have "view_typed (V(?h := live (spent c ?n)))"
    using Cons.prems(1) c(1) coins_typed_spent unfolding view_typed_def by (metis fun_upd_apply)
  then show ?case using Cons.IH c(2) by blast
qed simp

lemma coins_typed_FromTx:
  assumes "CheckTransaction dev tx dup = Ok ()" "0 < h" "live (FromTx tx h) = Some c"
  shows "coins_typed c"
proof -
  have "c = FromTx tx h" using assms(3) by (rule live_SomeD)
  then have v: "coins_vout c = trim (map wipe (vout tx))" by (simp only: coins_vout_FromTx)
  have "\<forall>txout\<in>set (map wipe (vout tx)). CTxOut_IsNull txout \<or> MoneyRange (nValue txout)"
    using CheckTransaction_Ok(4) [OF assms(1)] by (auto simp: wipe_def list_all_iff)
  then have "\<forall>txout\<in>set (coins_vout c). CTxOut_IsNull txout \<or> MoneyRange (nValue txout)"
    unfolding v using set_trim [of "map wipe (vout tx)"] by blast
  then show ?thesis using FromTx_wf [OF checked_outputs_ok [OF assms(1)] assms(2,3)] by (simp add: coins_typed_def)
qed

lemma coins_value_nonneg: "coins_typed c \<Longrightarrow> 0 \<le> coins_value c"
  unfolding coins_value_def coins_typed_def
  by (intro sum_list_nonneg) (auto simp: out_value_def MoneyRange_def)

subsection \<open>Applying a transaction\<close>

lemma release_cached:
  assumes "modifying base cache txid c" "release c txid coins = Ok cache'" "cached base cache k"
  shows "cached base cache' k"
proof -
  obtain e where e: "map_of (cacheCoins c) txid = Some e" "flags_ok base txid e"
    using assms(1) by (auto simp: modifying_def map_ok_def)
  have k: "k \<noteq> txid \<Longrightarrow> map_of (cacheCoins c) k = map_of (cacheCoins cache) k" using assms(1) by (simp add: modifying_def)
  show ?thesis
    using assms(2,3) e k by (cases "k = txid") (auto simp: release_def cached_def Let_def flags_ok_def outcome_simps split: if_splits)
qed

lemma spend_inputs_cached:
  assumes "cache_wf base cache" "spend_inputs base cache ins = Ok (cache', undos)" "cached base cache k"
  shows "cached base cache' k"
  using assms
proof (induction ins arbitrary: cache undos)
  case (Cons txin ins)
  let ?h = "op_hash (prevout txin)"
  obtain c1 u us where c1: "spend_input base cache txin = Ok (c1, u)" "spend_inputs base c1 ins = Ok (cache', us)"
    using Cons.prems(2) by (auto simp: outcome_simps)
  obtain m coins where m: "ModifyCoins base cache ?h = Ok (m, coins)" "modifying base cache ?h m" using ModifyCoins_ok [OF Cons.prems(1)] by blast
  obtain coins' where r: "release m ?h coins' = Ok c1"
    using c1(1) m(1) by (auto simp: spend_input_def outcome_simps Let_def split: prod.splits)
  have "cache_wf base c1" using release_ok [OF m(2), of coins'] r by auto
  then show ?case using Cons.IH [OF _ c1(2)] release_cached [OF m(2) r Cons.prems(3)] by blast
qed simp

lemma ModifyNewCoins_cached:
  assumes "ModifyNewCoins cache k False = Ok r" "cached base cache k"
  shows "view base cache k = None"
  using assms by (auto simp: ModifyNewCoins_def outcome_simps Let_def cached_def view_def live_def split: option.splits if_splits)

lemma UpdateCoins_Ok:
  assumes "cache_wf base cache" "cached base cache (CTransaction_GetHash tx)" "UpdateCoins base cache tx h = Ok (cache', undos)"
  obtains V1 where "if IsCoinBase tx then V1 = view base cache else view_spend (view base cache) (vin tx) = Some (V1, undos)"
    "IsCoinBase tx \<or> V1 (CTransaction_GetHash tx) = None"
    "view base cache' = V1(CTransaction_GetHash tx := live (FromTx tx h))" "cache_wf base cache'" "hashBlock cache' = hashBlock cache"
    "\<forall>k. cached base cache k \<longrightarrow> cached base cache' k"
proof -
  let ?id = "CTransaction_GetHash tx"
  let ?m = "if \<not> IsCoinBase tx then spend_inputs base cache (vin tx) else Ok (cache, [])"
  obtain c1 us c2 x where c: "?m = Ok (c1, us)" "ModifyNewCoins c1 ?id (IsCoinBase tx) = Ok (c2, x)" "release c2 ?id (FromTx tx h) = Ok cache'" "undos = us"
    using assms(3) by (auto simp: UpdateCoins_def outcome_simps)
  have c1: "cache_wf base c1" "hashBlock c1 = hashBlock cache" "\<forall>k. cached base cache k \<longrightarrow> cached base c1 k"
    "if IsCoinBase tx then view base c1 = view base cache else view_spend (view base cache) (vin tx) = Some (view base c1, undos)"
    using c(1,4) assms(1) spend_inputs_ok [OF assms(1), of "vin tx"] spend_inputs_cached [OF assms(1), of "vin tx" c1 us]
    by (auto split: if_splits option.splits)
  have n: "IsCoinBase tx \<or> view base c1 ?id = None"
    using ModifyNewCoins_cached [of c1 ?id] c(2) c1(3) assms(2) by (cases "IsCoinBase tx") auto
  from ModifyNewCoins_ok [OF c1(1) n] c(2) have m: "modifying base c1 ?id c2" by auto
  from release_ok [OF m, of "FromTx tx h"] c(3) have r: "cache_wf base cache'" "hashBlock cache' = hashBlock c1"
    "view base cache' = (view base c1)(?id := live (FromTx tx h))" by auto
  have "\<forall>k. cached base cache k \<longrightarrow> cached base cache' k" using c1(3) release_cached [OF m c(3)] by blast
  then show thesis using that [of "view base c1"] c1 n r by auto
qed

lemma UpdateCoins_money:
  assumes "cache_wf base cache" "cached base cache (CTransaction_GetHash tx)" "UpdateCoins base cache tx h = Ok (cache', undos)"
    and "view_typed (view base cache)" "finite (dom (view base cache))" "CheckTransaction dev tx dup = Ok ()" "0 < h"
  shows "view_typed (view base cache')" "finite (dom (view base cache'))"
    "money (view base cache') \<le> money (view base cache) + value_out tx - (if IsCoinBase tx then 0 else value_in (view base cache) (vin tx))"
proof -
  let ?id = "CTransaction_GetHash tx"
  obtain V1 where V1: "if IsCoinBase tx then V1 = view base cache else view_spend (view base cache) (vin tx) = Some (V1, undos)"
    "view base cache' = V1(?id := live (FromTx tx h))"
    using UpdateCoins_Ok [OF assms(1-3)] by metis
  have ty: "view_typed V1" "finite (dom V1)" "money V1 = money (view base cache) - (if IsCoinBase tx then 0 else value_in (view base cache) (vin tx))"
    using V1(1) assms(4,5) view_spend_typed view_spend_money by (auto split: if_splits)
  show "view_typed (view base cache')"
    using ty(1) coins_typed_FromTx [OF assms(6,7)] unfolding V1(2) by (auto simp: view_typed_def)
  show "finite (dom (view base cache'))" unfolding V1(2) using ty(2) by (rule finite_dom_upd)
  have "0 \<le> live_value (V1 ?id)" using ty(1) coins_value_nonneg by (auto simp: view_typed_def split: option.splits)
  then show "money (view base cache') \<le> money (view base cache) + value_out tx - (if IsCoinBase tx then 0 else value_in (view base cache) (vin tx))"
    unfolding V1(2) money_upd [OF ty(2)] live_value_live using ty(3) coins_value_FromTx [OF CheckTransaction_Ok(4) [OF assms(6)], of h] by simp
qed

end
