(* ===== verification/Connect_Block.thy ===== *)
theory Connect_Block
  imports Supply
begin

text \<open>
  What \<open>ConnectBlock\<close> does to the unspent outputs: accepted blocks create no more money than the subsidy
  and keep the coins well formed.
\<close>

subsection \<open>The steps of the loop\<close>

lemma GetBestBlock_reads: "cache_wf base cache \<Longrightarrow> reads base cache (fst (GetBestBlock base_best cache))"
  by (auto simp: GetBestBlock_def reads_def Let_def cache_wf_def view_def fun_eq_iff cached_def)

lemma prev_heights_Ok: "cache_wf base cache \<Longrightarrow> prev_heights base cache ins = Ok (cache', ks) \<Longrightarrow> reads base cache cache'"
proof (induction ins arbitrary: cache ks)
  case (Cons txin ins)
  from AccessCoins_reads [OF Cons.prems(1)] obtain c r where a: "AccessCoins base cache (op_hash (prevout txin)) = (c, r)" "reads base cache c" by blast
  obtain ks' where "prev_heights base c ins = Ok (cache', ks')" using Cons.prems(2) a(1) by (cases r) (auto simp: outcome_simps)
  then show ?case using Cons.IH [OF readsD(1) [OF a(2)]] reads_trans [OF a(2)] by blast
qed (auto intro: reads_refl)

lemma check_locks_Ok:
  assumes "cache_wf (env_base ce) cache" "check_locks ce cache tx = Ok cache'"
  shows "reads (env_base ce) cache cache'" "IsCoinBase tx \<or> list_all (available (view (env_base ce) cache)) (vin tx)"
proof -
  from HaveInputs_reads [OF assms(1), of tx] obtain c where
    c: "HaveInputs (env_base ce) cache tx = (c, IsCoinBase tx \<or> list_all (available (view (env_base ce) cache)) (vin tx))" "reads (env_base ce) cache c" by blast
  show "IsCoinBase tx \<or> list_all (available (view (env_base ce) cache)) (vin tx)"
    using assms(2) c(1) by (auto simp: check_locks_def outcome_simps split: if_splits)
  show "reads (env_base ce) cache cache'"
  proof (cases "IsCoinBase tx")
    case True
    then show ?thesis using assms by (simp add: check_locks_def reads_refl)
  next
    case False
    then obtain ks where "prev_heights (env_base ce) c (vin tx) = Ok (cache', ks)"
      using assms(2) c(1) by (auto simp: check_locks_def outcome_simps)
    then show ?thesis using prev_heights_Ok [OF readsD(1) [OF c(2)]] reads_trans [OF c(2)] by blast
  qed
qed

lemma script_loop_Ok: "cache_wf base cache \<Longrightarrow> script_loop sigs base cache tx flags is = Ok cache' \<Longrightarrow> reads base cache cache'"
proof (induction "is" arbitrary: cache)
  case (Cons i "is")
  from AccessCoins_reads [OF Cons.prems(1)] obtain c r where a: "AccessCoins base cache (op_hash (prevout (vin tx ! i))) = (c, r)" "reads base cache c" by blast
  have "script_loop sigs base c tx flags is = Ok cache'" using Cons.prems(2) a(1) by (cases r) (auto simp: outcome_simps)
  then show ?case using Cons.IH [OF readsD(1) [OF a(2)]] reads_trans [OF a(2)] by blast
qed (auto intro: reads_refl)

lemma CheckInputs_Ok:
  assumes "cache_wf base cache" "CheckInputs sigs st base_best base cache tx scripts flags = Ok cache'"
  shows "reads base cache cache'" "IsCoinBase tx \<or> (\<exists>h. inputs_ok (view base cache) tx h)"
proof -
  have "reads base cache cache' \<and> (IsCoinBase tx \<or> (\<exists>h. inputs_ok (view base cache) tx h))"
  proof (cases "IsCoinBase tx")
    case True
    then show ?thesis using assms by (simp add: CheckInputs_def reads_refl)
  next
    case False
    let ?c = "fst (GetBestBlock base_best cache)"
    obtain h c where c: "CheckTxInputs base ?c tx h = Ok c" "c = cache' \<or> script_loop sigs base c tx flags [0..<length (vin tx)] = Ok cache'"
      using assms(2) False by (auto simp: CheckInputs_def GetSpendHeight_def outcome_simps split: option.splits prod.splits if_splits)
    note g = GetBestBlock_reads [OF assms(1), of base_best]
    note t = CheckTxInputs_Ok [OF readsD(1) [OF g] False c(1)]
    have "reads base c cache'" using c(2) script_loop_Ok [OF readsD(1) [OF t(1)]] reads_refl [OF readsD(1) [OF t(1)]] by blast
    then show ?thesis using t(2) readsD(2) [OF g] reads_trans [OF reads_trans [OF g t(1)]] by auto
  qed
  then show "reads base cache cache'" "IsCoinBase tx \<or> (\<exists>h. inputs_ok (view base cache) tx h)" by blast+
qed

lemma check_fees_Ok:
  assumes "cache_wf (env_base ce) cache" "check_fees ce cache tx nFees = Ok (cache', nFees')"
  shows "reads (env_base ce) cache cache'"
    "nFees' = (if IsCoinBase tx then nFees else nFees + (value_in (view (env_base ce) cache) (vin tx) - value_out tx))"
    "IsCoinBase tx \<or> (\<exists>h. inputs_ok (view (env_base ce) cache) tx h)"
proof -
  have "reads (env_base ce) cache cache' \<and> nFees' = (if IsCoinBase tx then nFees else nFees + (value_in (view (env_base ce) cache) (vin tx) - value_out tx)) \<and>
    (IsCoinBase tx \<or> (\<exists>h. inputs_ok (view (env_base ce) cache) tx h))"
  proof (cases "IsCoinBase tx")
    case True
    then show ?thesis using assms by (simp add: check_fees_def reads_refl)
  next
    case False
    obtain c v where c: "GetValueIn_loop (env_base ce) cache (vin tx) 0 = Ok (c, v)" "nFees' = nFees + (v - value_out tx)"
      "CheckInputs (env_sigs ce) (env_tree ce) (env_base_best ce) (env_base ce) c tx (env_scripts ce) (env_script_flags ce) = Ok cache'"
      using assms(2) False by (auto simp: check_fees_def GetValueIn_def GetValueOut_Ok outcome_simps int64_def split: if_splits)
    note v = GetValueIn_loop_Ok [OF assms(1) c(1)]
    have r: "reads (env_base ce) cache c" using v by blast
    note i = CheckInputs_Ok [OF readsD(1) [OF r] c(3)]
    show ?thesis using v c(2) i False readsD(2) [OF r] reads_trans [OF r i(1)] by simp
  qed
  then show "reads (env_base ce) cache cache'" "IsCoinBase tx \<or> (\<exists>h. inputs_ok (view (env_base ce) cache) tx h)"
    "nFees' = (if IsCoinBase tx then nFees else nFees + (value_in (view (env_base ce) cache) (vin tx) - value_out tx))" by blast+
qed


subsection \<open>The loop\<close>

text \<open>A cache over a view with typed coins.\<close>

definition coins_ok :: "coins_base \<Rightarrow> CCoinsViewCache \<Rightarrow> bool" where
  "coins_ok base cache \<longleftrightarrow> cache_wf base cache \<and> view_typed (view base cache) \<and> finite (dom (view base cache))"

lemma reads_coins_ok: "coins_ok base cache \<Longrightarrow> reads base cache cache' \<Longrightarrow> coins_ok base cache'"
  by (simp add: coins_ok_def reads_def)

text \<open>The effect of one transaction, from the checks to the update.\<close>

lemma connect_step:
  assumes "connect_loop ce cache nFees n (tx # txs) = Ok (cache', nFees', undos)" "cache_wf (env_base ce) cache"
  obtains c c2 f m undo us where "reads (env_base ce) cache c" "UpdateCoins (env_base ce) c tx (env_height ce) = Ok (c2, undo)"
    "f = (if IsCoinBase tx then nFees else nFees + (value_in (view (env_base ce) cache) (vin tx) - value_out tx))"
    "IsCoinBase tx \<or> (\<exists>h. inputs_ok (view (env_base ce) cache) tx h)"
    "connect_loop ce c2 f m txs = Ok (cache', nFees', us)" "undos = undo # us"
proof -
  obtain c1 c2 c3 c4 k m f undo us where c: "check_locks ce cache tx = Ok c1" "GetTransactionSigOpCost (env_base ce) c1 tx (env_script_flags ce) = Ok (c2, k)"
    "check_fees ce c2 tx nFees = Ok (c3, f)" "UpdateCoins (env_base ce) c3 tx (env_height ce) = Ok (c4, undo)"
    "connect_loop ce c4 f m txs = Ok (cache', nFees', us)" "undos = undo # us"
    using assms(1) by (auto simp: outcome_simps)
  note r1 = check_locks_Ok(1) [OF assms(2) c(1)]
  note r2 = GetTransactionSigOpCost_Ok [OF readsD(1) [OF r1] c(2)]
  note r12 = reads_trans [OF r1 r2]
  note r3 = check_fees_Ok [OF readsD(1) [OF r12] c(3)]
  show thesis
    using that [OF reads_trans [OF r12 r3(1)] c(4) _ _ c(5,6)] r3(2,3) readsD(2) [OF r12] by auto
qed

lemma connect_loop_money:
  assumes "connect_loop ce cache nFees n txs = Ok (cache', nFees', undos)" "coins_ok (env_base ce) cache" "0 < env_height ce"
    and "\<forall>tx\<in>set txs. cached (env_base ce) cache (CTransaction_GetHash tx)" "\<forall>tx\<in>set txs. CheckTransaction dev tx False = Ok ()"
  shows "coins_ok (env_base ce) cache' \<and> length undos = length txs \<and>
    money (view (env_base ce) cache') + nFees' \<le> money (view (env_base ce) cache) + nFees + (\<Sum>tx\<leftarrow>filter IsCoinBase txs. value_out tx)"
  using assms
proof (induction txs arbitrary: cache nFees n undos)
  case (Cons tx txs)
  have wf: "cache_wf (env_base ce) cache" using Cons.prems(2) by (simp add: coins_ok_def)
  from connect_step [OF Cons.prems(1) wf] obtain c c2 f m undo us where r: "reads (env_base ce) cache c"
    and u: "UpdateCoins (env_base ce) c tx (env_height ce) = Ok (c2, undo)"
    and f: "f = (if IsCoinBase tx then nFees else nFees + (value_in (view (env_base ce) cache) (vin tx) - value_out tx))"
    and l: "connect_loop ce c2 f m txs = Ok (cache', nFees', us)" "undos = undo # us" by metis
  have c: "cache_wf (env_base ce) c" "view (env_base ce) c = view (env_base ce) cache" "\<forall>t\<in>set (tx # txs). cached (env_base ce) c (CTransaction_GetHash t)"
    "view_typed (view (env_base ce) c)" "finite (dom (view (env_base ce) c))"
    using readsD [OF r] Cons.prems(2,4) by (auto simp: coins_ok_def)
  have id: "cached (env_base ce) c (CTransaction_GetHash tx)" and ck: "CheckTransaction dev tx False = Ok ()" using c(3) Cons.prems(5) by simp_all
  note m = UpdateCoins_money [OF c(1) id u c(4,5) ck Cons.prems(3)]
  obtain V1 where "cache_wf (env_base ce) c2" "\<forall>k. cached (env_base ce) c k \<longrightarrow> cached (env_base ce) c2 k"
    using UpdateCoins_Ok [OF c(1) id u] by metis
  then have "coins_ok (env_base ce) c2" "\<forall>t\<in>set txs. cached (env_base ce) c2 (CTransaction_GetHash t)" using m(1,2) c(3) by (auto simp: coins_ok_def)
  from Cons.IH [OF l(1) this(1) Cons.prems(3) this(2)] Cons.prems(5) l(2) m(3) f c(2) show ?case by (auto split: if_splits)
qed simp

lemma connect_transactions_money:
  assumes "connect_transactions ce cache txs params = Ok (cache', undos)" "coins_ok (env_base ce) cache" "0 < env_height ce"
    and "\<forall>tx\<in>set txs. cached (env_base ce) cache (CTransaction_GetHash tx)" "\<forall>tx\<in>set txs. CheckTransaction dev tx False = Ok ()"
    and "IsCoinBase (hd txs)" "\<not> list_ex IsCoinBase (tl txs)" "GetBlockSubsidy (env_height ce) params = Ok subsidy"
  shows "coins_ok (env_base ce) cache'" "length undos = length txs - 1"
    "money (view (env_base ce) cache') \<le> money (view (env_base ce) cache) + subsidy"
proof -
  obtain nFees us where c: "connect_loop ce cache 0 0 txs = Ok (cache', nFees, us)" "value_out (hd txs) \<le> nFees + subsidy" "txs \<noteq> []" "undos = tl us"
    using assms(1,8) by (auto simp: connect_transactions_def outcome_simps GetValueOut_Ok int64_def split: if_splits)
  have "filter IsCoinBase txs = [hd txs]"
    using c(3) assms(6,7) by (cases txs) (auto simp: list_ex_iff filter_empty_conv)
  then show "coins_ok (env_base ce) cache'" "length undos = length txs - 1"
    "money (view (env_base ce) cache') \<le> money (view (env_base ce) cache) + subsidy"
    using connect_loop_money [OF c(1) assms(2-5)] c(2,4) by auto
qed

subsection \<open>The block\<close>

lemma check_transactions_Ok: "check_transactions dev txs = Ok () \<longleftrightarrow> (\<forall>tx\<in>set txs. CheckTransaction dev tx False = Ok ())"
  by (induction txs) (auto simp: outcome_simps)

lemma CheckBlock_Ok:
  assumes "CheckBlock GetHash dev block params pow merkle = Ok block'" "\<not> fChecked block"
  shows "vtx block' = vtx block" "block_header block' = block_header block" "vtx block \<noteq> []" "IsCoinBase (hd (vtx block))"
    "\<not> list_ex IsCoinBase (tl (vtx block))" "\<forall>tx\<in>set (vtx block). CheckTransaction dev tx False = Ok ()"
  using assms by (auto simp: CheckBlock_def outcome_simps check_transactions_Ok)

lemma bip30_loop_Ok:
  "cache_wf base cache \<Longrightarrow> bip30_loop base cache txs = Ok cache' \<Longrightarrow>
    reads base cache cache' \<and> (\<forall>tx\<in>set txs. cached base cache' (CTransaction_GetHash tx) \<and> view base cache (CTransaction_GetHash tx) = None)"
proof (induction txs arbitrary: cache)
  case (Cons tx txs)
  from AccessCoins_reads [OF Cons.prems(1)] obtain c r where a: "AccessCoins base cache (CTransaction_GetHash tx) = (c, r)" "reads base cache c"
    "view base cache (CTransaction_GetHash tx) = Option.bind r live" "cached base c (CTransaction_GetHash tx)" by blast
  have l: "bip30_loop base c txs = Ok cache'" "r = None \<or> IsPruned (the r)" using Cons.prems(2) a(1) by (auto simp: outcome_simps split: option.splits)
  have "view base cache (CTransaction_GetHash tx) = None" using a(3) l(2) by (cases r) (auto simp: live_def)
  then show ?case using Cons.IH [OF readsD(1) [OF a(2)] l(1)] a(2,4) readsD [OF a(2)] by (auto intro: reads_trans dest: readsD(4))
qed (auto intro: reads_refl)

lemma call_loop_Ok: "call_loop m f = Some (Ok b) \<longleftrightarrow> (\<exists>a. m = Some (Ok a) \<and> f a = Some (Ok b))"
  by (auto simp: call_loop_def call_def split: option.splits outcome.splits)

lemma GetBlockSubsidy_nonneg: "GetBlockSubsidy height params = Ok subsidy \<Longrightarrow> 0 \<le> subsidy"
  by (auto simp: GetBlockSubsidy_def outcome_simps COIN_def split: if_splits)

text \<open>An accepted block is the genesis block, or its transactions were connected.\<close>

lemma ConnectBlock_cases:
  assumes "ConnectBlock sigs GetHash dev assume_valid st params caches block p base_best base cache justcheck = Some (Ok (cache', undos, caches'))"
    and "cache_wf base cache" "\<not> fChecked block" "entries st p = Some pindex" "fEnforceBIP30 (entries st) params pindex = Ok True"
  obtains (genesis) c where "GetHash (block_header block) = hashGenesisBlock params" "reads base cache c"
      "view base cache' = view base c" "cache_wf base cache' = cache_wf base c"
    | (connect) c ce c' where "reads base cache c" "env_base ce = base" "env_height ce = nHeight pindex"
      "connect_transactions ce c (vtx block) params = Ok (c', undos)"
      "view base cache' = view base c'" "cache_wf base cache' = cache_wf base c'" "justcheck \<or> phashBlock pindex = Some (hashBlock cache')"
      "\<forall>tx\<in>set (vtx block). cached base c (CTransaction_GetHash tx) \<and> view base cache (CTransaction_GetHash tx) = None"
      "\<forall>tx\<in>set (vtx block). CheckTransaction dev tx False = Ok ()" "vtx block \<noteq> []"
      "IsCoinBase (hd (vtx block))" "\<not> list_ex IsCoinBase (tl (vtx block))"
proof -
  have d: "deref (entries st) p = Ok pindex" using assms(4) by (simp add: deref_def)
  note g = GetBestBlock_reads [OF assms(2), of base_best]
  obtain block' where b: "CheckBlock GetHash dev block params (\<not> justcheck) (\<not> justcheck) = Ok block'"
    using assms(1) d by (auto simp: ConnectBlock_def call_loop_Ok split: outcome.splits)
  note k = CheckBlock_Ok [OF b assms(3)]
  obtain c best where c: "GetBestBlock base_best cache = (c, best)" by (cases "GetBestBlock base_best cache")
  have rc: "reads base cache c" using g c by simp
  show thesis
  proof (cases "GetHash (block_header block) = hashGenesisBlock params")
    case True
    then have "cache' = c \<or> (\<exists>h. cache' = SetBestBlock c h)"
      using assms(1) d b k(2) c by (auto simp: ConnectBlock_def call_loop_Ok split: if_splits)
    then show thesis using genesis [OF True rc] by auto
  next
    case False
    let ?ce = "\<lambda>flags locks scripts. \<lparr>env_sigs = sigs, env_tree = st, env_base_best = base_best, env_base = base, env_index = p,
      env_height = nHeight pindex, env_script_flags = flags, env_lock_flags = locks, env_scripts = scripts\<rparr>"
    have "\<exists>flags locks scripts c1 c2. bip30_loop base c (vtx block) = Ok c1 \<and>
      connect_transactions (?ce flags locks scripts) c1 (vtx block) params = Ok (c2, undos) \<and>
      (justcheck \<and> cache' = c2 \<or> (\<exists>h. GetBlockHash pindex = Ok h \<and> cache' = SetBestBlock c2 h))"
      using False assms(1,5) d b k(1,2) c
      by (auto simp: ConnectBlock_def call_loop_Ok outcome_simps split: if_splits option.splits) metis+
    then obtain flags locks scripts c1 c2 where e: "bip30_loop base c (vtx block) = Ok c1"
      "connect_transactions (?ce flags locks scripts) c1 (vtx block) params = Ok (c2, undos)"
      "justcheck \<and> cache' = c2 \<or> (\<exists>h. GetBlockHash pindex = Ok h \<and> cache' = SetBestBlock c2 h)" by blast
    note l = bip30_loop_Ok [OF readsD(1) [OF rc] e(1)]
    have t: "view base cache' = view base c2" "cache_wf base cache' = cache_wf base c2" "justcheck \<or> phashBlock pindex = Some (hashBlock cache')"
      using e(3) by (auto simp: GetBlockHash_def SetBestBlock_def [THEN arg_cong [where f = hashBlock]] split: option.splits)
    show thesis
      using connect [OF _ _ _ e(2) t _ k(6,3,4,5)] l rc readsD(2) [OF rc] reads_trans by auto
  qed
qed

subsection \<open>The undo data\<close>

lemma connect_loop_connected:
  assumes "connect_loop ce cache nFees n txs = Ok (cache', nFees', undos)" "cache_wf (env_base ce) cache"
    and "\<forall>tx\<in>set txs. cached (env_base ce) cache (CTransaction_GetHash tx) \<and> outputs_ok tx"
    and "list_all (\<lambda>tx. IsCoinBase tx \<longrightarrow> view (env_base ce) cache (CTransaction_GetHash tx) = None) (take 1 txs)"
    and "list_all (\<lambda>tx. \<not> IsCoinBase tx) (tl txs)"
  shows "cache_wf (env_base ce) cache' \<and> connected (view (env_base ce) cache) txs (env_height ce) (view (env_base ce) cache') undos"
  using assms
proof (induction txs arbitrary: cache nFees n undos)
  case (Cons tx txs)
  let ?id = "CTransaction_GetHash tx"
  from connect_step [OF Cons.prems(1,2)] obtain c c2 f m undo us where r: "reads (env_base ce) cache c"
    and u: "UpdateCoins (env_base ce) c tx (env_height ce) = Ok (c2, undo)" and l: "connect_loop ce c2 f m txs = Ok (cache', nFees', us)" "undos = undo # us" by metis
  have c: "cache_wf (env_base ce) c" "view (env_base ce) c = view (env_base ce) cache" "\<forall>t\<in>set (tx # txs). cached (env_base ce) c (CTransaction_GetHash t)"
    using readsD [OF r] Cons.prems(3) by auto
  from UpdateCoins_Ok [OF c(1) _ u] c(3) obtain V1 where
    V1: "if IsCoinBase tx then V1 = view (env_base ce) c else view_spend (view (env_base ce) c) (vin tx) = Some (V1, undo)"
      "IsCoinBase tx \<or> V1 ?id = None" "view (env_base ce) c2 = V1(?id := live (FromTx tx (env_height ce)))" "cache_wf (env_base ce) c2"
      "\<forall>k. cached (env_base ce) c k \<longrightarrow> cached (env_base ce) c2 k" by (metis list.set_intros(1))
  have "list_all (\<lambda>tx. IsCoinBase tx \<longrightarrow> view (env_base ce) c2 (CTransaction_GetHash tx) = None) (take 1 txs)"
    "list_all (\<lambda>tx. \<not> IsCoinBase tx) (tl txs)" using Cons.prems(5) by (cases txs; simp)+
  from Cons.IH [OF l(1) V1(4) _ this] V1(5) c(3) Cons.prems(3)
  have "cache_wf (env_base ce) cache'" "connected (view (env_base ce) c2) txs (env_height ce) (view (env_base ce) cache') us" by auto
  moreover have "V1 ?id = None" using V1(1,2) Cons.prems(4) c(2) by (auto split: if_splits)
  moreover have "(if IsCoinBase tx then Some (view (env_base ce) cache, undo) else view_spend (view (env_base ce) cache) (vin tx)) = Some (V1, undo)"
    using V1(1) c(2) by (auto split: if_splits)
  ultimately show ?case using V1(3) Cons.prems(3) l(2) by auto
qed simp

subsection \<open>A block that is accepted\<close>

text \<open>The block after the genesis block, with a coinbase that claims the subsidy.\<close>

definition first_coinbase :: CTransaction where
  "first_coinbase = \<lparr>CMutableTransaction.nVersion = 1, vin = [\<lparr>prevout = COutPoint_null, in_scriptSig = [0x51, 0x51], nSequence = 0, scriptWitness = []\<rparr>],
     vout = [\<lparr>nValue = 105000 * COIN, out_scriptPubKey = [0x51]\<rparr>], nLockTime = 0\<rparr>"

definition first_block :: CBlock where
  "first_block = \<lparr>block_header = \<lparr>header_nVersion = 4, header_hashPrevBlock = [1], header_hashMerkleRoot = CTransaction_GetHash first_coinbase,
       header_nTime = 0, header_nBits = 0x1e7fffff, header_nNonce = 0\<rparr>, vtx = [first_coinbase], fChecked = False\<rparr>"

definition first_index :: CBlockIndex where
  "first_index = CBlockIndex_SetNull\<lparr>phashBlock := Some [2], pprev := Some 0, nHeight := 1\<rparr>"

definition first_tree :: block_tree where
  "first_tree = \<lparr>entries = [0 \<mapsto> CBlockIndex_SetNull\<lparr>phashBlock := Some [1]\<rparr>, 1 \<mapsto> first_index], mapBlockIndex = [[1] \<mapsto> 0, [2] \<mapsto> 1],
     pindexBestHeader = Some 1, setDirtyBlockIndex = [], next_address = 2\<rparr>"

definition any_sigs :: signature_env where
  "any_sigs = \<lparr>sig_CheckLowS = (\<lambda>_. True), sig_Verify = (\<lambda>_ _ _. False)\<rparr>"

lemma first_coinbase_checked: "IsCoinBase first_coinbase" "CheckTransaction sample_rule first_coinbase False = Ok ()"
proof -
  show cb: "IsCoinBase first_coinbase"
    by (simp add: IsCoinBase_def first_coinbase_def COutPoint_IsNull_def COutPoint_null_def uint256_IsNull_def list_all_length)
  have "length (SerializeTransaction False first_coinbase) \<le> MAX_BLOCK_BASE_SIZE"
    by (simp add: first_coinbase_def SerializeTransaction_def MAX_BLOCK_BASE_SIZE_def Serialize_vector_def CTxIn_Serialize_def CTxOut_Serialize_def
      COutPoint_Serialize_def COutPoint_null_def uint256_Serialize_def ser_writedata32_def ser_writedata64_def ser_writedata8_def Serialize_bytes_def
      WriteCompactSize_def HasWitness_def)
  moreover have "check_values (vout first_coinbase) 0 = Ok ()"
    using check_values_Ok [OF MoneyRange_0, of "vout first_coinbase"] by (simp add: first_coinbase_def MoneyRange_def MAX_MONEY_def COIN_def)
  moreover have "check_coinbase sample_rule first_coinbase = Ok ()"
    by (simp add: check_coinbase_def first_coinbase_def sample_rule_def reject_if_def)
  ultimately show "CheckTransaction sample_rule first_coinbase False = Ok ()" using cb
    by (simp add: CheckTransaction_def reject_if_def, simp add: first_coinbase_def)
qed

lemma ComputeMerkleRoot_single: "ComputeMerkleRoot [x] = Ok (x, False)"
  by (simp add: ComputeMerkleRoot_def MerkleComputation_def merge_loop.simps skip_loop.simps sweep_loop.simps)

lemma GetSigOpCount_Nil: "GetSigOpCount [] b = 0" "GetSigOpCount [0x51] b = 0" "GetSigOpCount [0x51, 0x51] b = 0"
  by (simp_all add: GetSigOpCount_def GetSigOpCount_loop.simps GetOp2_def)

lemma first_block_checked: "CheckBlock (\<lambda>_. replicate 32 0) sample_rule first_block CMainParams True True = Ok (first_block\<lparr>fChecked := True\<rparr>)"
proof -
  have "CheckProofOfWork (replicate 32 0) 0x1e7fffff CMainParams"
    using CheckProofOfWork_eq [of "replicate 32 0" CMainParams "0x1e7fffff"] main_params_ok(2)
    by (simp add: main_params valid_target_def compact_value_def compact_size_def compact_mantissa_def le_val_replicate)
  moreover have "length (CBlock_Serialize False first_block) \<le> MAX_BLOCK_BASE_SIZE"
    by (simp add: first_block_def CBlock_Serialize_def CBlockHeader_Serialize_def first_coinbase_def SerializeTransaction_def MAX_BLOCK_BASE_SIZE_def
      Serialize_vector_def CTxIn_Serialize_def CTxOut_Serialize_def COutPoint_Serialize_def COutPoint_null_def uint256_Serialize_def ser_writedata32_def
      ser_writedata64_def ser_writedata8_def Serialize_bytes_def WriteCompactSize_def HasWitness_def length_GetHash [unfolded first_coinbase_def])
  moreover have "GetLegacySigOpCount first_coinbase = 0" by (simp add: GetLegacySigOpCount_def first_coinbase_def GetSigOpCount_Nil)
  ultimately show ?thesis using first_coinbase_checked
    by (simp add: CheckBlock_def CheckBlockHeader_def BlockMerkleRoot_def reject_if_def first_block_def ComputeMerkleRoot_single MAX_BLOCK_BASE_SIZE_def)
qed


lemma main_heights: "BIP34Height CMainParams = 256" "BIP65Height CMainParams = 0" "BIP66Height CMainParams = 0" "nSubsidyHalvingInterval CMainParams = 210000"
  by (simp_all add: CMainParams_def zero_params_def Let_def)

lemma main_genesis: "replicate 32 0 \<noteq> hashGenesisBlock CMainParams"
proof -
  have "hashGenesisBlock CMainParams ! 0 \<noteq> replicate 32 0 ! 0" by (simp add: CMainParams_def main_genesis_hash_def zero_params_def Let_def)
  then show ?thesis by metis
qed

lemma first_tree_simps:
  "entries first_tree (Suc 0) = Some first_index" "entries first_tree 0 = Some (CBlockIndex_SetNull\<lparr>phashBlock := Some [1]\<rparr>)"
  "deref (entries first_tree) (Suc 0) = Ok first_index" "deref (entries first_tree) 0 = Ok (CBlockIndex_SetNull\<lparr>phashBlock := Some [1]\<rparr>)"
  "pprev first_index = Some 0" "nHeight first_index = 1" "phashBlock first_index = Some [2]" "nTime first_index = 0"
  by (simp_all add: first_tree_def first_index_def deref_def CBlockIndex_SetNull_def)

lemma first_bip30: "fEnforceBIP30 (entries first_tree) CMainParams first_index = Ok True"
  by (simp add: fEnforceBIP30_def bip30_historic_def first_tree_simps GetAncestor_def main_heights CBlockIndex_SetNull_def)

lemma first_flags: "\<exists>flags caches. connect_flags (entries first_tree) CMainParams first_index VersionBitsCache_Clear = Some (Ok (flags, 0, caches))"
proof -
  have e: "period_end (entries first_tree) 2016 (Some 0) = Ok None"
    by (simp add: period_end_def first_tree_simps GetAncestor_def assertO_def CBlockIndex_SetNull_def signed_modulo_int_def signed_divide_int_def)
  have "VersionBitsState (entries first_tree) (Some 0) CMainParams pos caches =
      Some (Ok (THRESHOLD_DEFINED, caches(pos := [None \<mapsto> THRESHOLD_DEFINED])))" if "caches pos = Map.empty" for caches pos
    using e that by (simp add: VersionBitsState_def GetStateFor_def VersionBitsConditionChecker_def main_params walk_back.simps assertO_def)
  then show ?thesis
    by (simp add: connect_flags_def call_loop_def first_tree_simps IsWitnessEnabled_def Let_def VersionBitsCache_Clear_def)
qed

lemma first_subsidy: "GetBlockSubsidy 1 CMainParams = Ok (105000 * COIN)"
  by (simp add: GetBlockSubsidy_def quot_def main_heights signed_divide_int_def)

lemma UpdateCoins_coinbase:
  assumes "cache_wf base cache" "IsCoinBase tx"
  obtains cache' undos where "UpdateCoins base cache tx h = Ok (cache', undos)"
  using UpdateCoins_ok [OF assms(1), of tx h] assms(2) by (auto simp: view_update_def)

lemma first_connected:
  assumes "env_height ce = 1" "cache_wf (env_base ce) cache"
  obtains cache' undos where "connect_transactions ce cache (vtx first_block) CMainParams = Ok (cache', undos)"
proof -
  obtain c' u where u: "UpdateCoins (env_base ce) cache first_coinbase 1 = Ok (c', u)"
    using UpdateCoins_coinbase [OF assms(2) first_coinbase_checked(1)] by blast
  have "GetLegacySigOpCount first_coinbase = 0" by (simp add: GetLegacySigOpCount_def first_coinbase_def GetSigOpCount_Nil)
  moreover have "GetValueOut first_coinbase = Ok (105000 * COIN)"
    by (simp add: GetValueOut_Ok first_coinbase_def MoneyRange_def MAX_MONEY_def COIN_def)
  moreover have "int64_min \<le> 105000 * COIN" "105000 * COIN \<le> int64_max" "int64_min \<le> 0" "0 \<le> int64_max" by (simp_all add: COIN_def int_limits)
  ultimately have "connect_transactions ce cache (vtx first_block) CMainParams = Ok (c', [])"
    using u first_coinbase_checked(1) assms(1) first_subsidy
    by (simp add: connect_transactions_def first_block_def check_locks_def check_fees_def GetTransactionSigOpCost_def reject_if_def assertO_def int64_def)
  then show thesis by (rule that)
qed

lemma first_accepted:
  obtains cache' undos caches' where
    "ConnectBlock any_sigs (\<lambda>_. replicate 32 0) sample_rule null_hash first_tree CMainParams VersionBitsCache_Clear first_block 1
       [1] sample_coins sample_cache False = Some (Ok (cache', undos, caches'))"
proof -
  let ?c = "sample_cache\<lparr>hashBlock := [1]\<rparr>"
  have c: "cache_wf sample_coins ?c" "view sample_coins ?c = sample_coins"
    using sample_ok(1) sample_view by (simp_all add: cache_wf_def view_def fun_eq_iff)
  have g: "GetBestBlock [1] sample_cache = (?c, [1])" by (simp add: GetBestBlock_def sample_cache_def uint256_IsNull_def Let_def)
  obtain flags caches where f: "connect_flags (entries first_tree) CMainParams first_index VersionBitsCache_Clear = Some (Ok (flags, 0, caches))"
    using first_flags by blast
  obtain c1 r where a: "AccessCoins sample_coins ?c (CTransaction_GetHash first_coinbase) = (c1, r)" "reads sample_coins ?c c1"
    "view sample_coins ?c (CTransaction_GetHash first_coinbase) = Option.bind r live" using AccessCoins_reads [OF c(1)] by metis
  have "sample_coins (CTransaction_GetHash first_coinbase) = None"
    using length_GetHash [of first_coinbase] by (auto simp: sample_coins_def simp del: length_GetHash)
  then have r: "\<not> (case r of None \<Rightarrow> False | Some c \<Rightarrow> \<not> IsPruned c)" using a(3) c(2) by (auto simp: live_def split: option.splits if_splits)
  have b: "bip30_loop sample_coins ?c (vtx first_block) = Ok c1" using a(1) r by (simp add: first_block_def reject_if_def)
  let ?ce = "\<lparr>env_sigs = any_sigs, env_tree = first_tree, env_base_best = [1], env_base = sample_coins, env_index = Suc 0,
      env_height = 1, env_script_flags = flags, env_lock_flags = 0, env_scripts = True\<rparr>"
  obtain c2 undos where t: "connect_transactions ?ce c1 (vtx first_block) CMainParams = Ok (c2, undos)"
    using first_connected [of ?ce c1] readsD(1) [OF a(2)] by auto
  show thesis
    by (rule that [of "SetBestBlock c2 [2]" undos caches])
      (simp add: ConnectBlock_def first_tree_simps first_block_checked call_loop_def GetBlockHash_def g main_genesis first_bip30 f b t connect_scripts_def
        uint256_IsNull_def null_hash_def list_all_length)
qed


lemma first_coins_ok: "coins_ok sample_coins sample_cache"
  using sample_ok(1) sample_typed' by (simp add: coins_ok_def sample_view) (simp add: sample_coins_def)

subsection \<open>Properties\<close>







end
