(* ===== verification/Block_Rules.thy ===== *)
theory Block_Rules
  imports Connect_Block
begin

text \<open>
  The rules of a block header in the context of its predecessor, and the schedule of the subsidy.
\<close>

subsection \<open>Headers\<close>

lemma SetDifficultyAdjustmentParams_ok:
  "params_ok params \<Longrightarrow> params_ok (SetDifficultyAdjustmentParams params height)"
  "limit_of (SetDifficultyAdjustmentParams params height) = limit_of params"
  "BIP34Height (SetDifficultyAdjustmentParams params height) = BIP34Height params"
  "BIP65Height (SetDifficultyAdjustmentParams params height) = BIP65Height params"
  "BIP66Height (SetDifficultyAdjustmentParams params height) = BIP66Height params"
  by (simp_all add: SetDifficultyAdjustmentParams_def UpdateDifficultyAdjustmentParameters_def params_ok_def Let_def)

definition version_ok :: "Params \<Rightarrow> int \<Rightarrow> u32 \<Rightarrow> bool" where
  "version_ok params height version \<longleftrightarrow>
     (height \<ge> BIP34Height params \<longrightarrow> sint version \<ge> 2) \<and> (height \<ge> BIP66Height params \<longrightarrow> sint version \<ge> 3) \<and>
     (height \<ge> BIP65Height params \<longrightarrow> sint version \<ge> 4)"

lemma header_rules_Ok:
  assumes "index_ok h" "h prev = Some b"
  shows "header_rules h block params (Some prev) now height required = Ok u \<longleftrightarrow>
      header_nBits block = required \<and> median_time h prev < uint (header_nTime block) \<and> uint (header_nTime block) \<le> now + 7200 \<and>
      version_ok params height (header_nVersion block)"
    "header_rules h block params (Some prev) now height required \<noteq> Abort" "header_rules h block params (Some prev) now height required \<noteq> Throw x"
  using GetMedianTimePast_eq [OF assms] by (auto simp: header_rules_def outcome_simps version_ok_def)


lemma line_within: "index_within limit (line n)"
  by (auto simp: index_within_def line_def line_block_def CBlockIndex_SetNull_def within_def compact_value_def compact_size_def compact_mantissa_def split: if_splits)


subsection \<open>The subsidy\<close>

definition subsidy_at :: "int \<Rightarrow> CAmount" where
  "subsidy_at height =
     (if height < 51 \<or> 23750 \<le> height \<and> height < 23755 then 105000 * COIN
      else if height < 64 * 210000 then 50 * COIN div 2 ^ nat (height div 210000) else 0)"

lemma GetBlockSubsidy_eq: "0 \<le> height \<Longrightarrow> GetBlockSubsidy height CMainParams = Ok (subsidy_at height)"
proof -
  assume h: "0 \<le> height"
  have q: "quot height 210000 = Ok (height div 210000)" using h by (cases "height = 0") (simp_all add: quot_def signed_divide_int_def)
  have "64 \<le> height div 210000 \<longleftrightarrow> 64 * 210000 \<le> height" by linarith
  then show ?thesis using h by (auto simp: GetBlockSubsidy_def main_heights q subsidy_at_def assertO_def drop_bit_eq_div)
qed


lemma subsidy_at_bounds: "0 \<le> subsidy_at height" "subsidy_at height \<le> 105000 * COIN"
proof -
  have "0 \<le> 50 * COIN div 2 ^ n" "50 * COIN div 2 ^ n \<le> 105000 * COIN" for n
    using zdiv_mono2 [of "50 * COIN" 1 "2 ^ n"] by (simp_all add: COIN_def pos_imp_zdiv_nonneg_iff)
  moreover have "0 \<le> COIN" by (simp add: COIN_def)
  ultimately show "0 \<le> subsidy_at height" "subsidy_at height \<le> 105000 * COIN" by (simp_all add: subsidy_at_def)
qed

text \<open>The heights of the first two halving periods, by the subsidy they have.\<close>

lemma subsidy_sum: "(\<Sum>height = 0..<420000. subsidy_at height) = 21627200 * COIN"
proof -
  have split: "sum f {a..<c} = sum f {a..<b} + sum f {b..<c}" if "a \<le> b" "b \<le> c" for f :: "int \<Rightarrow> int" and a b c :: int
    using that ivl_disj_un_two(3) [of a b c] ivl_disj_int_two(3) [of a b c] by (metis finite_atLeastLessThan_int sum.union_disjoint)
  have const: "(\<Sum>height = a..<b. subsidy_at height) = (b - a) * v" if "a \<le> b" "\<And>height. a \<le> height \<Longrightarrow> height < b \<Longrightarrow> subsidy_at height = v" for a b v
  proof -
    have "(\<Sum>height = a..<b. subsidy_at height) = (\<Sum>height = a..<b. v)" using that(2) by (intro sum.cong) auto
    then show ?thesis using that(1) by simp
  qed
  have h: "height div 210000 = 0" if "0 \<le> height" "height < 210000" for height :: int using that by simp
  have h': "height div 210000 = 1" if "210000 \<le> height" "height < 420000" for height :: int
    using that by linarith
  have "(\<Sum>height = 0..<51. subsidy_at height) = 51 * (105000 * COIN)" by (subst const [of _ _ "105000 * COIN"]) (auto simp: subsidy_at_def)
  moreover have "(\<Sum>height = 51..<23750. subsidy_at height) = 23699 * (50 * COIN)" by (subst const [of _ _ "50 * COIN"]) (auto simp: subsidy_at_def h)
  moreover have "(\<Sum>height = 23750..<23755. subsidy_at height) = 5 * (105000 * COIN)" by (subst const [of _ _ "105000 * COIN"]) (auto simp: subsidy_at_def)
  moreover have "(\<Sum>height = 23755..<210000. subsidy_at height) = 186245 * (50 * COIN)" by (subst const [of _ _ "50 * COIN"]) (auto simp: subsidy_at_def h)
  moreover have "(\<Sum>height = 210000..<420000. subsidy_at height) = 210000 * (25 * COIN)" by (subst const [of _ _ "25 * COIN"]) (auto simp: subsidy_at_def h' COIN_def)
  ultimately show ?thesis
    using split [of 0 51 420000 subsidy_at] split [of 51 23750 420000 subsidy_at] split [of 23750 23755 420000 subsidy_at] split [of 23755 210000 420000 subsidy_at]
    by simp
qed



end
