(* ===== verification/Spec2Isabelle.thy ===== *)
theory Spec2Isabelle
  imports Interpreter_Softfork Interpreter_Ops Encoding_Checks Verify_Script Versionbits Partial_Merkle Block_Rules
begin

text \<open>
  Root of the development.
\<close>

end
